(* ===== verification/Gateway_Prelude.thy ===== *)
theory Gateway_Prelude
  imports Main "HOL-Library.Word"
begin

text \<open>
  Shared vocabulary of the development: bytes and Go strings, Go's fixed-width integers
  written out on \<^typ>\<open>int\<close>, errors as values, big-endian codecs, the model of a byte
  source behind \<^verbatim>\<open>io.Reader\<close> with \<^verbatim>\<open>io.ReadFull\<close>, and the two interfaces that several
  components provide: a \<open>codec\<close> (an encoder with a decoder that inverts it), and a
  \<open>go_reader\<close> (a stateful \<^verbatim>\<open>Read\<close> that delivers a fixed byte string and then ends with
  a fixed error).
\<close>

unbundle bit_operations_syntax

named_theorems wire_length \<open>lengths of encoded values\<close>
named_theorems go_arith \<open>wrap-around arithmetic that is exact within range\<close>

section \<open>Bytes, strings and errors\<close>

type_synonym byte = "8 word"
type_synonym bytes = "byte list"
type_synonym u16 = "16 word"
type_synonym u32 = "32 word"
type_synonym u64 = "64 word"

text \<open>A Go string is a byte sequence; \<^verbatim>\<open>[]byte(s)\<close> is the same sequence as bytes.\<close>

definition bytes_of :: "string \<Rightarrow> bytes" where
  "bytes_of s = map of_char s"

lemma length_bytes_of [simp, wire_length]: "length (bytes_of s) = length s"
  by (simp add: bytes_of_def)

lemma unat_of_char [simp]: "unat (of_char c :: byte) = of_char c"
proof -
  have "(of_char c :: byte) = of_nat (of_char c)" by (simp add: of_nat_of_char)
  then have "unat (of_char c :: byte) = of_char c mod 2 ^ LENGTH(8)"
    by (metis unat_of_nat)
  then show ?thesis by simp
qed

lemma of_char_byte_inject: "(of_char c :: byte) = of_char d \<longleftrightarrow> c = d"
  by (metis unat_of_char char_of_char)

lemma bytes_of_inject [simp]: "bytes_of s = bytes_of t \<longleftrightarrow> s = t"
  unfolding bytes_of_def
  by (rule inj_map_eq_map) (auto intro!: injI simp: of_char_byte_inject)

definition string_of :: "bytes \<Rightarrow> string" where
  "string_of bs = map (\<lambda>b. char_of (unat b)) bs"

lemma string_of_bytes_of [simp]: "string_of (bytes_of s) = s"
  by (simp add: string_of_def bytes_of_def comp_def)

lemma bytes_of_string_of [simp]: "bytes_of (string_of bs) = bs"
proof -
  have "(of_char (char_of (unat b) :: char) :: byte) = b" for b :: byte
  proof -
    have "unat b < 2 ^ LENGTH(8)" by (rule unsigned_less)
    then have "unat (of_char (char_of (unat b) :: char) :: byte) = unat b"
      by simp
    then show ?thesis by (simp only: unsigned_word_eqI)
  qed
  then show ?thesis by (simp add: string_of_def bytes_of_def comp_def)
qed

text \<open>
  Errors are values. \<open>EOF\<close> and \<open>ErrUnexpectedEOF\<close> are the sentinels of package io,
  \<open>CtxDone\<close> is \<^verbatim>\<open>ctx.Err()\<close> of a cancelled context, \<open>Panic\<close> a run-time panic,
  \<open>SrcErr\<close> any other error of an underlying reader, and \<open>Err\<close> an error the source
  creates with \<^verbatim>\<open>fmt.Errorf\<close>, carrying its fixed text. The remaining ones are the
  sentinels of the packages modelled here.
\<close>

datatype goerr =
    EOF
  | ErrUnexpectedEOF
  | CtxDone
  | Panic
  | SrcErr nat
  | Err string
  | ErrAuth
  | ErrUnsupportedChunkedVersion
  | ErrChunkedObjectIncomplete string
  | ErrUnsupportedObjectFormat string

text \<open>Sequencing of fallible calls: the error is returned at once.\<close>

definition and_then :: "'e + 'a \<Rightarrow> ('a \<Rightarrow> 'e + 'b) \<Rightarrow> 'e + 'b" where
  "and_then m k = (case m of Inl e \<Rightarrow> Inl e | Inr x \<Rightarrow> k x)"

lemma and_then_simps [simp]:
  "and_then (Inl e) k = Inl e"
  "and_then (Inr x) k = k x"
  by (simp_all add: and_then_def)

lemma and_then_eq_Inr: "and_then m k = Inr y \<longleftrightarrow> (\<exists>x. m = Inr x \<and> k x = Inr y)"
  by (cases m) auto

lemma and_then_Inr [simp]: "and_then m Inr = m"
  by (cases m) (simp_all add: and_then_def)

lemma and_then_assoc: "and_then (and_then m f) g = and_then m (\<lambda>x. and_then (f x) g)"
  by (cases m) (simp_all add: and_then_def)

lemma case_err_eq_Inr:
  "(case m of Inl e \<Rightarrow> Inl (f e) | Inr x \<Rightarrow> k x) = Inr y \<longleftrightarrow> (\<exists>x. m = Inr x \<and> k x = Inr y)"
  by (cases m) auto

lemma and_then_eq_Inl: "and_then m k = Inl e \<longleftrightarrow> m = Inl e \<or> (\<exists>x. m = Inr x \<and> k x = Inl e)"
  by (cases m) auto

section \<open>Fixed-width integers\<close>

text \<open>
  Go's \<^verbatim>\<open>int64\<close> (and \<^verbatim>\<open>int\<close> on the 64-bit platforms the gateway is built for) is an
  \<^typ>\<open>int\<close> between \<open>minInt64\<close> and \<open>maxInt64\<close>; each operation that may leave that range
  is wrapped explicitly.
\<close>

definition maxInt64 :: int where "maxInt64 = 9223372036854775807"
definition minInt64 :: int where "minInt64 = - 9223372036854775808"
definition maxUint64 :: int where "maxUint64 = 18446744073709551615"
definition maxInt32 :: int where "maxInt32 = 2147483647"
definition maxUint32 :: int where "maxUint32 = 4294967295"

lemmas int_limits = maxInt64_def minInt64_def maxUint64_def maxInt32_def maxUint32_def

definition wrap64 :: "int \<Rightarrow> int" where
  "wrap64 x = (x + 9223372036854775808) mod 18446744073709551616 - 9223372036854775808"

definition wrapU64 :: "int \<Rightarrow> int" where
  "wrapU64 x = x mod 18446744073709551616"

definition in_int64 :: "int \<Rightarrow> bool" where
  "in_int64 x \<longleftrightarrow> minInt64 \<le> x \<and> x \<le> maxInt64"

lemma wrap64_id [go_arith]: "in_int64 x \<Longrightarrow> wrap64 x = x"
  by (simp add: wrap64_def in_int64_def int_limits)

lemma wrap64_range: "in_int64 (wrap64 x)"
  by (simp add: wrap64_def in_int64_def int_limits)

lemma wrapU64_id [go_arith]: "0 \<le> x \<Longrightarrow> x \<le> maxUint64 \<Longrightarrow> wrapU64 x = x"
  by (simp add: wrapU64_def int_limits)

text \<open>Counters of type \<^verbatim>\<open>uint64\<close> that stay below the limit.\<close>

lemma u64_add_nat: "unat (s :: u64) + n < 2 ^ 64 \<Longrightarrow> unat (s + of_nat n) = unat s + n"
  by (simp add: unat_word_ariths unat_of_nat take_bit_nat_eq_self)

lemma of_nat_u64_inject: "i < 2 ^ 64 \<Longrightarrow> j < 2 ^ 64 \<Longrightarrow> (of_nat i :: u64) = of_nat j \<longleftrightarrow> i = j"
  by (simp add: word_of_nat_eq_iff take_bit_nat_eq_self)

lemma u64_room: "unat (s :: u64) + n < 2 ^ 64 \<Longrightarrow> \<not> 0xFFFFFFFFFFFFFFFF - s < of_nat n"
proof -
  assume n: "unat s + n < 2 ^ 64"
  have "unat (0xFFFFFFFFFFFFFFFF - s) = 0xFFFFFFFFFFFFFFFF - unat s"
    using n by (subst unat_sub) (simp_all add: word_le_nat_alt)
  then show ?thesis using n by (simp add: word_less_nat_alt unat_of_nat)
qed

lemma u64_room_iff:
  "n < 2 ^ 64 \<Longrightarrow> \<not> 0xFFFFFFFFFFFFFFFF - (s :: u64) < of_nat n \<longleftrightarrow> unat s + n < 2 ^ 64"
proof -
  assume n: "n < 2 ^ 64"
  have "unat s < 2 ^ LENGTH(64)" by (rule unsigned_less)
  then have s: "unat s < 2 ^ 64" by simp
  then have "unat (0xFFFFFFFFFFFFFFFF - s) = 0xFFFFFFFFFFFFFFFF - unat s"
    by (subst unat_sub) (simp_all add: word_le_nat_alt)
  then show ?thesis using n s by (auto simp: word_less_nat_alt unat_of_nat)
qed

lemma u64_not_max: "unat (s :: u64) + n < 2 ^ 64 \<Longrightarrow> 0 < n \<Longrightarrow> s \<noteq> 0xFFFFFFFFFFFFFFFF"
  by auto

section \<open>Big-endian encodings\<close>

text \<open>\<^verbatim>\<open>binary.BigEndian.PutUint16/32/64\<close> and \<^verbatim>\<open>Uint32/64\<close>.\<close>

definition be16 :: "u16 \<Rightarrow> bytes" where
  "be16 w = [ucast (drop_bit 8 w), ucast w]"

definition be32 :: "u32 \<Rightarrow> bytes" where
  "be32 w = [ucast (drop_bit 24 w), ucast (drop_bit 16 w), ucast (drop_bit 8 w), ucast w]"

definition be64 :: "u64 \<Rightarrow> bytes" where
  "be64 w = [ucast (drop_bit 56 w), ucast (drop_bit 48 w), ucast (drop_bit 40 w),
             ucast (drop_bit 32 w), ucast (drop_bit 24 w), ucast (drop_bit 16 w),
             ucast (drop_bit 8 w), ucast w]"

definition of_be32 :: "bytes \<Rightarrow> u32" where
  "of_be32 bs = foldl (\<lambda>acc b. push_bit 8 acc OR ucast b) 0 bs"

definition of_be64 :: "bytes \<Rightarrow> u64" where
  "of_be64 bs = foldl (\<lambda>acc b. push_bit 8 acc OR ucast b) 0 bs"

lemma length_be [simp, wire_length]:
  "length (be16 a) = 2" "length (be32 b) = 4" "length (be64 c) = 8"
  by (simp_all add: be16_def be32_def be64_def)

lemma be_step: "push_bit 8 (drop_bit (m + 8) w) OR ucast (ucast (drop_bit m w) :: byte) = drop_bit m w"
  for w :: "'a::len word"
  by (rule bit_word_eqI) (auto simp: bit_simps not_less dest: bit_imp_le_length)

lemma be_top: "m + 8 = LENGTH('a) \<Longrightarrow> ucast (ucast (drop_bit m w) :: byte) = drop_bit m w"
  for w :: "'a::len word"
  by (rule bit_word_eqI) (auto simp: bit_simps dest: bit_imp_le_length)

lemma of_be32_be32 [simp]: "of_be32 (be32 w) = w"
  using be_step [of 16 w] be_step [of 8 w] be_step [of 0 w]
  by (simp add: of_be32_def be32_def be_top)

lemma of_be64_be64 [simp]: "of_be64 (be64 w) = w"
  using be_step [of 48 w] be_step [of 40 w] be_step [of 32 w] be_step [of 24 w]
    be_step [of 16 w] be_step [of 8 w] be_step [of 0 w]
  by (simp add: of_be64_def be64_def be_top)
lemma be_last: "8 \<le> LENGTH('a) \<Longrightarrow> (ucast (push_bit 8 acc OR ucast b) :: byte) = b"
  for acc :: "'a::len word"
  by (rule bit_word_eqI) (auto simp: bit_simps)

lemma be_shift: "drop_bit 8 (push_bit 8 acc OR ucast b) = take_bit (LENGTH('a) - 8) acc"
  for acc :: "'a::len word" and b :: "byte"
  by (rule bit_word_eqI) (auto simp: bit_simps dest: bit_imp_le_length)

lemma be64_of_be64: "length bs = 8 \<Longrightarrow> be64 (of_be64 bs) = bs"
proof -
  assume "length bs = 8"
  then obtain a b c d e f g h where "bs = [a, b, c, d, e, f, g, h]"
    by (auto simp: length_Suc_conv numeral_eq_Suc)
  moreover have "be64 (of_be64 [a, b, c, d, e, f, g, h]) = [a, b, c, d, e, f, g, h]"
    unfolding be64_def of_be64_def foldl_Cons foldl_Nil list.inject
    by (intro conjI bit_word_eqI) (auto simp: bit_simps dest: bit_imp_le_length)
  ultimately show ?thesis by simp
qed

lemma be32_of_be32: "length bs = 4 \<Longrightarrow> be32 (of_be32 bs) = bs"
proof -
  assume "length bs = 4"
  then obtain a b c d where "bs = [a, b, c, d]"
    by (auto simp: length_Suc_conv numeral_eq_Suc)
  moreover have "be32 (of_be32 [a, b, c, d]) = [a, b, c, d]"
    unfolding be32_def of_be32_def foldl_Cons foldl_Nil list.inject
    by (intro conjI bit_word_eqI) (auto simp: bit_simps dest: bit_imp_le_length)
  ultimately show ?thesis by simp
qed

section \<open>Codecs\<close>

text \<open>
  The contract of a wire encoding: the decoder inverts the encoder on valid values. Two
  valid values with the same encoding are then equal, which is what binding an encoding
  into authenticated data relies on. A canonical codec also accepts nothing but encodings.
\<close>

locale codec =
  fixes enc :: "'a \<Rightarrow> bytes"
    and dec :: "bytes \<Rightarrow> 'a option"
    and valid :: "'a \<Rightarrow> bool"
  assumes dec_enc: "valid x \<Longrightarrow> dec (enc x) = Some x"
begin

lemma enc_inject: "valid x \<Longrightarrow> valid y \<Longrightarrow> enc x = enc y \<longleftrightarrow> x = y"
  using dec_enc by (metis option.inject)

end

locale canonical_codec = codec +
  assumes enc_dec: "dec bs = Some x \<Longrightarrow> valid x \<and> enc x = bs"
begin

lemma dec_iff: "dec bs = Some x \<longleftrightarrow> valid x \<and> enc x = bs"
  using dec_enc enc_dec by blast

lemma dec_inject: "dec bs = Some x \<Longrightarrow> dec cs = Some x \<Longrightarrow> bs = cs"
  using enc_dec by blast

end

interpretation be64_codec: canonical_codec be64
  "\<lambda>bs. if length bs = 8 then Some (of_be64 bs) else None" "\<lambda>_. True"
  by unfold_locales (auto split: if_splits simp: be64_of_be64)

interpretation be32_codec: canonical_codec be32
  "\<lambda>bs. if length bs = 4 then Some (of_be32 bs) else None" "\<lambda>_. True"
  by unfold_locales (auto split: if_splits simp: be32_of_be32)

lemma be64_inject [simp]: "be64 v = be64 w \<longleftrightarrow> v = w"
  by (rule be64_codec.enc_inject) simp_all

lemma be32_inject [simp]: "be32 v = be32 w \<longleftrightarrow> v = w"
  by (rule be32_codec.enc_inject) simp_all

section \<open>Splitting a byte string into chunks\<close>

function chunks :: "nat \<Rightarrow> 'a list \<Rightarrow> 'a list list" where
  "chunks n xs = (if xs = [] \<or> n = 0 then [] else take n xs # chunks n (drop n xs))"
  by pat_completeness auto
termination
  by (relation "measure (\<lambda>(n, xs). length xs)") auto

declare chunks.simps [simp del]

lemma chunks_Nil [simp]: "chunks n [] = []"
  by (simp add: chunks.simps)

lemma chunks_step: "xs \<noteq> [] \<Longrightarrow> 0 < n \<Longrightarrow> chunks n xs = take n xs # chunks n (drop n xs)"
  by (subst chunks.simps) simp

lemma concat_chunks [simp]: "0 < n \<Longrightarrow> concat (chunks n xs) = xs"
proof (induction n xs rule: chunks.induct)
  case (1 n xs)
  then show ?case by (cases "xs = []") (simp_all add: chunks_step)
qed

lemma chunks_nonempty: "c \<in> set (chunks n xs) \<Longrightarrow> c \<noteq> [] \<and> length c \<le> n"
proof (induction n xs rule: chunks.induct)
  case (1 n xs)
  then show ?case by (cases "xs = [] \<or> n = 0") (auto simp: chunks.simps [of n xs])
qed

lemma length_chunks: "0 < n \<Longrightarrow> length (chunks n xs) = (length xs + n - 1) div n"
proof (induction n xs rule: chunks.induct)
  case (1 n xs)
  show ?case
  proof (cases "xs = []")
    case False
    have "(length xs + n - 1) div n = Suc ((length xs - 1) div n)"
      using 1(2) False div_add_self1 [of n "length xs - 1"] by (cases xs) (simp_all add: ac_simps)
    moreover have "(length xs - n + n - 1) div n = (length xs - 1) div n"
    proof (cases "n \<le> length xs")
      case True
      then show ?thesis by simp
    next
      case nle: False
      then show ?thesis using 1(2) False by simp
    qed
    ultimately show ?thesis using 1 False by (simp add: chunks_step)
  qed (use 1 in simp)
qed

lemma chunks_nth: "i < length (chunks n xs) \<Longrightarrow> chunks n xs ! i = take n (drop (i * n) xs)"
proof (induction n xs arbitrary: i rule: chunks.induct)
  case (1 n xs)
  show ?case
  proof (cases "xs = [] \<or> n = 0")
    case False
    then have step: "chunks n xs = take n xs # chunks n (drop n xs)" by (simp add: chunks_step)
    show ?thesis
    proof (cases i)
      case (Suc j)
      then show ?thesis using 1(1) [of j] 1(2) False step by (simp add: add.commute)
    qed (use step in simp)
  qed (use 1(2) in \<open>simp add: chunks.simps\<close>)
qed

lemma chunks_full: "i + 1 < length (chunks n xs) \<Longrightarrow> length (chunks n xs ! i) = n"
proof (induction n xs arbitrary: i rule: chunks.induct)
  case (1 n xs)
  show ?case
  proof (cases "xs = [] \<or> n = 0")
    case False
    with 1(2) have rest: "i < length (chunks n (drop n xs))" by (simp add: chunks_step)
    then have long: "drop n xs \<noteq> []" by auto
    show ?thesis
    proof (cases i)
      case 0
      then show ?thesis using False long by (simp add: chunks_step)
    next
      case (Suc j)
      then show ?thesis using 1(1) [of j] False rest by (simp add: chunks_step)
    qed
  qed (use 1(2) in \<open>simp add: chunks.simps\<close>)
qed

text \<open>Slices of a concatenation.\<close>

lemma concat_drop_uniform:
  "i \<le> length xs \<Longrightarrow> \<forall>j < i. length (xs ! j) = n \<Longrightarrow> drop (i * n) (concat xs) = concat (drop i xs)"
proof (induction i arbitrary: xs)
  case (Suc i)
  then obtain x ys where xs: "xs = x # ys" by (cases xs) auto
  have "length x = n" using Suc.prems(2) xs by auto
  moreover have "\<forall>j < i. length (ys ! j) = n" using Suc.prems(2) xs by auto
  ultimately show ?case using Suc.IH [of ys] Suc.prems(1) xs by simp
qed simp

lemma concat_take_uniform:
  "i \<le> length xs \<Longrightarrow> \<forall>j < i. length (xs ! j) = n \<Longrightarrow> length (concat (take i xs)) = i * n"
proof (induction i arbitrary: xs)
  case (Suc i)
  then obtain x ys where xs: "xs = x # ys" by (cases xs) auto
  have "length x = n" using Suc.prems(2) xs by auto
  moreover have "\<forall>j < i. length (ys ! j) = n" using Suc.prems(2) xs by auto
  ultimately show ?case using Suc.IH [of ys] Suc.prems(1) xs by simp
qed simp

lemma concat_nth_slice:
  assumes "i < length xs"
  shows "take (length (xs ! i)) (drop (length (concat (take i xs))) (concat xs)) = xs ! i"
proof -
  have "xs = take i xs @ xs ! i # drop (Suc i) xs" using assms by (simp add: id_take_nth_drop)
  then have "concat xs = concat (take i xs) @ xs ! i @ concat (drop (Suc i) xs)"
    by (metis concat_append concat.simps(2))
  then show ?thesis by simp
qed

lemma slice_in_slice:
  assumes "take l (drop o1 w) = s" and "k + n \<le> l"
  shows "take n (drop (o1 + k) w) = take n (drop k s)"
  using assms by (auto simp: take_drop drop_drop min_def ac_simps)

section \<open>Byte sources\<close>

text \<open>
  What a component sees of the \<^verbatim>\<open>io.Reader\<close> it consumes: data in arbitrary portions,
  interleaved with errors. An error is reported once and reading may go on behind it
  (package io does not promise that errors are sticky); at the end every call returns
  \<open>EOF\<close>. A source is clean when it reports no error but the final \<open>EOF\<close>.
\<close>

datatype src_event = SData bytes | SFail goerr

type_synonym source = "src_event list"

primrec src_bytes :: "source \<Rightarrow> bytes" where
  "src_bytes [] = []"
| "src_bytes (e # s) = (case e of SData d \<Rightarrow> d | SFail _ \<Rightarrow> []) @ src_bytes s"

primrec src_clean :: "source \<Rightarrow> bool" where
  "src_clean [] = True"
| "src_clean (e # s) = ((case e of SData _ \<Rightarrow> True | SFail _ \<Rightarrow> False) \<and> src_clean s)"

primrec src_size :: "source \<Rightarrow> nat" where
  "src_size [] = 0"
| "src_size (e # s) = Suc (case e of SData d \<Rightarrow> length d | SFail _ \<Rightarrow> 0) + src_size s"

text \<open>
  \<^verbatim>\<open>io.ReadFull(r, buf)\<close> with \<open>n = len(buf)\<close>: the bytes read, the error, the source
  afterwards. A short read that ends in \<open>EOF\<close> after at least one byte is reported as
  \<open>ErrUnexpectedEOF\<close>; any other error is passed through.
\<close>

fun read_full :: "source \<Rightarrow> nat \<Rightarrow> bytes \<times> goerr option \<times> source" where
  "read_full [] n = ([], if n = 0 then None else Some EOF, [])"
| "read_full (SFail e # s) n = (if n = 0 then ([], None, SFail e # s) else ([], Some e, s))"
| "read_full (SData d # s) n =
     (if n = 0 then ([], None, SData d # s)
      else if n \<le> length d
      then (take n d, None, if n = length d then s else SData (drop n d) # s)
      else case read_full s (n - length d) of
        (b, e, s') \<Rightarrow>
          (d @ b, if d @ b \<noteq> [] \<and> e = Some EOF then Some ErrUnexpectedEOF else e, s'))"

lemma read_full_0 [simp]: "read_full s 0 = ([], None, s)"
  by (induction s "0 :: nat" rule: read_full.induct) simp_all

lemma read_full_length: "read_full s n = (b, e, s') \<Longrightarrow> length b \<le> n"
proof (induction s n arbitrary: b e s' rule: read_full.induct)
  case (3 d s n)
  show ?case
  proof (cases "n = 0 \<or> n \<le> length d")
    case True
    with 3(2) show ?thesis by (auto split: if_splits)
  next
    case False
    obtain b1 e1 s1 where rec: "read_full s (n - length d) = (b1, e1, s1)"
      by (cases "read_full s (n - length d)")
    have "length b1 \<le> n - length d" using 3(1) False rec by simp
    moreover have "b = d @ b1" using 3(2) False rec by simp
    ultimately show ?thesis using False by (auto simp: le_diff_conv2)
  qed
qed (auto split: if_splits)

lemma read_full_None: "read_full s n = (b, None, s') \<Longrightarrow> length b = n"
proof (induction s n arbitrary: b s' rule: read_full.induct)
  case (3 d s n)
  show ?case
  proof (cases "n = 0 \<or> n \<le> length d")
    case True
    with 3(2) show ?thesis by (auto split: if_splits)
  next
    case False
    obtain b1 e1 s1 where rec: "read_full s (n - length d) = (b1, e1, s1)"
      by (cases "read_full s (n - length d)")
    with 3(2) False have "e1 = None" "b = d @ b1" by (auto split: if_splits)
    with 3(1) False rec show ?thesis by simp
  qed
qed (auto split: if_splits)

lemma read_full_size: "read_full s n = (b, e, s') \<Longrightarrow> 0 < n \<Longrightarrow> s \<noteq> [] \<Longrightarrow> src_size s' < src_size s"
proof (induction s n arbitrary: b e s' rule: read_full.induct)
  case (3 d s n)
  show ?case
  proof (cases "n \<le> length d")
    case True
    with 3(2,3) show ?thesis by (auto split: if_splits)
  next
    case False
    obtain b1 e1 s1 where rec: "read_full s (n - length d) = (b1, e1, s1)"
      by (cases "read_full s (n - length d)")
    with 3(2,3) False have s': "s' = s1" by auto
    show ?thesis
    proof (cases "s = []")
      case True
      with rec s' show ?thesis by simp
    next
      case s: False
      with 3(1) 3(3) False rec have "src_size s1 < src_size s" by simp
      with s' show ?thesis by simp
    qed
  qed
qed auto

text \<open>On a clean source, \<^verbatim>\<open>ReadFull\<close> is \<open>take\<close> and \<open>drop\<close>.\<close>

lemma read_full_clean:
  assumes "src_clean s" and "read_full s n = (b, e, s')"
  shows "b = take n (src_bytes s)" and "src_bytes s' = drop n (src_bytes s)" and "src_clean s'"
    and "e = (if n \<le> length (src_bytes s) then None
              else if src_bytes s = [] then Some EOF else Some ErrUnexpectedEOF)"
proof -
  have "b = take n (src_bytes s) \<and> src_bytes s' = drop n (src_bytes s) \<and> src_clean s' \<and>
    e = (if n \<le> length (src_bytes s) then None
         else if src_bytes s = [] then Some EOF else Some ErrUnexpectedEOF)"
    using assms
  proof (induction s n arbitrary: b e s' rule: read_full.induct)
    case (3 d s n)
    show ?case
    proof (cases "n = 0 \<or> n \<le> length d")
      case True
      with 3(2,3) show ?thesis by (auto split: if_splits)
    next
      case False
      obtain b1 e1 s1 where rec: "read_full s (n - length d) = (b1, e1, s1)"
        by (cases "read_full s (n - length d)")
      have "b1 = take (n - length d) (src_bytes s) \<and> src_bytes s1 = drop (n - length d) (src_bytes s) \<and>
        src_clean s1 \<and> e1 = (if n - length d \<le> length (src_bytes s) then None
          else if src_bytes s = [] then Some EOF else Some ErrUnexpectedEOF)"
        using 3(1) [OF _ _ _ rec] 3(2) False by simp
      then show ?thesis using 3(3) False rec by (auto split: if_splits)
    qed
  qed (auto split: if_splits)
  then show "b = take n (src_bytes s)" and "src_bytes s' = drop n (src_bytes s)" and "src_clean s'"
    and "e = (if n \<le> length (src_bytes s) then None
              else if src_bytes s = [] then Some EOF else Some ErrUnexpectedEOF)"
    by blast+
qed

text \<open>
  A source is cut off when it delivers its data and then reports \<open>ErrUnexpectedEOF\<close>, any
  number of times, as an HTTP request body does whose client closed the connection early.
\<close>

fun src_cut :: "source \<Rightarrow> bool" where
  "src_cut [] = True"
| "src_cut (SData d # s) = src_cut s"
| "src_cut (SFail e # s) = (e = ErrUnexpectedEOF \<and> src_bytes s = [] \<and> src_cut s)"

lemma src_clean_cut: "src_clean s \<Longrightarrow> src_cut s"
  by (induction s rule: src_cut.induct) auto

lemma read_full_cut:
  assumes "src_cut s" and "read_full s n = (b, e, s')"
  shows "b = take n (src_bytes s)" and "src_bytes s' = drop n (src_bytes s)" and "src_cut s'"
    and "e \<in> {None, Some EOF, Some ErrUnexpectedEOF}"
proof -
  have "b = take n (src_bytes s) \<and> src_bytes s' = drop n (src_bytes s) \<and> src_cut s' \<and>
    e \<in> {None, Some EOF, Some ErrUnexpectedEOF}"
    using assms
  proof (induction s n arbitrary: b e s' rule: read_full.induct)
    case (3 d s n)
    show ?case
    proof (cases "n = 0 \<or> n \<le> length d")
      case True
      with 3(2,3) show ?thesis by (auto split: if_splits)
    next
      case False
      obtain b1 e1 s1 where rec: "read_full s (n - length d) = (b1, e1, s1)"
        by (cases "read_full s (n - length d)")
      have "b1 = take (n - length d) (src_bytes s) \<and> src_bytes s1 = drop (n - length d) (src_bytes s) \<and>
        src_cut s1 \<and> e1 \<in> {None, Some EOF, Some ErrUnexpectedEOF}"
        using 3(1) [OF _ _ _ rec] 3(2) False by simp
      then show ?thesis using 3(3) False rec by (auto split: if_splits)
    qed
  qed (auto split: if_splits)
  then show "b = take n (src_bytes s)" and "src_bytes s' = drop n (src_bytes s)" and "src_cut s'"
    and "e \<in> {None, Some EOF, Some ErrUnexpectedEOF}"
    by blast+
qed

lemma read_full_size_le: "read_full s n = (b, e, s') \<Longrightarrow> src_size s' \<le> src_size s"
proof (cases "n = 0 \<or> s = []")
  case True
  assume "read_full s n = (b, e, s')"
  with True show ?thesis by auto
next
  case False
  assume "read_full s n = (b, e, s')"
  with False read_full_size [of s n b e s'] show ?thesis by simp
qed

lemma read_full_data_size: "read_full s n = (b, e, s') \<Longrightarrow> b \<noteq> [] \<Longrightarrow> src_size s' < src_size s"
  using read_full_size [of s n b e s'] by (cases "n = 0"; cases "s = []") auto

end
