(* ===== verification/Go_Base64.thy ===== *)
theory Go_Base64
  imports Gateway_Prelude
begin

text \<open>
  The encodings of package encoding/base64 that the gateway uses (\<^verbatim>\<open>StdEncoding\<close>,
  \<^verbatim>\<open>URLEncoding\<close>, \<^verbatim>\<open>RawURLEncoding\<close>) and the wrappers of
  \<^verbatim>\<open>internal/crypto/base64.go\<close> and \<^verbatim>\<open>metadata_compaction.go\<close>. The decoder is Go's: it
  ignores carriage returns and line feeds and does not check the unused bits of the last
  group, so it is not canonical; callers that need one value per text re-encode and compare.
\<close>

section \<open>Alphabets\<close>

definition stdAlphabet :: string where
  "stdAlphabet = ''ABCDEFGHIJKLMNOPQRSTUVWXYZabcdefghijklmnopqrstuvwxyz0123456789+/''"

definition urlAlphabet :: string where
  "urlAlphabet = ''ABCDEFGHIJKLMNOPQRSTUVWXYZabcdefghijklmnopqrstuvwxyz0123456789-_''"

fun index_of :: "'a list \<Rightarrow> 'a \<Rightarrow> nat option" where
  "index_of [] c = None"
| "index_of (x # xs) c = (if x = c then Some 0 else map_option Suc (index_of xs c))"

lemma index_of_nth: "distinct xs \<Longrightarrow> k < length xs \<Longrightarrow> index_of xs (xs ! k) = Some k"
proof (induction xs arbitrary: k)
  case (Cons x xs)
  then show ?case by (cases k) auto
qed simp

lemma index_of_None: "c \<notin> set xs \<Longrightarrow> index_of xs c = None"
  by (induction xs) auto

text \<open>What the round trip needs of an alphabet: 64 distinct characters, none of them the
  padding character or a line break.\<close>

definition alphabet_ok :: "string \<Rightarrow> bool" where
  "alphabet_ok al \<longleftrightarrow> length al = 64 \<and> distinct al \<and>
     CHR ''='' \<notin> set al \<and> CHR 0x0D \<notin> set al \<and> CHR 0x0A \<notin> set al"

lemma stdAlphabet_ok: "alphabet_ok stdAlphabet"
  by (simp add: alphabet_ok_def stdAlphabet_def)

lemma urlAlphabet_ok: "alphabet_ok urlAlphabet"
  by (simp add: alphabet_ok_def urlAlphabet_def)

section \<open>Encoding and decoding\<close>

fun encode64 :: "string \<Rightarrow> bool \<Rightarrow> bytes \<Rightarrow> string" where
  "encode64 al pad [] = []"
| "encode64 al pad [a] =
     [al ! (unat a div 4), al ! (unat a mod 4 * 16)] @ (if pad then ''=='' else '''')"
| "encode64 al pad [a, b] =
     [al ! (unat a div 4), al ! (unat a mod 4 * 16 + unat b div 16),
      al ! (unat b mod 16 * 4)] @ (if pad then ''='' else '''')"
| "encode64 al pad (a # b # c # bs) =
     al ! (unat a div 4) # al ! (unat a mod 4 * 16 + unat b div 16) #
     al ! (unat b mod 16 * 4 + unat c div 64) # al ! (unat c mod 64) # encode64 al pad bs"

definition sextets2 :: "nat \<Rightarrow> nat \<Rightarrow> byte" where
  "sextets2 x y = of_nat (x * 4 + y div 16)"

definition sextets3 :: "nat \<Rightarrow> nat \<Rightarrow> byte" where
  "sextets3 y z = of_nat (y mod 16 * 16 + z div 4)"

definition sextets4 :: "nat \<Rightarrow> nat \<Rightarrow> byte" where
  "sextets4 z w = of_nat (z mod 4 * 64 + w)"

fun decode_groups :: "string \<Rightarrow> bool \<Rightarrow> string \<Rightarrow> bytes option" where
  "decode_groups al pad [] = Some []"
| "decode_groups al pad [x, y] =
     (if pad then None
      else case (index_of al x, index_of al y) of
        (Some i, Some j) \<Rightarrow> Some [sextets2 i j] | _ \<Rightarrow> None)"
| "decode_groups al pad [x, y, z] =
     (if pad then None
      else case (index_of al x, index_of al y, index_of al z) of
        (Some i, Some j, Some k) \<Rightarrow> Some [sextets2 i j, sextets3 j k] | _ \<Rightarrow> None)"
| "decode_groups al pad (x # y # z # w # r) =
     (if pad \<and> w = CHR ''='' \<and> r = [] then
        (if z = CHR ''='' then
           (case (index_of al x, index_of al y) of
              (Some i, Some j) \<Rightarrow> Some [sextets2 i j] | _ \<Rightarrow> None)
         else
           (case (index_of al x, index_of al y, index_of al z) of
              (Some i, Some j, Some k) \<Rightarrow> Some [sextets2 i j, sextets3 j k] | _ \<Rightarrow> None))
      else
        (case (index_of al x, index_of al y, index_of al z, index_of al w) of
           (Some i, Some j, Some k, Some l) \<Rightarrow>
             map_option (\<lambda>bs. sextets2 i j # sextets3 j k # sextets4 k l # bs)
               (decode_groups al pad r)
         | _ \<Rightarrow> None))"
| "decode_groups al pad [x] = None"

definition decode64 :: "string \<Rightarrow> bool \<Rightarrow> string \<Rightarrow> bytes option" where
  "decode64 al pad s = decode_groups al pad (filter (\<lambda>c. c \<noteq> CHR 0x0D \<and> c \<noteq> CHR 0x0A) s)"

lemma unat_byte_bound: "unat (b :: byte) < 256"
proof -
  have "unat b < 2 ^ LENGTH(8)" by (rule unsigned_less)
  then show ?thesis by simp
qed

lemma byte_div_bounds [simp]: "unat (b :: byte) div 16 < 16" "unat b div 64 < 4"
  using unat_byte_bound [of b] by simp_all

lemma sextets2_decode [simp]:
  "z < 16 \<Longrightarrow> sextets2 (unat a div 4) (unat a mod 4 * 16 + z) = a"
proof -
  assume "z < 16"
  then have "unat a div 4 * 4 + (unat a mod 4 * 16 + z) div 16 = unat a" by simp
  then show ?thesis by (simp only: sextets2_def) simp
qed

lemma sextets3_decode [simp]:
  "z < 4 \<Longrightarrow> sextets3 (y * 16 + unat b div 16) (unat b mod 16 * 4 + z) = b"
proof -
  assume "z < 4"
  then have "(y * 16 + unat b div 16) mod 16 * 16 + (unat b mod 16 * 4 + z) div 4 = unat b"
    by simp
  then show ?thesis by (simp only: sextets3_def) simp
qed

lemma sextets4_decode [simp]: "sextets4 (x * 4 + unat c div 64) (unat c mod 64) = c"
proof -
  have "(x * 4 + unat c div 64) mod 4 * 64 + unat c mod 64 = unat c" by simp
  then show ?thesis by (simp only: sextets4_def) simp
qed

lemma index_of_alphabet: "alphabet_ok al \<Longrightarrow> k < 64 \<Longrightarrow> index_of al (al ! k) = Some k"
  by (simp add: alphabet_ok_def index_of_nth)

lemma alphabet_not_pad: "alphabet_ok al \<Longrightarrow> k < 64 \<Longrightarrow> al ! k \<noteq> CHR ''=''"
  by (metis alphabet_ok_def nth_mem)

lemma sextet_bounds [simp]:
  "unat (a :: byte) div 4 < 64" "unat a mod 4 * 16 < 64" "unat a mod 16 * 4 < 64"
  "unat a mod 4 * 16 + unat (b :: byte) div 16 < 64" "unat a mod 16 * 4 + unat b div 64 < 64"
  using unat_byte_bound [of a] unat_byte_bound [of b] by arith+

lemma decode_groups_encode64:
  "alphabet_ok al \<Longrightarrow> decode_groups al pad (encode64 al pad bs) = Some bs"
proof (induction al pad bs rule: encode64.induct)
  case (2 al pad a)
  then show ?case
    using sextets2_decode [of 0 a] by (simp add: index_of_alphabet)
next
  case (3 al pad a b)
  then show ?case
    using sextets3_decode [of 0 "unat a mod 4" b]
    by (simp add: index_of_alphabet alphabet_not_pad)
next
  case (4 al pad a b c bs)
  then show ?case by (simp add: index_of_alphabet alphabet_not_pad)
qed simp

lemma set_encode64: "alphabet_ok al \<Longrightarrow> set (encode64 al pad bs) \<subseteq> set al \<union> {CHR ''=''}"
proof (induction al pad bs rule: encode64.induct)
  case (4 al pad a b c bs)
  then show ?case by (auto simp: alphabet_ok_def intro!: nth_mem)
qed (auto simp: alphabet_ok_def intro!: nth_mem)

lemma filter_encode64:
  assumes "alphabet_ok al"
  shows "filter (\<lambda>c. c \<noteq> CHR 0x0D \<and> c \<noteq> CHR 0x0A) (encode64 al pad bs) = encode64 al pad bs"
  using set_encode64 [OF assms, of pad bs] assms
  by (intro filter_True ballI) (auto simp: alphabet_ok_def)

lemma decode64_encode64: "alphabet_ok al \<Longrightarrow> decode64 al pad (encode64 al pad bs) = Some bs"
  by (simp add: decode64_def filter_encode64 decode_groups_encode64)

section \<open>The gateway's wrappers\<close>

definition encodeBase64 :: "bytes \<Rightarrow> string" where
  "encodeBase64 data = encode64 stdAlphabet True data"

definition decodeBase64 :: "string \<Rightarrow> goerr + bytes" where
  "decodeBase64 s = (case decode64 stdAlphabet True s of
     None \<Rightarrow> Inl (Err ''invalid base64 string'') | Some data \<Rightarrow> Inr data)"

definition decodeBase64Loose :: "string \<Rightarrow> goerr + bytes" where
  "decodeBase64Loose s = (case decode64 stdAlphabet True s of
     Some b \<Rightarrow> Inr b
   | None \<Rightarrow> (case decode64 urlAlphabet True s of
       Some b \<Rightarrow> Inr b
     | None \<Rightarrow> Inl (Err ''invalid base64 string'')))"

definition encodeBase64URL :: "bytes \<Rightarrow> string" where
  "encodeBase64URL data = encode64 urlAlphabet False data"

definition decodeBase64URL :: "string \<Rightarrow> bytes option" where
  "decodeBase64URL s = decode64 urlAlphabet False s"

lemma decodeBase64_encodeBase64 [simp]: "decodeBase64 (encodeBase64 bs) = Inr bs"
  by (simp add: decodeBase64_def encodeBase64_def decode64_encode64 stdAlphabet_ok)

lemma decodeBase64URL_encodeBase64URL [simp]: "decodeBase64URL (encodeBase64URL bs) = Some bs"
  by (simp add: decodeBase64URL_def encodeBase64URL_def decode64_encode64 urlAlphabet_ok)

lemma encodeBase64_inject [simp]: "encodeBase64 a = encodeBase64 b \<longleftrightarrow> a = b"
  by (metis decodeBase64_encodeBase64 Inr_inject)

lemma encodeBase64URL_inject [simp]: "encodeBase64URL a = encodeBase64URL b \<longleftrightarrow> a = b"
  by (metis decodeBase64URL_encodeBase64URL option.inject)

text \<open>
  The loose decoder accepts both padded alphabets: text from either encoder decodes to the
  bytes it encodes. (The two alphabets differ in the characters of values 62 and 63 only, so
  text that decodes under the standard alphabet has the same value under both.)
\<close>

lemma index_of_Some: "index_of xs c = Some i \<Longrightarrow> i < length xs \<and> xs ! i = c"
  by (induction xs arbitrary: i) (auto split: if_splits)

lemma index_of_append:
  "index_of (xs @ ys) c =
     (case index_of xs c of None \<Rightarrow> map_option (\<lambda>i. length xs + i) (index_of ys c) | Some i \<Rightarrow> Some i)"
proof (induction xs)
  case Nil
  then show ?case by (cases "index_of ys c") simp_all
next
  case (Cons x xs)
  then show ?case by (cases "index_of ys c") (auto split: option.splits)
qed

definition commonAlphabet :: string where
  "commonAlphabet = ''ABCDEFGHIJKLMNOPQRSTUVWXYZabcdefghijklmnopqrstuvwxyz0123456789''"

lemma alphabet_split:
  "stdAlphabet = commonAlphabet @ ''+/''" "urlAlphabet = commonAlphabet @ ''-_''"
  by (simp_all add: stdAlphabet_def urlAlphabet_def commonAlphabet_def)

lemma index_of_agree:
  "index_of urlAlphabet c = index_of stdAlphabet c \<or>
   index_of stdAlphabet c = None \<or> index_of urlAlphabet c = None"
  by (auto simp: alphabet_split index_of_append split: option.splits)

lemma decode_groups_agree:
  "decode_groups stdAlphabet pad s = Some a \<Longrightarrow> decode_groups urlAlphabet pad s = Some b \<Longrightarrow> a = b"
proof (induction stdAlphabet pad s arbitrary: a b rule: decode_groups.induct)
  case (2 pad x y)
  then show ?case
    using index_of_agree [of x] index_of_agree [of y]
    by (auto split: if_splits option.splits)
next
  case (3 pad x y z)
  then show ?case
    using index_of_agree [of x] index_of_agree [of y] index_of_agree [of z]
    by (auto split: if_splits option.splits)
next
  case (4 pad x y z w r)
  show ?case
  proof (cases "pad \<and> w = CHR ''='' \<and> r = []")
    case True
    then show ?thesis
      using 4(2,3) index_of_agree [of x] index_of_agree [of y] index_of_agree [of z]
      by (auto split: if_splits option.splits)
  next
    case False
    then obtain as bs where rs: "decode_groups stdAlphabet pad r = Some as"
        "decode_groups urlAlphabet pad r = Some bs"
      using 4(2,3) by (auto split: option.splits)
    obtain i j k l where idx: "index_of stdAlphabet x = Some i" "index_of stdAlphabet y = Some j"
        "index_of stdAlphabet z = Some k" "index_of stdAlphabet w = Some l"
      using 4(2) False by (auto split: option.splits)
    have "as = bs"
      by (rule 4(1)) (use False rs idx in auto)
    then show ?thesis
      using 4(2,3) False rs index_of_agree [of x] index_of_agree [of y] index_of_agree [of z]
        index_of_agree [of w]
      by (auto split: option.splits)
  qed
qed simp_all

lemma decodeBase64Loose_url: "decodeBase64Loose (encode64 urlAlphabet True bs) = Inr bs"
proof (cases "decode64 stdAlphabet True (encode64 urlAlphabet True bs)")
  case None
  then show ?thesis by (simp add: decodeBase64Loose_def decode64_encode64 urlAlphabet_ok)
next
  case (Some cs)
  then have "cs = bs"
    using decode_groups_agree decode64_encode64 [OF urlAlphabet_ok, of True bs]
    by (metis decode64_def)
  with Some show ?thesis by (simp add: decodeBase64Loose_def)
qed

lemma decodeBase64Loose_std: "decodeBase64Loose (encodeBase64 bs) = Inr bs"
  by (simp add: decodeBase64Loose_def encodeBase64_def decode64_encode64 stdAlphabet_ok)

end
