(* ===== verification/Object_AAD.thy ===== *)
theory Object_AAD
  imports Go_Base64
begin

text \<open>
  Object identity and authenticated data, from \<^verbatim>\<open>internal/crypto/engine.go\<close>: the trusted
  object context and its validation, length-prefixed writing, the version 2 object AAD that
  binds a record to its domain, bucket, key, binding identifier and counters, the older AAD
  forms kept for reading, and the textual binding identifier.
\<close>

section \<open>Object context\<close>

record object_context =
  oc_bucket :: string
  oc_key :: string

definition Validate :: "object_context \<Rightarrow> goerr + unit" where
  "Validate oc =
     (if oc_bucket oc = [] \<or> 63 < length (oc_bucket oc) then Inl (Err ''invalid object bucket'')
      else if oc_key oc = [] \<or> 1024 < length (oc_key oc) then Inl (Err ''invalid object key'')
      else Inr ())"

section \<open>Length-prefixed fields\<close>

definition checkedLengthPrefix :: "nat \<Rightarrow> goerr + bytes" where
  "checkedLengthPrefix n =
     (if 4294967295 < n then Inl (Err ''length exceeds uint32'') else Inr (be32 (of_nat n)))"

definition writeLengthPrefixed :: "bytes \<Rightarrow> bytes \<Rightarrow> goerr + bytes" where
  "writeLengthPrefixed buf data =
     and_then (checkedLengthPrefix (length data)) (\<lambda>prefix. Inr (buf @ prefix @ data))"

definition checkedMetadataEnd :: "u32 \<Rightarrow> u64 \<Rightarrow> goerr + u64" where
  "checkedMetadataEnd metadataLength plaintextLength =
     (if plaintextLength < 4 \<or> plaintextLength - 4 < ucast metadataLength
      then Inl (Err ''invalid metadata length in fallback format'')
      else Inr (4 + ucast metadataLength))"

section \<open>Authenticated data of version 2 records\<close>

definition aadBufferedV2 :: string where "aadBufferedV2 = ''s3eg/buffered/v2''"
definition aadChunkedV2Data :: string where "aadChunkedV2Data = ''s3eg/chunked/v2/data''"
definition aadChunkedV2Trailer :: string where "aadChunkedV2Trailer = ''s3eg/chunked/v2/trailer''"
definition aadMPUV2Chunk :: string where "aadMPUV2Chunk = ''s3eg/mpu/v2/chunk''"
definition aadMPUV2Manifest :: string where "aadMPUV2Manifest = ''s3eg/mpu/v2/manifest''"

definition aadDomains :: "string list" where
  "aadDomains = [aadBufferedV2, aadChunkedV2Data, aadChunkedV2Trailer, aadMPUV2Chunk, aadMPUV2Manifest]"

definition buildObjectAAD ::
  "string \<Rightarrow> object_context \<Rightarrow> bytes \<Rightarrow> u64 list \<Rightarrow> goerr + bytes" where
  "buildObjectAAD domain oc bindingID flds =
     and_then (Validate oc) (\<lambda>_.
       if domain \<notin> set aadDomains then Inl (Err ''unsupported AAD domain'')
       else if length bindingID \<noteq> 16 then Inl (Err ''binding ID must be exactly 16 bytes'')
       else if 65535 < length flds then Inl (Err ''AAD field count exceeds uint16'')
       else
         and_then (writeLengthPrefixed (bytes_of ''S3EGAAD'' @ [0] @ be16 1) (bytes_of domain)) (\<lambda>out.
         and_then (writeLengthPrefixed out (bytes_of (oc_bucket oc))) (\<lambda>out.
         and_then (writeLengthPrefixed out (bytes_of (oc_key oc))) (\<lambda>out.
         and_then (writeLengthPrefixed out bindingID) (\<lambda>out.
           Inr (out @ be16 (of_nat (length flds)) @ concat (map be64 flds)))))))"

section \<open>Older authenticated data\<close>

text \<open>
  The arguments \<open>kv\<close>, \<open>ct\<close> and \<open>osz\<close> are the metadata entries the source looks up
  (\<^verbatim>\<open>MetaKeyVersion\<close>, \<^verbatim>\<open>Content-Type\<close>, \<^verbatim>\<open>MetaOriginalSize\<close>), the empty string when absent.
\<close>

definition buildAADLegacy :: "string \<Rightarrow> bytes \<Rightarrow> bytes \<Rightarrow> string \<Rightarrow> string \<Rightarrow> string \<Rightarrow> bytes" where
  "buildAADLegacy algorithm salt nonce kv ct osz =
     bytes_of (''alg:'' @ algorithm @ ''|salt:'' @ encodeBase64 salt @ ''|iv:'' @ encodeBase64 nonce @
       (if kv \<noteq> [] then ''|kv:'' @ kv else []) @
       (if ct \<noteq> [] then ''|ct:'' @ ct else []) @
       (if osz \<noteq> [] then ''|osz:'' @ osz else []))"

fun writeFields :: "bytes \<Rightarrow> bytes list \<Rightarrow> goerr + bytes" where
  "writeFields buf [] = Inr buf"
| "writeFields buf (f # fs) = and_then (writeLengthPrefixed buf f) (\<lambda>buf. writeFields buf fs)"

definition buildAAD :: "string \<Rightarrow> bytes \<Rightarrow> bytes \<Rightarrow> string \<Rightarrow> string \<Rightarrow> string \<Rightarrow> goerr + bytes" where
  "buildAAD algorithm salt nonce kv ct osz =
     writeFields [] [bytes_of algorithm, salt, nonce, bytes_of kv, bytes_of ct, bytes_of osz]"

section \<open>Binding identifiers\<close>

definition parseObjectBindingID :: "string \<Rightarrow> goerr + bytes" where
  "parseObjectBindingID value =
     (case decodeBase64URL value of
        None \<Rightarrow> Inl (Err ''invalid encryption binding ID'')
      | Some b \<Rightarrow>
          if length b \<noteq> 16 \<or> encodeBase64URL b \<noteq> value
          then Inl (Err ''invalid encryption binding ID'') else Inr b)"

section \<open>Injectivity\<close>

lemma length_prefix_inject:
  assumes "length a \<le> 4294967295" and "length b \<le> 4294967295"
    and "be32 (of_nat (length a)) @ a @ r = be32 (of_nat (length b)) @ b @ r'"
  shows "a = b \<and> r = r'"
proof -
  have "be32 (of_nat (length a)) = be32 (of_nat (length b))" and tail: "a @ r = b @ r'"
    using assms(3) by (simp_all add: append_eq_append_conv)
  then have "(of_nat (length a) :: u32) = of_nat (length b)" by simp
  then have "length a = length b"
    using assms(1,2) by (simp add: word_of_nat_eq_iff take_bit_nat_eq_self)
  with tail show ?thesis by simp
qed

lemma writeLengthPrefixed_Inr:
  "writeLengthPrefixed buf data = Inr out \<longleftrightarrow>
     length data \<le> 4294967295 \<and> out = buf @ be32 (of_nat (length data)) @ data"
  by (auto simp: writeLengthPrefixed_def checkedLengthPrefix_def)

lemma be64_list_inject: "length fs = length gs \<Longrightarrow> concat (map be64 fs) = concat (map be64 gs) \<Longrightarrow> fs = gs"
proof (induction fs gs rule: list_induct2)
  case (Cons f fs g gs)
  then show ?case by (simp add: append_eq_append_conv)
qed simp

lemma concat_be64_length: "length (concat (map be64 fs)) = 8 * length fs"
  by (induction fs) simp_all

text \<open>The layout of a version 2 AAD.\<close>

lemma buildObjectAAD_Inr:
  "buildObjectAAD d oc b fs = Inr aad \<longleftrightarrow>
     Validate oc = Inr () \<and> d \<in> set aadDomains \<and> length b = 16 \<and> length fs \<le> 65535 \<and>
     aad = bytes_of ''S3EGAAD'' @ [0] @ be16 1 @
       be32 (of_nat (length d)) @ bytes_of d @
       be32 (of_nat (length (oc_bucket oc))) @ bytes_of (oc_bucket oc) @
       be32 (of_nat (length (oc_key oc))) @ bytes_of (oc_key oc) @
       be32 16 @ b @ be16 (of_nat (length fs)) @ concat (map be64 fs)"
proof -
  have "length d \<le> 4294967295" if "d \<in> set aadDomains" for d
    using that by (auto simp: aadDomains_def aadBufferedV2_def aadChunkedV2Data_def
      aadChunkedV2Trailer_def aadMPUV2Chunk_def aadMPUV2Manifest_def)
  moreover have "length (oc_bucket oc) \<le> 4294967295 \<and> length (oc_key oc) \<le> 4294967295"
    if "Validate oc = Inr ()"
    using that by (auto simp: Validate_def split: if_splits)
  ultimately show ?thesis
    by (auto simp: buildObjectAAD_def and_then_eq_Inr writeLengthPrefixed_Inr)
qed

lemma aadDomains_length: "d \<in> set aadDomains \<Longrightarrow> length d \<le> 4294967295"
  by (auto simp: aadDomains_def aadBufferedV2_def aadChunkedV2Data_def aadChunkedV2Trailer_def
    aadMPUV2Chunk_def aadMPUV2Manifest_def)

lemma Validate_length:
  "Validate oc = Inr () \<Longrightarrow> length (oc_bucket oc) \<le> 4294967295 \<and> length (oc_key oc) \<le> 4294967295"
  by (auto simp: Validate_def split: if_splits)

text \<open>One length-prefixed field of equal byte strings: equal fields and equal remainders.\<close>

lemma field_inject:
  assumes "be32 (of_nat (length s)) @ bytes_of s @ r = be32 (of_nat (length t)) @ bytes_of t @ r'"
    and "length s \<le> 4294967295" and "length t \<le> 4294967295"
  shows "s = t \<and> r = r'"
  using length_prefix_inject [of "bytes_of s" "bytes_of t" r r'] assms by simp

lemma buildObjectAAD_inject:
  assumes "buildObjectAAD d oc b fs = Inr aad" and "buildObjectAAD d' oc' b' fs' = Inr aad"
  shows "d = d' \<and> oc = oc' \<and> b = b' \<and> fs = fs'"
proof -
  let ?tail = "\<lambda>b fs. be32 16 @ b @ be16 (of_nat (length fs)) @ concat (map be64 fs)"
  let ?key = "\<lambda>oc b fs. be32 (of_nat (length (oc_key oc))) @ bytes_of (oc_key oc) @ ?tail b fs"
  let ?bkt = "\<lambda>oc b fs. be32 (of_nat (length (oc_bucket oc))) @ bytes_of (oc_bucket oc) @ ?key oc b fs"
  have valid: "Validate oc = Inr ()" "Validate oc' = Inr ()" "d \<in> set aadDomains"
      "d' \<in> set aadDomains" "length b = 16" "length b' = 16"
    and same: "be32 (of_nat (length d)) @ bytes_of d @ ?bkt oc b fs =
      be32 (of_nat (length d')) @ bytes_of d' @ ?bkt oc' b' fs'"
    using assms by (auto simp: buildObjectAAD_Inr)
  have d: "d = d' \<and> ?bkt oc b fs = ?bkt oc' b' fs'"
    using field_inject [OF same] valid aadDomains_length by blast
  then have bkt: "oc_bucket oc = oc_bucket oc' \<and> ?key oc b fs = ?key oc' b' fs'"
    using field_inject valid Validate_length by blast
  then have key: "oc_key oc = oc_key oc' \<and> ?tail b fs = ?tail b' fs'"
    using field_inject valid Validate_length by blast
  then have "b = b'" and fs: "concat (map be64 fs) = concat (map be64 fs')"
    using valid by (auto simp: append_eq_append_conv)
  have "8 * length fs = 8 * length fs'"
    using fs by (metis concat_be64_length)
  then have "fs = fs'" using fs by (intro be64_list_inject) simp_all
  with d bkt key \<open>b = b'\<close> show ?thesis by simp
qed

lemma buildObjectAAD_total:
  assumes "Validate oc = Inr ()" and "d \<in> set aadDomains" and "length b = 16" and "length fs \<le> 65535"
  shows "\<exists>aad. buildObjectAAD d oc b fs = Inr aad"
  using assms by (simp add: buildObjectAAD_Inr)

text \<open>The length-prefixed AAD of earlier buffered objects separates its fields too.\<close>

lemma writeFields_Inr:
  "writeFields buf fs = Inr out \<longleftrightarrow>
     (\<forall>f \<in> set fs. length f \<le> 4294967295) \<and>
     out = buf @ concat (map (\<lambda>f. be32 (of_nat (length f)) @ f) fs)"
  by (induction fs arbitrary: buf) (auto simp: and_then_eq_Inr writeLengthPrefixed_Inr)

lemma prefixed_list_inject:
  "length fs = length gs \<Longrightarrow> \<forall>f \<in> set fs \<union> set gs. length f \<le> 4294967295 \<Longrightarrow>
   concat (map (\<lambda>f. be32 (of_nat (length f)) @ f) fs) =
   concat (map (\<lambda>f. be32 (of_nat (length f)) @ f) gs) \<Longrightarrow> fs = gs"
proof (induction fs gs rule: list_induct2)
  case (Cons f fs g gs)
  then have "f = g \<and> concat (map (\<lambda>f. be32 (of_nat (length f)) @ f) fs) =
      concat (map (\<lambda>f. be32 (of_nat (length f)) @ f) gs)"
    by (intro length_prefix_inject) simp_all
  with Cons show ?case by simp
qed simp

lemma buildAAD_inject:
  assumes "buildAAD alg salt nonce kv ct osz = Inr aad"
    and "buildAAD alg' salt' nonce' kv' ct' osz' = Inr aad"
  shows "alg = alg' \<and> salt = salt' \<and> nonce = nonce' \<and> kv = kv' \<and> ct = ct' \<and> osz = osz'"
proof -
  have "[bytes_of alg, salt, nonce, bytes_of kv, bytes_of ct, bytes_of osz] =
      [bytes_of alg', salt', nonce', bytes_of kv', bytes_of ct', bytes_of osz']"
    using assms unfolding buildAAD_def writeFields_Inr
    by (intro prefixed_list_inject) simp_all
  then show ?thesis by simp
qed

section \<open>Binding identifiers are canonical\<close>

lemma parseObjectBindingID_Inr:
  "parseObjectBindingID v = Inr b \<longleftrightarrow> length b = 16 \<and> v = encodeBase64URL b"
  by (auto simp: parseObjectBindingID_def split: option.splits if_splits)

interpretation binding_id: canonical_codec
  "\<lambda>b. bytes_of (encodeBase64URL b)"
  "\<lambda>t. case parseObjectBindingID (string_of t) of Inl _ \<Rightarrow> None | Inr b \<Rightarrow> Some b"
  "\<lambda>b. length b = 16"
proof
  fix b :: bytes
  assume "length b = 16"
  then have "parseObjectBindingID (encodeBase64URL b) = Inr b"
    by (simp add: parseObjectBindingID_Inr)
  then show "(case parseObjectBindingID (string_of (bytes_of (encodeBase64URL b))) of
      Inl _ \<Rightarrow> None | Inr b \<Rightarrow> Some b) = Some b"
    by simp
next
  fix t b
  assume "(case parseObjectBindingID (string_of t) of Inl _ \<Rightarrow> None | Inr b \<Rightarrow> Some b) = Some b"
  then have "parseObjectBindingID (string_of t) = Inr b" by (simp split: sum.splits)
  then have "length b = 16" "string_of t = encodeBase64URL b"
    by (simp_all add: parseObjectBindingID_Inr)
  then show "length b = 16 \<and> bytes_of (encodeBase64URL b) = t"
    by (metis bytes_of_string_of)
qed

section \<open>Properties\<close>

text \<open>
  C1. The authenticated data of version 2 records is injective: two successful calls of
  \<^verbatim>\<open>buildObjectAAD\<close> give the same bytes only for the same domain, bucket, key, binding
  identifier and counters. A record can therefore not be replayed in another domain, object,
  or position.
\<close>

theorem object_aad_binds_context:
  assumes "buildObjectAAD d oc b fs = Inr aad"
    and "buildObjectAAD d' oc' b' fs' = Inr aad"
  shows "d = d' \<and> oc = oc' \<and> b = b' \<and> fs = fs'"
  using assms by (rule buildObjectAAD_inject)

text \<open>Moving a character across the bucket/key boundary changes the authenticated data.\<close>

theorem object_aad_binds_context_witness:
  "(\<exists>aad. buildObjectAAD aadChunkedV2Data \<lparr>oc_bucket = ''ab'', oc_key = ''c''\<rparr> (replicate 16 7) [1] = Inr aad) \<and>
   buildObjectAAD aadChunkedV2Data \<lparr>oc_bucket = ''ab'', oc_key = ''c''\<rparr> (replicate 16 7) [1] \<noteq>
   buildObjectAAD aadChunkedV2Data \<lparr>oc_bucket = ''a'', oc_key = ''bc''\<rparr> (replicate 16 7) [1]"
proof -
  obtain aad where "buildObjectAAD aadChunkedV2Data \<lparr>oc_bucket = ''ab'', oc_key = ''c''\<rparr> (replicate 16 7) [1] = Inr aad"
    by (simp add: buildObjectAAD_Inr Validate_def aadDomains_def)
  then show ?thesis
    using object_aad_binds_context [of aadChunkedV2Data "\<lparr>oc_bucket = ''ab'', oc_key = ''c''\<rparr>"
      "replicate 16 7" "[1]" aad aadChunkedV2Data "\<lparr>oc_bucket = ''a'', oc_key = ''bc''\<rparr>"
      "replicate 16 7" "[1]"]
    by auto
qed

end
