(* ===== verification/Chunk_Size.thy ===== *)
theory Chunk_Size
  imports Gateway_Prelude
begin

text \<open>
  The size and range arithmetic of the chunked formats, from
  \<^verbatim>\<open>internal/crypto/range_optimization.go\<close>: record counts, ciphertext and plaintext sizes,
  and encrypted byte ranges. An \<^verbatim>\<open>int64\<close> or \<^verbatim>\<open>int\<close> is an integer with the wrap-around of the
  arithmetic written out by \<^const>\<open>wrap64\<close>; a \<^verbatim>\<open>uint64\<close> likewise by \<^const>\<open>wrapU64\<close>.
\<close>

section \<open>Constants\<close>

definition ChunkedFormatV1 :: int where "ChunkedFormatV1 = 1"
definition ChunkedFormatV2 :: int where "ChunkedFormatV2 = 2"
definition ChunkedTerminalSize :: int where "ChunkedTerminalSize = 32"
definition DefaultChunkSize :: int where "DefaultChunkSize = 64 * 1024"
definition MinChunkSize :: int where "MinChunkSize = 16 * 1024"
definition MaxChunkSize :: int where "MaxChunkSize = 1024 * 1024"
definition tagSize :: int where "tagSize = 16"

lemmas chunk_consts =
  ChunkedFormatV1_def ChunkedFormatV2_def ChunkedTerminalSize_def DefaultChunkSize_def
  MinChunkSize_def MaxChunkSize_def tagSize_def

section \<open>Sizes\<close>

definition validateChunkedVersion :: "int \<Rightarrow> goerr + unit" where
  "validateChunkedVersion version =
     (if version \<noteq> ChunkedFormatV1 \<and> version \<noteq> ChunkedFormatV2
      then Inl ErrUnsupportedChunkedVersion else Inr ())"

definition validateChunkSize :: "int \<Rightarrow> goerr + unit" where
  "validateChunkSize chunkSize =
     (if chunkSize > maxInt64 - tagSize then Inl (Err ''invalid chunk size'')
      else if chunkSize < MinChunkSize \<or> chunkSize > MaxChunkSize then Inl (Err ''invalid chunk size'')
      else Inr ())"

definition ChunkedDataChunkCount :: "int \<Rightarrow> int \<Rightarrow> goerr + int" where
  "ChunkedDataChunkCount plaintextSize chunkSize =
     (if plaintextSize < 0 then Inl (Err ''negative plaintext size'')
      else and_then (validateChunkSize chunkSize) (\<lambda>_.
        if plaintextSize = 0 then Inr 0
        else
          let count = wrap64 ((plaintextSize - 1) div chunkSize + 1) in
          if count < 0 then Inl (Err ''chunk count overflow'') else Inr count))"

definition ChunkedCiphertextSize :: "int \<Rightarrow> int \<Rightarrow> int \<Rightarrow> goerr + int" where
  "ChunkedCiphertextSize plaintextSize chunkSize version =
     and_then (validateChunkedVersion version) (\<lambda>_.
     and_then (ChunkedDataChunkCount plaintextSize chunkSize) (\<lambda>count.
       if count > (maxInt64 - ChunkedTerminalSize) div tagSize
       then Inl (Err ''chunked ciphertext size overflow'')
       else
         let overhead = wrapU64 (count * tagSize) in
         if version = ChunkedFormatV2 \<and> overhead > maxInt64 - ChunkedTerminalSize
         then Inl (Err ''chunked ciphertext size overflow'')
         else
           let overhead =
             (if version = ChunkedFormatV2 then wrapU64 (overhead + ChunkedTerminalSize) else overhead) in
           if overhead > maxInt64 \<or> plaintextSize > maxInt64 - wrap64 overhead
           then Inl (Err ''chunked ciphertext size overflow'')
           else Inr (wrap64 (plaintextSize + wrap64 overhead))))"

text \<open>The loop over the two candidate counts.\<close>

fun tryCounts :: "int \<Rightarrow> int \<Rightarrow> int list \<Rightarrow> goerr + (int \<times> int)" where
  "tryCounts dataSize chunkSize [] = Inl (Err ''non-canonical chunked ciphertext size'')"
| "tryCounts dataSize chunkSize (count # rest) =
     (if count > maxInt64 div tagSize then tryCounts dataSize chunkSize rest
      else
        let plain = wrap64 (dataSize - wrap64 (wrapU64 (count * tagSize))) in
        if plain < 0 then tryCounts dataSize chunkSize rest
        else if ChunkedDataChunkCount plain chunkSize = Inr count then Inr (plain, count)
        else tryCounts dataSize chunkSize rest)"

definition ChunkedPlaintextSize :: "int \<Rightarrow> int \<Rightarrow> int \<Rightarrow> goerr + (int \<times> int)" where
  "ChunkedPlaintextSize ciphertextSize chunkSize version =
     and_then (validateChunkedVersion version) (\<lambda>_.
     and_then (validateChunkSize chunkSize) (\<lambda>_.
       if ciphertextSize < 0 then Inl (Err ''negative ciphertext size'')
       else
         let overhead = (if version = ChunkedFormatV2 then ChunkedTerminalSize else 0) in
         if ciphertextSize < overhead then Inl (Err ''ciphertext shorter than terminal'')
         else
           let dataSize = wrap64 (ciphertextSize - overhead) in
           if dataSize = 0 then Inr (0, 0)
           else if version = ChunkedFormatV2 \<and> dataSize < tagSize
           then Inl (Err ''non-canonical chunked ciphertext size'')
           else
             let unit = wrap64 (chunkSize + tagSize);
                 candidate = dataSize div unit;
                 candidate = (if candidate = 0 then 1 else candidate)
             in tryCounts dataSize chunkSize [candidate, wrapU64 (candidate + 1)]))"

section \<open>Encrypted ranges\<close>

definition ChunkedEncryptedDataRange :: "int \<Rightarrow> int \<Rightarrow> int \<Rightarrow> int \<Rightarrow> goerr + (int \<times> int)" where
  "ChunkedEncryptedDataRange startChunk endChunk chunkSize version =
     and_then (validateChunkedVersion version) (\<lambda>_.
     and_then (validateChunkSize chunkSize) (\<lambda>_.
       if endChunk < startChunk then Inl (Err ''invalid chunk range'')
       else
         let unit = wrapU64 (chunkSize + tagSize) in
         if endChunk = maxUint64 \<or> startChunk > maxInt64 div unit \<or> endChunk \<ge> maxInt64 div unit
         then Inl (Err ''encrypted range overflow'')
         else
           let start = wrapU64 (startChunk * unit);
               end = wrapU64 (wrapU64 (wrapU64 (endChunk + 1) * unit) - 1)
           in if end > maxInt64 then Inl (Err ''encrypted range overflow'')
              else Inr (wrap64 start, wrap64 end)))"

definition calculateEncryptedByteRange :: "int \<Rightarrow> int \<Rightarrow> int \<Rightarrow> goerr + (int \<times> int)" where
  "calculateEncryptedByteRange startChunk endChunk chunkSize =
     (if startChunk < 0 \<or> endChunk < 0 then Inl (Err ''invalid chunk range'')
      else ChunkedEncryptedDataRange startChunk endChunk chunkSize ChunkedFormatV1)"

definition ChunkedEncryptedDataRangeForPlaintextSize ::
  "int \<Rightarrow> int \<Rightarrow> int \<Rightarrow> int \<Rightarrow> int \<Rightarrow> goerr + (int \<times> int)" where
  "ChunkedEncryptedDataRangeForPlaintextSize startChunk endChunk plaintextSize chunkSize version =
     and_then (ChunkedDataChunkCount plaintextSize chunkSize) (\<lambda>count.
       if count = 0 \<or> startChunk > endChunk \<or> endChunk \<ge> count then Inl (Err ''invalid chunk range'')
       else
         and_then (ChunkedEncryptedDataRange startChunk endChunk chunkSize version) (\<lambda>(start, end).
         and_then (ChunkedCiphertextSize plaintextSize chunkSize version) (\<lambda>canonical.
           let dataEnd = (if version = ChunkedFormatV2 then wrap64 (canonical - ChunkedTerminalSize)
                          else canonical);
               end = (if end \<ge> dataEnd then wrap64 (dataEnd - 1) else end)
           in Inr (start, end))))"

definition calculateChunkRangeFromPlaintext ::
  "int \<Rightarrow> int \<Rightarrow> int \<Rightarrow> int \<Rightarrow> int \<times> int \<times> int \<times> int" where
  "calculateChunkRangeFromPlaintext plaintextStart plaintextEnd chunkSize totalChunks =
     (if chunkSize \<le> 0 \<or> totalChunks \<le> 0 then (0, 0, 0, 0)
      else if plaintextStart < 0 \<or> plaintextEnd < 0 then (0, 0, 0, 0)
      else
        let startChunk = plaintextStart div chunkSize;
            endChunk = plaintextEnd div chunkSize;
            startChunk = (if startChunk \<ge> totalChunks then totalChunks - 1 else startChunk);
            endChunk = (if endChunk \<ge> totalChunks then totalChunks - 1 else endChunk)
        in (startChunk, endChunk, plaintextStart mod chunkSize, plaintextEnd mod chunkSize))"

section \<open>Mathematical sizes\<close>

text \<open>
  The intended quantities, without overflow: the number of records of a plaintext, the data
  length of an object and the length of its terminal record.
\<close>

definition chunk_count :: "int \<Rightarrow> int \<Rightarrow> int" where
  "chunk_count p cs = (if p = 0 then 0 else (p - 1) div cs + 1)"

definition data_size :: "int \<Rightarrow> int \<Rightarrow> int" where
  "data_size p cs = p + 16 * chunk_count p cs"

definition terminal_size :: "int \<Rightarrow> int" where
  "terminal_size version = (if version = 2 then 32 else 0)"

lemma validateChunkSize_Inr [simp]:
  "validateChunkSize cs = Inr u \<longleftrightarrow> 16384 \<le> cs \<and> cs \<le> 1048576"
  by (auto simp: validateChunkSize_def chunk_consts int_limits)

lemma validateChunkedVersion_Inr [simp]:
  "validateChunkedVersion v = Inr u \<longleftrightarrow> v = 1 \<or> v = 2"
  by (auto simp: validateChunkedVersion_def chunk_consts)

lemma chunk_count_nonneg: "0 \<le> p \<Longrightarrow> 0 < cs \<Longrightarrow> 0 \<le> chunk_count p cs"
  by (simp add: chunk_count_def pos_imp_zdiv_nonneg_iff)

lemma chunk_count_bounds:
  assumes "0 \<le> p" and "0 < cs"
  shows "p \<le> cs * chunk_count p cs" and "cs * chunk_count p cs < p + cs"
proof -
  define q where "q = (p - 1) div cs"
  have "cs * q \<le> p - 1" "p - 1 < cs * q + cs"
    using pos_mod_sign [OF assms(2), of "p - 1"] pos_mod_bound [OF assms(2), of "p - 1"]
      mult_div_mod_eq [of cs "p - 1"] unfolding q_def by linarith+
  then show "p \<le> cs * chunk_count p cs" "cs * chunk_count p cs < p + cs"
    using assms by (auto simp: chunk_count_def q_def [symmetric] algebra_simps)
qed

lemma chunk_count_unique:
  assumes "0 \<le> p" and "0 < cs" and "p \<le> cs * n" and "cs * n < p + cs"
  shows "chunk_count p cs = n"
proof -
  let ?m = "chunk_count p cs"
  have "cs * n < cs * (?m + 1)" "cs * ?m < cs * (n + 1)"
    using chunk_count_bounds [OF assms(1,2)] assms(3,4) by (simp_all add: algebra_simps)
  then have "n < ?m + 1" "?m < n + 1"
    using assms(2) by (simp_all only: mult_less_cancel_left_pos)
  then show ?thesis by simp
qed

lemma chunk_count_le: "0 \<le> p \<Longrightarrow> 1 \<le> cs \<Longrightarrow> chunk_count p cs \<le> p"
proof -
  assume a: "0 \<le> p" "1 \<le> cs"
  then have "(p - 1) div cs \<le> (p - 1) div 1" if "p \<noteq> 0"
    using that by (intro zdiv_mono2) auto
  with a show ?thesis by (auto simp: chunk_count_def)
qed

lemma chunk_count_mono: "0 \<le> p \<Longrightarrow> p \<le> q \<Longrightarrow> 0 < cs \<Longrightarrow> chunk_count p cs \<le> chunk_count q cs"
  by (auto simp: chunk_count_def zdiv_mono1 pos_imp_zdiv_nonneg_iff)

lemma data_size_strict_mono: "0 \<le> p \<Longrightarrow> p < q \<Longrightarrow> 0 < cs \<Longrightarrow> data_size p cs < data_size q cs"
  using chunk_count_mono [of p q cs] by (simp add: data_size_def)

lemma data_size_inject:
  "0 \<le> p \<Longrightarrow> 0 \<le> q \<Longrightarrow> 0 < cs \<Longrightarrow> data_size p cs = data_size q cs \<Longrightarrow> p = q"
  using data_size_strict_mono [of p q cs] data_size_strict_mono [of q p cs] by linarith

lemma chunk_count_small:
  assumes "0 \<le> p" and "16384 \<le> cs"
  shows "16384 * chunk_count p cs < p + 16384"
proof (cases "p = 0")
  case False
  have "(p - 1) div cs \<le> (p - 1) div 16384" using assms False by (intro zdiv_mono2) auto
  then show ?thesis using False by (simp add: chunk_count_def)
qed (simp add: chunk_count_def)

section \<open>The code computes the mathematical sizes\<close>

lemma ChunkedDataChunkCount_Inr:
  assumes "in_int64 p"
  shows "ChunkedDataChunkCount p cs = Inr n \<longleftrightarrow>
    0 \<le> p \<and> 16384 \<le> cs \<and> cs \<le> 1048576 \<and> n = chunk_count p cs"
proof (cases "0 \<le> p \<and> 16384 \<le> cs \<and> cs \<le> 1048576")
  case True
  then have "0 \<le> chunk_count p cs" "chunk_count p cs \<le> p"
    by (simp_all add: chunk_count_nonneg chunk_count_le)
  then have "wrap64 (chunk_count p cs) = chunk_count p cs"
    using assms by (intro wrap64_id) (simp add: in_int64_def int_limits)
  with True \<open>0 \<le> chunk_count p cs\<close> show ?thesis
    by (auto simp: ChunkedDataChunkCount_def chunk_count_def Let_def and_then_eq_Inr split: if_splits)
next
  case False
  then show ?thesis by (auto simp: ChunkedDataChunkCount_def and_then_eq_Inr)
qed

lemma ChunkedCiphertextSize_Inr:
  assumes "in_int64 p"
  shows "ChunkedCiphertextSize p cs v = Inr c \<longleftrightarrow>
    (v = 1 \<or> v = 2) \<and> 0 \<le> p \<and> 16384 \<le> cs \<and> cs \<le> 1048576 \<and>
    c = data_size p cs + terminal_size v \<and> c \<le> maxInt64"
proof (cases "0 \<le> p \<and> 16384 \<le> cs \<and> cs \<le> 1048576")
  case True
  define n where "n = chunk_count p cs"
  have n: "0 \<le> n" "16384 * n < p + 16384"
    using True chunk_count_small [of p cs] by (simp_all add: n_def chunk_count_nonneg)
  have p: "p \<le> 9223372036854775807" using assms by (simp add: in_int64_def int_limits)
  have w: "wrapU64 (n * 16) = n * 16" "wrap64 (n * 16) = n * 16" "wrapU64 (n * 16 + 32) = n * 16 + 32"
    "wrap64 (n * 16 + 32) = n * 16 + 32"
    using n p by (simp_all add: wrapU64_id wrap64_id in_int64_def int_limits)
  have s: "wrap64 (p + x) = p + x" if "p + x \<le> 9223372036854775807" "0 \<le> x" for x
    using that True by (intro wrap64_id) (simp add: in_int64_def int_limits)
  have count: "ChunkedDataChunkCount p cs = Inr n"
    using True by (simp add: ChunkedDataChunkCount_Inr [OF assms] n_def)
  show ?thesis
    using True n p
    by (auto simp: ChunkedCiphertextSize_def count and_then_eq_Inr Let_def w s chunk_consts int_limits
        data_size_def terminal_size_def n_def [symmetric])
next
  case False
  then show ?thesis
    by (auto simp: ChunkedCiphertextSize_def and_then_eq_Inr ChunkedDataChunkCount_Inr [OF assms])
qed

lemma tryCounts_Inr:
  assumes "0 < d" and "d \<le> maxInt64" and cs: "16384 \<le> cs" "cs \<le> 1048576"
    and "\<forall>m \<in> set ms. 0 \<le> m"
  shows "tryCounts d cs ms = Inr (p, n) \<longleftrightarrow>
    n \<in> set ms \<and> 0 \<le> p \<and> n = chunk_count p cs \<and> data_size p cs = d"
  using assms(5)
proof (induction ms)
  case (Cons m ms)
  define pass where "pass \<longleftrightarrow> m \<le> maxInt64 div tagSize \<and> 0 \<le> d - 16 * m \<and> chunk_count (d - 16 * m) cs = m"
  have wrap: "wrap64 (d - wrap64 (wrapU64 (m * tagSize))) = d - 16 * m" if "m \<le> maxInt64 div tagSize"
    using that Cons.prems assms(1,2)
    by (simp add: wrapU64_id wrap64_id in_int64_def int_limits chunk_consts)
  have count: "ChunkedDataChunkCount (d - 16 * m) cs = Inr m \<longleftrightarrow> chunk_count (d - 16 * m) cs = m"
    if "0 \<le> d - 16 * m"
    using that cs Cons.prems assms(1,2)
    by (subst ChunkedDataChunkCount_Inr) (auto simp: in_int64_def int_limits)
  have step: "tryCounts d cs (m # ms) = (if pass then Inr (d - 16 * m, m) else tryCounts d cs ms)"
    by (simp add: wrap count pass_def Let_def)
  have IH: "tryCounts d cs ms = Inr (p, n) \<longleftrightarrow>
      n \<in> set ms \<and> 0 \<le> p \<and> n = chunk_count p cs \<and> data_size p cs = d"
    using Cons.IH Cons.prems by simp
  show ?case
  proof (cases pass)
    case True
    then have "data_size (d - 16 * m) cs = d" "0 \<le> d - 16 * m" "chunk_count (d - 16 * m) cs = m"
      by (simp_all add: pass_def data_size_def)
    then have "p = d - 16 * m" if "0 \<le> p" "data_size p cs = d"
      using that data_size_inject [of p "d - 16 * m" cs] cs by simp
    with True \<open>data_size (d - 16 * m) cs = d\<close> \<open>chunk_count (d - 16 * m) cs = m\<close> \<open>0 \<le> d - 16 * m\<close>
    show ?thesis unfolding step by auto
  next
    case False
    have "n \<noteq> m" if "0 \<le> p" "n = chunk_count p cs" "data_size p cs = d"
    proof
      assume "n = m"
      with that have "d - 16 * m = p" by (simp add: data_size_def)
      with that \<open>n = m\<close> have "0 \<le> d - 16 * m" "chunk_count (d - 16 * m) cs = m" by simp_all
      moreover have "m \<le> maxInt64 div tagSize"
        using \<open>0 \<le> d - 16 * m\<close> assms(2) by (simp add: int_limits chunk_consts)
      ultimately show False using False by (simp add: pass_def)
    qed
    with False IH show ?thesis unfolding step by auto
  qed
qed simp

lemma candidate_count:
  assumes "0 < p" and "0 < cs"
  shows "chunk_count p cs = data_size p cs div (cs + 16) \<or>
    chunk_count p cs = data_size p cs div (cs + 16) + 1"
proof -
  let ?n = "chunk_count p cs" and ?u = "cs + 16"
  have "p \<le> cs * ?n" "cs * ?n < p + cs" using assms chunk_count_bounds [of p cs] by simp_all
  then have "?u * (?n - 1) \<le> data_size p cs" "data_size p cs \<le> ?u * ?n"
    by (simp_all add: data_size_def algebra_simps)
  then have "?n - 1 \<le> data_size p cs div ?u" "data_size p cs div ?u \<le> ?n"
    using assms(2) zdiv_mono1 [of "?u * (?n - 1)" "data_size p cs" ?u]
      zdiv_mono1 [of "data_size p cs" "?u * ?n" ?u] by simp_all
  then show ?thesis by linarith
qed

lemma chunk_count_pos: "0 < p \<Longrightarrow> 0 < cs \<Longrightarrow> 1 \<le> chunk_count p cs"
  by (simp add: chunk_count_def pos_imp_zdiv_nonneg_iff)

lemma data_size_pos: "0 \<le> p \<Longrightarrow> 0 < cs \<Longrightarrow> 0 < data_size p cs \<longleftrightarrow> 0 < p"
  by (cases "p = 0") (auto simp: data_size_def chunk_count_def pos_imp_zdiv_nonneg_iff add_pos_nonneg)

lemma ChunkedPlaintextSize_Inr:
  assumes "in_int64 c"
  shows "ChunkedPlaintextSize c cs v = Inr (p, n) \<longleftrightarrow>
    (v = 1 \<or> v = 2) \<and> 0 \<le> p \<and> 16384 \<le> cs \<and> cs \<le> 1048576 \<and>
    n = chunk_count p cs \<and> c = data_size p cs + terminal_size v"
proof (cases "(v = 1 \<or> v = 2) \<and> 16384 \<le> cs \<and> cs \<le> 1048576 \<and> terminal_size v \<le> c")
  case True
  define d where "d = c - terminal_size v"
  have c: "c \<le> maxInt64" using assms by (simp add: in_int64_def)
  have d: "0 \<le> d" "d \<le> maxInt64" "wrap64 d = d"
    using True c by (auto simp: d_def terminal_size_def int_limits intro!: wrap64_id simp: in_int64_def)
  have ts: "(if v = ChunkedFormatV2 then ChunkedTerminalSize else 0) = terminal_size v"
    by (simp add: terminal_size_def chunk_consts)
  have unit: "wrap64 (cs + tagSize) = cs + 16"
    using True by (simp add: chunk_consts wrap64_id in_int64_def int_limits)
  define k where "k = (if d div (cs + 16) = 0 then 1 else d div (cs + 16))"
  have k: "0 \<le> k" "wrapU64 (k + 1) = k + 1"
  proof -
    have "d div (cs + 16) \<le> d div 1" using True d by (intro zdiv_mono2) auto
    moreover have "0 \<le> d div (cs + 16)" using True d by (simp add: pos_imp_zdiv_nonneg_iff)
    ultimately have "0 \<le> d div (cs + 16)" "d div (cs + 16) \<le> d" by simp_all
    then show "0 \<le> k" "wrapU64 (k + 1) = k + 1"
      using d by (auto simp: k_def wrapU64_id int_limits)
  qed
  have run: "ChunkedPlaintextSize c cs v =
      (if d = 0 then Inr (0, 0)
       else if v = 2 \<and> d < 16 then Inl (Err ''non-canonical chunked ciphertext size'')
       else tryCounts d cs [k, k + 1])"
  proof -
    have checks: "validateChunkedVersion v = Inr ()" "validateChunkSize cs = Inr ()" "\<not> c < 0"
        "\<not> c < terminal_size v" "ChunkedFormatV2 = 2" "tagSize = 16"
      using True by (auto simp: terminal_size_def chunk_consts)
    show ?thesis
      unfolding ChunkedPlaintextSize_def checks and_then_simps Let_def
      unfolding ts [unfolded checks] checks if_False d_def [symmetric] d(3) unit [unfolded checks]
      by (simp only: k_def [symmetric] k(2) checks if_False)
  qed
  have found: "chunk_count p cs \<in> {k, k + 1}" if "0 < p" "data_size p cs = d" for p
    using that candidate_count [of p cs] chunk_count_pos [of p cs] True by (auto simp: k_def)
  have counts: "tryCounts d cs [k, k + 1] = Inr (p, n) \<longleftrightarrow>
      0 \<le> p \<and> n = chunk_count p cs \<and> data_size p cs = d" if "d \<noteq> 0"
  proof (subst tryCounts_Inr)
    show "(n \<in> set [k, k + 1] \<and> 0 \<le> p \<and> n = chunk_count p cs \<and> data_size p cs = d) =
        (0 \<le> p \<and> n = chunk_count p cs \<and> data_size p cs = d)"
      using found [of p] that d True data_size_pos [of p cs] by auto
  qed (use that d True k in auto)
  have small: "16 < data_size q cs" if "0 < q" for q
    using that chunk_count_pos [of q cs] True by (simp add: data_size_def)
  have zero: "data_size p cs = 0 \<longleftrightarrow> p = 0" if "0 \<le> p"
    using that data_size_pos [of p cs] True by (auto simp: data_size_def chunk_count_def)
  show ?thesis
    unfolding run using counts zero small [of p] True d data_size_pos [of p cs]
    by (auto simp: d_def chunk_count_def split: if_splits)
next
  case False
  have "0 \<le> data_size p cs" if "0 \<le> p" "16384 \<le> cs"
    using that chunk_count_nonneg [of p cs] by (simp add: data_size_def)
  with False show ?thesis
    by (auto simp: ChunkedPlaintextSize_def and_then_eq_Inr Let_def chunk_consts terminal_size_def
        simp del: tryCounts.simps split: if_splits)
qed

section \<open>Ranges\<close>

lemma ChunkedEncryptedDataRange_ok:
  assumes "v = 1 \<or> v = 2" and "16384 \<le> cs" and "cs \<le> 1048576"
    and "0 \<le> sc" and "sc \<le> ec" and "(ec + 1) * (cs + 16) \<le> maxInt64"
  shows "ChunkedEncryptedDataRange sc ec cs v = Inr (sc * (cs + 16), (ec + 1) * (cs + 16) - 1)"
proof -
  let ?u = "cs + 16"
  have u: "wrapU64 (cs + tagSize) = ?u"
    using assms(2,3) by (simp add: wrapU64_id chunk_consts int_limits)
  define S E where "S = sc * ?u" and "E = ec * ?u"
  have exp: "(ec + 1) * ?u = E + ?u" by (simp add: algebra_simps E_def)
  have "0 \<le> S" "S \<le> E" "ec * 1 \<le> E"
    unfolding S_def E_def using assms by (auto intro!: mult_right_mono mult_left_mono simp del: mult_1_right)
  then have bounds: "0 \<le> S" "S \<le> E" "ec \<le> E" "E + ?u \<le> 9223372036854775807"
    using assms(6) exp by (simp_all add: int_limits)
  have "ec + 1 \<le> maxInt64 div ?u"
    using zdiv_mono1 [OF assms(6), of ?u] assms(2) by simp
  moreover have "ec < maxUint64" using bounds assms(2) by (simp add: int_limits)
  moreover have w: "wrapU64 (ec + 1) = ec + 1" "wrapU64 S = S" "wrap64 S = S"
      "wrapU64 (E + ?u) = E + ?u" "wrapU64 (E + ?u - 1) = E + ?u - 1"
      "wrap64 (E + ?u - 1) = E + ?u - 1"
    using assms bounds by (auto simp: int_limits in_int64_def intro!: wrapU64_id wrap64_id)
  ultimately have guards: "\<not> (ec = maxUint64 \<or> maxInt64 div ?u < sc \<or> maxInt64 div ?u \<le> ec)"
      "\<not> maxInt64 < E + ?u - 1" "\<not> ec < sc"
      "validateChunkedVersion v = Inr ()" "validateChunkSize cs = Inr ()"
    using assms bounds by (auto simp: int_limits)
  show ?thesis
    unfolding ChunkedEncryptedDataRange_def guards(4,5) and_then_simps Let_def u S_def [symmetric]
    by (simp only: w exp guards(1-3) if_False)
qed

lemma ChunkedEncryptedDataRangeForPlaintextSize_ok:
  assumes "ChunkedCiphertextSize p cs v = Inr c" and "in_int64 p"
    and "0 \<le> sc" and "sc \<le> ec" and "ec < chunk_count p cs"
    and "chunk_count p cs * (cs + 16) \<le> maxInt64"
  shows "ChunkedEncryptedDataRangeForPlaintextSize sc ec p cs v =
    Inr (sc * (cs + 16), min ((ec + 1) * (cs + 16)) (data_size p cs) - 1)"
proof -
  have facts: "v = 1 \<or> v = 2" "0 \<le> p" "16384 \<le> cs" "cs \<le> 1048576"
      "c = data_size p cs + terminal_size v" "c \<le> maxInt64"
    using assms(1) by (simp_all add: ChunkedCiphertextSize_Inr [OF assms(2)])
  have "(ec + 1) * (cs + 16) \<le> chunk_count p cs * (cs + 16)"
    using assms facts by (intro mult_right_mono) auto
  then have "(ec + 1) * (cs + 16) \<le> maxInt64" using assms(6) by linarith
  then have range: "ChunkedEncryptedDataRange sc ec cs v =
      Inr (sc * (cs + 16), (ec + 1) * (cs + 16) - 1)"
    using assms(3,4) facts(1,3,4) by (intro ChunkedEncryptedDataRange_ok) simp_all
  have count: "ChunkedDataChunkCount p cs = Inr (chunk_count p cs)"
    using facts by (simp add: ChunkedDataChunkCount_Inr [OF assms(2)])
  have size: "0 \<le> data_size p cs"
    using facts chunk_count_nonneg [of p cs] by (simp add: data_size_def)
  have dataEnd: "(if v = ChunkedFormatV2 then wrap64 (c - ChunkedTerminalSize) else c) = data_size p cs"
    using facts size by (auto simp: terminal_size_def chunk_consts int_limits in_int64_def intro!: wrap64_id)
  have last: "wrap64 (data_size p cs - 1) = data_size p cs - 1"
    using facts size by (intro wrap64_id) (auto simp: terminal_size_def in_int64_def int_limits split: if_splits)
  have guard: "\<not> (chunk_count p cs = 0 \<or> ec < sc \<or> chunk_count p cs \<le> ec)" using assms by simp
  show ?thesis
    unfolding ChunkedEncryptedDataRangeForPlaintextSize_def count range assms(1) and_then_simps
      prod.case Let_def dataEnd last
    using guard by auto
qed

lemma div_less_chunk_count:
  assumes "0 \<le> x" and "x < p" and "0 < cs"
  shows "x div cs < chunk_count p cs"
  using assms zdiv_mono1 [of x "p - 1" cs] by (simp add: chunk_count_def)

lemma calculateChunkRangeFromPlaintext_ok:
  assumes "0 \<le> s" and "s \<le> e" and "e < p" and "0 < cs"
  shows "calculateChunkRangeFromPlaintext s e cs (chunk_count p cs) =
    (s div cs, e div cs, s mod cs, e mod cs)"
  using assms div_less_chunk_count [of s p cs] div_less_chunk_count [of e p cs]
    chunk_count_pos [of p cs]
  by (simp add: calculateChunkRangeFromPlaintext_def Let_def)

section \<open>Properties\<close>

text \<open>
  C2. The two size equations of the chunked formats are inverse to each other on the whole
  \<^verbatim>\<open>int64\<close> range: \<^verbatim>\<open>ChunkedPlaintextSize\<close> accepts a stored size exactly when it is the
  ciphertext size of a plaintext, and then returns that plaintext size and its record count.
  No intermediate computation overflows.
\<close>

theorem chunked_size_inverse:
  assumes "in_int64 p" and "in_int64 c"
  shows "ChunkedPlaintextSize c cs v = Inr (p, n) \<longleftrightarrow>
    ChunkedCiphertextSize p cs v = Inr c \<and> ChunkedDataChunkCount p cs = Inr n"
  unfolding ChunkedPlaintextSize_Inr [OF assms(2)] ChunkedCiphertextSize_Inr [OF assms(1)]
    ChunkedDataChunkCount_Inr [OF assms(1)]
  using assms by (auto simp: in_int64_def)

text \<open>A 100000-byte object in 64 KiB chunks has two records; a size between two canonical ones is refused.\<close>

theorem chunked_size_inverse_witness:
  "ChunkedPlaintextSize 100064 65536 2 = Inr (100000, 2) \<and>
   ChunkedPlaintextSize 65568 65536 1 \<noteq> Inr (65537, 2)"
proof -
  have "ChunkedCiphertextSize 100000 65536 2 = Inr 100064" "ChunkedDataChunkCount 100000 65536 = Inr 2"
      "ChunkedCiphertextSize 65537 65536 1 \<noteq> Inr 65568"
    by (simp_all add: ChunkedCiphertextSize_Inr ChunkedDataChunkCount_Inr in_int64_def int_limits
        data_size_def chunk_count_def terminal_size_def)
  then show ?thesis
    using chunked_size_inverse [of 100000 100064 65536 2 2] chunked_size_inverse [of 65537 65568 65536 1 2]
    by (simp add: in_int64_def int_limits ChunkedCiphertextSize_Inr ChunkedDataChunkCount_Inr
        data_size_def chunk_count_def terminal_size_def)
qed

end
