(* ===== verification/Crypto_Primitives.thy ===== *)
theory Crypto_Primitives
  imports Gateway_Prelude
begin

text \<open>
  The cryptographic packages the gateway calls, as parameters of the model: an AEAD
  (\<^verbatim>\<open>crypto/cipher.AEAD\<close>: AES-GCM and ChaCha20-Poly1305) is a record of its two operations,
  HKDF-SHA256 a record of the two ways the code calls it. What the code relies on are the
  predicates \<open>aead_laws\<close> and \<open>hkdf_laws\<close>. They state functional behaviour only: opening
  inverts sealing, a tag adds 16 bytes, and \<open>Open\<close> accepts nothing but an output of \<open>Seal\<close>
  for the same nonce and authenticated data (both algorithms recompute the tag and compare).
  That an attacker cannot produce such an output is not part of them.
\<close>

section \<open>Authenticated encryption\<close>

record aead =
  Seal :: "bytes \<Rightarrow> bytes \<Rightarrow> bytes \<Rightarrow> bytes"
  Open :: "bytes \<Rightarrow> bytes \<Rightarrow> bytes \<Rightarrow> bytes option"

text \<open>The arguments are nonce, text and additional data, in this order.\<close>

definition nonceSize :: nat where "nonceSize = 12"

definition aead_laws :: "aead \<Rightarrow> bool" where
  "aead_laws A \<longleftrightarrow>
     (\<forall>n p a. length n = nonceSize \<longrightarrow>
        Open A n (Seal A n p a) a = Some p \<and> length (Seal A n p a) = length p + 16) \<and>
     (\<forall>n c a p. length n = nonceSize \<longrightarrow> Open A n c a = Some p \<longrightarrow> c = Seal A n p a)"

lemma aead_open_seal: "aead_laws A \<Longrightarrow> length n = nonceSize \<Longrightarrow> Open A n (Seal A n p a) a = Some p"
  by (simp add: aead_laws_def)

lemma aead_seal_length: "aead_laws A \<Longrightarrow> length n = nonceSize \<Longrightarrow> length (Seal A n p a) = length p + 16"
  by (simp add: aead_laws_def)

lemma aead_open_Some:
  "aead_laws A \<Longrightarrow> length n = nonceSize \<Longrightarrow> Open A n c a = Some p \<longleftrightarrow> c = Seal A n p a"
  by (auto simp: aead_laws_def)

text \<open>Both implementations panic on a nonce of the wrong length.\<close>

definition goSeal :: "aead \<Rightarrow> bytes \<Rightarrow> bytes \<Rightarrow> bytes \<Rightarrow> goerr + bytes" where
  "goSeal A nonce plain aad =
     (if length nonce \<noteq> nonceSize then Inl Panic else Inr (Seal A nonce plain aad))"

definition goOpen :: "aead \<Rightarrow> bytes \<Rightarrow> bytes \<Rightarrow> bytes \<Rightarrow> goerr + bytes" where
  "goOpen A nonce ct aad =
     (if length nonce \<noteq> nonceSize then Inl Panic
      else case Open A nonce ct aad of None \<Rightarrow> Inl ErrAuth | Some p \<Rightarrow> Inr p)"

lemma goOpen_Inr:
  "aead_laws A \<Longrightarrow> goOpen A n c a = Inr p \<longleftrightarrow> length n = nonceSize \<and> c = Seal A n p a"
  using aead_open_Some [of A n c a p] by (auto simp: goOpen_def split: option.splits)

lemma goOpen_seal [simp]:
  "aead_laws A \<Longrightarrow> length n = nonceSize \<Longrightarrow> goOpen A n (Seal A n p a) a = Inr p"
  by (simp add: goOpen_Inr)

text \<open>Wrapping an error with \<^verbatim>\<open>fmt.Errorf\<close> replaces it by a new one; a panic is not an error value.\<close>

definition wrapErr :: "goerr \<Rightarrow> goerr \<Rightarrow> goerr" where
  "wrapErr new e = (if e = Panic then Panic else new)"

section \<open>Key derivation\<close>

text \<open>
  \<open>HkdfNew secret salt info n\<close> are the first \<open>n\<close> bytes of \<^verbatim>\<open>hkdf.New(sha256.New, ...)\<close>,
  \<open>HkdfExpand prk info n\<close> those of \<^verbatim>\<open>hkdf.Expand\<close>. Reading more than 255 blocks of 32 bytes
  is an error of the reader they return.
\<close>

record hkdf =
  HkdfNew :: "bytes \<Rightarrow> bytes \<Rightarrow> bytes \<Rightarrow> nat \<Rightarrow> bytes"
  HkdfExpand :: "bytes \<Rightarrow> bytes \<Rightarrow> nat \<Rightarrow> bytes"

definition hkdf_laws :: "hkdf \<Rightarrow> bool" where
  "hkdf_laws H \<longleftrightarrow>
     (\<forall>secret salt info n. n \<le> 8160 \<longrightarrow> length (HkdfNew H secret salt info n) = n) \<and>
     (\<forall>prk info n. n \<le> 8160 \<longrightarrow> length (HkdfExpand H prk info n) = n)"

definition readHkdf :: "nat \<Rightarrow> bytes \<Rightarrow> goerr + bytes" where
  "readHkdf n out = (if 8160 < n then Inl (Err ''hkdf: entropy limit reached'') else Inr out)"

lemma readHkdf_Inr [simp]: "readHkdf n out = Inr b \<longleftrightarrow> n \<le> 8160 \<and> b = out"
  by (auto simp: readHkdf_def)

lemma hkdf_new_length [simp]: "hkdf_laws H \<Longrightarrow> n \<le> 8160 \<Longrightarrow> length (HkdfNew H s t i n) = n"
  by (simp add: hkdf_laws_def)

lemma hkdf_expand_length [simp]: "hkdf_laws H \<Longrightarrow> n \<le> 8160 \<Longrightarrow> length (HkdfExpand H p i n) = n"
  by (simp add: hkdf_laws_def)

section \<open>Concrete instances\<close>

text \<open>
  A tag function in place of a cipher: such an AEAD satisfies the laws, so theorems that
  assume them are not vacuous, and it can be evaluated. \<open>sum_aead\<close> appends a checksum,
  \<open>suffix_aead\<close> the last 16 bytes of the authenticated data.
\<close>

definition tag_aead :: "(bytes \<Rightarrow> bytes \<Rightarrow> bytes \<Rightarrow> bytes) \<Rightarrow> aead" where
  "tag_aead f = \<lparr>
     Seal = (\<lambda>n p a. p @ f n p a),
     Open = (\<lambda>n c a. let p = take (length c - 16) c in
       if 16 \<le> length c \<and> drop (length c - 16) c = f n p a then Some p else None)\<rparr>"

lemma tag_aead_laws:
  assumes "\<And>n p a. length (f n p a) = 16"
  shows "aead_laws (tag_aead f)"
proof -
  have "c = p @ f n p a" if "Open (tag_aead f) n c a = Some p" for n c a p
  proof -
    from that have "drop (length c - 16) c = f n p a" "take (length c - 16) c = p"
      by (simp_all add: tag_aead_def Let_def split: if_splits)
    then show ?thesis using append_take_drop_id [of "length c - 16" c] by simp
  qed
  then show ?thesis using assms by (simp add: aead_laws_def tag_aead_def)
qed

definition sum_bytes :: "bytes \<Rightarrow> byte" where
  "sum_bytes b = foldl (\<lambda>s x. 3 * s + x + 1) 0 b"

definition sum_aead :: "aead" where
  "sum_aead = tag_aead (\<lambda>n p a. sum_bytes n # sum_bytes p # sum_bytes a # replicate 13 0)"

definition suffix_aead :: "aead" where
  "suffix_aead = tag_aead (\<lambda>n p a. drop (length a) (replicate 16 0 @ a))"

definition sum_hkdf :: "hkdf" where
  "sum_hkdf = \<lparr>
     HkdfNew = (\<lambda>secret salt info n. replicate n (sum_bytes (secret @ salt @ info))),
     HkdfExpand = (\<lambda>prk info n. replicate n (sum_bytes (prk @ info)))\<rparr>"

lemma sum_aead_laws [simp]: "aead_laws sum_aead"
  unfolding sum_aead_def by (rule tag_aead_laws) simp

lemma suffix_aead_laws [simp]: "aead_laws suffix_aead"
  unfolding suffix_aead_def by (rule tag_aead_laws) simp

lemma sum_hkdf_laws [simp]: "hkdf_laws sum_hkdf"
  by (simp add: hkdf_laws_def sum_hkdf_def)

end
