(* ===== verification/Chunked_Wire.thy ===== *)
theory Chunked_Wire
  imports Object_AAD Chunk_Size Crypto_Primitives
begin

text \<open>
  The wire format of chunked objects, from \<^verbatim>\<open>internal/crypto/chunked.go\<close>: the manifest,
  the derivation of per-record nonces in both versions, the authenticated data of unbound
  version 2 records, and the plaintext of the terminal record.
\<close>

section \<open>Manifest\<close>

record chunk_manifest =
  cm_Version :: int
  cm_ChunkSize :: int
  cm_ChunkCount :: u64
  cm_BaseIV :: string
  cm_IVs :: "string list"
  cm_IVDerivation :: string

section \<open>Nonces\<close>

definition deriveChunkIVHKDFIndex :: "hkdf \<Rightarrow> bytes \<Rightarrow> u64 \<Rightarrow> goerr + bytes" where
  "deriveChunkIVHKDFIndex H baseIV chunkIndex =
     (if 0xFFFFFFFF < chunkIndex then Inl (Err ''chunk index exceeds v1 wire limit'')
      else
        let info = bytes_of ''chunk-iv'' @ be32 (ucast chunkIndex) in
        readHkdf (length baseIV) (HkdfExpand H baseIV info (length baseIV)))"

definition deriveChunkIVHKDF :: "hkdf \<Rightarrow> bytes \<Rightarrow> int \<Rightarrow> bytes" where
  "deriveChunkIVHKDF H baseIV chunkIndex =
     (if chunkIndex < 0 then []
      else case deriveChunkIVHKDFIndex H baseIV (word_of_int chunkIndex) of Inl _ \<Rightarrow> [] | Inr iv \<Rightarrow> iv)"

text \<open>The loop over the last four bytes: \<open>iv[len(iv)-1-i] ^= index[3-i]\<close>.\<close>

fun xorIndex :: "bytes \<Rightarrow> bytes \<Rightarrow> nat \<Rightarrow> bytes" where
  "xorIndex iv index 0 = iv"
| "xorIndex iv index (Suc k) =
     (let i = 3 - k; iv = (if i < length iv then iv[length iv - 1 - i := (iv ! (length iv - 1 - i)) XOR (index ! (3 - i))] else iv)
      in xorIndex iv index k)"

definition deriveLegacyChunkIVIndex :: "bytes \<Rightarrow> u64 \<Rightarrow> goerr + bytes" where
  "deriveLegacyChunkIVIndex baseIV chunkIndex =
     (if 0xFFFFFFFF < chunkIndex then Inl (Err ''chunk index exceeds v1 wire limit'')
      else Inr (xorIndex baseIV (be32 (ucast chunkIndex)) 4))"

definition readHKDFNonce :: "hkdf \<Rightarrow> bytes \<Rightarrow> bytes \<Rightarrow> goerr + bytes" where
  "readHKDFNonce H baseIV info = readHkdf nonceSize (HkdfNew H baseIV [] info nonceSize)"

definition deriveChunkNonceHKDF :: "hkdf \<Rightarrow> bytes \<Rightarrow> int \<Rightarrow> u64 \<Rightarrow> goerr + bytes" where
  "deriveChunkNonceHKDF H baseIV version chunkIndex =
     (if version \<noteq> ChunkedFormatV2 then Inl ErrUnsupportedChunkedVersion
      else readHKDFNonce H baseIV (bytes_of ''chunked-v2/data-nonce'' @ [0] @ be64 chunkIndex))"

definition deriveTerminalNonceHKDF :: "hkdf \<Rightarrow> bytes \<Rightarrow> int \<Rightarrow> goerr + bytes" where
  "deriveTerminalNonceHKDF H baseIV version =
     (if version \<noteq> ChunkedFormatV2 then Inl ErrUnsupportedChunkedVersion
      else readHKDFNonce H baseIV (bytes_of ''chunked-v2/terminal-nonce'' @ [0]))"

section \<open>Authenticated data and terminal record\<close>

definition buildChunkAAD :: "int \<Rightarrow> u64 \<Rightarrow> bytes" where
  "buildChunkAAD version chunkIndex =
     (if version \<noteq> ChunkedFormatV2 then []
      else bytes_of ''chunked-v2/data'' @ [0] @ be64 chunkIndex)"

definition buildTerminalAAD :: "int \<Rightarrow> bytes" where
  "buildTerminalAAD version =
     (if version \<noteq> ChunkedFormatV2 then [] else bytes_of ''chunked-v2/terminal'' @ [0])"

definition encodeChunkedTerminal :: "u64 \<Rightarrow> u64 \<Rightarrow> bytes" where
  "encodeChunkedTerminal chunkCount plaintextSize = be64 chunkCount @ be64 plaintextSize"

definition decodeChunkedTerminal :: "bytes \<Rightarrow> goerr + (u64 \<times> u64)" where
  "decodeChunkedTerminal plaintext =
     (if length plaintext \<noteq> 16 then Inl (ErrChunkedObjectIncomplete ''invalid terminal length'')
      else Inr (of_be64 (take 8 plaintext), of_be64 (drop 8 plaintext)))"

section \<open>Lemmas\<close>

lemma decode_encode_terminal [simp]: "decodeChunkedTerminal (encodeChunkedTerminal c s) = Inr (c, s)"
  by (simp add: decodeChunkedTerminal_def encodeChunkedTerminal_def)

lemma length_encode_terminal [simp]: "length (encodeChunkedTerminal c s) = 16"
  by (simp add: encodeChunkedTerminal_def)

lemma decodeChunkedTerminal_Inr:
  "decodeChunkedTerminal b = Inr (c, s) \<longleftrightarrow> b = encodeChunkedTerminal c s"
proof
  assume "decodeChunkedTerminal b = Inr (c, s)"
  then have b: "length b = 16" "c = of_be64 (take 8 b)" "s = of_be64 (drop 8 b)"
    by (simp_all add: decodeChunkedTerminal_def split: if_splits)
  then have "be64 c = take 8 b" "be64 s = drop 8 b"
    by (simp_all add: be64_of_be64)
  then show "b = encodeChunkedTerminal c s" by (simp add: encodeChunkedTerminal_def)
qed simp

lemma encodeChunkedTerminal_inject [simp]:
  "encodeChunkedTerminal c s = encodeChunkedTerminal c' s' \<longleftrightarrow> c = c' \<and> s = s'"
  by (metis Inr_inject decode_encode_terminal prod.inject)

interpretation terminal: canonical_codec
  "\<lambda>(c, s). encodeChunkedTerminal c s"
  "\<lambda>b. case decodeChunkedTerminal b of Inl _ \<Rightarrow> None | Inr x \<Rightarrow> Some x"
  "\<lambda>_. True"
  by unfold_locales (auto simp: decodeChunkedTerminal_Inr split: sum.splits)

lemma chunk_nonce_length:
  "hkdf_laws H \<Longrightarrow> deriveChunkNonceHKDF H iv v i = Inr n \<Longrightarrow> length n = nonceSize"
  by (auto simp: deriveChunkNonceHKDF_def readHKDFNonce_def nonceSize_def split: if_splits)

lemma terminal_nonce_length:
  "hkdf_laws H \<Longrightarrow> deriveTerminalNonceHKDF H iv v = Inr n \<Longrightarrow> length n = nonceSize"
  by (auto simp: deriveTerminalNonceHKDF_def readHKDFNonce_def nonceSize_def split: if_splits)

lemma v1_nonce_length:
  "hkdf_laws H \<Longrightarrow> deriveChunkIVHKDFIndex H iv i = Inr n \<Longrightarrow> length n = length iv"
  by (auto simp: deriveChunkIVHKDFIndex_def Let_def split: if_splits)

lemma v2_nonces_total:
  "\<exists>n. deriveChunkNonceHKDF H iv 2 i = Inr n" "\<exists>n. deriveTerminalNonceHKDF H iv 2 = Inr n"
  by (simp_all add: deriveChunkNonceHKDF_def deriveTerminalNonceHKDF_def readHKDFNonce_def
      nonceSize_def chunk_consts)

text \<open>The legacy derivation XORs the record index into the last four bytes.\<close>

lemma xorIndex_last4:
  "xorIndex (pre @ [a, b, c, d]) [w, x, y, z] 4 = pre @ [a XOR w, b XOR x, c XOR y, d XOR z]"
  by (simp add: eval_nat_numeral nth_append list_update_append Let_def)

lemma length_4E:
  assumes "length xs = 4"
  obtains a b c d where "xs = [a, b, c, d]"
  using assms by (auto simp: length_Suc_conv numeral_eq_Suc)

lemma xor_left_cancel: "(a :: byte) XOR x = a XOR y \<longleftrightarrow> x = y"
  by (metis xor.assoc xor.left_neutral xor_self_eq)

lemma deriveLegacyChunkIVIndex_inject:
  assumes iv: "4 \<le> length baseIV"
    and i: "deriveLegacyChunkIVIndex baseIV i = Inr n" and j: "deriveLegacyChunkIVIndex baseIV j = Inr n"
  shows "i = j"
proof -
  define pre where "pre = take (length baseIV - 4) baseIV"
  have "length (drop (length baseIV - 4) baseIV) = 4" using iv by simp
  then obtain a b c d where "drop (length baseIV - 4) baseIV = [a, b, c, d]"
    by (rule length_4E)
  then have split: "baseIV = pre @ [a, b, c, d]"
    using append_take_drop_id [of "length baseIV - 4" baseIV] by (simp add: pre_def)
  obtain w x y z where wi: "be32 (ucast i) = [w, x, y, z]"
    by (rule length_4E [of "be32 (ucast i)"]) simp_all
  obtain w' x' y' z' where wj: "be32 (ucast j) = [w', x', y', z']"
    by (rule length_4E [of "be32 (ucast j)"]) simp_all
  have lim: "i \<le> 0xFFFFFFFF" "j \<le> 0xFFFFFFFF"
    using i j by (auto simp: deriveLegacyChunkIVIndex_def split: if_splits)
  then have "\<not> 0xFFFFFFFF < i" "\<not> 0xFFFFFFFF < j" by simp_all
  then have "be32 (ucast i) = be32 (ucast j)"
    using i j by (auto simp: deriveLegacyChunkIVIndex_def split wi wj xorIndex_last4 xor_left_cancel)
  then have "(ucast i :: u32) = ucast j" by simp
  then have "unat (ucast i :: u32) = unat (ucast j :: u32)" by simp
  moreover have "unat i < 2 ^ 32" "unat j < 2 ^ 32"
    using lim by (simp_all add: word_le_nat_alt)
  ultimately have "unat i = unat j" by (simp add: unsigned_ucast_eq take_bit_nat_eq_self)
  then show ?thesis by (rule unsigned_word_eqI)
qed

end
