(* ===== verification/Chunked_Spec.thy ===== *)
theory Chunked_Spec
  imports Chunked_Wire
begin

text \<open>
  What a chunked object is, independent of how it is streamed: data records in order, each
  sealed under the nonce and authenticated data of its position, followed in version 2 by a
  terminal record over the record count and the plaintext size. The encrypting reader
  produces such objects and the decrypting readers are proved against them.
\<close>

section \<open>Objects\<close>

record chunk_scheme =
  cs_aead :: aead
  cs_terminal :: "aead option"
  cs_version :: int
  cs_baseIV :: bytes
  cs_binding :: "(object_context \<times> bytes) option"
  cs_hkdfIV :: bool

definition record_params :: "hkdf \<Rightarrow> chunk_scheme \<Rightarrow> u64 \<Rightarrow> goerr + (bytes \<times> bytes)" where
  "record_params H c i =
     (if cs_version c = ChunkedFormatV2 then
        and_then (deriveChunkNonceHKDF H (cs_baseIV c) ChunkedFormatV2 i) (\<lambda>n.
        and_then (case cs_binding c of
                    Some (oc, b) \<Rightarrow> buildObjectAAD aadChunkedV2Data oc b [i]
                  | None \<Rightarrow> Inr (buildChunkAAD ChunkedFormatV2 i)) (\<lambda>a. Inr (n, a)))
      else
        and_then (if cs_hkdfIV c then deriveChunkIVHKDFIndex H (cs_baseIV c) i
                  else deriveLegacyChunkIVIndex (cs_baseIV c) i) (\<lambda>n. Inr (n, [])))"

definition terminal_params :: "hkdf \<Rightarrow> chunk_scheme \<Rightarrow> u64 \<Rightarrow> u64 \<Rightarrow> goerr + (bytes \<times> bytes)" where
  "terminal_params H c count sz =
     and_then (deriveTerminalNonceHKDF H (cs_baseIV c) ChunkedFormatV2) (\<lambda>n.
     and_then (case cs_binding c of
                 Some (oc, b) \<Rightarrow> buildObjectAAD aadChunkedV2Trailer oc b [count, sz]
               | None \<Rightarrow> Inr (buildTerminalAAD ChunkedFormatV2)) (\<lambda>a. Inr (n, a)))"

definition seal_record :: "hkdf \<Rightarrow> chunk_scheme \<Rightarrow> u64 \<Rightarrow> bytes \<Rightarrow> goerr + bytes" where
  "seal_record H c i pt = and_then (record_params H c i) (\<lambda>(n, a). goSeal (cs_aead c) n pt a)"

definition open_record :: "hkdf \<Rightarrow> chunk_scheme \<Rightarrow> u64 \<Rightarrow> bytes \<Rightarrow> goerr + bytes" where
  "open_record H c i ct = and_then (record_params H c i) (\<lambda>(n, a). goOpen (cs_aead c) n ct a)"

definition seal_terminal :: "hkdf \<Rightarrow> chunk_scheme \<Rightarrow> u64 \<Rightarrow> u64 \<Rightarrow> goerr + bytes" where
  "seal_terminal H c count sz =
     (if cs_version c = ChunkedFormatV2 then
        (case cs_terminal c of
           None \<Rightarrow> Inl (Err ''terminal AEAD is not configured'')
         | Some T \<Rightarrow> and_then (terminal_params H c count sz) (\<lambda>(n, a).
             goSeal T n (encodeChunkedTerminal count sz) a))
      else Inr [])"

primrec seal_records :: "hkdf \<Rightarrow> chunk_scheme \<Rightarrow> u64 \<Rightarrow> bytes list \<Rightarrow> goerr + bytes list" where
  "seal_records H c i [] = Inr []"
| "seal_records H c i (p # ps) =
     and_then (seal_record H c i p) (\<lambda>x. and_then (seal_records H c (i + 1) ps) (\<lambda>xs. Inr (x # xs)))"

definition seal_object :: "hkdf \<Rightarrow> chunk_scheme \<Rightarrow> nat \<Rightarrow> bytes \<Rightarrow> goerr + bytes" where
  "seal_object H c chunkSize p =
     and_then (seal_records H c 0 (chunks chunkSize p)) (\<lambda>recs.
     and_then (seal_terminal H c (of_nat (length recs)) (of_nat (length p))) (\<lambda>t.
       Inr (concat recs @ t)))"

section \<open>Lemmas\<close>

lemma seal_records_length: "seal_records H c i ps = Inr xs \<Longrightarrow> length xs = length ps"
  by (induction ps arbitrary: i xs) (auto simp: and_then_eq_Inr)

lemma seal_records_nth:
  "seal_records H c i ps = Inr xs \<Longrightarrow> k < length ps \<Longrightarrow> seal_record H c (i + of_nat k) (ps ! k) = Inr (xs ! k)"
proof (induction ps arbitrary: i xs k)
  case (Cons p ps)
  then obtain x ys where x: "seal_record H c i p = Inr x" "seal_records H c (i + 1) ps = Inr ys" "xs = x # ys"
    by (auto simp: and_then_eq_Inr)
  show ?case
  proof (cases k)
    case (Suc m)
    with Cons.IH [OF x(2), of m] Cons.prems x show ?thesis by (simp add: ac_simps)
  qed (use x in simp)
qed simp

lemma seal_record_Inr:
  "seal_record H c i p = Inr x \<longleftrightarrow>
     (\<exists>n a. record_params H c i = Inr (n, a) \<and> length n = nonceSize \<and> x = Seal (cs_aead c) n p a)"
  by (auto simp: seal_record_def and_then_eq_Inr goSeal_def split: if_splits)

lemma open_record_Inr:
  "aead_laws (cs_aead c) \<Longrightarrow> open_record H c i x = Inr p \<longleftrightarrow> seal_record H c i p = Inr x"
  unfolding seal_record_Inr by (auto simp: open_record_def and_then_eq_Inr goOpen_Inr)

lemma seal_record_length:
  "aead_laws (cs_aead c) \<Longrightarrow> seal_record H c i p = Inr x \<Longrightarrow> length x = length p + 16"
  by (auto simp: seal_record_Inr aead_seal_length)

lemma seal_record_ok:
  "record_params H c i = Inr (n, a) \<Longrightarrow> length n = nonceSize \<Longrightarrow> \<exists>x. seal_record H c i p = Inr x"
  by (simp add: seal_record_Inr)

lemma seal_records_ok:
  "\<forall>k < length ps. \<exists>n a. record_params H c (i + of_nat k) = Inr (n, a) \<and> length n = nonceSize \<Longrightarrow>
     \<exists>xs. seal_records H c i ps = Inr xs"
proof (induction ps arbitrary: i)
  case (Cons p ps)
  then have "\<forall>k < length ps. \<exists>n a. record_params H c (i + 1 + of_nat k) = Inr (n, a) \<and> length n = nonceSize"
    by (auto simp: ac_simps dest: spec [of _ "Suc _"])
  from Cons.IH [OF this] obtain xs where "seal_records H c (i + 1) ps = Inr xs" ..
  moreover obtain x where "seal_record H c i p = Inr x"
    using Cons.prems seal_record_ok by fastforce
  ultimately show ?case by simp
qed simp

lemma seal_terminal_length:
  assumes "\<And>T. cs_terminal c = Some T \<Longrightarrow> aead_laws T" and "hkdf_laws H"
    and "seal_terminal H c count sz = Inr t"
  shows "length t = (if cs_version c = 2 then 32 else 0)"
  using assms
  by (auto simp: seal_terminal_def and_then_eq_Inr goSeal_def chunk_consts aead_seal_length
      split: if_splits option.splits)

lemma record_params_bound:
  assumes "hkdf_laws H" and "cs_version c = 2" and "cs_binding c = Some (oc, b)"
    and "Validate oc = Inr ()" and "length b = 16"
  shows "\<exists>n a. record_params H c i = Inr (n, a) \<and> length n = nonceSize \<and>
    buildObjectAAD aadChunkedV2Data oc b [i] = Inr a"
proof -
  obtain n where n: "deriveChunkNonceHKDF H (cs_baseIV c) 2 i = Inr n" using v2_nonces_total by blast
  obtain a where a: "buildObjectAAD aadChunkedV2Data oc b [i] = Inr a"
    using assms by (simp add: buildObjectAAD_Inr aadDomains_def)
  show ?thesis
    using assms n a chunk_nonce_length [OF assms(1) n]
    by (simp add: record_params_def chunk_consts)
qed

lemma terminal_params_bound:
  assumes "hkdf_laws H" and "cs_binding c = Some (oc, b)"
    and "Validate oc = Inr ()" and "length b = 16"
  shows "\<exists>n a. terminal_params H c count sz = Inr (n, a) \<and> length n = nonceSize \<and>
    buildObjectAAD aadChunkedV2Trailer oc b [count, sz] = Inr a"
proof -
  obtain n where n: "deriveTerminalNonceHKDF H (cs_baseIV c) 2 = Inr n" using v2_nonces_total by blast
  obtain a where a: "buildObjectAAD aadChunkedV2Trailer oc b [count, sz] = Inr a"
    using assms by (simp add: buildObjectAAD_Inr aadDomains_def)
  show ?thesis
    using assms n a terminal_nonce_length [OF assms(1) n]
    by (simp add: terminal_params_def chunk_consts)
qed

text \<open>A bound version 2 object always exists.\<close>

lemma seal_object_bound:
  assumes "hkdf_laws H" and "cs_version c = 2" and "cs_binding c = Some (oc, b)"
    and "Validate oc = Inr ()" and "length b = 16" and "cs_terminal c = Some T"
  shows "\<exists>obj. seal_object H c n p = Inr obj"
proof -
  obtain xs where xs: "seal_records H c 0 (chunks n p) = Inr xs"
    using seal_records_ok [of "chunks n p" H c 0] record_params_bound [OF assms(1-5)] by blast
  have "\<exists>t. seal_terminal H c count sz = Inr t" for count sz
    using terminal_params_bound [OF assms(1,3-5), of count sz] assms(2,6)
    by (auto simp: seal_terminal_def chunk_consts goSeal_def)
  then obtain t where "seal_terminal H c (of_nat (length xs)) (of_nat (length p)) = Inr t" by blast
  with xs show ?thesis by (simp add: seal_object_def)
qed

text \<open>The stored size of an object is the one computed by the size equation.\<close>

lemma seal_records_total_length:
  "aead_laws (cs_aead c) \<Longrightarrow> seal_records H c i ps = Inr xs \<Longrightarrow>
     length (concat xs) = length (concat ps) + 16 * length ps"
  by (induction ps arbitrary: i xs) (auto simp: and_then_eq_Inr seal_record_length)

lemma chunk_count_length: "0 < n \<Longrightarrow> chunk_count (int (length p)) (int n) = int (length (chunks n p))"
proof (cases "p = []")
  case False
  assume n: "0 < n"
  then have "length (chunks n p) = (length p - 1) div n + 1"
    using False div_add_self1 [of n "length p - 1"]
    by (simp add: length_chunks Suc_leI ac_simps)
  with n False show ?thesis by (simp add: chunk_count_def zdiv_int of_nat_diff Suc_leI)
qed (simp add: chunk_count_def)

lemma seal_object_length:
  assumes "aead_laws (cs_aead c)" and "\<And>T. cs_terminal c = Some T \<Longrightarrow> aead_laws T" and "hkdf_laws H"
    and "seal_object H c n p = Inr obj" and "0 < n"
  shows "int (length obj) = data_size (int (length p)) (int n) + terminal_size (cs_version c)"
proof -
  obtain xs t where xs: "seal_records H c 0 (chunks n p) = Inr xs"
      "seal_terminal H c (of_nat (length xs)) (of_nat (length p)) = Inr t" "obj = concat xs @ t"
    using assms(4) by (auto simp: seal_object_def and_then_eq_Inr)
  show ?thesis
    using seal_records_total_length [OF assms(1) xs(1)] seal_terminal_length [OF assms(2,3) xs(2)] xs(3)
      chunk_count_length [OF assms(5), of p] assms(5)
    by (auto simp: data_size_def terminal_size_def)
qed

section \<open>Reading an object\<close>

text \<open>
  Reading in one piece: all records but the last have full size; the last one and the
  terminal are found from the end. The running plaintext size must stay below \<open>2^64\<close>.
\<close>

definition open_data :: "hkdf \<Rightarrow> chunk_scheme \<Rightarrow> u64 \<Rightarrow> u64 \<Rightarrow> bytes \<Rightarrow> goerr + bytes" where
  "open_data H c i sz ct =
     and_then (record_params H c i) (\<lambda>(n, a).
       case goOpen (cs_aead c) n ct a of
         Inl e \<Rightarrow> Inl (wrapErr (Err ''failed to decrypt chunk'') e)
       | Inr p \<Rightarrow> if of_nat (length p) > 0xFFFFFFFFFFFFFFFF - sz
                  then Inl (Err ''plaintext size overflow'') else Inr p)"

definition invalid_record :: "goerr + 'a \<Rightarrow> goerr + 'a" where
  "invalid_record m = (case m of
     Inl e \<Rightarrow> Inl (wrapErr (ErrChunkedObjectIncomplete ''invalid data record'') e) | Inr x \<Rightarrow> Inr x)"

definition open_terminal :: "hkdf \<Rightarrow> chunk_scheme \<Rightarrow> u64 \<Rightarrow> u64 \<Rightarrow> bytes \<Rightarrow> goerr + unit" where
  "open_terminal H c count sz t =
     (case cs_terminal c of
        None \<Rightarrow> Inl (ErrChunkedObjectIncomplete ''missing or short terminal'')
      | Some T \<Rightarrow>
          if length t \<noteq> 32 then Inl (ErrChunkedObjectIncomplete ''missing or short terminal'')
          else and_then (terminal_params H c count sz) (\<lambda>(n, a).
            case goOpen T n t a of
              Inl e \<Rightarrow> Inl (wrapErr (ErrChunkedObjectIncomplete ''terminal authentication failed'') e)
            | Inr plain \<Rightarrow> and_then (decodeChunkedTerminal plain) (\<lambda>(count', sz').
                if count' \<noteq> count \<or> sz' \<noteq> sz
                then Inl (ErrChunkedObjectIncomplete ''terminal mismatch'') else Inr ())))"

function open_object :: "hkdf \<Rightarrow> chunk_scheme \<Rightarrow> nat \<Rightarrow> u64 \<Rightarrow> u64 \<Rightarrow> bytes \<Rightarrow> goerr + bytes list" where
  "open_object H c cs i sz s =
     (if 32 + cs + 16 < length s then
        and_then (invalid_record (open_data H c i sz (take (cs + 16) s))) (\<lambda>p.
        and_then (open_object H c cs (i + 1) (sz + of_nat (length p)) (drop (cs + 16) s)) (\<lambda>ps.
          Inr (p # ps)))
      else if length s < 32 then Inl (ErrChunkedObjectIncomplete ''missing or short terminal'')
      else if length s = 32 then and_then (open_terminal H c i sz s) (\<lambda>_. Inr [])
      else
        and_then (invalid_record (open_data H c i sz (take (length s - 32) s))) (\<lambda>p.
        and_then (open_terminal H c (i + 1) (sz + of_nat (length p)) (drop (length s - 32) s)) (\<lambda>_.
          Inr [p])))"
  by pat_completeness auto
termination
  by (relation "measure (\<lambda>(H, c, cs, i, sz, s). length s)") auto

declare open_object.simps [simp del]

definition full_records :: "nat \<Rightarrow> bytes list \<Rightarrow> bool" where
  "full_records cs ps \<longleftrightarrow> (\<forall>p \<in> set (butlast ps). length p = cs) \<and> (\<forall>p \<in> set ps. length p \<le> cs)"

lemma full_records_Cons:
  "full_records cs (p # ps) \<longleftrightarrow> full_records cs ps \<and> length p \<le> cs \<and> (ps \<noteq> [] \<longrightarrow> length p = cs)"
  by (auto simp: full_records_def)

lemma full_records_Nil [simp]: "full_records cs []"
  by (simp add: full_records_def)

lemma full_records_chunks: "full_records cs (chunks cs p)"
proof (induction cs p rule: chunks.induct)
  case (1 n xs)
  show ?case
  proof (cases "xs = [] \<or> n = 0")
    case False
    have "length (take n xs) = n" if "chunks n (drop n xs) \<noteq> []"
      using that by (cases "drop n xs = []") auto
    with 1 False show ?thesis by (simp add: chunks_step full_records_Cons)
  qed (auto simp: chunks.simps)
qed

lemma open_data_Inr:
  assumes "aead_laws (cs_aead c)" and "length x \<le> 2 ^ 63"
  shows "open_data H c i sz x = Inr p \<longleftrightarrow> seal_record H c i p = Inr x \<and> unat sz + length p < 2 ^ 64"
proof -
  have "length p < 2 ^ 64" if "seal_record H c i p = Inr x"
    using seal_record_length [OF assms(1) that] assms(2) by simp
  then have "open_data H c i sz x = Inr p \<longleftrightarrow>
      open_record H c i x = Inr p \<and> \<not> 0xFFFFFFFFFFFFFFFF - sz < of_nat (length p)"
    by (auto simp: open_data_def open_record_def and_then_eq_Inr case_err_eq_Inr split: if_splits)
  then show ?thesis
    using \<open>seal_record H c i p = Inr x \<Longrightarrow> length p < 2 ^ 64\<close> u64_room_iff [of "length p" sz]
    by (auto simp: open_record_Inr [OF assms(1)])
qed

lemma invalid_record_ok [simp]: "invalid_record (Inr x) = Inr x"
  by (simp add: invalid_record_def)

lemma invalid_record_Inr [simp]: "invalid_record m = Inr x \<longleftrightarrow> m = Inr x"
  by (auto simp: invalid_record_def split: sum.splits)

lemma open_terminal_Inr:
  assumes "cs_terminal c = Some T" and "aead_laws T" and "cs_version c = 2"
  shows "open_terminal H c count sz t = Inr u \<longleftrightarrow> seal_terminal H c count sz = Inr t"
proof -
  have len: "length (Seal T n (encodeChunkedTerminal count sz) a) = 32" if "length n = nonceSize" for n a
    using aead_seal_length [OF assms(2) that] by simp
  show ?thesis
    unfolding open_terminal_def seal_terminal_def using assms
    by (auto simp: and_then_eq_Inr case_err_eq_Inr goOpen_Inr goSeal_def chunk_consts len
        decodeChunkedTerminal_Inr split: if_splits)
qed

text \<open>
  Reading accepts exactly the byte strings that are a sequence of sealed records, all full
  but the last, followed by the terminal over their number and total size.
\<close>

lemma open_object_sound:
  assumes "cs_terminal c = Some T" and "aead_laws T" and "cs_version c = 2" and "aead_laws (cs_aead c)"
    and "length s \<le> 2 ^ 63" and "open_object H c cs i sz s = Inr ps"
  shows "full_records cs ps \<and> unat sz + length (concat ps) < 2 ^ 64 \<and>
    (\<exists>xs t. seal_records H c i ps = Inr xs \<and>
      seal_terminal H c (i + of_nat (length ps)) (sz + of_nat (length (concat ps))) = Inr t \<and>
      s = concat xs @ t)"
  using assms
proof (induction H c cs i sz s arbitrary: ps rule: open_object.induct)
  case (1 H c cs i sz s)
  note laws = "1.prems"(1-4) and data = open_data_Inr [OF "1.prems"(4)] and opened = "1.prems"(6)
  have len_s: "length s \<le> 2 ^ 63" by (rule "1.prems"(5))
  consider (more) "32 + cs + 16 < length s" | (short) "length s < 32" | (none) "length s = 32"
    | (last) "32 < length s" "length s \<le> 32 + cs + 16" by linarith
  then show ?case
  proof cases
    case more
    then obtain p qs where p: "open_data H c i sz (take (cs + 16) s) = Inr p"
        "open_object H c cs (i + 1) (sz + of_nat (length p)) (drop (cs + 16) s) = Inr qs" "ps = p # qs"
      using opened by (auto simp: open_object.simps [of H c cs i sz s] and_then_eq_Inr)
    have sealed: "seal_record H c i p = Inr (take (cs + 16) s)" "unat sz + length p < 2 ^ 64"
      using p(1) data [of "take (cs + 16) s" H i sz p] len_s by simp_all
    then have len: "length p = cs" using seal_record_length [OF laws(4)] more by fastforce
    have IH: "full_records cs qs" "unat (sz + of_nat (length p)) + length (concat qs) < 2 ^ 64"
        "\<exists>xs t. seal_records H c (i + 1) qs = Inr xs \<and>
          seal_terminal H c (i + 1 + of_nat (length qs))
            (sz + of_nat (length p) + of_nat (length (concat qs))) = Inr t \<and>
          drop (cs + 16) s = concat xs @ t"
      using "1.IH" [OF more laws _ p(2)] len_s by simp_all
    from IH(3) obtain xs t where xs: "seal_records H c (i + 1) qs = Inr xs"
        "seal_terminal H c (i + 1 + of_nat (length qs))
            (sz + of_nat (length p) + of_nat (length (concat qs))) = Inr t"
        "drop (cs + 16) s = concat xs @ t" by blast
    have "s = concat (take (cs + 16) s # xs) @ t"
      using xs(3) append_take_drop_id [of "cs + 16" s] by simp
    moreover have "seal_records H c i ps = Inr (take (cs + 16) s # xs)" using sealed xs p(3) by simp
    moreover have "seal_terminal H c (i + of_nat (length ps)) (sz + of_nat (length (concat ps))) = Inr t"
      using xs(2) p(3) by (simp add: ac_simps)
    moreover have "unat sz + length (concat ps) < 2 ^ 64"
      using IH(2) u64_add_nat [OF sealed(2)] p(3) by simp
    ultimately show ?thesis using IH(1) len p(3) by (auto simp: full_records_Cons)
  next
    case short
    then show ?thesis using opened by (simp add: open_object.simps [of H c cs i sz s])
  next
    case none
    then show ?thesis
      using opened open_terminal_Inr [OF laws(1-3)] unsigned_less [of sz]
      by (auto simp: open_object.simps [of H c cs i sz s] and_then_eq_Inr)
  next
    case last
    let ?body = "take (length s - 32) s" and ?t = "drop (length s - 32) s"
    obtain p where p: "open_data H c i sz ?body = Inr p"
        "open_terminal H c (i + 1) (sz + of_nat (length p)) ?t = Inr ()" "ps = [p]"
      using opened last by (auto simp: open_object.simps [of H c cs i sz s] and_then_eq_Inr)
    have sealed: "seal_record H c i p = Inr ?body" "unat sz + length p < 2 ^ 64"
      using p(1) data [of ?body H i sz p] len_s by simp_all
    moreover have "length p \<le> cs" using seal_record_length [OF laws(4) sealed(1)] last by simp
    moreover have "seal_terminal H c (i + 1) (sz + of_nat (length p)) = Inr ?t"
      using p(2) open_terminal_Inr [OF laws(1-3)] by simp
    moreover have "s = concat [?body] @ ?t" by simp
    ultimately show ?thesis using p(3) by (fastforce simp: full_records_def)
  qed
qed

lemma open_object_complete:
  assumes "cs_terminal c = Some T" and "aead_laws T" and "cs_version c = 2" and "aead_laws (cs_aead c)"
    and "full_records cs ps" and "cs < 2 ^ 62" and "unat sz + length (concat ps) < 2 ^ 64"
    and "seal_records H c i ps = Inr xs"
    and "seal_terminal H c (i + of_nat (length ps)) (sz + of_nat (length (concat ps))) = Inr t"
  shows "open_object H c cs i sz (concat xs @ t) = Inr ps"
  using assms(5,7-9)
proof (induction ps arbitrary: i sz xs)
  case Nil
  have "open_terminal H c i sz t = Inr ()" "length t = 32"
    using Nil open_terminal_Inr [OF assms(1-3), of H i sz t]
    by (auto simp: open_terminal_def assms(1) split: if_splits)
  then show ?case using Nil(3) by (simp add: open_object.simps)
next
  case (Cons p ps)
  obtain x ys where x: "seal_record H c i p = Inr x" and ys: "seal_records H c (i + 1) ps = Inr ys"
      and xs: "xs = x # ys"
    using Cons.prems(3) by (auto simp: and_then_eq_Inr)
  have len: "length x = length p + 16" "length p \<le> cs"
    using seal_record_length [OF assms(4) x] Cons.prems(1) by (simp_all add: full_records_Cons)
  have room: "unat sz + length p < 2 ^ 64" using Cons.prems(2) by simp
  have opened: "open_data H c i sz x = Inr p"
    using x room len assms(6) by (simp add: open_data_Inr [OF assms(4)])
  have "open_terminal H c (i + of_nat (length (p # ps))) (sz + of_nat (length (concat (p # ps)))) t = Inr ()"
    using Cons.prems(4) open_terminal_Inr [OF assms(1-3)] by blast
  then have t: "length t = 32" by (auto simp: open_terminal_def assms(1) split: if_splits)
  show ?case
  proof (cases ps)
    case Nil
    have "open_terminal H c (i + 1) (sz + of_nat (length p)) t = Inr ()"
      using Cons.prems(4) open_terminal_Inr [OF assms(1-3)] Nil by simp
    then show ?thesis
      using Nil ys xs len t opened by (simp add: open_object.simps)
  next
    case (Cons q qs)
    then have full: "length p = cs" using Cons.prems(1) by (simp add: full_records_Cons)
    have "16 \<le> length (concat ys)"
      using ys seal_records_total_length [OF assms(4) ys] Cons by simp
    moreover have "length (concat xs @ t) = length x + length (concat ys) + length t" using xs by simp
    ultimately have more: "32 + cs + 16 < length (concat xs @ t)" using len full t by linarith
    have "open_object H c cs (i + 1) (sz + of_nat (length p)) (concat ys @ t) = Inr ps"
    proof (rule Cons.IH)
      show "unat (sz + of_nat (length p)) + length (concat ps) < 2 ^ 64"
        using Cons.prems(2) u64_add_nat [OF room] by simp
      show "seal_terminal H c (i + 1 + of_nat (length ps))
          (sz + of_nat (length p) + of_nat (length (concat ps))) = Inr t"
        using Cons.prems(4) by (simp add: ac_simps)
    qed (use Cons.prems ys in \<open>simp_all add: full_records_Cons\<close>)
    moreover have "take (cs + 16) (concat xs @ t) = x" "drop (cs + 16) (concat xs @ t) = concat ys @ t"
      using xs len full by simp_all
    ultimately show ?thesis
      using more opened by (subst open_object.simps) simp
  qed
qed

end
