(* ===== verification/Go_Reader.thy ===== *)
theory Go_Reader
  imports Gateway_Prelude
begin

text \<open>
  Readers in the sense of Go's \<^verbatim>\<open>io.Reader\<close>: the contract a client relies on, and the shape
  the streaming readers of the gateway share, a buffer of pending output refilled by one
  fetch at a time. A reader of that shape satisfies the contract; the encrypting, decrypting
  and range readers are interpretations.
\<close>

section \<open>The contract of a reader\<close>

text \<open>
  A reader is a state with a \<^verbatim>\<open>Read\<close>: given \<open>len(p)\<close>, it returns the bytes written to the
  front of \<open>p\<close>, the error if any, and the state afterwards. \<open>drain\<close> is the loop of a client
  that calls \<^verbatim>\<open>Read\<close> with buffers of the given sizes until the first error, as
  \<^verbatim>\<open>io.ReadAll\<close> and \<^verbatim>\<open>io.Copy\<close> do.
\<close>

type_synonym 'r read_fn = "'r \<Rightarrow> nat \<Rightarrow> bytes \<times> goerr option \<times> 'r"

fun drain :: "'r read_fn \<Rightarrow> nat list \<Rightarrow> 'r \<Rightarrow> bytes \<times> goerr option \<times> 'r" where
  "drain rd [] r = ([], None, r)"
| "drain rd (n # ns) r =
     (case rd r n of
        (b, Some e, r') \<Rightarrow> (b, Some e, r')
      | (b, None, r') \<Rightarrow> (case drain rd ns r' of (bs, e, r'') \<Rightarrow> (b @ bs, e, r'')))"

text \<open>
  In a state that satisfies \<open>inv\<close>, a \<^verbatim>\<open>Read\<close> with room for at least one byte delivers a prefix
  of the bytes that remain (\<open>rest\<close>); it makes progress unless it reports an error; and the
  only error it reports is the state's \<open>fin\<close>, once nothing remains.
\<close>

locale go_reader =
  fixes read :: "'r read_fn"
    and inv :: "'r \<Rightarrow> bool"
    and rest :: "'r \<Rightarrow> bytes"
    and fin :: "'r \<Rightarrow> goerr"
  assumes read_contract:
    "inv r \<Longrightarrow> 0 < n \<Longrightarrow> read r n = (b, e, r') \<Longrightarrow>
       inv r' \<and> rest r = b @ rest r' \<and> fin r' = fin r \<and> length b \<le> n \<and>
       (case e of None \<Rightarrow> b \<noteq> [] | Some x \<Rightarrow> x = fin r \<and> rest r' = [])"
begin

lemma read_progress: "inv r \<Longrightarrow> 0 < n \<Longrightarrow> read r n = (b, None, r') \<Longrightarrow>
    inv r' \<and> b \<noteq> [] \<and> rest r = b @ rest r' \<and> fin r' = fin r"
  by (frule (2) read_contract) simp

lemma read_end: "inv r \<Longrightarrow> 0 < n \<Longrightarrow> read r n = (b, Some x, r') \<Longrightarrow>
    inv r' \<and> x = fin r \<and> rest r' = [] \<and> rest r = b"
  by (frule (2) read_contract) simp

text \<open>Whatever the buffer sizes, what a client has read is a prefix of \<open>rest\<close>.\<close>

lemma drain_prefix:
  "inv r \<Longrightarrow> \<forall>n \<in> set ns. 0 < n \<Longrightarrow> drain read ns r = (b, e, r') \<Longrightarrow>
     inv r' \<and> rest r = b @ rest r' \<and> (\<forall>x. e = Some x \<longrightarrow> x = fin r \<and> rest r' = [])"
proof (induction ns arbitrary: r b e r')
  case (Cons n ns)
  obtain b1 e1 r1 where rd: "read r n = (b1, e1, r1)" by (cases "read r n")
  show ?case
  proof (cases e1)
    case None
    then have r1: "inv r1" "rest r = b1 @ rest r1" "fin r1 = fin r"
      using read_progress [of r n b1 r1] Cons.prems(1,2) rd by simp_all
    obtain b2 e2 r2 where dr: "drain read ns r1 = (b2, e2, r2)" by (cases "drain read ns r1")
    with Cons.prems rd None have eqs: "b = b1 @ b2" "e = e2" "r' = r2" by auto
    have "inv r2 \<and> rest r1 = b2 @ rest r2 \<and> (\<forall>x. e2 = Some x \<longrightarrow> x = fin r1 \<and> rest r2 = [])"
      using Cons.IH [OF r1(1) _ dr] Cons.prems(2) by simp
    with eqs r1 show ?thesis by simp
  next
    case (Some x)
    then show ?thesis using read_end [of r n b1 x r1] Cons.prems rd by auto
  qed
qed simp

text \<open>Enough calls deliver everything: one more than there are bytes.\<close>

lemma drain_complete:
  "inv r \<Longrightarrow> \<forall>n \<in> set ns. 0 < n \<Longrightarrow> length (rest r) < length ns \<Longrightarrow>
     \<exists>r'. drain read ns r = (rest r, Some (fin r), r')"
proof (induction ns arbitrary: r)
  case (Cons n ns)
  obtain b1 e1 r1 where rd: "read r n = (b1, e1, r1)" by (cases "read r n")
  show ?case
  proof (cases e1)
    case None
    then have r1: "inv r1" "b1 \<noteq> []" "rest r = b1 @ rest r1" "fin r1 = fin r"
      using read_progress [of r n b1 r1] Cons.prems(1,2) rd by simp_all
    then have "length (rest r1) < length ns" using Cons.prems(3) by (cases b1) auto
    with Cons.IH [OF r1(1)] Cons.prems(2) obtain r2 where
      "drain read ns r1 = (rest r1, Some (fin r1), r2)" by auto
    with rd None r1 show ?thesis by simp
  next
    case (Some x)
    then show ?thesis using read_end [of r n b1 x r1] Cons.prems rd by auto
  qed
qed simp

end

section \<open>Contexts\<close>

text \<open>
  The context of a request, as the readers see it: the number of polls of \<^verbatim>\<open>ctx.Done()\<close>
  until it is cancelled, \<open>None\<close> when it never is. A poll gives the context afterwards, or
  \<open>None\<close> when the context is cancelled.
\<close>

type_synonym ctx = "nat option"

definition poll :: "ctx \<Rightarrow> ctx option" where
  "poll c = (case c of None \<Rightarrow> Some None | Some 0 \<Rightarrow> None | Some (Suc k) \<Rightarrow> Some (Some k))"

lemma poll_None [simp]: "poll None = Some None"
  by (simp add: poll_def)

section \<open>Readers with a pending buffer\<close>

text \<open>
  The loop of such a reader copies pending output to the caller's buffer (\<open>consume\<close>), and
  when there is none and the reader is not finished, runs one fetch, which refills \<open>pend\<close>,
  finishes or fails. A reader may report \<open>EOF\<close> together with its last bytes (\<open>early\<close>).
  \<open>tail\<close> is what fetches still have to deliver and \<open>fin\<close> how they end.
\<close>

locale buffered_reader =
  fixes read :: "'r read_fn"
    and loop :: "'r read_fn"
    and fetch :: "'r \<Rightarrow> 'r"
    and pend :: "'r \<Rightarrow> bytes"
    and consume :: "nat \<Rightarrow> 'r \<Rightarrow> 'r"
    and early :: "'r \<Rightarrow> bool"
    and finished :: "'r \<Rightarrow> bool"
    and fail :: "'r \<Rightarrow> goerr option"
    and size :: "'r \<Rightarrow> nat"
    and inv :: "'r \<Rightarrow> bool"
    and tail :: "'r \<Rightarrow> bytes"
    and fin :: "'r \<Rightarrow> goerr"
  assumes read_eq: "inv r \<Longrightarrow> 0 < n \<Longrightarrow> read r n =
      (case fail r of
         Some e \<Rightarrow> ([], Some e, r)
       | None \<Rightarrow> (case loop r n of
           (b, Some e, r') \<Rightarrow> (b, Some e, r')
         | (b, None, r') \<Rightarrow> (b, if b = [] then Some EOF else None, r')))"
    and loop_eq: "inv r \<Longrightarrow> fail r = None \<Longrightarrow> loop r n =
      (if n = 0 then ([], None, r)
       else if pend r \<noteq> [] then
         (if early (consume n r) then (take n (pend r), Some EOF, consume n r)
          else case loop (consume n r) (n - length (pend r)) of
              (b, e, r') \<Rightarrow> (take n (pend r) @ b, e, r'))
       else if finished r then ([], None, r)
       else case fail (fetch r) of
           Some e \<Rightarrow> ([], Some e, fetch r)
         | None \<Rightarrow> loop (fetch r) n)"
    and consume: "inv r \<Longrightarrow> fail r = None \<Longrightarrow>
      inv (consume n r) \<and> pend (consume n r) = drop n (pend r) \<and> fail (consume n r) = None \<and>
      size (consume n r) \<le> size r \<and> tail (consume n r) = tail r \<and> fin (consume n r) = fin r"
    and early_end: "inv r \<Longrightarrow> early r \<Longrightarrow> finished r \<and> pend r = []"
    and finished_end: "inv r \<Longrightarrow> fail r = None \<Longrightarrow> finished r \<Longrightarrow> tail r = [] \<and> fin r = EOF"
    and fail_end: "fail r = Some e \<Longrightarrow> fin r = e"
    and fetch_step: "inv r \<Longrightarrow> fail r = None \<Longrightarrow> \<not> finished r \<Longrightarrow> pend r = [] \<Longrightarrow>
      inv (fetch r) \<and> fin (fetch r) = fin r \<and>
      (case fail (fetch r) of
         None \<Rightarrow> tail r = pend (fetch r) @ tail (fetch r) \<and> size (fetch r) < size r
       | Some e \<Rightarrow> tail r = [])"
begin

lemma loop_contract:
  "inv r \<Longrightarrow> fail r = None \<Longrightarrow> loop r n = (b, e, r') \<Longrightarrow>
     inv r' \<and> pend r @ tail r = b @ (if fail r' = None then pend r' @ tail r' else []) \<and>
     fin r' = fin r \<and> length b \<le> n \<and>
     (case e of None \<Rightarrow> fail r' = None \<and> (length b = n \<or> finished r' \<and> pend r' = [])
      | Some x \<Rightarrow> x = fin r \<and> (if fail r' = None then pend r' @ tail r' else []) = [])"
proof (induction "size r + n" arbitrary: r n b e r' rule: less_induct)
  case less
  let ?c = "consume n r" and ?n = "n - length (pend r)"
  note loop = loop_eq [OF less.prems(1,2), of n]
  have c: "inv ?c" "pend ?c = drop n (pend r)" "fail ?c = None" "size ?c \<le> size r" "tail ?c = tail r" "fin ?c = fin r"
    using consume [OF less.prems(1,2)] by simp_all
  consider "n = 0" | "0 < n" "pend r \<noteq> []" "early ?c" | "0 < n" "pend r \<noteq> []" "\<not> early ?c"
    | "0 < n" "pend r = []" "finished r" | "0 < n" "pend r = []" "\<not> finished r" by auto
  then show ?case
  proof cases
    case 1
    then show ?thesis using less.prems by (auto simp: loop_eq [OF less.prems(1,2), of 0])
  next
    case 2
    then have "b = take n (pend r)" "e = Some EOF" "r' = ?c" using less.prems(3) by (simp_all add: loop)
    moreover have "finished ?c" "drop n (pend r) = []" using early_end [OF c(1) 2(3)] c(2) by simp_all
    ultimately show ?thesis using c finished_end [OF c(1,3)] by simp
  next
    case 3
    obtain b1 e1 r1 where lp: "loop ?c ?n = (b1, e1, r1)" by (cases "loop ?c ?n")
    have smaller: "size ?c + ?n < size r + n" using 3 c(4) by (cases "pend r") simp_all
    have eqs: "b = take n (pend r) @ b1" "e = e1" "r' = r1"
      using less.prems(3) 3 lp by (simp_all add: loop)
    from less.hyps [OF smaller c(1,3) lp]
    have IH: "inv r1" "drop n (pend r) @ tail r = b1 @ (if fail r1 = None then pend r1 @ tail r1 else [])"
        "fin r1 = fin r" "length b1 \<le> ?n"
        "case e1 of None \<Rightarrow> fail r1 = None \<and> (length b1 = ?n \<or> finished r1 \<and> pend r1 = [])
         | Some x \<Rightarrow> x = fin r \<and> (if fail r1 = None then pend r1 @ tail r1 else []) = []"
      by (simp_all add: c cong: option.case_cong)
    have "pend r @ tail r = take n (pend r) @ drop n (pend r) @ tail r" by simp
    then have "pend r @ tail r = b @ (if fail r1 = None then pend r1 @ tail r1 else [])"
      unfolding IH(2) eqs by simp
    moreover have "length b \<le> n" "length b1 = ?n \<Longrightarrow> length b = n"
      using IH(4) eqs by (auto simp: min_def)
    ultimately show ?thesis using IH eqs by (auto split: option.splits)
  next
    case 4
    then show ?thesis using less.prems by (simp add: loop)
  next
    case 5
    let ?r = "fetch r"
    have step: "inv ?r" "fin ?r = fin r"
        "case fail ?r of None \<Rightarrow> tail r = pend ?r @ tail ?r \<and> size ?r < size r | Some e \<Rightarrow> tail r = []"
      using fetch_step [of r] less.prems 5 by simp_all
    show ?thesis
    proof (cases "fail ?r")
      case None
      then have "size ?r + n < size r + n" "loop ?r n = (b, e, r')"
        using step less.prems 5 by (simp_all add: loop)
      from less.hyps [OF this(1) step(1) None this(2)] step None 5 show ?thesis
        by (simp cong: option.case_cong)
    next
      case (Some x)
      then show ?thesis
        using step less.prems 5 fail_end [of ?r x] by (simp add: loop) auto
    qed
  qed
qed

end

sublocale buffered_reader \<subseteq> reader: go_reader read inv "\<lambda>r. if fail r = None then pend r @ tail r else []" fin
proof
  fix r n b e r'
  assume r: "inv r" and n: "0 < n" and rd: "read r n = (b, e, r')"
  show "inv r' \<and> (if fail r = None then pend r @ tail r else []) =
      b @ (if fail r' = None then pend r' @ tail r' else []) \<and> fin r' = fin r \<and> length b \<le> n \<and>
      (case e of None \<Rightarrow> b \<noteq> []
       | Some x \<Rightarrow> x = fin r \<and> (if fail r' = None then pend r' @ tail r' else []) = [])"
  proof (cases "fail r")
    case None
    obtain b1 e1 r1 where lp: "loop r n = (b1, e1, r1)" by (cases "loop r n")
    note c = loop_contract [OF r None lp]
    show ?thesis
    proof (cases e1)
      case none: None
      then have "b = b1" "e = (if b1 = [] then Some EOF else None)" "r' = r1"
        using rd None lp by (auto simp: read_eq [OF r n])
      then show ?thesis using c none None n finished_end [of r1] by auto
    next
      case (Some x)
      then have "b = b1" "e = Some x" "r' = r1"
        using rd None lp by (simp_all add: read_eq [OF r n])
      then show ?thesis using c Some None by auto
    qed
  next
    case (Some x)
    then have "b = []" "e = Some x" "r' = r" using rd by (simp_all add: read_eq [OF r n])
    with Some r fail_end [of r x] show ?thesis by simp
  qed
qed

section \<open>Readers that copy once\<close>

text \<open>
  The readers of multipart objects fetch until something is pending, copy it once and return.
  A fetch reports an error, which ends the stream, or leaves a state with possibly more
  pending.
\<close>

locale single_copy_reader =
  fixes read :: "'r read_fn"
    and fetch :: "'r \<Rightarrow> goerr option \<times> 'r"
    and pend :: "'r \<Rightarrow> bytes"
    and consume :: "nat \<Rightarrow> 'r \<Rightarrow> 'r"
    and size :: "'r \<Rightarrow> nat"
    and inv :: "'r \<Rightarrow> bool"
    and tail :: "'r \<Rightarrow> bytes"
    and fin :: "'r \<Rightarrow> goerr"
  assumes read_eq: "inv r \<Longrightarrow> 0 < n \<Longrightarrow> read r n =
      (if pend r \<noteq> [] then (take n (pend r), None, consume n r)
       else case fetch r of (Some e, r') \<Rightarrow> ([], Some e, r') | (None, r') \<Rightarrow> read r' n)"
    and consume: "inv r \<Longrightarrow> pend r \<noteq> [] \<Longrightarrow>
      inv (consume n r) \<and> pend (consume n r) = drop n (pend r) \<and> tail (consume n r) = tail r \<and> fin (consume n r) = fin r"
    and fetch_step: "inv r \<Longrightarrow> pend r = [] \<Longrightarrow> fetch r = (x, r') \<Longrightarrow>
      inv r' \<and> fin r' = fin r \<and>
      (case x of
         None \<Rightarrow> tail r = pend r' @ tail r' \<and> size r' < size r
       | Some e \<Rightarrow> e = fin r \<and> tail r = [] \<and> pend r' = [] \<and> tail r' = [])"
begin

lemma read_once:
  "inv r \<Longrightarrow> 0 < n \<Longrightarrow> read r n = (b, e, r') \<Longrightarrow>
     inv r' \<and> pend r @ tail r = b @ pend r' @ tail r' \<and> fin r' = fin r \<and> length b \<le> n \<and>
     (case e of None \<Rightarrow> b \<noteq> [] | Some x \<Rightarrow> x = fin r \<and> pend r' @ tail r' = [])"
proof (induction "size r" arbitrary: r rule: less_induct)
  case less
  show ?case
  proof (cases "pend r = []")
    case False
    then have "b = take n (pend r)" "e = None" "r' = consume n r"
      using less.prems by (simp_all add: read_eq)
    then show ?thesis using consume [OF less.prems(1) False, of n] less.prems(2) False by simp
  next
    case True
    obtain x s where f: "fetch r = (x, s)" by (cases "fetch r")
    note step = fetch_step [OF less.prems(1) True f]
    show ?thesis
    proof (cases x)
      case None
      then have "read s n = (b, e, r')" using less.prems True f by (simp add: read_eq [OF less.prems(1)])
      with less.hyps [of s] step None less.prems(2) True show ?thesis by (auto split: option.splits)
    next
      case (Some y)
      then have "b = []" "e = Some y" "r' = s" using less.prems True f by (simp_all add: read_eq)
      then show ?thesis using step Some True by simp
    qed
  qed
qed

end

sublocale single_copy_reader \<subseteq> reader: go_reader read inv "\<lambda>r. pend r @ tail r" fin
  using read_once by unfold_locales simp

end
