(* ===== verification/Chunked_Encrypt.thy ===== *)
theory Chunked_Encrypt
  imports Chunked_Spec Go_Reader
begin

text \<open>
  The streaming encrypter of \<^verbatim>\<open>internal/crypto/chunked.go\<close>, \<^verbatim>\<open>chunkedEncryptReader\<close>: its
  constructors and its \<^verbatim>\<open>Read\<close>. One round of the loop of \<^verbatim>\<open>Read\<close> with nothing pending is
  \<open>enc_fetch\<close>. A panic of \<^verbatim>\<open>Seal\<close> is the sticky error \<open>Panic\<close>. The reader is an instance of
  \<^term>\<open>buffered_reader\<close> with \<open>enc_run\<close>, the output of all remaining rounds, and the lemmas
  below compute that output for a source that reports no error.
\<close>

section \<open>State and constructors\<close>

record chunked_encrypt_reader =
  er_source :: source
  er_aead :: aead
  er_baseIV :: bytes
  er_chunkSize :: nat
  er_manifest :: chunk_manifest
  er_ctx :: ctx
  er_version :: int
  er_terminalAEAD :: "aead option"
  er_index :: u64
  er_plainSize :: u64
  er_pending :: bytes
  er_done :: bool
  er_err :: "goerr option"
  er_object :: object_context
  er_bindingID :: bytes
  er_boundV2 :: bool

definition noObject :: object_context where
  "noObject = \<lparr>oc_bucket = [], oc_key = []\<rparr>"

definition newChunkedEncryptReaderForVersion ::
  "ctx \<Rightarrow> source \<Rightarrow> aead \<Rightarrow> bytes \<Rightarrow> int \<Rightarrow> int \<Rightarrow> aead option \<Rightarrow> chunked_encrypt_reader \<times> chunk_manifest" where
  "newChunkedEncryptReaderForVersion ctx source A baseIV chunkSize version terminalAEAD =
     (let chunkSize = (if chunkSize < MinChunkSize then MinChunkSize else chunkSize);
          chunkSize = (if chunkSize > MaxChunkSize then MaxChunkSize else chunkSize);
          manifest = \<lparr>cm_Version = version, cm_ChunkSize = chunkSize, cm_ChunkCount = 0,
            cm_BaseIV = encodeBase64 baseIV, cm_IVs = [], cm_IVDerivation = ''hkdf-sha256''\<rparr>
      in (\<lparr>er_source = source, er_aead = A, er_baseIV = baseIV, er_chunkSize = nat chunkSize,
           er_manifest = manifest, er_ctx = ctx, er_version = version,
           er_terminalAEAD = terminalAEAD, er_index = 0, er_plainSize = 0, er_pending = [],
           er_done = False, er_err = None, er_object = noObject, er_bindingID = [],
           er_boundV2 = False\<rparr>, manifest))"

definition newChunkedEncryptReaderV1 ::
  "ctx \<Rightarrow> source \<Rightarrow> aead \<Rightarrow> bytes \<Rightarrow> int \<Rightarrow> chunked_encrypt_reader \<times> chunk_manifest" where
  "newChunkedEncryptReaderV1 ctx source A baseIV chunkSize =
     newChunkedEncryptReaderForVersion ctx source A baseIV chunkSize ChunkedFormatV1 None"

definition newChunkedEncryptReader ::
  "source \<Rightarrow> aead \<Rightarrow> bytes \<Rightarrow> int \<Rightarrow> chunked_encrypt_reader \<times> chunk_manifest" where
  "newChunkedEncryptReader source A baseIV chunkSize =
     newChunkedEncryptReaderV1 None source A baseIV chunkSize"

definition newLegacyChunkedEncryptReaderV2 ::
  "ctx \<Rightarrow> source \<Rightarrow> aead \<Rightarrow> bytes \<Rightarrow> int \<Rightarrow> int \<Rightarrow> aead option \<Rightarrow>
     goerr + (chunked_encrypt_reader \<times> chunk_manifest)" where
  "newLegacyChunkedEncryptReaderV2 ctx source A baseIV chunkSize version terminalAEAD =
     (if version \<noteq> ChunkedFormatV2 then Inl (Err ''unsupported v2 chunked writer version'')
      else if terminalAEAD = None then Inl (Err ''v2 chunked writer requires terminal AEAD'')
      else Inr (newChunkedEncryptReaderForVersion ctx source A baseIV chunkSize version terminalAEAD))"

definition newChunkedEncryptReaderV2Bound ::
  "ctx \<Rightarrow> source \<Rightarrow> aead \<Rightarrow> bytes \<Rightarrow> int \<Rightarrow> aead option \<Rightarrow> object_context \<Rightarrow> bytes \<Rightarrow>
     goerr + (chunked_encrypt_reader \<times> chunk_manifest)" where
  "newChunkedEncryptReaderV2Bound ctx source A baseIV chunkSize terminalAEAD object bindingID =
     and_then (Validate object) (\<lambda>_.
       if length bindingID \<noteq> 16 then Inl (Err ''binding ID must be exactly 16 bytes'')
       else
         and_then (newLegacyChunkedEncryptReaderV2 ctx source A baseIV chunkSize ChunkedFormatV2 terminalAEAD)
           (\<lambda>(r, m). Inr (r\<lparr>er_object := object, er_bindingID := bindingID, er_boundV2 := True\<rparr>, m)))"

definition newChunkedEncryptReaderWithContext ::
  "ctx \<Rightarrow> source \<Rightarrow> aead \<Rightarrow> aead option \<Rightarrow> bytes \<Rightarrow> int \<Rightarrow> int \<Rightarrow>
     goerr + (chunked_encrypt_reader \<times> chunk_manifest)" where
  "newChunkedEncryptReaderWithContext ctx source A terminalAEAD baseIV chunkSize version =
     (if version = ChunkedFormatV2 then Inl (Err ''current chunked-v2 writer requires object binding'')
      else if version \<noteq> ChunkedFormatV1 then Inl (Err ''unsupported chunked format version'')
      else Inr (newChunkedEncryptReaderForVersion ctx source A baseIV chunkSize version None))"

section \<open>Read\<close>

text \<open>
  Nonce and authenticated data of the next record. In the bound case the error of the nonce
  derivation is overwritten by that of \<^verbatim>\<open>buildObjectAAD\<close>, and the nonce is then empty.
\<close>

definition enc_nonce_aad :: "hkdf \<Rightarrow> chunked_encrypt_reader \<Rightarrow> goerr + (bytes \<times> bytes)" where
  "enc_nonce_aad H r =
     (if er_version r = ChunkedFormatV2 then
        (let nonce = deriveChunkNonceHKDF H (er_baseIV r) (er_version r) (er_index r) in
         if er_boundV2 r then
           and_then (buildObjectAAD aadChunkedV2Data (er_object r) (er_bindingID r) [er_index r]) (\<lambda>aad.
             Inr (case nonce of Inl _ \<Rightarrow> [] | Inr n \<Rightarrow> n, aad))
         else and_then nonce (\<lambda>n. Inr (n, buildChunkAAD (er_version r) (er_index r))))
      else and_then (deriveChunkIVHKDFIndex H (er_baseIV r) (er_index r)) (\<lambda>n. Inr (n, [])))"

definition enc_chunk :: "hkdf \<Rightarrow> chunked_encrypt_reader \<Rightarrow> bytes \<Rightarrow> chunked_encrypt_reader" where
  "enc_chunk H r pt =
     (case enc_nonce_aad H r of
        Inl e \<Rightarrow> r\<lparr>er_err := Some e\<rparr>
      | Inr (nonce, aad) \<Rightarrow>
          (case goSeal (er_aead r) nonce pt aad of
             Inl e \<Rightarrow> r\<lparr>er_err := Some e\<rparr>
           | Inr ct \<Rightarrow>
               let r = r\<lparr>er_pending := ct\<rparr> in
               if of_nat (length pt) > 0xFFFFFFFFFFFFFFFF - er_plainSize r
               then r\<lparr>er_err := Some (Err ''plaintext size overflow'')\<rparr>
               else
                 let r = r\<lparr>er_plainSize := er_plainSize r + of_nat (length pt)\<rparr> in
                 if er_index r = 0xFFFFFFFFFFFFFFFF
                 then r\<lparr>er_err := Some (Err ''chunk count overflow'')\<rparr>
                 else r\<lparr>er_index := er_index r + 1,
                        er_manifest := (er_manifest r)\<lparr>cm_ChunkCount := er_index r + 1\<rparr>\<rparr>))"

definition enc_finish :: "hkdf \<Rightarrow> chunked_encrypt_reader \<Rightarrow> chunked_encrypt_reader" where
  "enc_finish H r =
     (let r = r\<lparr>er_done := True\<rparr> in
      if er_version r = ChunkedFormatV2 then
        (case er_terminalAEAD r of
           None \<Rightarrow> r\<lparr>er_err := Some (Err ''terminal AEAD is not configured'')\<rparr>
         | Some T \<Rightarrow>
             (case and_then (deriveTerminalNonceHKDF H (er_baseIV r) (er_version r)) (\<lambda>nonce.
                   and_then (if er_boundV2 r
                             then buildObjectAAD aadChunkedV2Trailer (er_object r) (er_bindingID r)
                                    [er_index r, er_plainSize r]
                             else Inr (buildTerminalAAD (er_version r))) (\<lambda>aad.
                     goSeal T nonce (encodeChunkedTerminal (er_index r) (er_plainSize r)) aad)) of
                Inl e \<Rightarrow> r\<lparr>er_err := Some e\<rparr>
              | Inr ct \<Rightarrow> r\<lparr>er_pending := ct\<rparr>))
      else r)"

definition enc_fetch :: "hkdf \<Rightarrow> chunked_encrypt_reader \<Rightarrow> chunked_encrypt_reader" where
  "enc_fetch H r =
     (case poll (er_ctx r) of
        None \<Rightarrow> r\<lparr>er_err := Some CtxDone\<rparr>
      | Some ctx \<Rightarrow>
          (case read_full (er_source r) (er_chunkSize r) of
             (pt, err, src) \<Rightarrow>
               let r = r\<lparr>er_ctx := ctx, er_source := src\<rparr> in
               if pt \<noteq> [] then enc_chunk H r pt
               else if err \<noteq> None \<and> err \<noteq> Some EOF \<and> err \<noteq> Some ErrUnexpectedEOF
               then r\<lparr>er_err := err\<rparr>
               else enc_finish H r))"

lemma enc_chunk_keeps [simp]:
  "er_source (enc_chunk H r pt) = er_source r" "er_done (enc_chunk H r pt) = er_done r"
  by (simp_all add: enc_chunk_def Let_def split: sum.splits prod.splits)

lemma enc_finish_keeps [simp]:
  "er_source (enc_finish H r) = er_source r" "er_done (enc_finish H r)"
  by (simp_all add: enc_finish_def Let_def split: sum.splits option.splits)

text \<open>A round that does not fail consumes data or ends the stream.\<close>

definition enc_size :: "chunked_encrypt_reader \<Rightarrow> nat" where
  "enc_size r = src_size (er_source r) + (if er_done r then 0 else 1)"

lemma enc_fetch_size:
  assumes "er_err (enc_fetch H r) = None" and "\<not> er_done r"
  shows "enc_size (enc_fetch H r) < enc_size r"
proof -
  obtain pt e src where rf: "read_full (er_source r) (er_chunkSize r) = (pt, e, src)"
    by (cases "read_full (er_source r) (er_chunkSize r)")
  show ?thesis
    using assms rf read_full_size_le [OF rf] read_full_data_size [OF rf]
    by (auto simp: enc_fetch_def enc_size_def Let_def split: option.splits if_splits)
qed

function enc_loop :: "hkdf \<Rightarrow> chunked_encrypt_reader \<Rightarrow> nat \<Rightarrow> bytes \<times> goerr option \<times> chunked_encrypt_reader" where
  "enc_loop H r room =
     (if room = 0 then ([], None, r)
      else if er_pending r \<noteq> [] then
        (case enc_loop H (r\<lparr>er_pending := drop room (er_pending r)\<rparr>) (room - length (er_pending r)) of
           (b, e, r') \<Rightarrow> (take room (er_pending r) @ b, e, r'))
      else if er_done r then ([], None, r)
      else case er_err (enc_fetch H r) of
          Some e \<Rightarrow> ([], Some e, enc_fetch H r)
        | None \<Rightarrow> enc_loop H (enc_fetch H r) room)"
  by pat_completeness auto
termination
  by (relation "measure (\<lambda>(H, r, room). enc_size r + room)")
    (auto simp: enc_size_def dest: enc_fetch_size [unfolded enc_size_def])

declare enc_loop.simps [simp del]

definition enc_Read :: "hkdf \<Rightarrow> chunked_encrypt_reader \<Rightarrow> nat \<Rightarrow> bytes \<times> goerr option \<times> chunked_encrypt_reader" where
  "enc_Read H r n =
     (case er_err r of
        Some e \<Rightarrow> ([], Some e, r)
      | None \<Rightarrow>
          if er_done r \<and> er_pending r = [] then ([], Some EOF, r)
          else
            (case enc_loop H r n of
               (b, Some e, r') \<Rightarrow> (b, Some e, r')
             | (b, None, r') \<Rightarrow>
                 if b \<noteq> [] then (b, None, r')
                 else if er_done r' then ([], Some EOF, r')
                 else ([], None, r')))"

definition enc_Close :: "chunked_encrypt_reader \<Rightarrow> chunked_encrypt_reader" where
  "enc_Close r = r\<lparr>er_done := True\<rparr>"

section \<open>The output of all remaining rounds\<close>

function enc_run :: "hkdf \<Rightarrow> chunked_encrypt_reader \<Rightarrow> bytes \<times> goerr" where
  "enc_run H r =
     (case er_err r of
        Some e \<Rightarrow> ([], e)
      | None \<Rightarrow>
          if er_done r then ([], EOF)
          else
            (case er_err (enc_fetch H (r\<lparr>er_pending := []\<rparr>)) of
               Some e \<Rightarrow> ([], e)
             | None \<Rightarrow>
                 (case enc_run H (enc_fetch H (r\<lparr>er_pending := []\<rparr>)) of
                    (b, e) \<Rightarrow> (er_pending (enc_fetch H (r\<lparr>er_pending := []\<rparr>)) @ b, e))))"
  by pat_completeness auto
termination
  by (relation "measure (\<lambda>(H, r). enc_size r)") (auto simp: enc_size_def dest: enc_fetch_size [unfolded enc_size_def])

declare enc_run.simps [simp del]

lemma enc_run_done: "er_err r = None \<Longrightarrow> er_done r \<Longrightarrow> enc_run H r = ([], EOF)"
  by (simp add: enc_run.simps)

lemma enc_run_err: "er_err r = Some e \<Longrightarrow> enc_run H r = ([], e)"
  by (simp add: enc_run.simps)

lemma enc_run_pending [simp]: "enc_run H (r\<lparr>er_pending := b\<rparr>) = enc_run H r"
  by (simp add: enc_run.simps [of H "r\<lparr>er_pending := b\<rparr>"] enc_run.simps [of H r]
      cong: option.case_cong)

lemma enc_run_step:
  assumes "er_err r = None" and "\<not> er_done r" and "er_pending r = []"
  shows "enc_run H r =
    (case er_err (enc_fetch H r) of
       Some e \<Rightarrow> ([], e)
     | None \<Rightarrow> (case enc_run H (enc_fetch H r) of (b, e) \<Rightarrow> (er_pending (enc_fetch H r) @ b, e)))"
proof -
  have "r\<lparr>er_pending := []\<rparr> = r" using assms(3) by simp
  with assms(1,2) show ?thesis by (subst enc_run.simps) (simp cong: option.case_cong)
qed

lemma enc_loop_finished: "enc_loop H r n = ([], None, r') \<Longrightarrow> 0 < n \<Longrightarrow> er_done r'"
proof (induction H r n rule: enc_loop.induct)
  case (1 H r room)
  then show ?case
    by (subst (asm) (2) enc_loop.simps) (auto split: if_splits option.splits prod.splits)
qed

interpretation encrypt: buffered_reader "enc_Read H" "enc_loop H" "enc_fetch H" er_pending
  "\<lambda>n r. r\<lparr>er_pending := drop n (er_pending r)\<rparr>" "\<lambda>_. False" er_done er_err enc_size "\<lambda>_. True"
  "\<lambda>r. fst (enc_run H r)" "\<lambda>r. snd (enc_run H r)" for H
proof
  fix r :: chunked_encrypt_reader and n :: nat
  assume n: "0 < n"
  obtain b e r' where lp: "enc_loop H r n = (b, e, r')" by (cases "enc_loop H r n")
  have "enc_loop H r n = ([], None, r)" if "er_done r" "er_pending r = []"
    using that by (simp add: enc_loop.simps)
  then show "enc_Read H r n = (case er_err r of Some e \<Rightarrow> ([], Some e, r)
      | None \<Rightarrow> (case enc_loop H r n of (b, Some e, r') \<Rightarrow> (b, Some e, r')
         | (b, None, r') \<Rightarrow> (b, if b = [] then Some EOF else None, r')))"
    using lp n enc_loop_finished [of H r n r']
    by (auto simp: enc_Read_def split: option.splits)
next
  fix r :: chunked_encrypt_reader
  assume *: "er_err r = None" "\<not> er_done r" "er_pending r = []"
  show "True \<and> snd (enc_run H (enc_fetch H r)) = snd (enc_run H r) \<and>
      (case er_err (enc_fetch H r) of
         None \<Rightarrow> fst (enc_run H r) = er_pending (enc_fetch H r) @ fst (enc_run H (enc_fetch H r)) \<and>
           enc_size (enc_fetch H r) < enc_size r
       | Some e \<Rightarrow> fst (enc_run H r) = [])"
    unfolding enc_run_step [OF *]
    using enc_fetch_size [of H r] * by (auto simp: enc_run_err split: option.splits prod.splits)
qed (auto simp: enc_run_done enc_run_err enc_size_def enc_loop.simps [of H] split: prod.splits)

section \<open>A clean source gives a well-formed object\<close>

definition enc_scheme :: "chunked_encrypt_reader \<Rightarrow> chunk_scheme" where
  "enc_scheme r = \<lparr>cs_aead = er_aead r, cs_terminal = er_terminalAEAD r, cs_version = er_version r,
     cs_baseIV = er_baseIV r,
     cs_binding = (if er_boundV2 r then Some (er_object r, er_bindingID r) else None),
     cs_hkdfIV = True\<rparr>"

lemma enc_scheme_update [simp]:
  "enc_scheme (r\<lparr>er_ctx := c\<rparr>) = enc_scheme r" "enc_scheme (r\<lparr>er_source := s\<rparr>) = enc_scheme r"
  "enc_scheme (r\<lparr>er_pending := b\<rparr>) = enc_scheme r" "enc_scheme (r\<lparr>er_done := d\<rparr>) = enc_scheme r"
  "enc_scheme (r\<lparr>er_plainSize := n\<rparr>) = enc_scheme r" "enc_scheme (r\<lparr>er_index := n\<rparr>) = enc_scheme r"
  "enc_scheme (r\<lparr>er_manifest := m\<rparr>) = enc_scheme r"
  by (simp_all add: enc_scheme_def)

lemma enc_nonce_aad_spec: "enc_nonce_aad H r = record_params H (enc_scheme r) (er_index r)"
proof (cases "er_version r = 2")
  case True
  obtain n where "deriveChunkNonceHKDF H (er_baseIV r) 2 (er_index r) = Inr n"
    using v2_nonces_total by blast
  with True show ?thesis
    by (simp add: enc_nonce_aad_def record_params_def enc_scheme_def chunk_consts)
qed (simp add: enc_nonce_aad_def record_params_def enc_scheme_def chunk_consts)

lemma enc_chunk_ok:
  assumes "seal_record H (enc_scheme r) (er_index r) pt = Inr x" and "pt \<noteq> []"
    and "unat (er_plainSize r) + length pt < 2 ^ 64" and "unat (er_index r) + 1 < 2 ^ 64"
  shows "enc_chunk H r pt = r\<lparr>er_pending := x, er_plainSize := er_plainSize r + of_nat (length pt),
    er_index := er_index r + 1, er_manifest := (er_manifest r)\<lparr>cm_ChunkCount := er_index r + 1\<rparr>\<rparr>"
proof -
  obtain n a where na: "record_params H (enc_scheme r) (er_index r) = Inr (n, a)"
      "length n = nonceSize" "x = Seal (er_aead r) n pt a"
    using assms(1) by (auto simp: seal_record_Inr enc_scheme_def)
  then show ?thesis
    using u64_room [OF assms(3)] u64_not_max [OF assms(4)]
    by (simp add: enc_chunk_def enc_nonce_aad_spec goSeal_def)
qed

lemma enc_finish_ok:
  assumes "seal_terminal H (enc_scheme r) (er_index r) (er_plainSize r) = Inr t"
    and "er_pending r = []"
  shows "enc_finish H r = r\<lparr>er_done := True, er_pending := t\<rparr>"
proof (cases "er_version r = 2")
  case True
  then obtain T where T: "er_terminalAEAD r = Some T"
    using assms(1) by (auto simp: seal_terminal_def enc_scheme_def chunk_consts split: option.splits)
  then have "and_then (deriveTerminalNonceHKDF H (er_baseIV r) 2) (\<lambda>nonce.
      and_then (if er_boundV2 r then buildObjectAAD aadChunkedV2Trailer (er_object r) (er_bindingID r)
            [er_index r, er_plainSize r]
          else Inr (buildTerminalAAD 2)) (\<lambda>aad.
        goSeal T nonce (encodeChunkedTerminal (er_index r) (er_plainSize r)) aad)) = Inr t"
    using assms(1) True
    by (auto simp: seal_terminal_def terminal_params_def enc_scheme_def chunk_consts and_then_eq_Inr
        split: if_splits)
  with T True show ?thesis by (simp add: enc_finish_def chunk_consts cong: option.case_cong if_cong)
next
  case False
  then show ?thesis using assms by (simp add: enc_finish_def seal_terminal_def enc_scheme_def chunk_consts)
qed

text \<open>
  The lemma covers sources that are cut off as well as clean ones: \<^verbatim>\<open>Read\<close> treats an
  \<open>ErrUnexpectedEOF\<close> of its source as the end of the plaintext.
\<close>

lemma enc_run_object:
  assumes "src_cut (er_source r)" and "er_ctx r = None" and "er_err r = None" and "\<not> er_done r"
    and "0 < er_chunkSize r"
    and "seal_records H (enc_scheme r) (er_index r) (chunks (er_chunkSize r) (src_bytes (er_source r))) = Inr xs"
    and "seal_terminal H (enc_scheme r) (er_index r + of_nat (length xs))
           (er_plainSize r + of_nat (length (src_bytes (er_source r)))) = Inr t"
    and "unat (er_plainSize r) + length (src_bytes (er_source r)) < 2 ^ 64"
    and "unat (er_index r) + length xs < 2 ^ 64"
  shows "enc_run H r = (concat xs @ t, EOF)"
  using assms
proof (induction xs arbitrary: r)
  case Nil
  let ?r = "r\<lparr>er_pending := []\<rparr>"
  have empty: "src_bytes (er_source r) = []"
    using seal_records_length [OF Nil(6)] Nil(5) chunks_step [of "src_bytes (er_source r)" "er_chunkSize r"]
    by fastforce
  obtain b e s where rf: "read_full (er_source r) (er_chunkSize r) = (b, e, s)"
    by (cases "read_full (er_source r) (er_chunkSize r)")
  have "b = []" "e \<in> {None, Some EOF, Some ErrUnexpectedEOF}"
    using read_full_cut [OF Nil(1) rf] empty by simp_all
  then have "enc_fetch H ?r = enc_finish H (?r\<lparr>er_ctx := None, er_source := s\<rparr>)"
    using Nil(2) rf by (auto simp: enc_fetch_def)
  also have "\<dots> = ?r\<lparr>er_ctx := None, er_source := s, er_done := True, er_pending := t\<rparr>"
    using Nil(7) empty by (subst enc_finish_ok) simp_all
  finally have "enc_run H ?r = (t, EOF)"
    using Nil(3,4) by (subst enc_run_step) (simp_all add: enc_run_done)
  then show ?case by simp
next
  case (Cons x xs)
  let ?r = "r\<lparr>er_pending := []\<rparr>" and ?data = "src_bytes (er_source r)" and ?cs = "er_chunkSize r"
  have data: "?data \<noteq> []" using Cons.prems(6) by auto
  then have split: "chunks ?cs ?data = take ?cs ?data # chunks ?cs (drop ?cs ?data)"
    using Cons.prems(5) by (simp add: chunks_step)
  with Cons.prems(6) have x: "seal_record H (enc_scheme r) (er_index r) (take ?cs ?data) = Inr x"
      and xs: "seal_records H (enc_scheme r) (er_index r + 1) (chunks ?cs (drop ?cs ?data)) = Inr xs"
    by (auto simp: and_then_eq_Inr)
  obtain b e s where rf: "read_full (er_source r) ?cs = (b, e, s)"
    by (cases "read_full (er_source r) ?cs")
  have clean: "b = take ?cs ?data" "src_bytes s = drop ?cs ?data" "src_cut s"
    using read_full_cut [OF Cons.prems(1) rf] by simp_all
  define r1 where "r1 = ?r\<lparr>er_ctx := None, er_source := s\<rparr>"
  define r2 where "r2 = r1\<lparr>er_pending := x, er_plainSize := er_plainSize r + of_nat (length b),
      er_index := er_index r + 1, er_manifest := (er_manifest r)\<lparr>cm_ChunkCount := er_index r + 1\<rparr>\<rparr>"
  have scheme: "enc_scheme r1 = enc_scheme r" "enc_scheme r2 = enc_scheme r"
    by (simp_all add: r1_def r2_def)
  have b: "b \<noteq> []" "length b \<le> length ?data" using clean(1) data Cons.prems(5) by auto
  have "enc_chunk H r1 b = r2"
    using x clean(1) b Cons.prems(8,9)
    by (subst enc_chunk_ok [where x = x]) (simp_all add: scheme r2_def, simp_all add: r1_def)
  then have fetch: "enc_fetch H ?r = r2"
    using Cons.prems(2) rf b by (simp add: enc_fetch_def r1_def)
  have "enc_run H r2 = (concat xs @ t, EOF)"
  proof (rule Cons.IH)
    have len: "length b + length (src_bytes s) = length ?data" using clean(1,2) by simp
    have plain: "unat (er_plainSize r + of_nat (length b)) = unat (er_plainSize r) + length b"
      using Cons.prems(8) len by (intro u64_add_nat) linarith
    show "unat (er_plainSize r2) + length (src_bytes (er_source r2)) < 2 ^ 64"
      using Cons.prems(8) len by (simp add: r2_def r1_def plain)
    have "unat (er_index r + of_nat 1) = unat (er_index r) + 1"
      using Cons.prems(9) by (intro u64_add_nat) simp
    then show "unat (er_index r2) + length xs < 2 ^ 64"
      using Cons.prems(9) by (simp add: r2_def)
    have "er_plainSize r + of_nat (length b) + of_nat (length (src_bytes s)) =
        er_plainSize r + of_nat (length ?data)"
      unfolding len [symmetric] by simp
    then show "seal_terminal H (enc_scheme r2) (er_index r2 + of_nat (length xs))
        (er_plainSize r2 + of_nat (length (src_bytes (er_source r2)))) = Inr t"
      using Cons.prems(7) by (simp add: scheme r2_def r1_def ac_simps)
  qed (use Cons.prems xs clean in \<open>simp_all add: scheme r2_def r1_def\<close>)
  then have "enc_run H ?r = (concat (x # xs) @ t, EOF)"
    using Cons.prems(3,4) fetch by (subst enc_run_step) (simp_all add: r2_def r1_def)
  then show ?case by simp
qed

section \<open>Properties\<close>

definition clampChunkSize :: "int \<Rightarrow> nat" where
  "clampChunkSize cs = nat (min (max cs MinChunkSize) MaxChunkSize)"

lemma clampChunkSize_pos [simp]: "0 < clampChunkSize cs"
  by (simp add: clampChunkSize_def chunk_consts)

definition bound_scheme :: "aead \<Rightarrow> aead \<Rightarrow> bytes \<Rightarrow> object_context \<Rightarrow> bytes \<Rightarrow> chunk_scheme" where
  "bound_scheme A T baseIV oc b = \<lparr>cs_aead = A, cs_terminal = Some T, cs_version = ChunkedFormatV2,
     cs_baseIV = baseIV, cs_binding = Some (oc, b), cs_hkdfIV = True\<rparr>"

lemma newChunkedEncryptReaderV2Bound_Inr:
  "newChunkedEncryptReaderV2Bound ctx src A iv cs (Some T) oc b = Inr (r, m) \<longleftrightarrow>
     Validate oc = Inr () \<and> length b = 16 \<and>
     m = \<lparr>cm_Version = 2, cm_ChunkSize = int (clampChunkSize cs), cm_ChunkCount = 0,
       cm_BaseIV = encodeBase64 iv, cm_IVs = [], cm_IVDerivation = ''hkdf-sha256''\<rparr> \<and>
     r = \<lparr>er_source = src, er_aead = A, er_baseIV = iv, er_chunkSize = clampChunkSize cs,
       er_manifest = m, er_ctx = ctx, er_version = 2, er_terminalAEAD = Some T, er_index = 0,
       er_plainSize = 0, er_pending = [], er_done = False, er_err = None, er_object = oc,
       er_bindingID = b, er_boundV2 = True\<rparr>"
  by (auto simp: newChunkedEncryptReaderV2Bound_def newLegacyChunkedEncryptReaderV2_def
      newChunkedEncryptReaderForVersion_def and_then_eq_Inr chunk_consts clampChunkSize_def Let_def)

lemma enc_run_bound:
  assumes "newChunkedEncryptReaderV2Bound None src A iv cs (Some T) oc b = Inr (r, m)"
    and "hkdf_laws H" and "src_cut src" and "length (src_bytes src) < 2 ^ 64"
    and "seal_object H (bound_scheme A T iv oc b) (clampChunkSize cs) (src_bytes src) = Inr obj"
  shows "enc_run H r = (obj, EOF)"
proof -
  have r: "er_source r = src" "er_ctx r = None" "er_err r = None" "\<not> er_done r"
      "er_chunkSize r = clampChunkSize cs" "er_index r = 0" "er_plainSize r = 0"
      "enc_scheme r = bound_scheme A T iv oc b"
    using assms(1) by (auto simp: newChunkedEncryptReaderV2Bound_Inr enc_scheme_def bound_scheme_def chunk_consts)
  obtain xs t where xs: "seal_records H (enc_scheme r) 0 (chunks (clampChunkSize cs) (src_bytes src)) = Inr xs"
      "seal_terminal H (enc_scheme r) (of_nat (length xs)) (of_nat (length (src_bytes src))) = Inr t"
      "obj = concat xs @ t"
    using assms(5) by (auto simp: seal_object_def and_then_eq_Inr r)
  have "length xs \<le> length (src_bytes src)"
    using seal_records_length [OF xs(1)] chunk_count_length [of "clampChunkSize cs" "src_bytes src"]
      chunk_count_le [of "int (length (src_bytes src))" "int (clampChunkSize cs)"]
      clampChunkSize_pos [of cs]
    by simp
  then show ?thesis
    using enc_run_object [of r H xs t] xs assms(3,4) by (simp add: r)
qed

text \<open>A client that reads to the end receives the object, whatever its buffer sizes.\<close>

lemma enc_drain_bound:
  assumes "newChunkedEncryptReaderV2Bound None src A iv cs (Some T) oc b = Inr (r, m)"
    and "hkdf_laws H" and "src_cut src" and "length (src_bytes src) < 2 ^ 64"
    and "seal_object H (bound_scheme A T iv oc b) (clampChunkSize cs) (src_bytes src) = Inr obj"
    and "\<forall>n \<in> set ns. 0 < n" and "length obj < length ns"
  shows "\<exists>r'. drain (enc_Read H) ns r = (obj, Some EOF, r')"
proof -
  have "er_err r = None" "er_pending r = []"
    using assms(1) by (auto simp: newChunkedEncryptReaderV2Bound_Inr)
  then show ?thesis
    using encrypt.reader.drain_complete [where r = r and ns = ns and H = H] enc_run_bound [OF assms(1-5)]
      assms(6,7) by auto
qed

lemma bound_object_exists:
  assumes "newChunkedEncryptReaderV2Bound ctx src A iv cs (Some T) oc b = Inr (r, m)" and "hkdf_laws H"
  shows "\<exists>obj. seal_object H (bound_scheme A T iv oc b) n p = Inr obj"
  using seal_object_bound [OF assms(2), of "bound_scheme A T iv oc b" oc b T n p] assms(1)
  by (auto simp: bound_scheme_def chunk_consts newChunkedEncryptReaderV2Bound_Inr)

text \<open>
  C3. Streaming encryption implements the object format. For a validated object context and a
  16-byte binding identifier the bound version 2 encrypter exists, and a client that reads a
  clean source through it, with buffers of any sizes, receives exactly the records of the
  plaintext in order and the terminal record over their number and the plaintext size, then
  \<open>EOF\<close>.
\<close>

theorem encrypt_stream_is_object:
  assumes "newChunkedEncryptReaderV2Bound None src A iv cs (Some T) oc b = Inr (r, m)"
    and "hkdf_laws H" and "src_clean src" and "length (src_bytes src) < 2 ^ 64"
    and "\<forall>n \<in> set ns. 0 < n"
  shows "\<exists>obj. seal_object H (bound_scheme A T iv oc b) (clampChunkSize cs) (src_bytes src) = Inr obj \<and>
    (length obj < length ns \<longrightarrow> (\<exists>r'. drain (enc_Read H) ns r = (obj, Some EOF, r')))"
  using bound_object_exists [OF assms(1,2)] enc_drain_bound [OF assms(1,2) src_clean_cut [OF assms(3)] assms(4)]
    assms(5) by meson

text \<open>
  C4. A plaintext that was cut off is sealed as a complete object. If the source reports
  \<open>ErrUnexpectedEOF\<close> after its data, which is how an HTTP body announces that the client sent
  less than it declared, a client of the encrypter receives the same object, with a valid
  terminal record, as for a source that ended regularly with the same data, and \<open>EOF\<close>
  instead of the error.
\<close>

theorem encrypt_cut_source_complete:
  assumes "newChunkedEncryptReaderV2Bound None src A iv cs (Some T) oc b = Inr (r, m)" and "src_clean src"
    and "newChunkedEncryptReaderV2Bound None src2 A iv cs (Some T) oc b = Inr (r2, m2)" and "src_cut src2"
    and "src_bytes src2 = src_bytes src" and "hkdf_laws H" and "length (src_bytes src) < 2 ^ 64"
    and "\<forall>n \<in> set ns. 0 < n"
  shows "\<exists>obj. seal_object H (bound_scheme A T iv oc b) (clampChunkSize cs) (src_bytes src) = Inr obj \<and>
    (length obj < length ns \<longrightarrow> (\<exists>r'. drain (enc_Read H) ns r = (obj, Some EOF, r')) \<and>
      (\<exists>r'. drain (enc_Read H) ns r2 = (obj, Some EOF, r')))"
proof -
  obtain obj where obj: "seal_object H (bound_scheme A T iv oc b) (clampChunkSize cs) (src_bytes src) = Inr obj"
    using bound_object_exists [OF assms(1,6)] by blast
  then show ?thesis
    using enc_drain_bound [OF assms(1,6) src_clean_cut [OF assms(2)] assms(7) obj assms(8)]
      enc_drain_bound [OF assms(3,6,4), of obj ns] assms(5,7,8) by auto
qed

section \<open>Witnesses\<close>

text \<open>An object of three bytes that arrive in two portions.\<close>

definition ex_oc :: object_context where
  "ex_oc = \<lparr>oc_bucket = ''bucket'', oc_key = ''key''\<rparr>"

definition ex_bid :: bytes where
  "ex_bid = replicate 16 9"

definition ex_iv :: bytes where
  "ex_iv = replicate 12 5"

definition ex_src :: source where
  "ex_src = [SData [1, 2], SData [3]]"

lemma ex_encrypter: "\<exists>r m. newChunkedEncryptReaderV2Bound None src A ex_iv 65536 (Some T) ex_oc ex_bid = Inr (r, m)"
  by (simp add: newChunkedEncryptReaderV2Bound_Inr Validate_def ex_oc_def ex_bid_def)

lemma ex_object_length:
  assumes "aead_laws A" and "aead_laws T"
    and "seal_object sum_hkdf (bound_scheme A T ex_iv ex_oc ex_bid) (clampChunkSize 65536) [1, 2, 3] = Inr obj"
  shows "length obj = 51"
  using seal_object_length [OF _ _ _ assms(3)] assms(1,2)
  by (simp add: bound_scheme_def data_size_def chunk_count_def terminal_size_def clampChunkSize_def chunk_consts)

theorem encrypt_stream_is_object_witness:
  "\<exists>r m obj r'. newChunkedEncryptReaderV2Bound None ex_src sum_aead ex_iv 65536 (Some sum_aead) ex_oc ex_bid = Inr (r, m) \<and>
     length obj = 51 \<and> drain (enc_Read sum_hkdf) (replicate 60 7) r = (obj, Some EOF, r')"
proof -
  obtain r m where r: "newChunkedEncryptReaderV2Bound None ex_src sum_aead ex_iv 65536 (Some sum_aead) ex_oc ex_bid = Inr (r, m)"
    using ex_encrypter by blast
  have src: "src_clean ex_src" "src_bytes ex_src = [1, 2, 3]" by (simp_all add: ex_src_def)
  obtain obj where obj: "seal_object sum_hkdf (bound_scheme sum_aead sum_aead ex_iv ex_oc ex_bid) (clampChunkSize 65536) [1, 2, 3] = Inr obj"
      "length obj < 60 \<longrightarrow> (\<exists>r'. drain (enc_Read sum_hkdf) (replicate 60 7) r = (obj, Some EOF, r'))"
    using encrypt_stream_is_object [OF r sum_hkdf_laws src(1), of "replicate 60 7"] src by auto
  moreover have "length obj = 51" using ex_object_length [OF _ _ obj(1)] by simp
  ultimately show ?thesis using r by auto
qed

theorem encrypt_cut_source_complete_witness:
  "\<exists>r m r2 m2 obj r' r2'.
     newChunkedEncryptReaderV2Bound None ex_src sum_aead ex_iv 65536 (Some sum_aead) ex_oc ex_bid = Inr (r, m) \<and>
     newChunkedEncryptReaderV2Bound None [SData [1, 2, 3], SFail ErrUnexpectedEOF, SFail ErrUnexpectedEOF]
       sum_aead ex_iv 65536 (Some sum_aead) ex_oc ex_bid = Inr (r2, m2) \<and> length obj = 51 \<and>
     drain (enc_Read sum_hkdf) (replicate 60 7) r = (obj, Some EOF, r') \<and>
     drain (enc_Read sum_hkdf) (replicate 60 7) r2 = (obj, Some EOF, r2')"
proof -
  let ?src2 = "[SData [1, 2, 3], SFail ErrUnexpectedEOF, SFail ErrUnexpectedEOF] :: source"
  obtain r m where r: "newChunkedEncryptReaderV2Bound None ex_src sum_aead ex_iv 65536 (Some sum_aead) ex_oc ex_bid = Inr (r, m)"
    using ex_encrypter by blast
  obtain r2 m2 where r2: "newChunkedEncryptReaderV2Bound None ?src2 sum_aead ex_iv 65536 (Some sum_aead) ex_oc ex_bid = Inr (r2, m2)"
    using ex_encrypter by blast
  have src: "src_clean ex_src" "src_bytes ex_src = [1, 2, 3]" "src_cut ?src2" "src_bytes ?src2 = src_bytes ex_src"
    by (simp_all add: ex_src_def)
  obtain obj where obj: "seal_object sum_hkdf (bound_scheme sum_aead sum_aead ex_iv ex_oc ex_bid) (clampChunkSize 65536) [1, 2, 3] = Inr obj"
      "length obj < 60 \<longrightarrow> (\<exists>r'. drain (enc_Read sum_hkdf) (replicate 60 7) r = (obj, Some EOF, r')) \<and>
        (\<exists>r'. drain (enc_Read sum_hkdf) (replicate 60 7) r2 = (obj, Some EOF, r'))"
    using encrypt_cut_source_complete [OF r src(1) r2 src(3,4) sum_hkdf_laws, of "replicate 60 7"] src by auto
  moreover have "length obj = 51" using ex_object_length [OF _ _ obj(1)] by simp
  ultimately show ?thesis using r r2 by auto
qed

end
