(* ===== verification/Chunked_Decrypt.thy ===== *)
theory Chunked_Decrypt
  imports Chunked_Spec Go_Reader
begin

text \<open>
  The streaming decrypter of \<^verbatim>\<open>internal/crypto/chunked.go\<close>, \<^verbatim>\<open>chunkedDecryptReader\<close>: its
  constructors, record and terminal verification, and \<^verbatim>\<open>Read\<close>. For version 2 it holds back
  (\<open>dr_lookbehind\<close>) what may be the last record and the terminal until the source ends.
\<close>

section \<open>State and constructors\<close>

record chunked_decrypt_reader =
  dr_source :: source
  dr_aead :: aead
  dr_terminalAEAD :: "aead option"
  dr_manifest :: chunk_manifest
  dr_baseIV :: bytes
  dr_chunkSize :: nat
  dr_ctx :: ctx
  dr_version :: int
  dr_index :: u64
  dr_plainSize :: u64
  dr_pending :: bytes
  dr_lookbehind :: bytes
  dr_done :: bool
  dr_err :: "goerr option"
  dr_object :: object_context
  dr_bindingID :: bytes
  dr_boundV2 :: bool

text \<open>A manifest argument is \<open>None\<close> for a nil pointer.\<close>

definition newChunkedDecryptReaderForVersion ::
  "ctx \<Rightarrow> source \<Rightarrow> aead \<Rightarrow> chunk_manifest option \<Rightarrow> aead option \<Rightarrow> goerr + chunked_decrypt_reader" where
  "newChunkedDecryptReaderForVersion ctx source A manifest terminalAEAD =
     (case manifest of
        None \<Rightarrow> Inl (Err ''missing chunk manifest'')
      | Some m \<Rightarrow>
          if cm_Version m \<noteq> ChunkedFormatV1 \<and> cm_Version m \<noteq> ChunkedFormatV2
          then Inl ErrUnsupportedChunkedVersion
          else
            let version = (if cm_Version m = ChunkedFormatV2 then ChunkedFormatV2 else ChunkedFormatV1) in
            and_then (validateChunkedVersion version) (\<lambda>_.
            and_then (validateChunkSize (cm_ChunkSize m)) (\<lambda>_.
              case decodeBase64 (cm_BaseIV m) of
                Inl _ \<Rightarrow> Inl (Err ''failed to decode base IV'')
              | Inr baseIV \<Rightarrow>
                  if cm_Version m = ChunkedFormatV2 \<and> terminalAEAD = None
                  then Inl (Err ''v2 chunked reader requires terminal AEAD'')
                  else Inr \<lparr>dr_source = source, dr_aead = A, dr_terminalAEAD = terminalAEAD,
                    dr_manifest = m, dr_baseIV = baseIV, dr_chunkSize = nat (cm_ChunkSize m),
                    dr_ctx = ctx, dr_version = version, dr_index = 0, dr_plainSize = 0,
                    dr_pending = [], dr_lookbehind = [], dr_done = False, dr_err = None,
                    dr_object = \<lparr>oc_bucket = [], oc_key = []\<rparr>, dr_bindingID = [], dr_boundV2 = False\<rparr>)))"

definition newChunkedDecryptReaderV1 ::
  "ctx \<Rightarrow> source \<Rightarrow> aead \<Rightarrow> chunk_manifest option \<Rightarrow> goerr + chunked_decrypt_reader" where
  "newChunkedDecryptReaderV1 ctx source A manifest =
     newChunkedDecryptReaderForVersion ctx source A manifest None"

definition newChunkedDecryptReader ::
  "source \<Rightarrow> aead \<Rightarrow> chunk_manifest option \<Rightarrow> goerr + chunked_decrypt_reader" where
  "newChunkedDecryptReader source A manifest = newChunkedDecryptReaderV1 None source A manifest"

definition newLegacyChunkedDecryptReaderV2 ::
  "ctx \<Rightarrow> source \<Rightarrow> aead \<Rightarrow> chunk_manifest option \<Rightarrow> aead option \<Rightarrow> goerr + chunked_decrypt_reader" where
  "newLegacyChunkedDecryptReaderV2 ctx source A manifest terminalAEAD =
     (if (case manifest of None \<Rightarrow> True | Some m \<Rightarrow> cm_Version m \<noteq> ChunkedFormatV2)
      then Inl (Err ''v2 chunked reader requires version 2 manifest'')
      else if terminalAEAD = None then Inl (Err ''v2 chunked reader requires terminal AEAD'')
      else newChunkedDecryptReaderForVersion ctx source A manifest terminalAEAD)"

definition newChunkedDecryptReaderV2Bound ::
  "ctx \<Rightarrow> source \<Rightarrow> aead \<Rightarrow> chunk_manifest option \<Rightarrow> aead option \<Rightarrow> object_context \<Rightarrow> bytes \<Rightarrow>
     goerr + chunked_decrypt_reader" where
  "newChunkedDecryptReaderV2Bound ctx source A manifest terminalAEAD object bindingID =
     and_then (Validate object) (\<lambda>_.
       if length bindingID \<noteq> 16 then Inl (Err ''binding ID must be exactly 16 bytes'')
       else and_then (newLegacyChunkedDecryptReaderV2 ctx source A manifest terminalAEAD) (\<lambda>r.
         Inr (r\<lparr>dr_object := object, dr_bindingID := bindingID, dr_boundV2 := True\<rparr>)))"

definition newChunkedDecryptReaderWithContext ::
  "ctx \<Rightarrow> source \<Rightarrow> aead \<Rightarrow> aead option \<Rightarrow> chunk_manifest option \<Rightarrow> goerr + chunked_decrypt_reader" where
  "newChunkedDecryptReaderWithContext ctx source A terminalAEAD manifest =
     (if (case manifest of None \<Rightarrow> False | Some m \<Rightarrow> cm_Version m = ChunkedFormatV2)
      then Inl (Err ''current chunked-v2 reader requires object binding'')
      else newChunkedDecryptReaderV1 ctx source A manifest)"

section \<open>Records\<close>

definition dec_nonce_aad :: "hkdf \<Rightarrow> chunked_decrypt_reader \<Rightarrow> goerr + (bytes \<times> bytes)" where
  "dec_nonce_aad H r =
     (if dr_version r = ChunkedFormatV2 then
        (let nonce = deriveChunkNonceHKDF H (dr_baseIV r) (dr_version r) (dr_index r) in
         if dr_boundV2 r then
           and_then (buildObjectAAD aadChunkedV2Data (dr_object r) (dr_bindingID r) [dr_index r]) (\<lambda>aad.
             Inr (case nonce of Inl _ \<Rightarrow> [] | Inr n \<Rightarrow> n, aad))
         else and_then nonce (\<lambda>n. Inr (n, buildChunkAAD (dr_version r) (dr_index r))))
      else
        and_then (if cm_IVDerivation (dr_manifest r) = ''hkdf-sha256''
                  then deriveChunkIVHKDFIndex H (dr_baseIV r) (dr_index r)
                  else deriveLegacyChunkIVIndex (dr_baseIV r) (dr_index r)) (\<lambda>n. Inr (n, [])))"

definition decryptData ::
  "hkdf \<Rightarrow> chunked_decrypt_reader \<Rightarrow> bytes \<Rightarrow> goerr option \<times> chunked_decrypt_reader" where
  "decryptData H r ciphertext =
     (case dec_nonce_aad H r of
        Inl e \<Rightarrow> (Some e, r)
      | Inr (nonce, aad) \<Rightarrow>
          (case goOpen (dr_aead r) nonce ciphertext aad of
             Inl e \<Rightarrow> (Some (wrapErr (Err ''failed to decrypt chunk'') e), r)
           | Inr pt \<Rightarrow>
               let r = r\<lparr>dr_pending := dr_pending r @ pt, dr_index := dr_index r + 1\<rparr> in
               if of_nat (length pt) > 0xFFFFFFFFFFFFFFFF - dr_plainSize r
               then (Some (Err ''plaintext size overflow''), r)
               else (None, r\<lparr>dr_plainSize := dr_plainSize r + of_nat (length pt)\<rparr>)))"

definition verifyTerminal :: "hkdf \<Rightarrow> chunked_decrypt_reader \<Rightarrow> bytes \<Rightarrow> goerr + unit" where
  "verifyTerminal H r terminal =
     (case dr_terminalAEAD r of
        None \<Rightarrow> Inl (ErrChunkedObjectIncomplete ''missing or short terminal'')
      | Some T \<Rightarrow>
          if length terminal \<noteq> 32 then Inl (ErrChunkedObjectIncomplete ''missing or short terminal'')
          else
            and_then (deriveTerminalNonceHKDF H (dr_baseIV r) (dr_version r)) (\<lambda>nonce.
            and_then (if dr_boundV2 r
                      then buildObjectAAD aadChunkedV2Trailer (dr_object r) (dr_bindingID r)
                             [dr_index r, dr_plainSize r]
                      else Inr (buildTerminalAAD (dr_version r))) (\<lambda>aad.
              case goOpen T nonce terminal aad of
                Inl e \<Rightarrow> Inl (wrapErr (ErrChunkedObjectIncomplete ''terminal authentication failed'') e)
              | Inr plain \<Rightarrow>
                  and_then (decodeChunkedTerminal plain) (\<lambda>(count, sz).
                    if count \<noteq> dr_index r \<or> sz \<noteq> dr_plainSize r
                    then Inl (ErrChunkedObjectIncomplete ''terminal mismatch'') else Inr ()))))"

section \<open>Read\<close>

text \<open>The inner loop of version 2: records that cannot be the last are decrypted.\<close>

function dec_flush :: "hkdf \<Rightarrow> chunked_decrypt_reader \<Rightarrow> chunked_decrypt_reader" where
  "dec_flush H r =
     (if 32 + dr_chunkSize r + 16 < length (dr_lookbehind r) then
        (case decryptData H r (take (dr_chunkSize r + 16) (dr_lookbehind r)) of
           (Some e, r') \<Rightarrow> r'\<lparr>dr_err := Some (wrapErr (ErrChunkedObjectIncomplete ''invalid data record'') e)\<rparr>
         | (None, r') \<Rightarrow> dec_flush H (r'\<lparr>dr_lookbehind := drop (dr_chunkSize r + 16) (dr_lookbehind r)\<rparr>))
      else r)"
  by pat_completeness auto
termination
  by (relation "measure (\<lambda>(H, r). length (dr_lookbehind r))") auto

declare dec_flush.simps [simp del]

text \<open>The end of a version 2 source: the last record, if any, and the terminal.\<close>

definition dec_finish :: "hkdf \<Rightarrow> chunked_decrypt_reader \<Rightarrow> chunked_decrypt_reader" where
  "dec_finish H r =
     (if length (dr_lookbehind r) < 32
      then r\<lparr>dr_err := Some (ErrChunkedObjectIncomplete ''missing or short terminal'')\<rparr>
      else
        let bodyLen = length (dr_lookbehind r) - 32 in
        (case (if 0 < bodyLen then decryptData H r (take bodyLen (dr_lookbehind r)) else (None, r)) of
           (Some e, r') \<Rightarrow> r'\<lparr>dr_err := Some (wrapErr (ErrChunkedObjectIncomplete ''invalid data record'') e)\<rparr>
         | (None, r') \<Rightarrow>
             (case verifyTerminal H r' (drop bodyLen (dr_lookbehind r)) of
                Inl e \<Rightarrow> r'\<lparr>dr_err := Some e\<rparr>
              | Inr _ \<Rightarrow> r'\<lparr>dr_lookbehind := [], dr_done := True\<rparr>)))"

definition dec_fetch :: "hkdf \<Rightarrow> chunked_decrypt_reader \<Rightarrow> chunked_decrypt_reader" where
  "dec_fetch H r =
     (case poll (dr_ctx r) of
        None \<Rightarrow> r\<lparr>dr_err := Some CtxDone\<rparr>
      | Some ctx \<Rightarrow>
          (case read_full (dr_source r) (dr_chunkSize r + 16) of
             (buf, err, src) \<Rightarrow>
               let r = r\<lparr>dr_ctx := ctx, dr_source := src\<rparr> in
               if dr_version r = ChunkedFormatV2 then
                 (let r = dec_flush H (r\<lparr>dr_lookbehind := dr_lookbehind r @ buf\<rparr>) in
                  if dr_err r \<noteq> None \<or> err = None then r
                  else if err \<noteq> Some EOF \<and> err \<noteq> Some ErrUnexpectedEOF then r\<lparr>dr_err := err\<rparr>
                  else dec_finish H r)
               else if buf \<noteq> [] then
                 (case decryptData H r buf of
                    (Some e, r') \<Rightarrow> r'\<lparr>dr_err := Some e\<rparr>
                  | (None, r') \<Rightarrow> r')
               else if err \<noteq> None \<and> err \<noteq> Some EOF \<and> err \<noteq> Some ErrUnexpectedEOF
               then r\<lparr>dr_err := err\<rparr>
               else r\<lparr>dr_done := True\<rparr>))"

definition dec_size :: "chunked_decrypt_reader \<Rightarrow> nat" where
  "dec_size r = src_size (dr_source r) + (if dr_done r then 0 else 1)"

lemma decryptData_fields:
  assumes "decryptData H r ct = (e, r')"
  shows "dr_source r' = dr_source r" "dr_done r' = dr_done r" "dr_err r' = dr_err r"
    "dr_lookbehind r' = dr_lookbehind r"
  using assms by (auto simp: decryptData_def Let_def split: sum.splits if_splits)

lemma dec_flush_fields: "dr_source (dec_flush H r) = dr_source r \<and> dr_done (dec_flush H r) = dr_done r"
proof (induction H r rule: dec_flush.induct)
  case (1 H r)
  obtain e r1 where d: "decryptData H r (take (dr_chunkSize r + 16) (dr_lookbehind r)) = (e, r1)"
    by (cases "decryptData H r (take (dr_chunkSize r + 16) (dr_lookbehind r))")
  from 1 show ?case
    using decryptData_fields [OF d] d by (subst (1 2) dec_flush.simps) (auto split: option.splits)
qed

lemma dec_finish_fields:
  "dr_source (dec_finish H r) = dr_source r" "dr_err (dec_finish H r) = None \<Longrightarrow> dr_done (dec_finish H r)"
  by (auto simp: dec_finish_def Let_def dest: decryptData_fields
      split: prod.splits option.splits sum.splits if_splits)

text \<open>A round that does not fail consumes data or ends the stream.\<close>

lemma dec_fetch_size:
  assumes "dr_err (dec_fetch H r) = None" and "\<not> dr_done r"
  shows "dec_size (dec_fetch H r) < dec_size r"
proof -
  obtain b e src where rf: "read_full (dr_source r) (dr_chunkSize r + 16) = (b, e, src)"
    by (cases "read_full (dr_source r) (dr_chunkSize r + 16)")
  obtain ctx where ctx: "poll (dr_ctx r) = Some ctx"
    using assms(1) by (cases "poll (dr_ctx r)") (auto simp: dec_fetch_def)
  have b: "e = None \<Longrightarrow> b \<noteq> []" using read_full_None [of "dr_source r" "dr_chunkSize r + 16"] rf by auto
  show ?thesis
    using assms rf ctx b read_full_size_le [OF rf] read_full_data_size [OF rf]
    by (auto simp: dec_fetch_def dec_size_def Let_def dec_flush_fields dec_finish_fields
        dest: decryptData_fields split: option.splits if_splits prod.splits)
qed

function dec_loop :: "hkdf \<Rightarrow> chunked_decrypt_reader \<Rightarrow> nat \<Rightarrow> bytes \<times> goerr option \<times> chunked_decrypt_reader" where
  "dec_loop H r room =
     (if room = 0 then ([], None, r)
      else if dr_pending r \<noteq> [] then
        (case dec_loop H (r\<lparr>dr_pending := drop room (dr_pending r)\<rparr>) (room - length (dr_pending r)) of
           (b, e, r') \<Rightarrow> (take room (dr_pending r) @ b, e, r'))
      else if dr_done r then ([], None, r)
      else case dr_err (dec_fetch H r) of
          Some e \<Rightarrow> ([], Some e, dec_fetch H r)
        | None \<Rightarrow> dec_loop H (dec_fetch H r) room)"
  by pat_completeness auto
termination
  by (relation "measure (\<lambda>(H, r, room). dec_size r + room)")
    (auto simp: dec_size_def dest: dec_fetch_size [unfolded dec_size_def])

declare dec_loop.simps [simp del]

definition dec_Read :: "hkdf \<Rightarrow> chunked_decrypt_reader \<Rightarrow> nat \<Rightarrow> bytes \<times> goerr option \<times> chunked_decrypt_reader" where
  "dec_Read H r n =
     (case dr_err r of
        Some e \<Rightarrow> ([], Some e, r)
      | None \<Rightarrow>
          if n = 0 then ([], None, r)
          else
            (case dec_loop H r n of
               (b, Some e, r') \<Rightarrow> (b, Some e, r')
             | (b, None, r') \<Rightarrow> if b \<noteq> [] then (b, None, r') else ([], Some EOF, r')))"

definition dec_Close :: "chunked_decrypt_reader \<Rightarrow> chunked_decrypt_reader" where
  "dec_Close r = r\<lparr>dr_done := True\<rparr>"

section \<open>The output of all remaining rounds\<close>

function dec_run :: "hkdf \<Rightarrow> chunked_decrypt_reader \<Rightarrow> bytes \<times> goerr" where
  "dec_run H r =
     (case dr_err r of
        Some e \<Rightarrow> ([], e)
      | None \<Rightarrow>
          if dr_done r then ([], EOF)
          else
            (case dr_err (dec_fetch H (r\<lparr>dr_pending := []\<rparr>)) of
               Some e \<Rightarrow> ([], e)
             | None \<Rightarrow>
                 (case dec_run H (dec_fetch H (r\<lparr>dr_pending := []\<rparr>)) of
                    (b, e) \<Rightarrow> (dr_pending (dec_fetch H (r\<lparr>dr_pending := []\<rparr>)) @ b, e))))"
  by pat_completeness auto
termination
  by (relation "measure (\<lambda>(H, r). dec_size r)") (auto simp: dec_size_def dest: dec_fetch_size [unfolded dec_size_def])

declare dec_run.simps [simp del]

lemma dec_run_done: "dr_err r = None \<Longrightarrow> dr_done r \<Longrightarrow> dec_run H r = ([], EOF)"
  by (simp add: dec_run.simps)

lemma dec_run_err: "dr_err r = Some e \<Longrightarrow> dec_run H r = ([], e)"
  by (simp add: dec_run.simps)

lemma dec_run_pending [simp]: "dec_run H (r\<lparr>dr_pending := b\<rparr>) = dec_run H r"
  by (simp add: dec_run.simps [of H "r\<lparr>dr_pending := b\<rparr>"] dec_run.simps [of H r]
      cong: option.case_cong)

lemma dec_run_step:
  assumes "dr_err r = None" and "\<not> dr_done r" and "dr_pending r = []"
  shows "dec_run H r =
    (case dr_err (dec_fetch H r) of
       Some e \<Rightarrow> ([], e)
     | None \<Rightarrow> (case dec_run H (dec_fetch H r) of (b, e) \<Rightarrow> (dr_pending (dec_fetch H r) @ b, e)))"
proof -
  have "r\<lparr>dr_pending := []\<rparr> = r" using assms(3) by simp
  with assms(1,2) show ?thesis by (subst dec_run.simps) (simp cong: option.case_cong)
qed

interpretation decrypt: buffered_reader "dec_Read H" "dec_loop H" "dec_fetch H" dr_pending
  "\<lambda>n r. r\<lparr>dr_pending := drop n (dr_pending r)\<rparr>" "\<lambda>_. False" dr_done dr_err dec_size "\<lambda>_. True"
  "\<lambda>r. fst (dec_run H r)" "\<lambda>r. snd (dec_run H r)" for H
proof
  fix r :: chunked_decrypt_reader
  assume *: "dr_err r = None" "\<not> dr_done r" "dr_pending r = []"
  show "True \<and> snd (dec_run H (dec_fetch H r)) = snd (dec_run H r) \<and>
      (case dr_err (dec_fetch H r) of
         None \<Rightarrow> fst (dec_run H r) = dr_pending (dec_fetch H r) @ fst (dec_run H (dec_fetch H r)) \<and>
           dec_size (dec_fetch H r) < dec_size r
       | Some e \<Rightarrow> fst (dec_run H r) = [])"
    unfolding dec_run_step [OF *]
    using dec_fetch_size [of H r] * by (auto simp: dec_run_err split: option.splits prod.splits)
qed (auto simp: dec_Read_def dec_run_done dec_run_err dec_size_def dec_loop.simps [of H]
    split: prod.splits option.splits)

section \<open>Streaming refines reading in one piece\<close>

definition dec_scheme :: "chunked_decrypt_reader \<Rightarrow> chunk_scheme" where
  "dec_scheme r = \<lparr>cs_aead = dr_aead r, cs_terminal = dr_terminalAEAD r, cs_version = dr_version r,
     cs_baseIV = dr_baseIV r,
     cs_binding = (if dr_boundV2 r then Some (dr_object r, dr_bindingID r) else None),
     cs_hkdfIV = (cm_IVDerivation (dr_manifest r) = ''hkdf-sha256'')\<rparr>"

lemma dec_scheme_update [simp]:
  "dec_scheme (r\<lparr>dr_ctx := c\<rparr>) = dec_scheme r" "dec_scheme (r\<lparr>dr_source := s\<rparr>) = dec_scheme r"
  "dec_scheme (r\<lparr>dr_pending := b\<rparr>) = dec_scheme r" "dec_scheme (r\<lparr>dr_done := d\<rparr>) = dec_scheme r"
  "dec_scheme (r\<lparr>dr_plainSize := n\<rparr>) = dec_scheme r" "dec_scheme (r\<lparr>dr_index := n\<rparr>) = dec_scheme r"
  "dec_scheme (r\<lparr>dr_lookbehind := b\<rparr>) = dec_scheme r" "dec_scheme (r\<lparr>dr_err := e\<rparr>) = dec_scheme r"
  by (simp_all add: dec_scheme_def)

lemma dec_scheme_version [simp]: "cs_version (dec_scheme r) = dr_version r"
  by (simp add: dec_scheme_def)

lemma dec_nonce_aad_spec: "dec_nonce_aad H r = record_params H (dec_scheme r) (dr_index r)"
proof (cases "dr_version r = 2")
  case True
  obtain n where "deriveChunkNonceHKDF H (dr_baseIV r) 2 (dr_index r) = Inr n"
    using v2_nonces_total by blast
  with True show ?thesis
    by (simp add: dec_nonce_aad_def record_params_def dec_scheme_def chunk_consts)
qed (simp add: dec_nonce_aad_def record_params_def dec_scheme_def chunk_consts)

definition dec_advance :: "chunked_decrypt_reader \<Rightarrow> bytes \<Rightarrow> chunked_decrypt_reader" where
  "dec_advance r pt = r\<lparr>dr_pending := dr_pending r @ pt, dr_index := dr_index r + 1,
     dr_plainSize := dr_plainSize r + of_nat (length pt)\<rparr>"

lemma decryptData_spec:
  "case open_data H (dec_scheme r) (dr_index r) (dr_plainSize r) ct of
     Inl e \<Rightarrow> fst (decryptData H r ct) = Some e
   | Inr pt \<Rightarrow> decryptData H r ct = (None, dec_advance r pt)"
  by (auto simp: open_data_def decryptData_def dec_nonce_aad_spec dec_advance_def Let_def
      dec_scheme_def split: sum.splits prod.splits)

lemma decryptData_Inr:
  "open_data H (dec_scheme r) (dr_index r) (dr_plainSize r) ct = Inr pt \<Longrightarrow>
     decryptData H r ct = (None, dec_advance r pt)"
  using decryptData_spec [of H r ct] by simp

lemma decryptData_Inl:
  "open_data H (dec_scheme r) (dr_index r) (dr_plainSize r) ct = Inl e \<Longrightarrow>
     \<exists>r'. decryptData H r ct = (Some e, r')"
  using decryptData_spec [of H r ct] by (cases "decryptData H r ct") simp

lemma verifyTerminal_spec:
  "dr_version r = 2 \<Longrightarrow>
     verifyTerminal H r t = open_terminal H (dec_scheme r) (dr_index r) (dr_plainSize r) t"
  by (simp add: verifyTerminal_def open_terminal_def terminal_params_def dec_scheme_def chunk_consts
      and_then_assoc split: option.splits)

text \<open>The records of a stream that open, in order, to given plaintexts.\<close>

fun opens :: "hkdf \<Rightarrow> chunk_scheme \<Rightarrow> nat \<Rightarrow> u64 \<Rightarrow> u64 \<Rightarrow> bytes list \<Rightarrow> bytes \<Rightarrow> bool" where
  "opens H c cs i sz [] s = True"
| "opens H c cs i sz (p # ps) s =
     (open_data H c i sz (take (cs + 16) s) = Inr p \<and>
      opens H c cs (i + 1) (sz + of_nat (length p)) ps (drop (cs + 16) s))"

lemma dec_flush_spec:
  assumes "dr_err r = None"
  shows "case dr_err (dec_flush H r) of
      Some e \<Rightarrow> \<forall>rest. open_object H (dec_scheme r) (dr_chunkSize r) (dr_index r) (dr_plainSize r)
        (dr_lookbehind r @ rest) = Inl e
    | None \<Rightarrow> \<exists>ps i sz lb. dec_flush H r = r\<lparr>dr_pending := dr_pending r @ concat ps, dr_index := i,
        dr_plainSize := sz, dr_lookbehind := lb\<rparr> \<and> length lb \<le> 32 + dr_chunkSize r + 16 \<and>
      (\<forall>rest. open_object H (dec_scheme r) (dr_chunkSize r) (dr_index r) (dr_plainSize r)
          (dr_lookbehind r @ rest) =
        and_then (open_object H (dec_scheme r) (dr_chunkSize r) i sz (lb @ rest)) (\<lambda>qs. Inr (ps @ qs))) \<and>
      (\<forall>rest qs. opens H (dec_scheme r) (dr_chunkSize r) i sz qs (lb @ rest) \<longrightarrow>
        opens H (dec_scheme r) (dr_chunkSize r) (dr_index r) (dr_plainSize r) (ps @ qs) (dr_lookbehind r @ rest))"
  using assms
proof (induction H r rule: dec_flush.induct)
  case (1 H r)
  let ?c = "dec_scheme r" and ?cs = "dr_chunkSize r" and ?lb = "dr_lookbehind r"
  let ?x = "take (?cs + 16) ?lb"
  show ?case
  proof (cases "32 + ?cs + 16 < length ?lb")
    case False
    then have "dec_flush H r = r" by (simp add: dec_flush.simps)
    then show ?thesis using False "1.prems"
      by (simp only: option.case) (rule exI [of _ "[]"], rule exI [of _ "dr_index r"],
        rule exI [of _ "dr_plainSize r"], rule exI [of _ ?lb], simp)
  next
    case True
    have big: "open_object H ?c ?cs (dr_index r) (dr_plainSize r) (?lb @ rest) =
        and_then (invalid_record (open_data H ?c (dr_index r) (dr_plainSize r) ?x)) (\<lambda>p.
        and_then (open_object H ?c ?cs (dr_index r + 1) (dr_plainSize r + of_nat (length p))
          (drop (?cs + 16) ?lb @ rest)) (\<lambda>ps. Inr (p # ps)))" for rest
      using True by (subst open_object.simps) simp
    show ?thesis
    proof (cases "open_data H ?c (dr_index r) (dr_plainSize r) ?x")
      case (Inl e)
      then obtain r1 where "decryptData H r ?x = (Some e, r1)" using decryptData_Inl by blast
      then show ?thesis
        using True Inl by (simp add: dec_flush.simps [of H r] big invalid_record_def)
    next
      case (Inr p)
      let ?r = "(dec_advance r p)\<lparr>dr_lookbehind := drop (?cs + 16) ?lb\<rparr>"
      have d: "decryptData H r ?x = (None, dec_advance r p)" using Inr by (rule decryptData_Inr)
      then have step: "dec_flush H r = dec_flush H ?r"
        using True by (simp add: dec_flush.simps [of H r])
      have r: "dec_scheme ?r = ?c" "dr_chunkSize ?r = ?cs" "dr_err ?r = None"
        using "1.prems" by (simp_all add: dec_advance_def)
      note IH = "1.IH" [OF True d [symmetric] refl r(3)]
      show ?thesis
      proof (cases "dr_err (dec_flush H ?r)")
        case (Some e)
        then show ?thesis
          using IH Inr by (simp add: step big r) (simp add: dec_advance_def)
      next
        case None
        with IH obtain ps i sz lb where ps:
          "dec_flush H ?r = ?r\<lparr>dr_pending := dr_pending ?r @ concat ps, dr_index := i,
            dr_plainSize := sz, dr_lookbehind := lb\<rparr>" "length lb \<le> 32 + ?cs + 16"
          "\<And>rest. open_object H ?c ?cs (dr_index r + 1) (dr_plainSize r + of_nat (length p))
              (drop (?cs + 16) ?lb @ rest) =
            and_then (open_object H ?c ?cs i sz (lb @ rest)) (\<lambda>qs. Inr (ps @ qs))"
          "\<And>rest qs. opens H ?c ?cs i sz qs (lb @ rest) \<Longrightarrow>
            opens H ?c ?cs (dr_index r + 1) (dr_plainSize r + of_nat (length p)) (ps @ qs)
              (drop (?cs + 16) ?lb @ rest)"
          unfolding r by (simp add: dec_advance_def) blast
        have "dec_flush H r = r\<lparr>dr_pending := dr_pending r @ concat (p # ps), dr_index := i,
            dr_plainSize := sz, dr_lookbehind := lb\<rparr>"
          unfolding step ps(1) by (simp add: dec_advance_def)
        moreover have "open_object H ?c ?cs (dr_index r) (dr_plainSize r) (?lb @ rest) =
            and_then (open_object H ?c ?cs i sz (lb @ rest)) (\<lambda>qs. Inr ((p # ps) @ qs))" for rest
          unfolding big using Inr by (simp add: ps(3) and_then_assoc)
        moreover have "opens H ?c ?cs (dr_index r) (dr_plainSize r) ((p # ps) @ qs) (?lb @ rest)"
          if "opens H ?c ?cs i sz qs (lb @ rest)" for rest qs
          using ps(4) [OF that] Inr True by simp
        moreover have "dr_err (dec_flush H r) = None" using None step by simp
        ultimately show ?thesis using ps(2) by (simp only: option.case) blast
      qed
    qed
  qed
qed

lemma dec_finish_spec:
  assumes "dr_err r = None" and "dr_version r = 2" and "length (dr_lookbehind r) \<le> 32 + dr_chunkSize r + 16"
  shows "case open_object H (dec_scheme r) (dr_chunkSize r) (dr_index r) (dr_plainSize r) (dr_lookbehind r) of
      Inl e \<Rightarrow> dr_err (dec_finish H r) = Some e
    | Inr ps \<Rightarrow> dr_err (dec_finish H r) = None \<and> dr_done (dec_finish H r) \<and>
        dr_pending (dec_finish H r) = dr_pending r @ concat ps"
proof -
  let ?c = "dec_scheme r" and ?lb = "dr_lookbehind r"
  let ?t = "drop (length ?lb - 32) ?lb" and ?body = "take (length ?lb - 32) ?lb"
  consider "length ?lb < 32" | "length ?lb = 32" | "32 < length ?lb" by linarith
  then show ?thesis
  proof cases
    case 1
    then show ?thesis by (simp add: open_object.simps dec_finish_def)
  next
    case 2
    have "open_object H ?c (dr_chunkSize r) (dr_index r) (dr_plainSize r) ?lb =
        and_then (verifyTerminal H r ?lb) (\<lambda>_. Inr [])"
      using 2 by (simp add: open_object.simps verifyTerminal_spec [OF assms(2)])
    then show ?thesis
      using 2 assms(1) by (cases "verifyTerminal H r ?lb") (simp_all add: dec_finish_def)
  next
    case 3
    then have run: "open_object H ?c (dr_chunkSize r) (dr_index r) (dr_plainSize r) ?lb =
        and_then (invalid_record (open_data H ?c (dr_index r) (dr_plainSize r) ?body)) (\<lambda>p.
        and_then (open_terminal H ?c (dr_index r + 1) (dr_plainSize r + of_nat (length p)) ?t) (\<lambda>_. Inr [p]))"
      using assms(3) by (simp add: open_object.simps)
    show ?thesis
    proof (cases "open_data H ?c (dr_index r) (dr_plainSize r) ?body")
      case (Inl e)
      then obtain r1 where "decryptData H r ?body = (Some e, r1)" using decryptData_Inl by blast
      then show ?thesis using 3 Inl by (simp add: run dec_finish_def invalid_record_def)
    next
      case (Inr p)
      have trailer: "open_terminal H ?c (dr_index r + 1) (dr_plainSize r + of_nat (length p)) ?t =
          verifyTerminal H (dec_advance r p) ?t"
        using assms(2) by (subst verifyTerminal_spec) (simp_all add: dec_advance_def)
      show ?thesis
        using 3 assms(1) decryptData_Inr [OF Inr] Inr
        by (cases "verifyTerminal H (dec_advance r p) ?t")
          (simp_all add: run trailer dec_finish_def Let_def, simp_all add: dec_advance_def)
    qed
  qed
qed

text \<open>
  On a clean source the stream behaves as \<open>open_object\<close> on all of its bytes: same
  plaintext when it is accepted, same error when it is not, and then only the plaintext of
  records that opened at their position has been released.
\<close>

lemma dec_run_v2:
  assumes "src_clean (dr_source r)" and "dr_ctx r = None" and "dr_err r = None" and "\<not> dr_done r"
    and "dr_version r = 2"
  shows "case open_object H (dec_scheme r) (dr_chunkSize r) (dr_index r) (dr_plainSize r)
        (dr_lookbehind r @ src_bytes (dr_source r)) of
      Inr ps \<Rightarrow> dec_run H r = (concat ps, EOF)
    | Inl e \<Rightarrow> snd (dec_run H r) = e \<and>
        (\<exists>ps. fst (dec_run H r) = concat ps \<and> opens H (dec_scheme r) (dr_chunkSize r) (dr_index r)
          (dr_plainSize r) ps (dr_lookbehind r @ src_bytes (dr_source r)))"
  using assms
proof (induction "dec_size r" arbitrary: r rule: less_induct)
  case less
  let ?c = "dec_scheme r" and ?cs = "dr_chunkSize r" and ?data = "src_bytes (dr_source r)"
  obtain b e src where rf: "read_full (dr_source r) (?cs + 16) = (b, e, src)"
    by (cases "read_full (dr_source r) (?cs + 16)")
  note clean = read_full_clean [OF less.prems(1) rf]
  define r1 where "r1 = r\<lparr>dr_pending := [], dr_ctx := None, dr_source := src, dr_lookbehind := dr_lookbehind r @ b\<rparr>"
  have r1: "dec_scheme r1 = ?c" "dr_chunkSize r1 = ?cs" "dr_index r1 = dr_index r"
      "dr_plainSize r1 = dr_plainSize r" "dr_err r1 = None" "dr_version r1 = 2" "dr_pending r1 = []"
    using less.prems by (simp_all add: r1_def)
  have all: "dr_lookbehind r @ ?data = dr_lookbehind r1 @ src_bytes src"
    using clean(1,2) by (simp add: r1_def)
  let ?r0 = "r\<lparr>dr_pending := []\<rparr>"
  have fetch: "dec_fetch H ?r0 =
      (if dr_err (dec_flush H r1) \<noteq> None \<or> e = None then dec_flush H r1 else dec_finish H (dec_flush H r1))"
    using less.prems(2,5) rf clean(4) by (auto simp: dec_fetch_def r1_def chunk_consts Let_def)
  have run: "dec_run H r = (case dr_err (dec_fetch H ?r0) of Some x \<Rightarrow> ([], x)
      | None \<Rightarrow> (case dec_run H (dec_fetch H ?r0) of (b, x) \<Rightarrow> (dr_pending (dec_fetch H ?r0) @ b, x)))"
    using dec_run_step [of ?r0 H] less.prems(3,4) by simp
  note flush = dec_flush_spec [OF r1(5), of H, unfolded r1(1-4)]
  show ?case
  proof (cases "dr_err (dec_flush H r1)")
    case (Some x)
    with flush have "open_object H ?c ?cs (dr_index r) (dr_plainSize r) (dr_lookbehind r @ ?data) = Inl x"
      by (simp add: all)
    moreover have "dec_run H r = ([], x)" using run fetch Some by simp
    ultimately show ?thesis by (auto intro: exI [of _ "[]"])
  next
    case None
    with flush obtain ps i sz lb where ps:
      "dec_flush H r1 = r1\<lparr>dr_pending := concat ps, dr_index := i, dr_plainSize := sz, dr_lookbehind := lb\<rparr>"
      "length lb \<le> 32 + ?cs + 16"
      "\<And>rest. open_object H ?c ?cs (dr_index r) (dr_plainSize r) (dr_lookbehind r1 @ rest) =
        and_then (open_object H ?c ?cs i sz (lb @ rest)) (\<lambda>qs. Inr (ps @ qs))"
      "\<And>rest qs. opens H ?c ?cs i sz qs (lb @ rest) \<Longrightarrow>
        opens H ?c ?cs (dr_index r) (dr_plainSize r) (ps @ qs) (dr_lookbehind r1 @ rest)"
      unfolding r1(7) by (simp only: option.case append_Nil) blast
    define r2 where "r2 = dec_flush H r1"
    have r2_eq: "r2 = r1\<lparr>dr_pending := concat ps, dr_index := i, dr_plainSize := sz, dr_lookbehind := lb\<rparr>"
      by (simp only: r2_def ps(1))
    have r2: "dec_scheme r2 = ?c" "dr_chunkSize r2 = ?cs" "dr_index r2 = i" "dr_plainSize r2 = sz"
        "dr_lookbehind r2 = lb" "dr_pending r2 = concat ps" "dr_source r2 = src" "dr_ctx r2 = None"
        "dr_err r2 = None" "\<not> dr_done r2" "dr_version r2 = 2"
      using less.prems r1 by (simp_all add: r2_eq r1_def)
    show ?thesis
    proof (cases "e = None")
      case True
      then have f: "dec_fetch H ?r0 = r2" using fetch r2_def by simp
      have "b \<noteq> []" using True read_full_None rf by force
      then have "dec_size r2 < dec_size r"
        using read_full_data_size [OF rf] less.prems(4) r2 by (simp add: dec_size_def)
      from less.hyps [OF this] r2 clean(3) have IH:
        "case open_object H ?c ?cs i sz (lb @ src_bytes src) of
           Inr qs \<Rightarrow> dec_run H r2 = (concat qs, EOF)
         | Inl x \<Rightarrow> snd (dec_run H r2) = x \<and>
             (\<exists>qs. fst (dec_run H r2) = concat qs \<and> opens H ?c ?cs i sz qs (lb @ src_bytes src))"
        by (simp cong: sum.case_cong)
      have out: "dec_run H r = (concat ps @ fst (dec_run H r2), snd (dec_run H r2))"
        using run f r2 by (simp split: prod.splits)
      show ?thesis
      proof (cases "open_object H ?c ?cs i sz (lb @ src_bytes src)")
        case (Inl x)
        with IH obtain qs where "snd (dec_run H r2) = x" "fst (dec_run H r2) = concat qs"
            "opens H ?c ?cs i sz qs (lb @ src_bytes src)" by auto
        then show ?thesis
          unfolding all ps(3) using out Inl ps(4) [of qs "src_bytes src"]
          by (auto intro!: exI [of _ "ps @ qs"])
      next
        case (Inr qs)
        then show ?thesis unfolding all ps(3) using IH out by simp
      qed
    next
      case False
      then have empty: "src_bytes src = []" using clean(2,4) by (simp split: if_splits)
      have f: "dec_fetch H ?r0 = dec_finish H r2" using fetch False None r2_def by simp
      note fin = dec_finish_spec [OF r2(9) r2(11), of H, unfolded r2(1-6), OF ps(2)]
      show ?thesis
      proof (cases "open_object H ?c ?cs i sz lb")
        case (Inl x)
        then have "dec_run H r = ([], x)" using run f fin by simp
        then show ?thesis using Inl ps(3) [of "[]"] by (auto simp: all empty intro: exI [of _ "[]"])
      next
        case (Inr qs)
        then have "dec_run H r = (concat (ps @ qs), EOF)"
          using run f fin by (simp add: dec_run_done)
        then show ?thesis using Inr ps(3) [of "[]"] by (simp add: all empty)
      qed
    qed
  qed
qed

section \<open>Version 1\<close>

text \<open>Version 1 has no terminal: the stream is cut into records and each is opened.\<close>

fun open_list :: "hkdf \<Rightarrow> chunk_scheme \<Rightarrow> u64 \<Rightarrow> u64 \<Rightarrow> bytes list \<Rightarrow> goerr + bytes list" where
  "open_list H c i sz [] = Inr []"
| "open_list H c i sz (x # xs) =
     and_then (open_data H c i sz x) (\<lambda>p.
     and_then (open_list H c (i + 1) (sz + of_nat (length p)) xs) (\<lambda>ps. Inr (p # ps)))"

lemma dec_run_v1:
  assumes "src_clean (dr_source r)" and "dr_ctx r = None" and "dr_err r = None" and "\<not> dr_done r"
    and "dr_version r \<noteq> 2"
  shows "case open_list H (dec_scheme r) (dr_index r) (dr_plainSize r)
        (chunks (dr_chunkSize r + 16) (src_bytes (dr_source r))) of
      Inr ps \<Rightarrow> dec_run H r = (concat ps, EOF)
    | Inl e \<Rightarrow> snd (dec_run H r) = e"
  using assms
proof (induction "dec_size r" arbitrary: r rule: less_induct)
  case less
  let ?c = "dec_scheme r" and ?n = "dr_chunkSize r + 16" and ?data = "src_bytes (dr_source r)"
  obtain b e src where rf: "read_full (dr_source r) ?n = (b, e, src)"
    by (cases "read_full (dr_source r) ?n")
  note clean = read_full_clean [OF less.prems(1) rf]
  let ?r0 = "r\<lparr>dr_pending := []\<rparr>"
  define r1 where "r1 = ?r0\<lparr>dr_ctx := None, dr_source := src\<rparr>"
  have run: "dec_run H r = (case dr_err (dec_fetch H ?r0) of Some x \<Rightarrow> ([], x)
      | None \<Rightarrow> (case dec_run H (dec_fetch H ?r0) of (b, x) \<Rightarrow> (dr_pending (dec_fetch H ?r0) @ b, x)))"
    using dec_run_step [of ?r0 H] less.prems(3,4) by simp
  show ?case
  proof (cases "?data = []")
    case True
    then have "dec_fetch H ?r0 = r1\<lparr>dr_done := True\<rparr>"
      using less.prems(2,5) rf clean by (simp add: dec_fetch_def r1_def chunk_consts)
    then show ?thesis using True run less.prems(3) by (simp add: r1_def dec_run_done)
  next
    case False
    then have b: "b \<noteq> []" using clean(1) by simp
    have fetch: "dec_fetch H ?r0 = (case decryptData H r1 b of
        (Some e, r') \<Rightarrow> r'\<lparr>dr_err := Some e\<rparr> | (None, r') \<Rightarrow> r')"
      using less.prems(2,5) rf b by (simp add: dec_fetch_def r1_def chunk_consts)
    have r1: "dec_scheme r1 = ?c" "dr_index r1 = dr_index r" "dr_plainSize r1 = dr_plainSize r"
      by (simp_all add: r1_def)
    have split: "chunks ?n ?data = b # chunks ?n (src_bytes src)"
      using False clean(1,2) by (simp add: chunks_step)
    show ?thesis
    proof (cases "open_data H ?c (dr_index r) (dr_plainSize r) b")
      case (Inl x)
      then obtain r' where "decryptData H r1 b = (Some x, r')"
        using decryptData_Inl [of H r1 b x] by (auto simp: r1)
      then show ?thesis using Inl run fetch split by simp
    next
      case (Inr p)
      let ?r2 = "dec_advance r1 p"
      have f: "dec_fetch H ?r0 = ?r2" using fetch decryptData_Inr [of H r1 b p] Inr by (simp add: r1)
      have r2: "dec_scheme ?r2 = ?c" "dr_chunkSize ?r2 = dr_chunkSize r" "dr_index ?r2 = dr_index r + 1"
          "dr_plainSize ?r2 = dr_plainSize r + of_nat (length p)" "dr_pending ?r2 = p"
          "dr_source ?r2 = src" "dr_ctx ?r2 = None" "dr_err ?r2 = None" "\<not> dr_done ?r2" "dr_version ?r2 \<noteq> 2"
        using less.prems by (simp_all add: dec_advance_def r1_def)
      have "dec_size ?r2 < dec_size r"
        using read_full_data_size [OF rf b] r2 less.prems(4) by (simp add: dec_size_def)
      from less.hyps [OF this] r2 clean(3) have IH:
        "case open_list H ?c (dr_index r + 1) (dr_plainSize r + of_nat (length p)) (chunks ?n (src_bytes src)) of
           Inr ps \<Rightarrow> dec_run H ?r2 = (concat ps, EOF) | Inl e \<Rightarrow> snd (dec_run H ?r2) = e"
        by (simp cong: sum.case_cong)
      have "dec_run H r = (p @ fst (dec_run H ?r2), snd (dec_run H ?r2))"
        using run f r2 by (simp split: prod.splits)
      then show ?thesis
        unfolding split using Inr IH by (auto split: sum.splits)
    qed
  qed
qed

lemma open_list_seal:
  assumes "aead_laws (cs_aead c)"
  shows "\<forall>p \<in> set ps. length p < 2 ^ 62 \<Longrightarrow> unat sz + length (concat ps) < 2 ^ 64 \<Longrightarrow>
    seal_records H c i ps = Inr xs \<Longrightarrow> open_list H c i sz xs = Inr ps"
proof (induction ps arbitrary: i sz xs)
  case (Cons p ps)
  obtain x ys where x: "seal_record H c i p = Inr x" "seal_records H c (i + 1) ps = Inr ys" "xs = x # ys"
    using Cons.prems(3) by (auto simp: and_then_eq_Inr)
  have room: "unat sz + length p < 2 ^ 64" using Cons.prems(2) by simp
  have "open_data H c i sz x = Inr p"
    using x(1) room seal_record_length [OF assms x(1)] Cons.prems(1) by (simp add: open_data_Inr [OF assms])
  moreover have "open_list H c (i + 1) (sz + of_nat (length p)) ys = Inr ps"
    using Cons.IH [of "sz + of_nat (length p)" "i + 1" ys] Cons.prems x u64_add_nat [OF room] by simp
  ultimately show ?case using x by simp
qed simp

section \<open>Constructors\<close>

lemma newChunkedDecryptReaderV2Bound_Inr:
  assumes "cm_Version m = 2" and "cm_ChunkSize m = int cs" and "16384 \<le> cs" and "cs \<le> 1048576"
    and "decodeBase64 (cm_BaseIV m) = Inr iv"
  shows "newChunkedDecryptReaderV2Bound ctx src A (Some m) (Some T) oc b = Inr r \<longleftrightarrow>
    Validate oc = Inr () \<and> length b = 16 \<and>
    r = \<lparr>dr_source = src, dr_aead = A, dr_terminalAEAD = Some T, dr_manifest = m, dr_baseIV = iv,
      dr_chunkSize = cs, dr_ctx = ctx, dr_version = 2, dr_index = 0, dr_plainSize = 0,
      dr_pending = [], dr_lookbehind = [], dr_done = False, dr_err = None, dr_object = oc,
      dr_bindingID = b, dr_boundV2 = True\<rparr>"
proof -
  have "validateChunkedVersion 2 = Inr ()" "validateChunkSize (int cs) = Inr ()" using assms by simp_all
  then show ?thesis
    using assms by (auto simp: newChunkedDecryptReaderV2Bound_def newLegacyChunkedDecryptReaderV2_def
      newChunkedDecryptReaderForVersion_def and_then_eq_Inr chunk_consts)
qed

end
