(* ===== verification/Chunked_Integrity.thy ===== *)
theory Chunked_Integrity
  imports Chunked_Encrypt Chunked_Decrypt
begin

text \<open>
  The properties of the chunked formats that need both directions: decrypting what was
  encrypted, what a client may have seen of a stream that is refused, and that an accepted
  version 2 stream is one the gateway wrote, if no record of it is a forgery.
\<close>

section \<open>Errors of reading\<close>

lemma open_object_not_EOF:
  assumes "hkdf_laws H" and "cs_version c = 2" and "cs_binding c = Some (oc, b)"
    and "Validate oc = Inr ()" and "length b = 16" and "cs_terminal c = Some T"
  shows "open_object H c cs i sz s \<noteq> Inl EOF"
proof -
  have data: "invalid_record (open_data H c i sz x) \<noteq> Inl EOF" for i sz x
    by (auto simp: invalid_record_def wrapErr_def split: sum.splits)
  have trailer: "open_terminal H c i sz x \<noteq> Inl EOF" for i sz x
  proof -
    obtain n a where "terminal_params H c i sz = Inr (n, a)"
      using terminal_params_bound [OF assms(1,3-5)] by blast
    then show ?thesis
      using assms(6)
      by (auto simp: open_terminal_def and_then_eq_Inl wrapErr_def decodeChunkedTerminal_def
          split: sum.splits if_splits)
  qed
  show ?thesis
  proof (induction "length s" arbitrary: i sz s rule: less_induct)
    case less
    have "open_object H c cs (i + 1) sz' (drop (cs + 16) s) \<noteq> Inl EOF"
      if "32 + cs + 16 < length s" for sz'
      using less [of "drop (cs + 16) s"] that by simp
    then show ?case
      using data trailer by (subst open_object.simps) (auto simp: and_then_eq_Inl)
  qed
qed

section \<open>Records that opened were sealed\<close>

lemma opens_seal:
  assumes "aead_laws (cs_aead c)" and "cs < 2 ^ 62"
  shows "opens H c cs i sz ps s \<Longrightarrow> \<exists>xs rest. seal_records H c i ps = Inr xs \<and> s = concat xs @ rest"
proof (induction ps arbitrary: i sz s)
  case (Cons p ps)
  have x: "seal_record H c i p = Inr (take (cs + 16) s)"
    using Cons.prems open_data_Inr [OF assms(1), of "take (cs + 16) s" H i sz p] assms(2) by simp
  obtain xs rest where xs: "seal_records H c (i + 1) ps = Inr xs" "drop (cs + 16) s = concat xs @ rest"
    using Cons.IH [of "i + 1" "sz + of_nat (length p)" "drop (cs + 16) s"] Cons.prems by auto
  have "s = concat (take (cs + 16) s # xs) @ rest"
    using xs(2) append_take_drop_id [of "cs + 16" s] by simp
  moreover have "seal_records H c i (p # ps) = Inr (take (cs + 16) s # xs)" using x xs(1) by simp
  ultimately show ?case by blast
qed simp

text \<open>What is common to the readers of a bound object.\<close>

lemma bound_reader:
  assumes "newChunkedDecryptReaderV2Bound None src A (Some m) (Some T) oc b = Inr d"
  shows "\<exists>iv cs. 16384 \<le> cs \<and> cs \<le> 1048576 \<and> cm_ChunkSize m = int cs \<and>
    decodeBase64 (cm_BaseIV m) = Inr iv \<and> Validate oc = Inr () \<and> length b = 16 \<and>
    dr_source d = src \<and> dr_ctx d = None \<and> dr_err d = None \<and> \<not> dr_done d \<and> dr_version d = 2 \<and>
    dr_chunkSize d = cs \<and> dr_index d = 0 \<and> dr_plainSize d = 0 \<and> dr_lookbehind d = [] \<and>
    dr_pending d = [] \<and>
    dec_scheme d = (bound_scheme A T iv oc b)\<lparr>cs_hkdfIV := (cm_IVDerivation m = ''hkdf-sha256'')\<rparr>"
proof -
  have m: "cm_Version m = 2" "16384 \<le> cm_ChunkSize m" "cm_ChunkSize m \<le> 1048576"
    using assms by (auto simp: newChunkedDecryptReaderV2Bound_def newLegacyChunkedDecryptReaderV2_def
        newChunkedDecryptReaderForVersion_def and_then_eq_Inr chunk_consts split: if_splits)
  obtain iv where iv: "decodeBase64 (cm_BaseIV m) = Inr iv"
    using assms m by (auto simp: newChunkedDecryptReaderV2Bound_def newLegacyChunkedDecryptReaderV2_def
        newChunkedDecryptReaderForVersion_def and_then_eq_Inr chunk_consts split: if_splits sum.splits)
  define cs where "cs = nat (cm_ChunkSize m)"
  have cs: "cm_ChunkSize m = int cs" "16384 \<le> cs" "cs \<le> 1048576" using m by (simp_all add: cs_def)
  from newChunkedDecryptReaderV2Bound_Inr [OF m(1) cs iv] assms show ?thesis
    using cs iv by (auto simp: dec_scheme_def bound_scheme_def chunk_consts)
qed

text \<open>The manifest field for the derivation of version 1 nonces has no effect on version 2.\<close>

lemma v2_ignores_hkdfIV [simp]:
  assumes "cs_version c = 2"
  shows "record_params H (c\<lparr>cs_hkdfIV := x\<rparr>) i = record_params H c i"
    and "terminal_params H (c\<lparr>cs_hkdfIV := x\<rparr>) n sz = terminal_params H c n sz"
    and "seal_record H (c\<lparr>cs_hkdfIV := x\<rparr>) i p = seal_record H c i p"
    and "seal_terminal H (c\<lparr>cs_hkdfIV := x\<rparr>) n sz = seal_terminal H c n sz"
proof -
  show "record_params H (c\<lparr>cs_hkdfIV := x\<rparr>) i = record_params H c i"
    and t: "terminal_params H (c\<lparr>cs_hkdfIV := x\<rparr>) n sz = terminal_params H c n sz"
    using assms by (simp_all add: record_params_def terminal_params_def chunk_consts)
  then show "seal_record H (c\<lparr>cs_hkdfIV := x\<rparr>) i p = seal_record H c i p"
    and "seal_terminal H (c\<lparr>cs_hkdfIV := x\<rparr>) n sz = seal_terminal H c n sz"
    by (simp_all add: seal_record_def seal_terminal_def cong: option.case_cong)
qed

lemma v2_seal_records_hkdfIV [simp]:
  "cs_version c = 2 \<Longrightarrow> seal_records H (c\<lparr>cs_hkdfIV := x\<rparr>) i ps = seal_records H c i ps"
  by (induction ps arbitrary: i) simp_all

section \<open>Round trip\<close>

lemma bound_scheme_simps [simp]:
  "cs_version (bound_scheme A T iv oc b) = 2" "cs_aead (bound_scheme A T iv oc b) = A"
  "cs_terminal (bound_scheme A T iv oc b) = Some T" "cs_binding (bound_scheme A T iv oc b) = Some (oc, b)"
  by (simp_all add: bound_scheme_def chunk_consts)

text \<open>What draining a bound reader says about \<open>open_object\<close>.\<close>

lemma drain_bound_reader:
  assumes "newChunkedDecryptReaderV2Bound None src A (Some m) (Some T) oc b = Inr d"
    and "hkdf_laws H" and "src_clean src"
    and "decodeBase64 (cm_BaseIV m) = Inr iv" and "cm_ChunkSize m = int cs"
  defines "c \<equiv> (bound_scheme A T iv oc b)\<lparr>cs_hkdfIV := (cm_IVDerivation m = ''hkdf-sha256'')\<rparr>"
  shows "open_object H c cs 0 0 (src_bytes src) = Inr ps \<Longrightarrow> dec_run H d = (concat ps, EOF)"
    and "open_object H c cs 0 0 (src_bytes src) = Inl e \<Longrightarrow> e \<noteq> EOF \<and> snd (dec_run H d) = e \<and>
      (\<exists>ps. fst (dec_run H d) = concat ps \<and> opens H c cs 0 0 ps (src_bytes src))"
proof -
  from bound_reader [OF assms(1)] assms(4,5) have d: "dr_source d = src" "dr_ctx d = None" "dr_err d = None"
      "\<not> dr_done d" "dr_version d = 2" "dr_chunkSize d = cs" "dr_index d = 0" "dr_plainSize d = 0"
      "dr_lookbehind d = []" "dec_scheme d = c" "Validate oc = Inr ()" "length b = 16"
    by (auto simp: c_def)
  note run = dec_run_v2 [of d H, unfolded d(1,6-10), OF assms(3) d(2-5)]
  show "open_object H c cs 0 0 (src_bytes src) = Inr ps \<Longrightarrow> dec_run H d = (concat ps, EOF)"
    using run by simp
  assume "open_object H c cs 0 0 (src_bytes src) = Inl e"
  moreover have "open_object H c cs 0 0 (src_bytes src) \<noteq> Inl EOF"
    using d(11,12) by (intro open_object_not_EOF [OF assms(2)]) (simp_all add: c_def)
  ultimately show "e \<noteq> EOF \<and> snd (dec_run H d) = e \<and>
      (\<exists>ps. fst (dec_run H d) = concat ps \<and> opens H c cs 0 0 ps (src_bytes src))"
    using run by auto
qed

lemma drain_decrypt:
  assumes "dr_err d = None" and "dr_pending d = []" and "\<forall>n \<in> set ns. 0 < n"
  shows "drain (dec_Read H) ns d = (out, Some e, d') \<Longrightarrow> dec_run H d = (out, e)"
    and "drain (dec_Read H) ns d = (out, x, d') \<Longrightarrow> \<exists>rest. fst (dec_run H d) = out @ rest"
    and "dec_run H d = (out, e) \<Longrightarrow> length out < length ns \<Longrightarrow> \<exists>d'. drain (dec_Read H) ns d = (out, Some e, d')"
proof -
  note pre = decrypt.reader.drain_prefix [of ns H d, OF _ assms(3)]
  show "drain (dec_Read H) ns d = (out, Some e, d') \<Longrightarrow> dec_run H d = (out, e)"
    using pre [of out "Some e" d'] assms(1,2) by (cases "dec_run H d") simp
  show "drain (dec_Read H) ns d = (out, x, d') \<Longrightarrow> \<exists>rest. fst (dec_run H d) = out @ rest"
    using pre [of out x d'] assms(1,2) by auto
  show "dec_run H d = (out, e) \<Longrightarrow> length out < length ns \<Longrightarrow> \<exists>d'. drain (dec_Read H) ns d = (out, Some e, d')"
    using decrypt.reader.drain_complete [where ns = ns and r = d and H = H] assms by auto
qed

lemma open_object_hkdfIV:
  "cs_version c = 2 \<Longrightarrow> open_object H (c\<lparr>cs_hkdfIV := x\<rparr>) cs i sz s = open_object H c cs i sz s"
proof (induction "length s" arbitrary: i sz s rule: less_induct)
  case less
  have data: "open_data H (c\<lparr>cs_hkdfIV := x\<rparr>) i sz y = open_data H c i sz y" for i sz y
    using less.prems by (simp add: open_data_def)
  have trailer: "open_terminal H (c\<lparr>cs_hkdfIV := x\<rparr>) i sz y = open_terminal H c i sz y" for i sz y
    using less.prems by (simp add: open_terminal_def cong: option.case_cong if_cong)
  have "open_object H (c\<lparr>cs_hkdfIV := x\<rparr>) cs i sz (drop (cs + 16) s) = open_object H c cs i sz (drop (cs + 16) s)"
    if "32 + cs + 16 < length s" for i sz
    using less that by simp
  then show ?case
    by (subst (1 2) open_object.simps) (simp add: data trailer)
qed

text \<open>Reading back a stored object.\<close>

lemma dec_run_object:
  assumes d: "newChunkedDecryptReaderV2Bound None stored A (Some m) (Some T) oc b = Inr d"
    and m: "decodeBase64 (cm_BaseIV m) = Inr iv" "cm_ChunkSize m = int n"
    and laws: "aead_laws A" "aead_laws T" "hkdf_laws H"
    and obj: "seal_object H (bound_scheme A T iv oc b) n p = Inr (src_bytes stored)"
    and "src_clean stored" and "length p < 2 ^ 62"
  shows "dec_run H d = (p, EOF)"
proof -
  let ?c = "bound_scheme A T iv oc b"
  have n: "16384 \<le> n" "n \<le> 1048576" using bound_reader [OF d] m(2) by auto
  obtain xs t where xs: "seal_records H ?c 0 (chunks n p) = Inr xs"
      "seal_terminal H ?c (of_nat (length xs)) (of_nat (length p)) = Inr t" "src_bytes stored = concat xs @ t"
    using obj by (auto simp: seal_object_def and_then_eq_Inr)
  have "open_object H ?c n 0 0 (src_bytes stored) = Inr (chunks n p)"
    unfolding xs(3)
    using open_object_complete [of ?c T n "chunks n p" 0 H 0 xs t] laws xs n assms(9)
      seal_records_length [OF xs(1)] by (simp add: full_records_chunks)
  then have "dec_run H d = (concat (chunks n p), EOF)"
    using drain_bound_reader(1) [OF d laws(3) assms(8) m, of "chunks n p"] by (simp add: open_object_hkdfIV)
  then show ?thesis using n by simp
qed

text \<open>
  C5. Round trip of the version 2 format. Whatever a client reads from the encrypter until
  \<open>EOF\<close>, stored and read back in any portions with the manifest the encrypter returned, the
  decrypter for the same object identity is constructed and delivers the original plaintext,
  again for any buffer sizes, and then \<open>EOF\<close>.
\<close>

theorem chunked_v2_roundtrip:
  assumes "newChunkedEncryptReaderV2Bound None src A iv cs (Some T) oc b = Inr (r, m)"
    and laws: "aead_laws A" "aead_laws T" "hkdf_laws H"
    and src: "src_clean src" "length (src_bytes src) < 2 ^ 62"
    and ns: "\<forall>n \<in> set ns. 0 < n" "drain (enc_Read H) ns r = (obj, Some EOF, r')"
    and stored: "src_clean stored" "src_bytes stored = obj"
    and ms: "\<forall>n \<in> set ms. 0 < n" "length (src_bytes src) < length ms"
  shows "\<exists>d d'. newChunkedDecryptReaderV2Bound None stored A (Some m) (Some T) oc b = Inr d \<and>
    drain (dec_Read H) ms d = (src_bytes src, Some EOF, d')"
proof -
  let ?n = "clampChunkSize cs" and ?c = "bound_scheme A T iv oc b" and ?p = "src_bytes src"
  have ctor: "Validate oc = Inr ()" "length b = 16" "er_err r = None" "er_pending r = []"
      "cm_Version m = 2" "cm_ChunkSize m = int ?n" "cm_BaseIV m = encodeBase64 iv" "cm_IVDerivation m = ''hkdf-sha256''"
    using assms(1) by (auto simp: newChunkedEncryptReaderV2Bound_Inr)
  have n: "16384 \<le> ?n" "?n \<le> 1048576" by (simp_all add: clampChunkSize_def chunk_consts)
  obtain obj' where obj': "seal_object H ?c ?n ?p = Inr obj'"
    using seal_object_bound [OF laws(3), of ?c oc b T] ctor by auto
  have "enc_run H r = (obj', EOF)"
    using enc_run_bound [OF assms(1) laws(3) src_clean_cut [OF src(1)] _ obj'] src(2) by simp
  then have obj: "obj = obj'"
    using encrypt.reader.drain_prefix [of ns H r obj "Some EOF" r'] ns ctor by simp
  obtain d where d: "newChunkedDecryptReaderV2Bound None stored A (Some m) (Some T) oc b = Inr d"
    using newChunkedDecryptReaderV2Bound_Inr [OF ctor(5,6) n, of iv] ctor by auto
  have "dec_run H d = (?p, EOF)"
    using dec_run_object [OF d _ ctor(6) laws _ stored(1) src(2), of iv] obj' obj stored(2) ctor(7) by simp
  moreover have "dr_err d = None" "dr_pending d = []" using bound_reader [OF d] by auto
  ultimately show ?thesis using d drain_decrypt(3) [OF _ _ ms(1), of d H ?p EOF] ms(2) by blast
qed

text \<open>
  C6. No unauthenticated plaintext is released. For an arbitrary stored stream, accepted or
  not, and any manifest, every byte a client has received from the decrypter belongs to the
  plaintext of records that verified, each under the nonce and authenticated data of its own
  position, and these records are the beginning of the stream.
\<close>

theorem chunked_v2_releases_authenticated:
  assumes d: "newChunkedDecryptReaderV2Bound None src A (Some m) (Some T) oc b = Inr d"
    and laws: "aead_laws A" "aead_laws T" "hkdf_laws H"
    and src: "src_clean src" "length (src_bytes src) \<le> 2 ^ 63" and ns: "\<forall>n \<in> set ns. 0 < n"
    and out: "drain (dec_Read H) ns d = (out, e, d')"
  shows "\<exists>iv ps xs later rest. decodeBase64 (cm_BaseIV m) = Inr iv \<and>
    seal_records H (bound_scheme A T iv oc b) 0 ps = Inr xs \<and>
    src_bytes src = concat xs @ rest \<and> concat ps = out @ later"
proof -
  obtain iv cs where m: "decodeBase64 (cm_BaseIV m) = Inr iv" "cm_ChunkSize m = int cs" "cs \<le> 1048576"
      "dr_err d = None" "dr_pending d = []" "Validate oc = Inr ()" "length b = 16"
    using bound_reader [OF d] by auto
  let ?c = "(bound_scheme A T iv oc b)\<lparr>cs_hkdfIV := (cm_IVDerivation m = ''hkdf-sha256'')\<rparr>"
  note run = drain_bound_reader [OF d laws(3) src(1) m(1,2)]
  obtain later where later: "fst (dec_run H d) = out @ later"
    using drain_decrypt(2) [OF m(4,5) ns out] by blast
  have "\<exists>ps xs rest. seal_records H ?c 0 ps = Inr xs \<and> src_bytes src = concat xs @ rest \<and>
      fst (dec_run H d) = concat ps"
  proof (cases "open_object H ?c cs 0 0 (src_bytes src)")
    case (Inl x)
    from run(2) [OF Inl] obtain ps where ps: "fst (dec_run H d) = concat ps"
        "opens H ?c cs 0 0 ps (src_bytes src)" by blast
    then show ?thesis using opens_seal [OF _ _ ps(2)] laws(1) m(3) by fastforce
  next
    case (Inr ps)
    have "\<exists>xs t. seal_records H ?c 0 ps = Inr xs \<and> src_bytes src = concat xs @ t"
      using open_object_sound [OF _ laws(2) _ _ src(2) Inr] laws(1) by auto
    with run(1) [OF Inr] show ?thesis by fastforce
  qed
  then obtain ps xs rest where "seal_records H (bound_scheme A T iv oc b) 0 ps = Inr xs"
      "src_bytes src = concat xs @ rest" "concat ps = out @ later"
    using later by auto
  with m(1) show ?thesis by blast
qed

section \<open>Integrity\<close>

text \<open>
  An object written by the gateway, and what its encryption hands out: for each record the
  nonce, ciphertext and authenticated data, and the same for the terminal.
\<close>

record written =
  w_oc :: object_context
  w_bid :: bytes
  w_iv :: bytes
  w_cs :: nat
  w_plain :: bytes

definition w_scheme :: "aead \<Rightarrow> aead \<Rightarrow> written \<Rightarrow> chunk_scheme" where
  "w_scheme A T w = bound_scheme A T (w_iv w) (w_oc w) (w_bid w)"

definition issued_data :: "hkdf \<Rightarrow> aead \<Rightarrow> aead \<Rightarrow> written \<Rightarrow> (bytes \<times> bytes \<times> bytes) set" where
  "issued_data H A T w = {(n, Seal A n (chunks (w_cs w) (w_plain w) ! k) a, a) | n a k.
     k < length (chunks (w_cs w) (w_plain w)) \<and> record_params H (w_scheme A T w) (of_nat k) = Inr (n, a)}"

definition issued_terminal :: "hkdf \<Rightarrow> aead \<Rightarrow> aead \<Rightarrow> written \<Rightarrow> (bytes \<times> bytes \<times> bytes) set" where
  "issued_terminal H A T w = {(n, Seal T n (encodeChunkedTerminal count sz) a, a) | n a count sz.
     count = of_nat (length (chunks (w_cs w) (w_plain w))) \<and> sz = of_nat (length (w_plain w)) \<and>
     terminal_params H (w_scheme A T w) count sz = Inr (n, a)}"

text \<open>The record at a position of a stored stream, as the reader cuts it.\<close>

definition wire_record :: "nat \<Rightarrow> bytes \<Rightarrow> nat \<Rightarrow> bytes" where
  "wire_record cs s k = take (cs + 16) (drop (k * (cs + 16)) (take (length s - 32) s))"

lemma wire_record_concat:
  assumes "\<forall>x \<in> set (butlast xs). length x = cs + 16" and "\<forall>x \<in> set xs. length x \<le> cs + 16"
    and "k < length xs" and "length t = 32"
  shows "wire_record cs (concat xs @ t) k = xs ! k"
proof -
  have "take (cs + 16) (drop (k * (cs + 16)) (concat xs)) = xs ! k"
    using assms(1-3)
  proof (induction xs arbitrary: k)
    case (Cons x xs)
    show ?case
    proof (cases xs)
      case Nil
      then show ?thesis using Cons.prems by simp
    next
      case (Cons y ys)
      then have x: "length x = cs + 16" using Cons.prems(1) by simp
      show ?thesis
      proof (cases k)
        case (Suc j)
        have "take (cs + 16) (drop (j * (cs + 16)) (concat xs)) = xs ! j"
          using Cons.IH [of j] Cons.prems Cons Suc by simp
        then show ?thesis using Suc x by (simp add: add.commute)
      qed (use x in simp)
    qed
  qed simp
  then show ?thesis using assms(4) by (simp add: wire_record_def)
qed

lemma seal_records_full:
  assumes "aead_laws (cs_aead c)"
  shows "seal_records H c i ps = Inr xs \<Longrightarrow> full_records cs ps \<Longrightarrow>
    (\<forall>x \<in> set (butlast xs). length x = cs + 16) \<and> (\<forall>x \<in> set xs. length x \<le> cs + 16)"
proof (induction ps arbitrary: i xs)
  case (Cons p ps)
  then obtain x ys where x: "seal_record H c i p = Inr x" "seal_records H c (i + 1) ps = Inr ys" "xs = x # ys"
    by (auto simp: and_then_eq_Inr)
  have "length x = length p + 16" using seal_record_length [OF assms x(1)] .
  moreover have "ps = [] \<longleftrightarrow> ys = []" using seal_records_length [OF x(2)] by auto
  ultimately show ?case
    using Cons.IH [OF x(2)] Cons.prems(2) x(3) by (auto simp: full_records_Cons)
qed simp

lemma bound_aad_inject:
  assumes "record_params H (bound_scheme A T iv oc b) i = Inr (n, a)"
    and "record_params H (bound_scheme A T iv' oc' b') j = Inr (n', a)"
  shows "oc = oc' \<and> b = b' \<and> i = j"
proof -
  have "buildObjectAAD aadChunkedV2Data oc b [i] = Inr a" "buildObjectAAD aadChunkedV2Data oc' b' [j] = Inr a"
    using assms by (auto simp: record_params_def and_then_eq_Inr bound_scheme_def)
  from buildObjectAAD_inject [OF this] show ?thesis by simp
qed

lemma bound_terminal_aad_inject:
  assumes "terminal_params H (bound_scheme A T iv oc b) i sz = Inr (n, a)"
    and "terminal_params H (bound_scheme A T iv' oc' b') j sz' = Inr (n', a)"
  shows "oc = oc' \<and> b = b' \<and> i = j \<and> sz = sz'"
proof -
  have "buildObjectAAD aadChunkedV2Trailer oc b [i, sz] = Inr a"
      "buildObjectAAD aadChunkedV2Trailer oc' b' [j, sz'] = Inr a"
    using assms by (auto simp: terminal_params_def and_then_eq_Inr bound_scheme_def)
  from buildObjectAAD_inject [OF this] show ?thesis by simp
qed

text \<open>A record of the stream that was issued for the object is the object's record at that position.\<close>

lemma issued_record:
  assumes "aead_laws A" and "w_oc w = oc" and "w_bid w = b"
    and "record_params H (bound_scheme A T iv oc b) (of_nat k) = Inr (n, a)" and "length n = nonceSize"
    and "(n, x, a) \<in> issued_data H A T w" and "x = Seal A n p a"
    and "k < 2 ^ 64" and "length (chunks (w_cs w) (w_plain w)) < 2 ^ 64"
  shows "k < length (chunks (w_cs w) (w_plain w)) \<and> p = chunks (w_cs w) (w_plain w) ! k \<and>
    seal_record H (w_scheme A T w) (of_nat k) p = Inr x"
proof -
  from assms(6) obtain j where j: "j < length (chunks (w_cs w) (w_plain w))"
      "record_params H (w_scheme A T w) (of_nat j) = Inr (n, a)"
      "x = Seal A n (chunks (w_cs w) (w_plain w) ! j) a"
    by (auto simp: issued_data_def)
  have "(of_nat k :: u64) = of_nat j"
    using bound_aad_inject [OF assms(4) j(2) [unfolded w_scheme_def]] by simp
  then have "k = j" using assms(8,9) j(1) by (simp add: of_nat_u64_inject)
  moreover have "p = chunks (w_cs w) (w_plain w) ! j"
    using aead_open_seal [OF assms(1,5), of p a] aead_open_seal [OF assms(1,5), of "chunks (w_cs w) (w_plain w) ! j" a]
      assms(7) j(3) by simp
  ultimately show ?thesis
    using j assms(5,7) by (simp add: seal_record_Inr w_scheme_def)
qed

text \<open>
  C7. Integrity of version 2 objects. Let \<open>W\<close> be the objects written under the data and
  terminal keys, no two with the same identity and binding identifier. Suppose the stored
  stream contains no forgery: wherever the reader cuts a record or the terminal and it opens,
  it is, with its nonce and authenticated data, one that was handed out when writing one of
  \<open>W\<close>. If a client then reads the stream to \<open>EOF\<close>, the stream is exactly the stored form of
  the one object of \<open>W\<close> with the reader's identity, and the client has its whole plaintext:
  nothing is truncated, extended, reordered or taken from another object. The manifest is
  arbitrary.
\<close>

theorem chunked_v2_integrity:
  assumes d: "newChunkedDecryptReaderV2Bound None src A (Some m) (Some T) oc b = Inr d"
    and m: "decodeBase64 (cm_BaseIV m) = Inr iv" "cm_ChunkSize m = int cs"
    and laws: "aead_laws A" "aead_laws T" "hkdf_laws H"
    and src: "src_clean src" "length (src_bytes src) \<le> 2 ^ 62"
    and W: "\<forall>w \<in> W. length (w_plain w) < 2 ^ 62 \<and> 0 < w_cs w"
      "\<forall>w \<in> W. \<forall>w' \<in> W. w_oc w = w_oc w' \<and> w_bid w = w_bid w' \<longrightarrow> w = w'"
    and data: "\<forall>k n a p. record_params H (bound_scheme A T iv oc b) (of_nat k) = Inr (n, a) \<longrightarrow>
      Open A n (wire_record cs (src_bytes src) k) a = Some p \<longrightarrow>
      (\<exists>w \<in> W. (n, wire_record cs (src_bytes src) k, a) \<in> issued_data H A T w)"
    and terminal: "\<forall>count sz n a p. terminal_params H (bound_scheme A T iv oc b) count sz = Inr (n, a) \<longrightarrow>
      Open T n (drop (length (src_bytes src) - 32) (src_bytes src)) a = Some p \<longrightarrow>
      (\<exists>w \<in> W. (n, drop (length (src_bytes src) - 32) (src_bytes src), a) \<in> issued_terminal H A T w)"
    and ns: "\<forall>n \<in> set ns. 0 < n" and out: "drain (dec_Read H) ns d = (q, Some EOF, d')"
  shows "\<exists>w \<in> W. w_oc w = oc \<and> w_bid w = b \<and> q = w_plain w \<and>
    seal_object H (w_scheme A T w) (w_cs w) (w_plain w) = Inr (src_bytes src)"
proof -
  let ?c = "bound_scheme A T iv oc b" and ?s = "src_bytes src"
  let ?c' = "?c\<lparr>cs_hkdfIV := (cm_IVDerivation m = ''hkdf-sha256'')\<rparr>"
  have init: "dr_err d = None" "dr_pending d = []" using bound_reader [OF d] by auto
  have run: "dec_run H d = (q, EOF)" using drain_decrypt(1) [OF init ns out] .
  then obtain ps where ps: "open_object H ?c' cs 0 0 ?s = Inr ps"
    using drain_bound_reader(2) [OF d laws(3) src(1) m] by (cases "open_object H ?c' cs 0 0 ?s") auto
  have q: "q = concat ps" using run drain_bound_reader(1) [OF d laws(3) src(1) m ps] by simp
  obtain xs t where full: "full_records cs ps" and xs: "seal_records H ?c 0 ps = Inr xs"
      and t: "seal_terminal H ?c (of_nat (length ps)) (of_nat (length q)) = Inr t" and s: "?s = concat xs @ t"
    using open_object_sound [OF _ laws(2) _ _ _ ps] laws(1) src(2) q by fastforce
  have len_t: "length t = 32" using seal_terminal_length [OF _ laws(3) t] laws(2) by simp
  have lens: "length xs = length ps" "length (concat xs) = length q + 16 * length ps"
    using seal_records_length [OF xs] seal_records_total_length [OF _ xs] laws(1) q by simp_all
  have small: "length ps < 2 ^ 64" "length q < 2 ^ 64" using lens src(2) s by simp_all
  obtain n a where na: "terminal_params H ?c (of_nat (length ps)) (of_nat (length q)) = Inr (n, a)"
      "length n = nonceSize" "t = Seal T n (encodeChunkedTerminal (of_nat (length ps)) (of_nat (length q))) a"
    using t by (auto simp: seal_terminal_def chunk_consts and_then_eq_Inr goSeal_def split: if_splits)
  have "drop (length ?s - 32) ?s = t" using s len_t by simp
  then obtain w where w: "w \<in> W" "(n, t, a) \<in> issued_terminal H A T w"
    using terminal na aead_open_seal [OF laws(2) na(2)] by metis
  let ?cs = "chunks (w_cs w) (w_plain w)"
  have tw: "terminal_params H (w_scheme A T w) (of_nat (length ?cs)) (of_nat (length (w_plain w))) = Inr (n, a)"
      "t = Seal T n (encodeChunkedTerminal (of_nat (length ?cs)) (of_nat (length (w_plain w)))) a"
    using w(2) by (auto simp: issued_terminal_def)
  have len_w: "length (w_plain w) < 2 ^ 62" "0 < w_cs w" using W(1) w(1) by auto
  then have len_cs: "length ?cs \<le> length (w_plain w)"
    using chunk_count_length [of "w_cs w" "w_plain w"] chunk_count_le [of "int (length (w_plain w))" "int (w_cs w)"]
    by simp
  have id: "w_oc w = oc" "w_bid w = b" "(of_nat (length ps) :: u64) = of_nat (length ?cs)"
    using bound_terminal_aad_inject [OF na(1) tw(1) [unfolded w_scheme_def]] by simp_all
  then have count: "length ps = length ?cs"
    using small len_cs len_w by (simp add: of_nat_u64_inject)
  have rec: "ps ! k = ?cs ! k \<and> seal_record H (w_scheme A T w) (of_nat k) (?cs ! k) = Inr (xs ! k)"
    if k: "k < length ps" for k
  proof -
    obtain n a where r: "record_params H ?c (of_nat k) = Inr (n, a)" "length n = nonceSize"
        "xs ! k = Seal A n (ps ! k) a"
      using seal_records_nth [OF xs k] by (auto simp: seal_record_Inr)
    have "wire_record cs ?s k = xs ! k"
      using wire_record_concat [OF _ _ _ len_t, of xs cs k] seal_records_full [OF _ xs full] laws(1) k lens(1) s
      by simp
    then obtain w' where w': "w' \<in> W" "(n, xs ! k, a) \<in> issued_data H A T w'"
      using data r aead_open_seal [OF laws(1) r(2)] by metis
    have "w_oc w' = oc" "w_bid w' = b"
      using w'(2) bound_aad_inject [OF r(1)] by (auto simp: issued_data_def w_scheme_def)
    then have "w' = w" using W(2) w(1) w'(1) id by auto
    then show ?thesis
      using issued_record [OF laws(1) id(1,2) r(1,2) _ r(3)] w'(2) k small len_cs len_w by auto
  qed
  then have "ps = ?cs" using count by (auto intro: nth_equalityI)
  moreover have "seal_records H (w_scheme A T w) 0 ps = Inr xs"
  proof -
    have "\<forall>k < length ps. \<exists>n a. record_params H (w_scheme A T w) (0 + of_nat k) = Inr (n, a) \<and> length n = nonceSize"
      using rec unfolding seal_record_Inr by (metis add_0)
    then obtain ys where ys: "seal_records H (w_scheme A T w) 0 ps = Inr ys"
      using seal_records_ok [of ps H "w_scheme A T w" 0] by auto
    have "ys ! k = xs ! k" if "k < length ps" for k
      using seal_records_nth [OF ys that] rec [OF that] by simp
    then show ?thesis using ys lens(1) seal_records_length [OF ys] by (auto intro: nth_equalityI)
  qed
  moreover have "seal_terminal H (w_scheme A T w) (of_nat (length ?cs)) (of_nat (length (w_plain w))) = Inr t"
    using tw na(2) by (simp add: seal_terminal_def w_scheme_def chunk_consts goSeal_def)
  ultimately show ?thesis
    using w(1) id q s lens(1) len_w(2) by (auto simp: seal_object_def)
qed

section \<open>Witnesses\<close>

text \<open>The three-byte example object: written, stored and read back.\<close>

lemma ex_stored:
  assumes "aead_laws A" and "aead_laws T"
  shows "\<exists>r m obj r'. newChunkedEncryptReaderV2Bound None ex_src A ex_iv 65536 (Some T) ex_oc ex_bid = Inr (r, m) \<and>
    seal_object sum_hkdf (bound_scheme A T ex_iv ex_oc ex_bid) (clampChunkSize 65536) [1, 2, 3] = Inr obj \<and>
    length obj = 51 \<and> drain (enc_Read sum_hkdf) (replicate 60 7) r = (obj, Some EOF, r')"
proof -
  obtain r m where r: "newChunkedEncryptReaderV2Bound None ex_src A ex_iv 65536 (Some T) ex_oc ex_bid = Inr (r, m)"
    using ex_encrypter by blast
  have src: "src_cut ex_src" "src_bytes ex_src = [1, 2, 3]" by (simp_all add: ex_src_def)
  obtain obj where obj: "seal_object sum_hkdf (bound_scheme A T ex_iv ex_oc ex_bid) (clampChunkSize 65536) [1, 2, 3] = Inr obj"
    using bound_object_exists [OF r sum_hkdf_laws] by blast
  have len: "length obj = 51" using ex_object_length [OF assms obj] .
  then show ?thesis
    using enc_drain_bound [OF r sum_hkdf_laws src(1), of obj "replicate 60 7"] src(2) obj r by auto
qed

theorem chunked_v2_roundtrip_witness:
  "\<exists>r m obj r' d d'.
     newChunkedEncryptReaderV2Bound None ex_src sum_aead ex_iv 65536 (Some sum_aead) ex_oc ex_bid = Inr (r, m) \<and>
     drain (enc_Read sum_hkdf) (replicate 60 7) r = (obj, Some EOF, r') \<and>
     newChunkedDecryptReaderV2Bound None [SData (take 20 obj), SData (drop 20 obj)] sum_aead (Some m)
       (Some sum_aead) ex_oc ex_bid = Inr d \<and>
     drain (dec_Read sum_hkdf) [2, 1, 4, 4] d = ([1, 2, 3], Some EOF, d')"
proof -
  obtain r m obj r' where r: "newChunkedEncryptReaderV2Bound None ex_src sum_aead ex_iv 65536 (Some sum_aead) ex_oc ex_bid = Inr (r, m)"
      "drain (enc_Read sum_hkdf) (replicate 60 7) r = (obj, Some EOF, r')"
    using ex_stored [OF sum_aead_laws sum_aead_laws] by blast
  have src: "src_clean ex_src" "src_bytes ex_src = [1, 2, 3]" by (simp_all add: ex_src_def)
  show ?thesis
    using chunked_v2_roundtrip [OF r(1) sum_aead_laws sum_aead_laws sum_hkdf_laws src(1) _ _ r(2),
        of "[SData (take 20 obj), SData (drop 20 obj)]" "[2, 1, 4, 4]"] src(2) r
    by auto
qed

text \<open>A stream that is not an object: nothing is released.\<close>

theorem chunked_v2_releases_authenticated_witness:
  "\<exists>d out e d' ps xs rest later. newChunkedDecryptReaderV2Bound None [SData (replicate 40 0)] sum_aead
       (Some \<lparr>cm_Version = 2, cm_ChunkSize = 65536, cm_ChunkCount = 0, cm_BaseIV = encodeBase64 ex_iv,
         cm_IVs = [], cm_IVDerivation = ''hkdf-sha256''\<rparr>) (Some sum_aead) ex_oc ex_bid = Inr d \<and>
     drain (dec_Read sum_hkdf) [8, 8] d = (out, e, d') \<and>
     seal_records sum_hkdf (bound_scheme sum_aead sum_aead ex_iv ex_oc ex_bid) 0 ps = Inr xs \<and>
     replicate 40 0 = concat xs @ rest \<and> concat ps = out @ later"
proof -
  let ?m = "\<lparr>cm_Version = 2, cm_ChunkSize = 65536, cm_ChunkCount = 0, cm_BaseIV = encodeBase64 ex_iv,
         cm_IVs = [], cm_IVDerivation = ''hkdf-sha256''\<rparr>"
  obtain d where d: "newChunkedDecryptReaderV2Bound None [SData (replicate 40 0)] sum_aead (Some ?m)
      (Some sum_aead) ex_oc ex_bid = Inr d"
    using newChunkedDecryptReaderV2Bound_Inr [of ?m 65536 ex_iv]
    by (simp add: Validate_def ex_oc_def ex_bid_def)
  obtain out e d' where out: "drain (dec_Read sum_hkdf) [8, 8] d = (out, e, d')"
    by (cases "drain (dec_Read sum_hkdf) [8, 8] d")
  show ?thesis
    using chunked_v2_releases_authenticated [OF d sum_aead_laws sum_aead_laws sum_hkdf_laws _ _ _ out] d out
    by auto
qed

definition ex_written :: written where
  "ex_written = \<lparr>w_oc = ex_oc, w_bid = ex_bid, w_iv = ex_iv, w_cs = clampChunkSize 65536, w_plain = [1, 2, 3]\<rparr>"

text \<open>With the last 16 bytes of the authenticated data as tag, an opened terminal determines its counters.\<close>

lemma suffix_aead_open:
  "Open suffix_aead n c a = Some p \<Longrightarrow> length c = length p + 16 \<and> c = p @ drop (length a) (replicate 16 0 @ a)"
proof -
  assume "Open suffix_aead n c a = Some p"
  then have p: "p = take (length c - 16) c" "16 \<le> length c"
      "drop (length c - 16) c = drop (length a) (replicate 16 0 @ a)"
    by (auto simp: suffix_aead_def tag_aead_def Let_def split: if_splits)
  then show ?thesis using append_take_drop_id [of "length c - 16" c] by simp
qed

lemma terminal_aad_suffix:
  assumes "terminal_params H (bound_scheme A T iv oc b) count sz = Inr (n, a)"
  shows "drop (length a) (replicate 16 0 @ a) = be64 count @ be64 sz"
proof -
  have "buildObjectAAD aadChunkedV2Trailer oc b [count, sz] = Inr a"
    using assms by (auto simp: terminal_params_def and_then_eq_Inr bound_scheme_def)
  then obtain pre where "a = pre @ be64 count @ be64 sz"
    unfolding buildObjectAAD_Inr by auto
  then show ?thesis by simp
qed

lemma ex_no_forged_terminal:
  assumes "terminal_params H (bound_scheme suffix_aead suffix_aead ex_iv ex_oc ex_bid) 1 3 = Inr (n0, a0)"
    and "terminal_params H (bound_scheme suffix_aead suffix_aead ex_iv ex_oc ex_bid) count sz = Inr (n, a)"
    and "Open suffix_aead n (Seal suffix_aead n0 (encodeChunkedTerminal 1 3) a0) a = Some p"
  shows "count = 1 \<and> sz = 3"
proof -
  let ?t = "Seal suffix_aead n0 (encodeChunkedTerminal 1 3) a0"
  have "?t = encodeChunkedTerminal 1 3 @ be64 1 @ be64 3"
    using terminal_aad_suffix [OF assms(1)] by (simp add: suffix_aead_def tag_aead_def)
  then have "p @ be64 count @ be64 sz = encodeChunkedTerminal 1 3 @ be64 1 @ be64 3" "length p = 16"
    using suffix_aead_open [OF assms(3)] terminal_aad_suffix [OF assms(2)] by simp_all
  then show ?thesis by (simp add: append_eq_append_conv)
qed

theorem chunked_v2_integrity_witness:
  "\<exists>m obj d q d'. newChunkedDecryptReaderV2Bound None [SData obj] suffix_aead (Some m) (Some suffix_aead)
       ex_oc ex_bid = Inr d \<and> drain (dec_Read sum_hkdf) [2, 1, 4, 4] d = (q, Some EOF, d') \<and>
     q = w_plain ex_written \<and>
     seal_object sum_hkdf (w_scheme suffix_aead suffix_aead ex_written) (w_cs ex_written) (w_plain ex_written) = Inr obj"
proof -
  let ?A = suffix_aead and ?n = "clampChunkSize 65536" and ?c = "bound_scheme suffix_aead suffix_aead ex_iv ex_oc ex_bid"
  let ?m = "\<lparr>cm_Version = 2, cm_ChunkSize = int ?n, cm_ChunkCount = 0, cm_BaseIV = encodeBase64 ex_iv,
         cm_IVs = [], cm_IVDerivation = ''hkdf-sha256''\<rparr>"
  have n: "?n = 65536" by (simp add: clampChunkSize_def chunk_consts)
  obtain obj where obj: "seal_object sum_hkdf ?c ?n [1, 2, 3] = Inr obj" "length obj = 51"
    using ex_stored [OF suffix_aead_laws suffix_aead_laws] by blast
  obtain d where d: "newChunkedDecryptReaderV2Bound None [SData obj] ?A (Some ?m) (Some ?A) ex_oc ex_bid = Inr d"
    using newChunkedDecryptReaderV2Bound_Inr [of ?m ?n ex_iv]
    by (simp add: Validate_def ex_oc_def ex_bid_def n)
  have "dec_run sum_hkdf d = ([1, 2, 3], EOF)"
    using dec_run_object [OF d, of ex_iv ?n sum_hkdf] obj(1) by simp
  moreover have "dr_err d = None" "dr_pending d = []" using bound_reader [OF d] by auto
  ultimately obtain d' where out: "drain (dec_Read sum_hkdf) [2, 1, 4, 4] d = ([1, 2, 3], Some EOF, d')"
    using drain_decrypt(3) [of d "[2, 1, 4, 4]" sum_hkdf] by auto
  have w: "w_scheme ?A ?A ex_written = ?c" "chunks (w_cs ex_written) (w_plain ex_written) = [[1, 2, 3]]"
      "length (w_plain ex_written) = 3"
    by (simp_all add: w_scheme_def ex_written_def n chunks.simps)
  have chunk: "chunks ?n [1, 2, 3 :: byte] = [[1, 2, 3]]" by (simp add: n chunks.simps)
  from obj(1) obtain x t where xt: "seal_record sum_hkdf ?c 0 [1, 2, 3] = Inr x"
      "seal_terminal sum_hkdf ?c 1 3 = Inr t" "obj = x @ t"
    by (auto simp: seal_object_def and_then_eq_Inr chunk)
  have len: "length x = 19" "length t = 32"
    using seal_record_length [OF _ xt(1)] seal_terminal_length [OF _ _ xt(2)] by simp_all
  have rec: "wire_record ?n obj k = (if k = 0 then x else [])" for k
    using len by (simp add: wire_record_def xt(3) n)
  have data: "\<exists>w \<in> {ex_written}. (nn, wire_record ?n obj k, a) \<in> issued_data sum_hkdf ?A ?A w"
    if "record_params sum_hkdf ?c (of_nat k) = Inr (nn, a)" "Open ?A nn (wire_record ?n obj k) a = Some p" for k nn a p
  proof (cases "k = 0")
    case True
    then have "x = Seal ?A nn [1, 2, 3] a" using xt(1) that(1) by (simp add: seal_record_Inr)
    then show ?thesis using True that(1) by (auto simp: rec issued_data_def w intro!: exI [of _ 0])
  next
    case False
    then show ?thesis using that(2) suffix_aead_open [of nn "[]" a p] by (simp add: rec)
  qed
  obtain n0 a0 where t0: "terminal_params sum_hkdf ?c 1 3 = Inr (n0, a0)"
      "t = Seal ?A n0 (encodeChunkedTerminal 1 3) a0"
    using xt(2) by (auto simp: seal_terminal_def chunk_consts and_then_eq_Inr goSeal_def split: if_splits)
  have "drop (length obj - 32) obj = t" using len xt(3) by simp
  moreover have "(nn, t, a) \<in> issued_terminal sum_hkdf ?A ?A ex_written"
    if "terminal_params sum_hkdf ?c count sz = Inr (nn, a)" "Open ?A nn t a = Some p" for count sz nn a p
    using ex_no_forged_terminal [OF t0(1) that(1) that(2) [unfolded t0(2)]] that(1) t0
    by (auto simp: issued_terminal_def w)
  ultimately have terminal: "\<forall>count sz nn a p. terminal_params sum_hkdf ?c count sz = Inr (nn, a) \<longrightarrow>
      Open ?A nn (drop (length (src_bytes [SData obj]) - 32) (src_bytes [SData obj])) a = Some p \<longrightarrow>
      (\<exists>w \<in> {ex_written}. (nn, drop (length (src_bytes [SData obj]) - 32) (src_bytes [SData obj]), a) \<in>
        issued_terminal sum_hkdf ?A ?A w)"
    by auto
  have "\<exists>w \<in> {ex_written}. w_oc w = ex_oc \<and> w_bid w = ex_bid \<and> [1, 2, 3] = w_plain w \<and>
      seal_object sum_hkdf (w_scheme ?A ?A w) (w_cs w) (w_plain w) = Inr (src_bytes [SData obj])"
  proof (rule chunked_v2_integrity [OF d _ _ _ _ _ _ _ _ _ _ terminal _ out])
    show "\<forall>k nn a p. record_params sum_hkdf ?c (of_nat k) = Inr (nn, a) \<longrightarrow>
        Open ?A nn (wire_record ?n (src_bytes [SData obj]) k) a = Some p \<longrightarrow>
        (\<exists>w \<in> {ex_written}. (nn, wire_record ?n (src_bytes [SData obj]) k, a) \<in> issued_data sum_hkdf ?A ?A w)"
      using data by auto
  qed (simp_all add: obj ex_written_def)
  then show ?thesis using d out by auto
qed

end
