(* ===== verification/Range_Reader.thy ===== *)
theory Range_Reader
  imports Chunked_Spec Go_Reader
begin

text \<open>
  The range reader of \<^verbatim>\<open>internal/crypto/range_decrypt.go\<close>, \<^verbatim>\<open>rangeDecryptReader\<close>: it decrypts
  only the records that hold a plaintext range, from a source that starts either at the
  first of them or at the beginning of the object.
\<close>

section \<open>State and constructors\<close>

record range_decrypt_reader =
  rr_source :: source
  rr_aead :: aead
  rr_manifest :: chunk_manifest
  rr_baseIV :: bytes
  rr_chunkSize :: nat
  rr_plaintextStart :: int
  rr_plaintextEnd :: int
  rr_startChunk :: u64
  rr_endChunk :: u64
  rr_startOffsetInChunk :: nat
  rr_endOffsetInChunk :: nat
  rr_currentChunk :: bytes
  rr_currentChunkIndex :: u64
  rr_sourceChunkIndex :: u64
  rr_bytesReturned :: int
  rr_closed :: bool
  rr_err :: "goerr option"
  rr_isOptimized :: bool
  rr_plaintextSize :: int
  rr_object :: object_context
  rr_bindingID :: bytes
  rr_boundV2 :: bool

text \<open>
  \<^verbatim>\<open>io.CopyN(io.Discard, source, n)\<close>: the number of bytes skipped, the error (\<open>EOF\<close> when the
  source ends early) and the source afterwards.
\<close>

fun copyN :: "source \<Rightarrow> nat \<Rightarrow> nat \<times> goerr option \<times> source" where
  "copyN [] n = (0, if n = 0 then None else Some EOF, [])"
| "copyN (SFail e # s) n = (if n = 0 then (0, None, SFail e # s) else (0, Some e, s))"
| "copyN (SData d # s) n =
     (if n = 0 then (0, None, SData d # s)
      else if n \<le> length d then (n, None, if n = length d then s else SData (drop n d) # s)
      else case copyN s (n - length d) of (k, e, s') \<Rightarrow> (length d + k, e, s'))"

text \<open>Positioning a source that starts at the beginning of the object.\<close>

definition skipToStartChunk :: "source \<Rightarrow> int \<Rightarrow> int \<Rightarrow> goerr + source" where
  "skipToStartChunk source chunkSize startChunk =
     (let encryptedChunkSize = wrap64 (chunkSize + tagSize) in
      if encryptedChunkSize \<le> 0 \<or> startChunk > maxInt64 div encryptedChunkSize
      then Inl (Err ''chunk range overflow'')
      else
        let skipBytes = wrap64 (wrapU64 (startChunk * encryptedChunkSize)) in
        (case copyN source (nat skipBytes) of
           (skipped, err, src) \<Rightarrow>
             if err \<noteq> None \<and> err \<noteq> Some EOF then Inl (Err ''failed to skip to start chunk'')
             else if int skipped < skipBytes
             then Inl (Err ''unexpected EOF while skipping'')
             else Inr src))"

definition newRangeDecryptReader ::
  "source \<Rightarrow> aead \<Rightarrow> chunk_manifest option \<Rightarrow> bytes \<Rightarrow> int \<Rightarrow> int \<Rightarrow> bool \<Rightarrow> int option \<Rightarrow>
     goerr + range_decrypt_reader" where
  "newRangeDecryptReader source A manifest baseIV plaintextStart plaintextEnd isOptimizedSource plaintextSizes =
     (case manifest of
        None \<Rightarrow> Inl (Err ''missing chunk manifest'')
      | Some m \<Rightarrow>
          if cm_Version m \<noteq> ChunkedFormatV1 \<and> cm_Version m \<noteq> ChunkedFormatV2
          then Inl ErrUnsupportedChunkedVersion
          else and_then (validateChunkSize (cm_ChunkSize m)) (\<lambda>_.
            let plaintextSize = (case plaintextSizes of None \<Rightarrow> - 1 | Some n \<Rightarrow> n) in
            case calculateChunkRangeFromPlaintext plaintextStart plaintextEnd (cm_ChunkSize m)
                   (uint (cm_ChunkCount m)) of
              (startChunk, endChunk, startOffset, endOffset) \<Rightarrow>
                if endChunk \<ge> uint (cm_ChunkCount m) \<or> startChunk > endChunk
                then Inl (Err ''invalid chunk range'')
                else
                  and_then
                    (if \<not> isOptimizedSource \<and> startChunk > 0 then
                       skipToStartChunk source (cm_ChunkSize m) startChunk
                     else Inr source)
                    (\<lambda>src. Inr \<lparr>rr_source = src, rr_aead = A, rr_manifest = m, rr_baseIV = baseIV,
                       rr_chunkSize = nat (cm_ChunkSize m), rr_plaintextStart = plaintextStart,
                       rr_plaintextEnd = plaintextEnd, rr_startChunk = word_of_int startChunk,
                       rr_endChunk = word_of_int endChunk, rr_startOffsetInChunk = nat startOffset,
                       rr_endOffsetInChunk = nat endOffset, rr_currentChunk = [],
                       rr_currentChunkIndex = word_of_int startChunk, rr_sourceChunkIndex = 0,
                       rr_bytesReturned = 0, rr_closed = False, rr_err = None,
                       rr_isOptimized = isOptimizedSource, rr_plaintextSize = plaintextSize,
                       rr_object = \<lparr>oc_bucket = [], oc_key = []\<rparr>, rr_bindingID = [],
                       rr_boundV2 = False\<rparr>)))"

definition newRangeDecryptReaderBound ::
  "source \<Rightarrow> aead \<Rightarrow> chunk_manifest option \<Rightarrow> bytes \<Rightarrow> int \<Rightarrow> int \<Rightarrow> bool \<Rightarrow> int \<Rightarrow>
     object_context \<Rightarrow> bytes \<Rightarrow> goerr + range_decrypt_reader" where
  "newRangeDecryptReaderBound source A manifest baseIV start end optimized plaintextSize object bindingID =
     and_then (Validate object) (\<lambda>_.
       if length bindingID \<noteq> 16 then Inl (Err ''binding ID must be exactly 16 bytes'')
       else and_then (newRangeDecryptReader source A manifest baseIV start end optimized (Some plaintextSize)) (\<lambda>r.
         Inr (r\<lparr>rr_object := object, rr_bindingID := bindingID, rr_boundV2 := True\<rparr>)))"

section \<open>Read\<close>

definition rr_deriveChunkIV :: "hkdf \<Rightarrow> range_decrypt_reader \<Rightarrow> u64 \<Rightarrow> goerr + bytes" where
  "rr_deriveChunkIV H r chunkIndex =
     (if cm_Version (rr_manifest r) = ChunkedFormatV2
      then deriveChunkNonceHKDF H (rr_baseIV r) ChunkedFormatV2 chunkIndex
      else if cm_IVDerivation (rr_manifest r) \<noteq> ''hkdf-sha256''
      then deriveLegacyChunkIVIndex (rr_baseIV r) chunkIndex
      else deriveChunkIVHKDFIndex H (rr_baseIV r) chunkIndex)"

definition rr_maxBytes :: "range_decrypt_reader \<Rightarrow> int" where
  "rr_maxBytes r = wrap64 (wrap64 (rr_plaintextEnd r - rr_plaintextStart r) + 1)"

text \<open>The size of the next record: the last one may be shorter.\<close>

definition rr_expectedSize :: "range_decrypt_reader \<Rightarrow> goerr + nat" where
  "rr_expectedSize r =
     (if cm_Version (rr_manifest r) = ChunkedFormatV2 \<and>
         rr_currentChunkIndex r = cm_ChunkCount (rr_manifest r) - 1 \<and>
         (rr_boundV2 r \<or> rr_plaintextSize r \<ge> 0) then
        (if rr_plaintextSize r < 0 \<and> rr_boundV2 r
         then Inl (Err ''exact plaintext size required for optimized v2 final chunk'')
         else if rr_chunkSize r = 0 \<or> uint (rr_currentChunkIndex r) > maxInt64 div int (rr_chunkSize r)
         then Inl (Err ''final chunk offset overflow'')
         else
           let finalPlainSize = wrap64 (rr_plaintextSize r -
                 wrap64 (uint (rr_currentChunkIndex r) * int (rr_chunkSize r))) in
           Inr (if 0 < finalPlainSize \<and> finalPlainSize < int (rr_chunkSize r)
                then nat finalPlainSize + 16 else rr_chunkSize r + 16))
      else Inr (rr_chunkSize r + 16))"

text \<open>
  Authenticated data of the next record. In the unbound version 2 case the error of the
  preceding \<^verbatim>\<open>ReadFull\<close> (\<open>err\<close>) is still in the variable that is checked.
\<close>

definition rr_aad :: "range_decrypt_reader \<Rightarrow> goerr option \<Rightarrow> goerr + bytes" where
  "rr_aad r err =
     (if cm_Version (rr_manifest r) = ChunkedFormatV2 then
        (if rr_boundV2 r then buildObjectAAD aadChunkedV2Data (rr_object r) (rr_bindingID r) [rr_currentChunkIndex r]
         else (case err of None \<Rightarrow> Inr (buildChunkAAD ChunkedFormatV2 (rr_currentChunkIndex r))
                         | Some e \<Rightarrow> Inl e))
      else Inr [])"

text \<open>Decrypting one record and cutting out the requested part.\<close>

definition rr_decrypt :: "hkdf \<Rightarrow> range_decrypt_reader \<Rightarrow> bytes \<Rightarrow> goerr option \<Rightarrow> goerr + bytes" where
  "rr_decrypt H r buf err =
     and_then (rr_deriveChunkIV H r (rr_currentChunkIndex r)) (\<lambda>chunkIV.
     and_then (rr_aad r err) (\<lambda>aad.
       case goOpen (rr_aead r) chunkIV buf aad of
         Inl e \<Rightarrow> Inl (wrapErr (Err ''failed to decrypt chunk'') e)
       | Inr plaintext \<Rightarrow>
           if rr_currentChunkIndex r = rr_startChunk r \<and> rr_startOffsetInChunk r \<ge> length plaintext
           then Inl (Err ''start offset exceeds chunk size'')
           else
             let chunkData = (if rr_currentChunkIndex r = rr_startChunk r
                   then drop (rr_startOffsetInChunk r) plaintext else plaintext) in
             Inr (if rr_currentChunkIndex r = rr_endChunk r \<and> rr_endOffsetInChunk r < length chunkData
                  then take (rr_endOffsetInChunk r + 1) chunkData else chunkData)))"

definition rr_fetch :: "hkdf \<Rightarrow> range_decrypt_reader \<Rightarrow> range_decrypt_reader" where
  "rr_fetch H r =
     (if rr_currentChunkIndex r > rr_endChunk r then r\<lparr>rr_closed := True\<rparr>
      else case rr_expectedSize r of
        Inl e \<Rightarrow> r\<lparr>rr_err := Some e\<rparr>
      | Inr expectedSize \<Rightarrow>
          (case read_full (rr_source r) expectedSize of
             (buf, err, src) \<Rightarrow>
               let r = r\<lparr>rr_source := src\<rparr> in
               if err = Some EOF \<and> buf = [] then r\<lparr>rr_closed := True\<rparr>
               else if err \<noteq> None \<and> err \<noteq> Some EOF \<and> err \<noteq> Some ErrUnexpectedEOF
               then r\<lparr>rr_err := err\<rparr>
               else
                 (case rr_decrypt H r buf err of
                    Inl e \<Rightarrow> r\<lparr>rr_err := Some e\<rparr>
                  | Inr chunkData \<Rightarrow>
                      r\<lparr>rr_currentChunk := rr_currentChunk r @ chunkData,
                        rr_currentChunkIndex := rr_currentChunkIndex r + 1,
                        rr_sourceChunkIndex := rr_sourceChunkIndex r + 1\<rparr>)))"

definition rr_size :: "range_decrypt_reader \<Rightarrow> nat" where
  "rr_size r = src_size (rr_source r) + (if rr_closed r then 0 else 1)"

lemma rr_expectedSize_pos: "rr_expectedSize r = Inr n \<Longrightarrow> 0 < n"
  by (auto simp: rr_expectedSize_def Let_def split: if_splits)

lemma rr_fetch_size:
  assumes "rr_err (rr_fetch H r) = None" and "\<not> rr_closed r"
  shows "rr_size (rr_fetch H r) < rr_size r"
proof (cases "rr_currentChunkIndex r > rr_endChunk r")
  case True
  then show ?thesis using assms(2) by (simp add: rr_fetch_def rr_size_def)
next
  case False
  then obtain n where n: "rr_expectedSize r = Inr n"
    using assms(1) by (cases "rr_expectedSize r") (auto simp: rr_fetch_def)
  obtain b e src where rf: "read_full (rr_source r) n = (b, e, src)" by (cases "read_full (rr_source r) n")
  have "src_size src < src_size (rr_source r)" if "\<not> (e = Some EOF \<and> b = [])"
    using that rf read_full_size [OF rf rr_expectedSize_pos [OF n]] rr_expectedSize_pos [OF n]
    by (cases "rr_source r = []") auto
  then show ?thesis
    using assms False n rf read_full_size_le [OF rf]
    by (auto simp: rr_fetch_def rr_size_def Let_def split: if_splits sum.splits)
qed

text \<open>The loop is entered by readers that are not closed only.\<close>

function rr_loop :: "hkdf \<Rightarrow> range_decrypt_reader \<Rightarrow> nat \<Rightarrow> bytes \<times> goerr option \<times> range_decrypt_reader" where
  "rr_loop H r room =
     (if room = 0 \<or> rr_bytesReturned r \<ge> rr_maxBytes r then ([], None, r)
      else if rr_currentChunk r \<noteq> [] then
        (let toCopy = min (min (length (rr_currentChunk r)) (nat (rr_maxBytes r - rr_bytesReturned r))) room;
             r' = r\<lparr>rr_currentChunk := drop toCopy (rr_currentChunk r),
                    rr_bytesReturned := rr_bytesReturned r + int toCopy\<rparr>
         in if rr_bytesReturned r' \<ge> rr_maxBytes r
            then (take toCopy (rr_currentChunk r), Some EOF, r'\<lparr>rr_closed := True\<rparr>)
            else case rr_loop H r' (room - toCopy) of
                (b, e, r'') \<Rightarrow> (take toCopy (rr_currentChunk r) @ b, e, r''))
      else case rr_err (rr_fetch H r) of
          Some e \<Rightarrow> ([], Some e, rr_fetch H r)
        | None \<Rightarrow> if rr_closed (rr_fetch H r) \<or> rr_closed r then ([], None, rr_fetch H r)
                  else rr_loop H (rr_fetch H r) room)"
  by pat_completeness auto
termination
  by (relation "measure (\<lambda>(H, r, room). rr_size r + room)")
    (auto simp: rr_size_def dest: rr_fetch_size [unfolded rr_size_def])

declare rr_loop.simps [simp del]

definition rr_Read :: "hkdf \<Rightarrow> range_decrypt_reader \<Rightarrow> nat \<Rightarrow> bytes \<times> goerr option \<times> range_decrypt_reader" where
  "rr_Read H r n =
     (if rr_closed r then ([], Some EOF, r)
      else case rr_err r of
          Some e \<Rightarrow> ([], Some e, r)
        | None \<Rightarrow>
            (case rr_loop H r n of
               (b, Some e, r') \<Rightarrow> (b, Some e, r')
             | (b, None, r') \<Rightarrow> (b, if b = [] \<and> rr_closed r' then Some EOF else None, r')))"

definition rr_Close :: "range_decrypt_reader \<Rightarrow> range_decrypt_reader" where
  "rr_Close r = r\<lparr>rr_closed := True\<rparr>"

section \<open>The range reader as a buffered reader\<close>

text \<open>Pending output is the current chunk up to the end of the range.\<close>

definition rr_pend :: "range_decrypt_reader \<Rightarrow> bytes" where
  "rr_pend r = (if rr_closed r then [] else
     take (nat (rr_maxBytes r - rr_bytesReturned r)) (rr_currentChunk r))"

definition rr_consume :: "nat \<Rightarrow> range_decrypt_reader \<Rightarrow> range_decrypt_reader" where
  "rr_consume n r =
     (let k = min n (length (rr_pend r)) in
      r\<lparr>rr_currentChunk := drop k (rr_currentChunk r), rr_bytesReturned := rr_bytesReturned r + int k,
        rr_closed := rr_closed r \<or> rr_bytesReturned r + int k \<ge> rr_maxBytes r\<rparr>)"

definition rr_inv :: "range_decrypt_reader \<Rightarrow> bool" where
  "rr_inv r \<longleftrightarrow> 0 \<le> rr_bytesReturned r \<and> (rr_closed r \<or> rr_bytesReturned r < rr_maxBytes r)"

definition rr_fail :: "range_decrypt_reader \<Rightarrow> goerr option" where
  "rr_fail r = (if rr_closed r then None else rr_err r)"

lemma rr_maxBytes_update [simp]:
  "rr_maxBytes (r\<lparr>rr_source := s\<rparr>) = rr_maxBytes r" "rr_maxBytes (r\<lparr>rr_currentChunk := c\<rparr>) = rr_maxBytes r"
  "rr_maxBytes (r\<lparr>rr_bytesReturned := n\<rparr>) = rr_maxBytes r" "rr_maxBytes (r\<lparr>rr_closed := b\<rparr>) = rr_maxBytes r"
  "rr_maxBytes (r\<lparr>rr_err := e\<rparr>) = rr_maxBytes r" "rr_maxBytes (r\<lparr>rr_currentChunkIndex := i\<rparr>) = rr_maxBytes r"
  "rr_maxBytes (r\<lparr>rr_sourceChunkIndex := i\<rparr>) = rr_maxBytes r"
  by (simp_all add: rr_maxBytes_def)

lemma rr_fetch_fields:
  "rr_maxBytes (rr_fetch H r) = rr_maxBytes r" "rr_bytesReturned (rr_fetch H r) = rr_bytesReturned r"
  by (auto simp: rr_fetch_def Let_def split: sum.splits prod.splits)

lemma rr_fetch_closed_err:
  "rr_err r = None \<Longrightarrow> rr_closed (rr_fetch H r) \<Longrightarrow> \<not> rr_closed r \<Longrightarrow> rr_err (rr_fetch H r) = None"
  by (auto simp: rr_fetch_def Let_def split: sum.splits prod.splits if_splits)

lemma rr_consume_sel:
  "rr_source (rr_consume n r) = rr_source r" "rr_err (rr_consume n r) = rr_err r"
  "rr_maxBytes (rr_consume n r) = rr_maxBytes r"
  "rr_currentChunk (rr_consume n r) = drop (min n (length (rr_pend r))) (rr_currentChunk r)"
  "rr_bytesReturned (rr_consume n r) = rr_bytesReturned r + int (min n (length (rr_pend r)))"
  "rr_closed (rr_consume n r) \<longleftrightarrow>
     rr_closed r \<or> rr_maxBytes r \<le> rr_bytesReturned r + int (min n (length (rr_pend r)))"
  by (simp_all add: rr_consume_def Let_def)

lemma rr_consume_0 [simp]: "rr_inv r \<Longrightarrow> rr_consume 0 r = r"
  by (auto simp: rr_consume_def rr_inv_def)

lemma rr_pend_consume: "rr_inv r \<Longrightarrow> rr_pend (rr_consume n r) = drop n (rr_pend r)"
proof (cases "rr_closed r")
  case False
  assume inv: "rr_inv r"
  define m where "m = nat (rr_maxBytes r - rr_bytesReturned r)"
  define k where "k = min n (length (rr_pend r))"
  have pend: "rr_pend r = take m (rr_currentChunk r)" using False by (simp add: rr_pend_def m_def)
  then have k: "k \<le> m" "k \<le> length (rr_currentChunk r)" by (auto simp: k_def)
  have "drop n (rr_pend r) = drop k (rr_pend r)" by (auto simp: k_def min_def)
  also have "\<dots> = take (m - k) (drop k (rr_currentChunk r))" using pend by (simp add: drop_take)
  also have "\<dots> = rr_pend (rr_consume n r)"
  proof (cases "rr_bytesReturned r + int k \<ge> rr_maxBytes r")
    case True
    then have "m - k = 0" by (simp add: m_def)
    with True show ?thesis by (simp add: rr_pend_def [of "rr_consume n r"] rr_consume_sel k_def [symmetric])
  next
    case far: False
    have "nat (rr_maxBytes r - (rr_bytesReturned r + int k)) = m - k" using k(1) by (simp add: m_def)
    with far False show ?thesis
      by (simp add: rr_pend_def [of "rr_consume n r"] rr_consume_sel k_def [symmetric])
  qed
  finally show ?thesis ..
qed (simp add: rr_pend_def rr_consume_def)

lemma rr_consume_inv: "rr_inv r \<Longrightarrow> rr_inv (rr_consume n r)"
  by (auto simp: rr_inv_def rr_consume_def Let_def)

lemma rr_consume_add:
  assumes "rr_inv r"
  shows "rr_consume (length (rr_pend (rr_consume n r))) (rr_consume n r) = rr_consume (length (rr_pend r)) r"
proof -
  define k where "k = min n (length (rr_pend r))"
  have len: "length (rr_pend (rr_consume n r)) = length (rr_pend r) - k"
    using rr_pend_consume [OF assms, of n] by (simp add: k_def)
  have k: "k \<le> length (rr_pend r)" by (simp add: k_def)
  have one: "rr_consume n r = r\<lparr>rr_currentChunk := drop k (rr_currentChunk r),
      rr_bytesReturned := rr_bytesReturned r + int k,
      rr_closed := rr_closed r \<or> rr_bytesReturned r + int k \<ge> rr_maxBytes r\<rparr>"
    by (simp add: rr_consume_def k_def Let_def)
  have "rr_consume (length (rr_pend (rr_consume n r))) (rr_consume n r) =
      (rr_consume n r)\<lparr>rr_currentChunk := drop (length (rr_pend r) - k) (rr_currentChunk (rr_consume n r)),
        rr_bytesReturned := rr_bytesReturned (rr_consume n r) + int (length (rr_pend r) - k),
        rr_closed := rr_closed (rr_consume n r) \<or>
          rr_bytesReturned (rr_consume n r) + int (length (rr_pend r) - k) \<ge> rr_maxBytes (rr_consume n r)\<rparr>"
    unfolding len [symmetric] by (simp add: rr_consume_def [of _ "rr_consume n r"] Let_def)
  also have "\<dots> = rr_consume (length (rr_pend r)) r"
  proof -
    have "(rr_maxBytes r \<le> rr_bytesReturned r + int k \<or>
        rr_maxBytes r \<le> rr_bytesReturned r + int (length (rr_pend r))) =
      (rr_maxBytes r \<le> rr_bytesReturned r + int (length (rr_pend r)))"
      using k by auto
    then show ?thesis unfolding one using k by (simp add: rr_consume_def of_nat_diff Let_def)
  qed
  finally show ?thesis .
qed

section \<open>The output of all remaining rounds\<close>

function rr_run :: "hkdf \<Rightarrow> range_decrypt_reader \<Rightarrow> bytes \<times> goerr" where
  "rr_run H r =
     (if rr_closed r then ([], EOF)
      else case rr_err r of
          Some e \<Rightarrow> ([], e)
        | None \<Rightarrow>
            (let r1 = rr_consume (length (rr_pend r)) r in
             if rr_closed r1 then ([], EOF)
             else case rr_fail (rr_fetch H r1) of
                 Some e \<Rightarrow> ([], e)
               | None \<Rightarrow> if rr_closed (rr_fetch H r1) then ([], EOF)
                         else (case rr_run H (rr_fetch H r1) of (b, e) \<Rightarrow> (rr_pend (rr_fetch H r1) @ b, e))))"
  by pat_completeness auto
termination
proof (relation "measure (\<lambda>(H, r). rr_size r)", goal_cases)
  case (2 H r r1)
  have "rr_err (rr_fetch H r1) = None" using 2 by (simp add: rr_fail_def)
  moreover have "rr_size r1 \<le> rr_size r" using 2(3) by (simp add: rr_size_def rr_consume_sel)
  ultimately show ?case using rr_fetch_size [of H r1] 2(4) by simp
qed simp

declare rr_run.simps [simp del]

lemma rr_run_err: "rr_fail r = Some e \<Longrightarrow> rr_run H r = ([], e)"
  by (simp add: rr_run.simps rr_fail_def split: if_splits)

lemma rr_run_closed: "rr_closed r \<Longrightarrow> rr_run H r = ([], EOF)"
  by (simp add: rr_run.simps)

lemma rr_run_consume:
  assumes "rr_inv r" and "rr_fail r = None"
  shows "rr_run H (rr_consume n r) = rr_run H r"
proof -
  let ?all = "rr_consume (length (rr_pend r)) r"
  have all: "rr_consume (length (rr_pend (rr_consume n r))) (rr_consume n r) = ?all"
    using assms(1) by (rule rr_consume_add)
  show ?thesis
  proof (cases "rr_closed r")
    case True
    then show ?thesis by (simp add: rr_run_closed rr_consume_sel)
  next
    case False
    then have err: "rr_err r = None" using assms(2) by (simp add: rr_fail_def)
    show ?thesis
    proof (cases "rr_closed (rr_consume n r)")
      case True
      then have "rr_closed ?all" by (auto simp: rr_consume_sel)
      with True False err show ?thesis by (simp add: rr_run_closed rr_run.simps [of H r])
    next
      case open_c: False
      with False err all show ?thesis
        by (simp add: rr_run.simps [of H r] rr_run.simps [of H "rr_consume n r"] rr_consume_sel(2))
    qed
  qed
qed

lemma rr_run_step:
  assumes "rr_inv r" and "rr_fail r = None" and "\<not> rr_closed r" and "rr_pend r = []"
  shows "rr_run H r =
    (case rr_fail (rr_fetch H r) of
       Some e \<Rightarrow> ([], e)
     | None \<Rightarrow> (case rr_run H (rr_fetch H r) of (b, e) \<Rightarrow> (rr_pend (rr_fetch H r) @ b, e)))"
proof -
  have "rr_run H r =
      (case rr_fail (rr_fetch H r) of
         Some e \<Rightarrow> ([], e)
       | None \<Rightarrow> if rr_closed (rr_fetch H r) then ([], EOF)
                 else (case rr_run H (rr_fetch H r) of (b, e) \<Rightarrow> (rr_pend (rr_fetch H r) @ b, e)))"
    using assms by (subst rr_run.simps) (simp add: rr_fail_def)
  then show ?thesis
    by (auto simp: rr_run_closed rr_pend_def split: option.splits prod.splits)
qed

definition rr_guarded_loop ::
  "hkdf \<Rightarrow> range_decrypt_reader \<Rightarrow> nat \<Rightarrow> bytes \<times> goerr option \<times> range_decrypt_reader" where
  "rr_guarded_loop H r n = (if rr_closed r then ([], None, r) else rr_loop H r n)"

lemma rr_pend_empty: "rr_inv r \<Longrightarrow> \<not> rr_closed r \<Longrightarrow> rr_pend r = [] \<longleftrightarrow> rr_currentChunk r = []"
  by (auto simp: rr_pend_def rr_inv_def)

lemma rr_loop_eq:
  assumes "rr_inv r" and "rr_fail r = None"
  shows "rr_guarded_loop H r n =
    (if n = 0 then ([], None, r)
     else if rr_pend r \<noteq> [] then
       (if rr_maxBytes (rr_consume n r) \<le> rr_bytesReturned (rr_consume n r)
        then (take n (rr_pend r), Some EOF, rr_consume n r)
        else case rr_guarded_loop H (rr_consume n r) (n - length (rr_pend r)) of
            (b, e, r') \<Rightarrow> (take n (rr_pend r) @ b, e, r'))
     else if rr_closed r then ([], None, r)
     else case rr_fail (rr_fetch H r) of
         Some e \<Rightarrow> ([], Some e, rr_fetch H r)
       | None \<Rightarrow> rr_guarded_loop H (rr_fetch H r) n)"
proof (cases "rr_closed r \<or> n = 0")
  case True
  then show ?thesis
    using rr_loop.simps [of H r 0] by (auto simp: rr_guarded_loop_def rr_pend_def)
next
  case False
  then have open_r: "rr_bytesReturned r < rr_maxBytes r" using assms(1) by (simp add: rr_inv_def)
  show ?thesis
  proof (cases "rr_currentChunk r = []")
    case True
    then have "rr_pend r = []" using rr_pend_empty [OF assms(1)] False by simp
    moreover have "rr_fail (rr_fetch H r) = rr_err (rr_fetch H r)"
      using rr_fetch_closed_err [of r H] assms(2) False by (simp add: rr_fail_def)
    ultimately show ?thesis
      using True False open_r
      by (auto simp: rr_guarded_loop_def rr_loop.simps [of H r n] split: option.splits)
  next
    case chunk: False
    define k where "k = min (min (length (rr_currentChunk r)) (nat (rr_maxBytes r - rr_bytesReturned r))) n"
    have k: "k = min n (length (rr_pend r))" using False by (auto simp: k_def rr_pend_def)
    have pend: "take n (rr_pend r) = take k (rr_currentChunk r)" "n - length (rr_pend r) = n - k" "rr_pend r \<noteq> []"
      using False rr_pend_empty [OF assms(1)] chunk by (auto simp: k_def rr_pend_def min_def)
    define r1 where "r1 = r\<lparr>rr_currentChunk := drop k (rr_currentChunk r),
        rr_bytesReturned := rr_bytesReturned r + int k\<rparr>"
    have c: "rr_consume n r = (if rr_maxBytes r \<le> rr_bytesReturned r + int k then r1\<lparr>rr_closed := True\<rparr> else r1)"
      using False by (simp add: rr_consume_def Let_def k r1_def)
    have r1: "rr_bytesReturned r1 = rr_bytesReturned r + int k" "\<not> rr_closed r1" "rr_maxBytes r1 = rr_maxBytes r"
      using False by (simp_all add: r1_def)
    have "rr_loop H r n =
        (if rr_maxBytes r \<le> rr_bytesReturned r + int k
         then (take k (rr_currentChunk r), Some EOF, r1\<lparr>rr_closed := True\<rparr>)
         else case rr_loop H r1 (n - k) of (b, e, r'') \<Rightarrow> (take k (rr_currentChunk r) @ b, e, r''))"
      using False open_r chunk
      by (simp add: rr_loop.simps [of H r n] k_def [symmetric] Let_def r1_def [symmetric] r1)
    then show ?thesis
      using False pend(3) by (simp add: rr_guarded_loop_def pend(1,2) c r1)
  qed
qed

lemma rr_loop_finished:
  "rr_inv r \<Longrightarrow> rr_fail r = None \<Longrightarrow> rr_guarded_loop H r n = ([], None, r') \<Longrightarrow> 0 < n \<Longrightarrow> rr_closed r'"
proof (induction "rr_size r" arbitrary: r rule: less_induct)
  case less
  show ?case
  proof (cases "rr_closed r")
    case True
    then show ?thesis using less.prems by (simp add: rr_guarded_loop_def)
  next
    case False
    note eq = rr_loop_eq [OF less.prems(1,2), of H n]
    have "rr_pend r = []" using less.prems(3,4) unfolding eq by (auto split: if_splits prod.splits)
    then have f: "rr_fail (rr_fetch H r) = None" "rr_guarded_loop H (rr_fetch H r) n = ([], None, r')"
      using less.prems(3,4) False unfolding eq by (auto split: option.splits)
    have err: "rr_err (rr_fetch H r) = None"
      using f(1) rr_fetch_closed_err [of r H] less.prems(2) False by (auto simp: rr_fail_def split: if_splits)
    have "rr_inv (rr_fetch H r)" using less.prems(1) False by (simp add: rr_inv_def rr_fetch_fields)
    with less.hyps [OF rr_fetch_size [OF err False]] f less.prems(4) show ?thesis by simp
  qed
qed

interpretation ranged: buffered_reader "rr_Read H" "rr_guarded_loop H" "rr_fetch H" rr_pend rr_consume
  "\<lambda>r. rr_maxBytes r \<le> rr_bytesReturned r \<and> rr_closed r" rr_closed rr_fail rr_size rr_inv
  "\<lambda>r. fst (rr_run H r)" "\<lambda>r. snd (rr_run H r)" for H
proof (unfold_locales, goal_cases)
  case (1 r n)
  obtain b e r' where lp: "rr_guarded_loop H r n = (b, e, r')" by (cases "rr_guarded_loop H r n")
  show ?case
  proof (cases "rr_closed r")
    case True
    then show ?thesis by (simp add: rr_Read_def rr_fail_def rr_guarded_loop_def)
  next
    case False
    show ?thesis
      using lp False rr_loop_finished [of r H n r'] 1
      by (auto simp: rr_Read_def rr_fail_def rr_guarded_loop_def split: option.splits)
  qed
next
  case (2 r n)
  have "rr_maxBytes (rr_consume n r) \<le> rr_bytesReturned (rr_consume n r) \<Longrightarrow> rr_closed (rr_consume n r)"
    by (simp add: rr_consume_sel)
  then show ?case using rr_loop_eq [OF 2, of H n] by auto
next
  case (3 r n)
  then show ?case
    by (auto simp: rr_consume_inv rr_pend_consume rr_run_consume rr_size_def rr_consume_sel rr_fail_def)
next
  case (4 r)
  then show ?case by (simp add: rr_pend_def)
next
  case (5 r)
  then show ?case by (simp add: rr_run_closed)
next
  case (6 r e)
  then show ?case by (simp add: rr_run_err)
next
  case (7 r)
  have err: "rr_fail (rr_fetch H r) = None \<Longrightarrow> rr_err (rr_fetch H r) = None"
    using rr_fetch_closed_err [of r H] 7 by (auto simp: rr_fail_def split: if_splits)
  have "rr_inv (rr_fetch H r)" using 7 by (simp add: rr_inv_def rr_fetch_fields)
  then show ?case
    unfolding rr_run_step [OF 7(1,2,3,4)]
    using rr_fetch_size [of H r] err 7(3) by (auto simp: rr_run_err split: option.splits prod.splits)
qed

section \<open>The reader returns the requested range\<close>

definition rr_scheme :: "aead option \<Rightarrow> range_decrypt_reader \<Rightarrow> chunk_scheme" where
  "rr_scheme T r = \<lparr>cs_aead = rr_aead r, cs_terminal = T, cs_version = cm_Version (rr_manifest r),
     cs_baseIV = rr_baseIV r,
     cs_binding = (if rr_boundV2 r then Some (rr_object r, rr_bindingID r) else None),
     cs_hkdfIV = (cm_IVDerivation (rr_manifest r) = ''hkdf-sha256'')\<rparr>"

lemma rr_scheme_update [simp]:
  "rr_scheme T (r\<lparr>rr_source := s\<rparr>) = rr_scheme T r" "rr_scheme T (r\<lparr>rr_currentChunk := b\<rparr>) = rr_scheme T r"
  "rr_scheme T (r\<lparr>rr_bytesReturned := n\<rparr>) = rr_scheme T r" "rr_scheme T (r\<lparr>rr_currentChunkIndex := i\<rparr>) = rr_scheme T r"
  "rr_scheme T (r\<lparr>rr_sourceChunkIndex := i\<rparr>) = rr_scheme T r" "rr_scheme T (r\<lparr>rr_closed := b'\<rparr>) = rr_scheme T r"
  by (simp_all add: rr_scheme_def)

text \<open>
  A reader of the range \<open>[s, e]\<close> of plaintext \<open>p\<close> that is about to fetch record \<open>i\<close>: its source
  holds the records up to that of byte \<open>e\<close>, and possibly more.
\<close>

definition rr_at ::
  "chunk_scheme \<Rightarrow> nat \<Rightarrow> bytes \<Rightarrow> bytes list \<Rightarrow> nat \<Rightarrow> nat \<Rightarrow> nat \<Rightarrow> bytes \<Rightarrow> range_decrypt_reader \<Rightarrow> bool" where
  "rr_at c cs p xs s e i rest r \<longleftrightarrow>
     rr_err r = None \<and> \<not> rr_closed r \<and> rr_currentChunk r = [] \<and> rr_currentChunkIndex r = of_nat i \<and>
     rr_chunkSize r = cs \<and> rr_startChunk r = of_nat (s div cs) \<and> rr_endChunk r = of_nat (e div cs) \<and>
     rr_startOffsetInChunk r = s mod cs \<and> rr_endOffsetInChunk r = e mod cs \<and>
     rr_maxBytes r = int (e + 1 - s) \<and> rr_bytesReturned r = int (max (i * cs) s - s) \<and>
     src_clean (rr_source r) \<and> src_bytes (rr_source r) = concat (drop i (take (e div cs + 1) xs)) @ rest \<and>
     rr_scheme (cs_terminal c) r = c \<and> rr_plaintextSize r = int (length p) \<and>
     cm_ChunkCount (rr_manifest r) = of_nat (length xs)"

lemma rr_scheme_sel:
  assumes "rr_scheme (cs_terminal c) r = c"
  shows "rr_aead r = cs_aead c" "cm_Version (rr_manifest r) = cs_version c" "rr_boundV2 r \<longleftrightarrow> cs_binding c \<noteq> None"
proof -
  show "rr_aead r = cs_aead c" using arg_cong [OF assms, of cs_aead] by (simp add: rr_scheme_def)
  show "cm_Version (rr_manifest r) = cs_version c" using arg_cong [OF assms, of cs_version] by (simp add: rr_scheme_def)
  have "(if rr_boundV2 r then Some (rr_object r, rr_bindingID r) else None) = cs_binding c"
    using arg_cong [OF assms, of cs_binding] by (simp add: rr_scheme_def)
  from this [symmetric] show "rr_boundV2 r \<longleftrightarrow> cs_binding c \<noteq> None" by simp
qed

lemma rr_at_scheme: "rr_at c cs p xs s e i rest r \<Longrightarrow> rr_scheme (cs_terminal c) r = c"
  by (simp add: rr_at_def)

lemma rr_decrypt_ok:
  assumes "seal_record H (rr_scheme T r) (rr_currentChunkIndex r) q = Inr x" and "aead_laws (rr_aead r)"
    and "err = None \<or> rr_boundV2 r \<or> cm_Version (rr_manifest r) \<noteq> 2"
    and "rr_currentChunkIndex r = rr_startChunk r \<Longrightarrow> rr_startOffsetInChunk r < length q"
  shows "rr_decrypt H r x err =
    (let d = (if rr_currentChunkIndex r = rr_startChunk r then drop (rr_startOffsetInChunk r) q else q) in
     Inr (if rr_currentChunkIndex r = rr_endChunk r \<and> rr_endOffsetInChunk r < length d
          then take (rr_endOffsetInChunk r + 1) d else d))"
proof -
  obtain n a where na: "record_params H (rr_scheme T r) (rr_currentChunkIndex r) = Inr (n, a)"
      "length n = nonceSize" "x = Seal (rr_aead r) n q a"
    using assms(1) by (auto simp: seal_record_Inr rr_scheme_def)
  then have "rr_deriveChunkIV H r (rr_currentChunkIndex r) = Inr n" "rr_aad r err = Inr a"
    using assms(3)
    by (auto simp: record_params_def rr_scheme_def rr_deriveChunkIV_def rr_aad_def and_then_eq_Inr chunk_consts
        split: if_splits)
  then show ?thesis using na assms(2,4) by (auto simp: rr_decrypt_def)
qed

text \<open>The record at index \<open>i\<close> of a plaintext, and its length on the wire.\<close>

lemma record_i:
  assumes "seal_records H c 0 (chunks cs p) = Inr xs" and "aead_laws (cs_aead c)" and "i < length xs" and "0 < cs"
  shows "seal_record H c (of_nat i) (take cs (drop (i * cs) p)) = Inr (xs ! i)"
    and "length (xs ! i) = min cs (length p - i * cs) + 16" and "i * cs < length p"
proof -
  have i: "i < length (chunks cs p)" using assms(3) seal_records_length [OF assms(1)] by simp
  show x: "seal_record H c (of_nat i) (take cs (drop (i * cs) p)) = Inr (xs ! i)"
    using seal_records_nth [OF assms(1) i] chunks_nth [OF i] by simp
  show "length (xs ! i) = min cs (length p - i * cs) + 16"
    using seal_record_length [OF assms(2) x] by (simp add: min.commute)
  have "chunks cs p ! i \<noteq> []" using chunks_nonempty nth_mem [OF i] by blast
  then show "i * cs < length p" using chunks_nth [OF i] by auto
qed

lemma rr_read_record:
  assumes at: "rr_at c cs p xs s e i rest r" and xs: "seal_records H c 0 (chunks cs p) = Inr xs"
    and laws: "aead_laws (cs_aead c)" and i: "i \<le> e div cs" and e: "e < length p" "length p < 2 ^ 62"
    and cs: "0 < cs" "cs < 2 ^ 62"
    and v: "cs_version c = 2 \<or> (e div cs + 1 = length xs \<longrightarrow> rest = [])"
  shows "\<exists>n err src. rr_expectedSize r = Inr n \<and> read_full (rr_source r) n = (xs ! i, err, src) \<and>
    (err = None \<or> err = Some ErrUnexpectedEOF \<and> cs_version c \<noteq> 2) \<and> src_clean src \<and>
    src_bytes src = concat (drop (i + 1) (take (e div cs + 1) xs)) @ rest"
proof -
  have N: "length xs = length (chunks cs p)" using seal_records_length [OF xs] .
  have ecN: "e div cs < length xs"
    using div_less_chunk_count [of "int e" "int (length p)" "int cs"] chunk_count_length [OF cs(1), of p] e(1) cs(1) N
    by (simp add: zdiv_int [symmetric])
  then have iN: "i < length xs" using i by simp
  note rec = record_i [OF xs laws iN cs(1)]
  let ?more = "concat (drop (i + 1) (take (e div cs + 1) xs)) @ rest"
  have bytes: "src_bytes (rr_source r) = xs ! i @ ?more"
    using at i iN by (simp add: rr_at_def Cons_nth_drop_Suc [symmetric])
  have clean: "src_clean (rr_source r)" using at by (simp add: rr_at_def)
  have full: "length (xs ! i) = cs + 16" if "i + 1 < length xs"
  proof -
    have "(i + 1) * cs < length p" using record_i(3) [OF xs laws that cs(1)] .
    then show ?thesis using rec(2) by simp
  qed
  have small: "length xs < 2 ^ 62"
    using chunk_count_length [OF cs(1), of p] chunk_count_le [of "int (length p)" "int cs"] N e(2) cs(1) by simp
  show ?thesis
  proof (cases "cs_version c = 2")
    case True
    have last: "rr_currentChunkIndex r = cm_ChunkCount (rr_manifest r) - 1 \<longleftrightarrow> i + 1 = length xs"
    proof -
      have "rr_currentChunkIndex r = cm_ChunkCount (rr_manifest r) - 1 \<longleftrightarrow> (of_nat (i + 1) :: u64) = of_nat (length xs)"
        using at by (simp add: rr_at_def eq_diff_eq add.commute)
      moreover have "(of_nat (i + 1) :: u64) = of_nat (length xs) \<longleftrightarrow> i + 1 = length xs"
        using iN small by (intro of_nat_u64_inject) simp_all
      ultimately show ?thesis by blast
    qed
    have idx: "uint (rr_currentChunkIndex r) = int i"
      using at iN small by (simp add: rr_at_def uint_nat unat_of_nat)
    have prod: "int i * int cs < 2 ^ 62" using rec(3) e(2) by (simp flip: of_nat_mult)
    have guard: "\<not> maxInt64 div int cs < int i"
    proof -
      have "int i * int cs \<le> maxInt64" using prod by (simp add: int_limits)
      then have "int i \<le> maxInt64 div int cs" using cs(1) zdiv_mono1 [of "int i * int cs" maxInt64 "int cs"] by simp
      then show ?thesis by simp
    qed
    define F where "F = length p - i * cs"
    have wrap: "wrap64 (int (length p) - wrap64 (int i * int cs)) = int F"
    proof -
      define P where "P = int i * int cs"
      have "0 \<le> P" "P < int (length p)" using rec(3) by (simp_all add: P_def flip: of_nat_mult)
      then show ?thesis
        using e(2) rec(3) by (simp add: P_def [symmetric] wrap64_id in_int64_def int_limits of_nat_diff F_def)
    qed
    have ver: "cm_Version (rr_manifest r) = 2" using rr_scheme_sel(2) [OF rr_at_scheme [OF at]] True by simp
    have "rr_expectedSize r = Inr (length (xs ! i))"
    proof (cases "i + 1 = length xs")
      case True
      have f: "rr_chunkSize r = cs" "rr_plaintextSize r = int (length p)" using at by (simp_all add: rr_at_def)
      have "length (xs ! i) = min cs F + 16" "0 < F" using rec(2,3) by (simp_all add: F_def)
      then show ?thesis
        using True guard cs(1) last idx ver by (simp add: rr_expectedSize_def f chunk_consts wrap min_def)
    next
      case False
      then have "length (xs ! i) = cs + 16" using full iN by simp
      then show ?thesis using at False last ver by (simp add: rr_expectedSize_def rr_at_def)
    qed
    moreover obtain b er src where rf: "read_full (rr_source r) (length (xs ! i)) = (b, er, src)"
      by (cases "read_full (rr_source r) (length (xs ! i))")
    moreover have "b = xs ! i" "src_bytes src = ?more" "src_clean src" "er = None"
      using read_full_clean [OF clean rf] bytes by simp_all
    ultimately show ?thesis by auto
  next
    case False
    have ver: "cm_Version (rr_manifest r) \<noteq> 2" using rr_scheme_sel(2) [OF rr_at_scheme [OF at]] False by simp
    have exp: "rr_expectedSize r = Inr (cs + 16)"
      using at ver by (simp add: rr_expectedSize_def rr_at_def chunk_consts)
    obtain b er src where rf: "read_full (rr_source r) (cs + 16) = (b, er, src)"
      by (cases "read_full (rr_source r) (cs + 16)")
    note rc = read_full_clean [OF clean rf]
    show ?thesis
    proof (cases "length (xs ! i) = cs + 16")
      case True
      then show ?thesis using exp rf rc bytes by simp
    next
      case short: False
      then have "i + 1 = length xs" using full iN by fastforce
      then have "e div cs + 1 = length xs" using i ecN by simp
      then have more: "?more = []" using v False \<open>i + 1 = length xs\<close> by simp
      have "src_bytes (rr_source r) = xs ! i" using bytes unfolding more by simp
      moreover have "length (xs ! i) \<le> cs + 16" "xs ! i \<noteq> []" using rec(2) by auto
      ultimately show ?thesis unfolding more using exp rf rc short False by auto
    qed
  qed
qed

text \<open>The part of record \<open>i\<close> that belongs to the range.\<close>

lemma rr_chunk_part:
  assumes "s \<le> e" and "e < length p" and "0 < cs" and "s div cs \<le> i" and "i \<le> e div cs"
  defines "q \<equiv> take cs (drop (i * cs) p)" and "pos \<equiv> max (i * cs) s"
  defines "d \<equiv> (if i = s div cs then drop (s mod cs) q else q)"
  shows "d = take ((i + 1) * cs - pos) (drop pos p)" and "i = s div cs \<Longrightarrow> s mod cs < length q"
    and "pos \<le> e" and "pos < (i + 1) * cs"
    and "i = e div cs \<Longrightarrow> take (e + 1 - pos) (if e mod cs < length d then take (e mod cs + 1) d else d) =
      take (e + 1 - pos) (drop pos p)"
    and "i < e div cs \<Longrightarrow> length d = (i + 1) * cs - pos \<and> (i + 1) * cs \<le> e"
proof -
  have sm: "s = (s div cs) * cs + s mod cs" "s mod cs < cs" using assms(3) by simp_all
  have em: "e = (e div cs) * cs + e mod cs" "e mod cs < cs" using assms(3) by simp_all
  have up: "s < (i + 1) * cs" "i * cs \<le> e"
  proof -
    have "(s div cs) * cs \<le> i * cs" "i * cs \<le> (e div cs) * cs" using assms(4,5) by (simp_all add: mult_le_mono1)
    moreover have "(i + 1) * cs = i * cs + cs" by simp
    ultimately show "s < (i + 1) * cs" "i * cs \<le> e" using sm em by linarith+
  qed
  show pos: "pos \<le> e" "pos < (i + 1) * cs" using up assms(1,3) by (simp_all add: pos_def)
  have first: "pos = i * cs + s mod cs" if "i = s div cs"
    using that sm by (simp add: pos_def)
  have later: "pos = i * cs" if "i \<noteq> s div cs"
  proof -
    have "(s div cs + 1) * cs \<le> i * cs" using that assms(4) by (intro mult_le_mono1) simp
    moreover have "(s div cs + 1) * cs = s div cs * cs + cs" by simp
    ultimately have "s \<le> i * cs" using sm by linarith
    then show ?thesis by (simp add: pos_def)
  qed
  show d: "d = take ((i + 1) * cs - pos) (drop pos p)"
  proof (cases "i = s div cs")
    case True
    then have "d = take (cs - s mod cs) (drop pos p)"
      using first [OF True] by (simp add: d_def q_def drop_take add.commute)
    moreover have "(i + 1) * cs - pos = cs - s mod cs" unfolding first [OF True] by simp
    ultimately show ?thesis by simp
  qed (simp add: later d_def q_def)
  show "s mod cs < length q" if "i = s div cs"
    using first [OF that] pos(1) assms(2) sm(2) by (simp add: q_def)
  show "take (e + 1 - pos) (if e mod cs < length d then take (e mod cs + 1) d else d) =
      take (e + 1 - pos) (drop pos p)" if i: "i = e div cs"
  proof -
    have "i * cs \<le> pos" "i * cs = e div cs * cs" "(i + 1) * cs = i * cs + cs" using i by (simp_all add: pos_def)
    then have "e + 1 - pos \<le> e mod cs + 1" "e + 1 - pos \<le> (i + 1) * cs - pos" using em by linarith+
    then show ?thesis by (simp add: d min_def)
  qed
  show "length d = (i + 1) * cs - pos \<and> (i + 1) * cs \<le> e" if "i < e div cs"
  proof -
    have "(i + 1) * cs \<le> (e div cs) * cs" using that by (intro mult_le_mono1) simp
    then have "(i + 1) * cs \<le> e" using em by linarith
    then show ?thesis using assms(2) pos(2) by (simp add: d)
  qed
qed

text \<open>One round on such a reader.\<close>

lemma rr_fetch_at:
  assumes at: "rr_at c cs p xs s e i rest r" and xs: "seal_records H c 0 (chunks cs p) = Inr xs"
    and laws: "aead_laws (cs_aead c)" and i: "s div cs \<le> i" "i \<le> e div cs"
    and e: "s \<le> e" "e < length p" "length p < 2 ^ 62" and cs: "0 < cs" "cs < 2 ^ 62"
    and v: "cs_version c = 2 \<and> cs_binding c \<noteq> None \<or>
      cs_version c \<noteq> 2 \<and> (e div cs + 1 = length xs \<longrightarrow> rest = [])"
  defines "q \<equiv> take cs (drop (i * cs) p)"
  defines "d \<equiv> (if i = s div cs then drop (s mod cs) q else q)"
  shows "\<exists>src. src_clean src \<and> src_bytes src = concat (drop (i + 1) (take (e div cs + 1) xs)) @ rest \<and>
    rr_fetch H r = r\<lparr>rr_source := src,
      rr_currentChunk := (if i = e div cs \<and> e mod cs < length d then take (e mod cs + 1) d else d),
      rr_currentChunkIndex := of_nat (i + 1), rr_sourceChunkIndex := rr_sourceChunkIndex r + 1\<rparr>"
proof -
  have v': "cs_version c = 2 \<or> (e div cs + 1 = length xs \<longrightarrow> rest = [])" using v by auto
  obtain n err src where rd: "rr_expectedSize r = Inr n" "read_full (rr_source r) n = (xs ! i, err, src)"
      "err = None \<or> err = Some ErrUnexpectedEOF \<and> cs_version c \<noteq> 2" "src_clean src"
      "src_bytes src = concat (drop (i + 1) (take (e div cs + 1) xs)) @ rest"
    using rr_read_record [OF at xs laws i(2) e(2,3) cs v'] by blast
  let ?r = "r\<lparr>rr_source := src\<rparr>"
  have ecN: "e div cs < length xs"
    using div_less_chunk_count [of "int e" "int (length p)" "int cs"] chunk_count_length [OF cs(1), of p] e(2) cs(1)
      seal_records_length [OF xs] by (simp add: zdiv_int [symmetric])
  then have iN: "i < length xs" using i by simp
  note rec = record_i [OF xs laws iN cs(1)]
  have small: "e div cs < 2 ^ 62" using e(2,3) div_le_dividend [of e cs] by linarith
  have at': "rr_currentChunkIndex r = of_nat i" "rr_startChunk r = of_nat (s div cs)"
      "rr_endChunk r = of_nat (e div cs)" "rr_startOffsetInChunk r = s mod cs" "rr_endOffsetInChunk r = e mod cs"
    using at by (simp_all add: rr_at_def)
  have eqs: "rr_currentChunkIndex r = rr_startChunk r \<longleftrightarrow> i = s div cs"
      "rr_currentChunkIndex r = rr_endChunk r \<longleftrightarrow> i = e div cs"
    unfolding at' using i small by (auto intro!: of_nat_u64_inject)
  note sel = rr_scheme_sel [OF rr_at_scheme [OF at]]
  have idx: "rr_currentChunkIndex ?r = of_nat i" "rr_scheme (cs_terminal c) ?r = c" "rr_aead ?r = cs_aead c"
      "rr_currentChunkIndex ?r = rr_startChunk ?r \<longleftrightarrow> i = s div cs"
      "rr_currentChunkIndex ?r = rr_endChunk ?r \<longleftrightarrow> i = e div cs"
      "rr_startOffsetInChunk ?r = s mod cs" "rr_endOffsetInChunk ?r = e mod cs"
    using at' eqs sel(1) rr_at_scheme [OF at] by simp_all
  have bound: "err = None \<or> rr_boundV2 ?r \<or> cm_Version (rr_manifest ?r) \<noteq> 2"
    using rd(3) by (auto simp: sel(2))
  have dec: "rr_decrypt H ?r (xs ! i) err =
      Inr (if i = e div cs \<and> e mod cs < length d then take (e mod cs + 1) d else d)"
  proof -
    have sr: "seal_record H (rr_scheme (cs_terminal c) ?r) (rr_currentChunkIndex ?r) q = Inr (xs ! i)"
      unfolding idx(1,2) q_def by (rule rec(1))
    have off: "rr_startOffsetInChunk ?r < length q" if "rr_currentChunkIndex ?r = rr_startChunk ?r"
      using that rr_chunk_part(2) [OF e(1,2) cs(1) i] unfolding idx(4,6) q_def by blast
    show ?thesis
      using rr_decrypt_ok [OF sr _ bound off] laws unfolding idx(3-7) Let_def d_def [symmetric] by blast
  qed
  have "\<not> rr_currentChunkIndex r > rr_endChunk r"
    using at i small by (simp add: rr_at_def word_less_nat_alt unat_of_nat)
  moreover have "xs ! i \<noteq> []" using rec(2) by auto
  ultimately have "rr_fetch H r = r\<lparr>rr_source := src,
      rr_currentChunk := (if i = e div cs \<and> e mod cs < length d then take (e mod cs + 1) d else d),
      rr_currentChunkIndex := of_nat (i + 1), rr_sourceChunkIndex := rr_sourceChunkIndex r + 1\<rparr>"
    using rd dec at by (auto simp: rr_fetch_def rr_at_def add.commute)
  then show ?thesis using rd(4,5) by blast
qed

lemma rr_at_state:
  assumes "rr_at c cs p xs s e i rest r" and "s \<le> e" and "max (i * cs) s \<le> e"
  shows "rr_inv r" "rr_fail r = None" "\<not> rr_closed r" "rr_pend r = []"
  using assms by (auto simp: rr_at_def rr_inv_def rr_fail_def rr_pend_def)

text \<open>After a record that is not the last of the range, the reader is at the next one.\<close>

lemma rr_at_next:
  assumes "rr_at c cs p xs s e i rest r"
    and "src_clean src" and "src_bytes src = concat (drop (i + 1) (take (e div cs + 1) xs)) @ rest"
    and f: "f = r\<lparr>rr_source := src, rr_currentChunk := d, rr_currentChunkIndex := of_nat (i + 1),
      rr_sourceChunkIndex := n\<rparr>"
    and d: "rr_pend f = d" "length d = (i + 1) * cs - max (i * cs) s" "max (i * cs) s < (i + 1) * cs" "(i + 1) * cs \<le> e"
  shows "rr_at c cs p xs s e (i + 1) rest (rr_consume (length (rr_pend f)) f)"
proof -
  define pos where "pos = max (i * cs) s"
  define nxt where "nxt = (i + 1) * cs"
  have pos: "pos < nxt" "nxt \<le> e" "s \<le> pos" "length d = nxt - pos"
    using d by (simp_all add: pos_def nxt_def)
  have r: "rr_maxBytes r = int (e + 1 - s)" "rr_bytesReturned r = int (pos - s)" "\<not> rr_closed r"
    using assms(1) by (simp_all add: rr_at_def pos_def)
  have "rr_consume (length (rr_pend f)) f =
      f\<lparr>rr_currentChunk := [], rr_bytesReturned := int (nxt - s), rr_closed := False\<rparr>"
    using pos r by (simp add: rr_consume_def d(1) Let_def) (simp add: f of_nat_diff)
  moreover have "max (cs + i * cs) s = nxt" using pos by (simp add: nxt_def)
  ultimately show ?thesis using assms(1-3) by (simp add: rr_at_def f nxt_def [symmetric])
qed

lemma rr_run_range:
  assumes at: "rr_at c cs p xs s e i rest r" and xs: "seal_records H c 0 (chunks cs p) = Inr xs"
    and laws: "aead_laws (cs_aead c)" and i: "s div cs \<le> i" "i \<le> e div cs"
    and e: "s \<le> e" "e < length p" "length p < 2 ^ 62" and cs: "0 < cs" "cs < 2 ^ 62"
    and v: "cs_version c = 2 \<and> cs_binding c \<noteq> None \<or>
      cs_version c \<noteq> 2 \<and> (e div cs + 1 = length xs \<longrightarrow> rest = [])"
  shows "rr_run H r = (take (e + 1 - max (i * cs) s) (drop (max (i * cs) s) p), EOF)"
  using at i
proof (induction "e div cs - i" arbitrary: i r rule: less_induct)
  case less
  define pos where "pos = max (i * cs) s"
  define q where "q = take cs (drop (i * cs) p)"
  define d where "d = (if i = s div cs then drop (s mod cs) q else q)"
  define d' where "d' = (if i = e div cs \<and> e mod cs < length d then take (e mod cs + 1) d else d)"
  note part = rr_chunk_part [OF e(1,2) cs(1) less.prems(2,3), folded q_def, folded d_def pos_def]
  note state = rr_at_state [OF less.prems(1) e(1) part(3) [unfolded pos_def]]
  obtain src where src: "src_clean src" "src_bytes src = concat (drop (i + 1) (take (e div cs + 1) xs)) @ rest"
      and f: "rr_fetch H r = r\<lparr>rr_source := src, rr_currentChunk := d', rr_currentChunkIndex := of_nat (i + 1),
        rr_sourceChunkIndex := rr_sourceChunkIndex r + 1\<rparr>"
    using rr_fetch_at [OF less.prems(1) xs laws less.prems(2,3) e cs v, folded q_def, folded d_def, folded d'_def] by blast
  let ?f = "rr_fetch H r"
  have max: "rr_maxBytes r = int (e + 1 - s)" "rr_bytesReturned r = int (pos - s)"
    using less.prems(1) by (simp_all add: rr_at_def pos_def)
  have pos: "s \<le> pos" "pos \<le> e" using part(3) by (simp_all add: pos_def)
  have pend: "rr_pend ?f = take (e + 1 - pos) d'"
    using state(3) max pos by (simp add: f rr_pend_def of_nat_diff nat_diff_distrib' flip: of_nat_diff)
  have fs: "rr_inv ?f" "rr_fail ?f = None" "\<not> rr_closed ?f"
    using state max by (simp_all add: f rr_inv_def rr_fail_def)
  have run: "rr_run H r = (rr_pend ?f @ fst (rr_run H ?f), snd (rr_run H ?f))"
    using rr_run_step [OF state, of H] fs(2) by (simp split: prod.splits)
  have all: "rr_run H ?f = rr_run H (rr_consume (length (rr_pend ?f)) ?f)"
    using rr_run_consume [OF fs(1,2)] by simp
  show ?case
  proof (cases "i = e div cs")
    case True
    then have "d' = (if e mod cs < length d then take (e mod cs + 1) d else d)" by (simp add: d'_def)
    then have out: "rr_pend ?f = take (e + 1 - pos) (drop pos p)" using part(5) True pend by simp
    then have "length (rr_pend ?f) = e + 1 - pos" using e(2) by simp
    then have closed: "rr_closed (rr_consume (length (rr_pend ?f)) ?f)"
      using max pos by (simp add: rr_consume_sel) (simp add: f)
    have "rr_run H ?f = ([], EOF)" by (rule trans [OF all rr_run_closed [OF closed]])
    then show ?thesis unfolding run out by (simp add: pos_def)
  next
    case False
    then have i: "i < e div cs" using less.prems(3) by simp
    have d: "d' = d" "length d = (i + 1) * cs - pos" "(i + 1) * cs \<le> e"
      using False part(6) [OF i] by (simp_all add: d'_def)
    have out: "rr_pend ?f = d" using pend d by simp
    let ?c = "rr_consume (length (rr_pend ?f)) ?f"
    have "rr_at c cs p xs s e (i + 1) rest ?c"
      using rr_at_next [OF less.prems(1) src f [unfolded d(1)] out d(2) [unfolded pos_def] part(4) [unfolded pos_def] d(3)] .
    moreover have "e div cs - (i + 1) < e div cs - i" "s div cs \<le> i + 1" "i + 1 \<le> e div cs"
      using i less.prems(2) by simp_all
    ultimately have IH: "rr_run H ?c = (take (e + 1 - max ((i + 1) * cs) s) (drop (max ((i + 1) * cs) s) p), EOF)"
      using less.hyps by blast
    have m: "max ((i + 1) * cs) s = (i + 1) * cs" using part(4) pos(1) by simp
    have "take (e + 1 - pos) (drop pos p) =
        take ((i + 1) * cs - pos) (drop pos p) @ take (e + 1 - (i + 1) * cs) (drop ((i + 1) * cs) p)"
      using d(3) part(4) take_add [of "(i + 1) * cs - pos" "e + 1 - (i + 1) * cs" "drop pos p"] by simp
    moreover have "rr_run H ?f = (take (e + 1 - (i + 1) * cs) (drop ((i + 1) * cs) p), EOF)"
      by (rule trans [OF all IH [unfolded m]])
    ultimately show ?thesis unfolding run out part(1) by (simp add: pos_def)
  qed
qed

end
