(* ===== verification/Range_Get.thy ===== *)
theory Range_Get
  imports Range_Reader Chunked_Encrypt
begin

text \<open>
  Range requests on version 2 objects: the encrypted byte range of
  \<^verbatim>\<open>internal/crypto/chunked_size.go\<close>, read through the range reader of
  \<^verbatim>\<open>internal/crypto/range_decrypt.go\<close>, gives exactly the requested plaintext.
\<close>

section \<open>Slices of the stored object\<close>

lemma record_full:
  assumes "seal_records H c 0 (chunks cs p) = Inr xs" and "aead_laws (cs_aead c)" and "i + 1 < length xs" and "0 < cs"
  shows "length (xs ! i) = cs + 16"
proof -
  have "(i + 1) * cs < length p" using record_i(3) [OF assms(1,2,3,4)] .
  then show ?thesis using record_i(2) [OF assms(1,2) _ assms(4), of i] assms(3) by simp
qed

lemma copyN_clean:
  "src_clean s \<Longrightarrow> n \<le> length (src_bytes s) \<Longrightarrow>
     \<exists>s'. copyN s n = (n, None, s') \<and> src_clean s' \<and> src_bytes s' = drop n (src_bytes s)"
proof (induction s n rule: copyN.induct)
  case (3 d s n)
  show ?case
  proof (cases "n = 0 \<or> n \<le> length d")
    case False
    moreover have "n - length d \<le> length (src_bytes s)" "src_clean s" using "3.prems" by simp_all
    ultimately obtain s' where "copyN s (n - length d) = (n - length d, None, s')" "src_clean s'"
        "src_bytes s' = drop (n - length d) (src_bytes s)"
      using "3.IH" by auto
    then show ?thesis using False by simp
  qed (use "3.prems" in auto)
qed auto

text \<open>
  The encrypted range of the records \<open>sc .. ec\<close> is their concatenation: the length of the first
  \<open>ec + 1\<close> records is the end of the range, with the last record possibly short.
\<close>

lemma range_end:
  assumes xs: "seal_records H c 0 (chunks cs p) = Inr xs" and laws: "aead_laws (cs_aead c)" and cs: "0 < cs"
    and ec: "ec < length xs"
  shows "min ((int ec + 1) * (int cs + 16)) (data_size (int (length p)) (int cs)) = int (length (concat (take (ec + 1) xs)))"
proof -
  have N: "length xs = length (chunks cs p)" using seal_records_length [OF xs] .
  have total: "int (length (concat xs)) = data_size (int (length p)) (int cs)"
    using seal_records_total_length [OF laws xs] chunk_count_length [OF cs, of p]
    by (simp add: data_size_def concat_chunks cs N)
  have full: "length (xs ! j) = cs + 16" if "j < ec" for j
    using record_full [OF xs laws _ cs, of j] that ec by simp
  have pre: "length (concat (take ec xs)) = ec * (cs + 16)"
    using full ec by (intro concat_take_uniform) auto
  have suc: "take (ec + 1) xs = take ec xs @ [xs ! ec]" using ec by (simp add: take_Suc_conv_app_nth)
  show ?thesis
  proof (cases "ec + 1 = length xs")
    case True
    have "length (xs ! ec) \<le> cs + 16" using record_i(2) [OF xs laws ec cs] by simp
    then have "length (concat (take (ec + 1) xs)) \<le> (ec + 1) * (cs + 16)" using pre suc by simp
    then have "int (length (concat (take (ec + 1) xs))) \<le> (int ec + 1) * (int cs + 16)"
      by (simp add: algebra_simps flip: of_nat_le_iff [where 'a = int])
    moreover have "take (ec + 1) xs = xs" using True by simp
    ultimately show ?thesis using total by simp
  next
    case False
    then have "length (xs ! ec) = cs + 16" using record_full [OF xs laws _ cs, of ec] ec by simp
    then have len: "int (length (concat (take (ec + 1) xs))) = (int ec + 1) * (int cs + 16)"
      using pre suc by (simp add: algebra_simps)
    moreover have "length (concat (take (ec + 1) xs)) \<le> length (concat xs)"
      using arg_cong [OF concat_append [of "take (ec + 1) xs" "drop (ec + 1) xs"], of length] by simp
    ultimately show ?thesis using total by simp
  qed
qed

lemma range_slice:
  assumes xs: "seal_records H c 0 (chunks cs p) = Inr xs" and laws: "aead_laws (cs_aead c)" and cs: "0 < cs"
    and se: "sc \<le> ec" "ec < length xs"
  shows "drop (sc * (cs + 16)) (concat xs) = concat (drop sc xs)"
    and "drop (sc * (cs + 16)) (concat (take (ec + 1) xs)) = concat (drop sc (take (ec + 1) xs))"
proof -
  have full: "\<forall>j < sc. length (xs ! j) = cs + 16"
    using record_full [OF xs laws _ cs] se by auto
  show "drop (sc * (cs + 16)) (concat xs) = concat (drop sc xs)"
    using full se by (intro concat_drop_uniform) auto
  show "drop (sc * (cs + 16)) (concat (take (ec + 1) xs)) = concat (drop sc (take (ec + 1) xs))"
    using full se by (intro concat_drop_uniform) auto
qed

section \<open>Construction of the reader\<close>

lemma drop_split: "i \<le> j \<Longrightarrow> drop i xs = drop i (take j xs) @ drop j xs"
  using append_take_drop_id [of "j - i" "drop i xs"] by (simp add: drop_take)

lemma skipToStartChunk_ok:
  assumes "src_clean src" and "sc * (cs + 16) \<le> length (src_bytes src)" and "0 < cs" and "cs < 2 ^ 32"
    and "sc * (cs + 16) < 2 ^ 63"
  shows "\<exists>src'. skipToStartChunk src (int cs) (int sc) = Inr src' \<and> src_clean src' \<and>
    src_bytes src' = drop (sc * (cs + 16)) (src_bytes src)"
proof -
  define k where "k = sc * (cs + 16)"
  have enc: "wrap64 (int cs + tagSize) = int (cs + 16)"
    using assms(4) by (simp add: chunk_consts wrap64_id in_int64_def int_limits)
  have ik: "int sc * int (cs + 16) = int k" by (simp add: k_def)
  have "k < 2 ^ 63" using assms(5) unfolding k_def .
  then have k: "int k \<le> maxInt64" by (simp add: int_limits)
  have "int sc \<le> maxInt64 div int (cs + 16)"
    using k zdiv_mono1 [of "int k" maxInt64 "int (cs + 16)"] by (simp add: ik [symmetric])
  moreover have "wrap64 (wrapU64 (int k)) = int k"
    using k by (simp add: wrapU64_def wrap64_id in_int64_def int_limits)
  moreover obtain s' where "copyN src k = (k, None, s')" "src_clean s'" "src_bytes s' = drop k (src_bytes src)"
    using copyN_clean [OF assms(1), of k] assms(2) by (auto simp: k_def)
  ultimately show ?thesis
    unfolding skipToStartChunk_def Let_def enc ik by (simp add: k_def [symmetric])
qed

lemma newRangeDecryptReaderBound_ok:
  assumes xs: "seal_records H (bound_scheme A T iv oc b) 0 (chunks cs p) = Inr xs" and laws: "aead_laws A"
    and oc: "Validate oc = Inr ()" "length b = 16"
    and cs: "16384 \<le> cs" "cs \<le> 1048576" and e: "s \<le> e" "e < length p" "length p < 2 ^ 62"
    and m: "cm_Version m = 2" "cm_ChunkSize m = int cs" "cm_ChunkCount m = of_nat (length xs)"
      "cm_IVDerivation m = ''hkdf-sha256''"
    and src: "src_clean src"
      "opt \<and> src_bytes src = concat (drop (s div cs) (take (e div cs + 1) xs)) \<and> rest = [] \<or>
       \<not> opt \<and> src_bytes src = concat xs @ t \<and> rest = concat (drop (e div cs + 1) xs) @ t"
  shows "\<exists>r. newRangeDecryptReaderBound src A (Some m) iv (int s) (int e) opt (int (length p)) oc b = Inr r \<and>
    rr_at (bound_scheme A T iv oc b) cs p xs s e (s div cs) rest r"
proof -
  let ?c = "bound_scheme A T iv oc b"
  have laws': "aead_laws (cs_aead ?c)" using laws by (simp add: bound_scheme_def)
  have pos: "0 < cs" using cs by simp
  have N: "chunk_count (int (length p)) (int cs) = int (length xs)"
    using chunk_count_length [OF pos, of p] seal_records_length [OF xs] by simp
  have small: "length xs < 2 ^ 62" using N chunk_count_le [of "int (length p)" "int cs"] e(3) pos by simp
  have ecN: "e div cs < length xs"
    using div_less_chunk_count [of "int e" "int (length p)" "int cs"] N e(2) pos by (simp add: zdiv_int [symmetric])
  have scec: "s div cs \<le> e div cs" using e(1) by (rule div_le_mono)
  have cnt: "uint (cm_ChunkCount m) = int (length xs)"
    using small by (simp add: m(3) uint_nat unat_of_nat)
  have calc: "calculateChunkRangeFromPlaintext (int s) (int e) (int cs) (int (length xs)) =
      (int (s div cs), int (e div cs), int (s mod cs), int (e mod cs))"
    using calculateChunkRangeFromPlaintext_ok [of "int s" "int e" "int (length p)" "int cs"] e pos
    unfolding N by (simp add: zdiv_int zmod_int)
  obtain src' where src': "src_clean src'" "src_bytes src' = concat (drop (s div cs) (take (e div cs + 1) xs)) @ rest"
    and skip: "(if \<not> opt \<and> 0 < int (s div cs) then skipToStartChunk src (int cs) (int (s div cs)) else Inr src) = Inr src'"
  proof (cases "\<not> opt \<and> 0 < s div cs")
    case True
    have "\<forall>j < s div cs. length (xs ! j) = cs + 16" using record_full [OF xs laws' _ pos] scec ecN by auto
    then have "length (concat (take (s div cs) xs)) = s div cs * (cs + 16)"
      using scec ecN by (intro concat_take_uniform) auto
    then have len: "s div cs * (cs + 16) \<le> length (concat xs)"
      using arg_cong [OF concat_append [of "take (s div cs) xs" "drop (s div cs) xs"], of length] by simp
    have "s div cs * cs \<le> s" "s div cs * 16 \<le> s div cs * cs"
      using cs(1) times_div_less_eq_dividend [of cs s] by (simp_all add: mult.commute)
    moreover have "(2 :: nat) ^ 63 = 2 * 2 ^ 62" by simp
    ultimately have room: "s div cs * (cs + 16) < 2 ^ 63" using e unfolding add_mult_distrib2 by linarith
    obtain src' where src': "skipToStartChunk src (int cs) (int (s div cs)) = Inr src'"
        "src_clean src'" "src_bytes src' = drop (s div cs * (cs + 16)) (src_bytes src)"
      using skipToStartChunk_ok [OF src(1) _ pos _ room] src(2) True len cs(2) by auto
    have "concat (drop (s div cs) xs) = concat (drop (s div cs) (take (e div cs + 1) xs)) @ concat (drop (e div cs + 1) xs)"
      using drop_split [of "s div cs" "e div cs + 1" xs] scec by (simp flip: concat_append)
    then have "src_bytes src' = concat (drop (s div cs) (take (e div cs + 1) xs)) @ rest"
      using src'(3) src(2) True len range_slice(1) [OF xs laws' pos scec ecN] by auto
    then show thesis using that [OF src'(2)] src'(1) True by simp
  next
    case False
    have "src_bytes src = concat (drop (s div cs) (take (e div cs + 1) xs)) @ rest"
      using src(2) False by (cases opt) (auto simp flip: concat_append)
    then show thesis using that [OF src(1)] False by simp
  qed
  let ?r = "\<lparr>rr_source = src', rr_aead = A, rr_manifest = m, rr_baseIV = iv, rr_chunkSize = cs,
     rr_plaintextStart = int s, rr_plaintextEnd = int e, rr_startChunk = of_nat (s div cs),
     rr_endChunk = of_nat (e div cs), rr_startOffsetInChunk = s mod cs, rr_endOffsetInChunk = e mod cs,
     rr_currentChunk = [], rr_currentChunkIndex = of_nat (s div cs), rr_sourceChunkIndex = 0,
     rr_bytesReturned = 0, rr_closed = False, rr_err = None, rr_isOptimized = opt,
     rr_plaintextSize = int (length p), rr_object = oc, rr_bindingID = b, rr_boundV2 = True\<rparr>"
  have ctor: "newRangeDecryptReaderBound src A (Some m) iv (int s) (int e) opt (int (length p)) oc b = Inr ?r"
  proof -
    have "\<not> (int (length xs) \<le> int (e div cs) \<or> int (e div cs) < int (s div cs))" "validateChunkSize (int cs) = Inr ()"
      using ecN scec cs by simp_all
    then show ?thesis
      using oc skip
      by (simp add: newRangeDecryptReaderBound_def newRangeDecryptReader_def m(1,2) cnt calc chunk_consts
          del: validateChunkSize_Inr cong: if_cong)
  qed
  have "max (s div cs * cs) s = s" using times_div_less_eq_dividend [of cs s] by (simp add: mult.commute)
  moreover have "rr_maxBytes ?r = int (e + 1 - s)"
    using e by (simp add: rr_maxBytes_def wrap64_id in_int64_def int_limits of_nat_diff)
  moreover have "rr_scheme (Some T) ?r = ?c" by (simp add: rr_scheme_def bound_scheme_def m chunk_consts)
  ultimately have "rr_at ?c cs p xs s e (s div cs) rest ?r"
    using src' m(3) by (simp add: rr_at_def) (simp add: bound_scheme_def)
  with ctor show ?thesis by blast
qed

section \<open>Range requests\<close>

text \<open>The encrypted range in terms of the records of the object.\<close>

lemma encrypted_range_records:
  assumes xs: "seal_records H c 0 (chunks cs p) = Inr xs" and laws: "aead_laws (cs_aead c)"
    and cs: "16384 \<le> cs" "cs \<le> 1048576" and p: "length p < 2 ^ 62" and se: "sc \<le> ec" "ec < length xs"
  shows "\<exists>lo hi. ChunkedEncryptedDataRangeForPlaintextSize (int sc) (int ec) (int (length p)) (int cs) 2 =
      Inr (int lo, int hi) \<and> lo \<le> hi \<and> hi < length (concat xs) \<and>
      take (hi + 1 - lo) (drop lo (concat xs @ t)) = concat (drop sc (take (ec + 1) xs))"
proof -
  define all where "all = concat (take (ec + 1) xs)"
  define lo hi where "lo = sc * (cs + 16)" and "hi = length all - 1"
  have pos: "0 < cs" using cs by simp
  have N: "chunk_count (int (length p)) (int cs) = int (length xs)"
    using chunk_count_length [OF pos, of p] seal_records_length [OF xs] by simp
  have whole: "concat xs = all @ concat (drop (ec + 1) xs)" by (simp add: all_def flip: concat_append)
  have tail: "drop lo all = concat (drop sc (take (ec + 1) xs))"
    unfolding all_def lo_def by (rule range_slice(2) [OF xs laws pos se])
  have "xs ! sc \<in> set (drop sc (take (ec + 1) xs))"
    using se nth_mem [of 0 "drop sc (take (ec + 1) xs)"] by simp
  moreover have "xs ! sc \<noteq> []" using record_i(2) [OF xs laws _ pos, of sc] se by auto
  ultimately have "drop lo all \<noteq> []" unfolding tail by auto
  then have lo: "lo < length all" by simp
  have in64: "in_int64 (int (length p))" using p by (simp add: in_int64_def int_limits)
  have count: "16384 * int (length xs) < int (length p) + 16384" "int cs * int (length xs) < int (length p) + int cs"
    using chunk_count_small [of "int (length p)" "int cs"] chunk_count_bounds(2) [of "int (length p)" "int cs"]
      cs pos unfolding N by simp_all
  have size: "data_size (int (length p)) (int cs) = int (length p) + 16 * int (length xs)"
    by (simp add: data_size_def N)
  obtain n where n: "ChunkedCiphertextSize (int (length p)) (int cs) 2 = Inr n"
    using ChunkedCiphertextSize_Inr [OF in64, of "int cs" 2] cs p size count(1) by (simp add: terminal_size_def int_limits)
  have "int (length xs) * (int cs + 16) \<le> maxInt64"
    using count cs p by (simp add: int_limits algebra_simps)
  then have "ChunkedEncryptedDataRangeForPlaintextSize (int sc) (int ec) (int (length p)) (int cs) 2 = Inr (int lo, int hi)"
    using ChunkedEncryptedDataRangeForPlaintextSize_ok [OF n in64, of "int sc" "int ec"] se lo
    unfolding N range_end [OF xs laws pos se(2)] all_def [symmetric] by (simp add: lo_def hi_def of_nat_diff)
  moreover have "take (hi + 1 - lo) (drop lo (concat xs @ t)) = drop lo all"
    using lo by (simp add: whole hi_def)
  moreover have "lo \<le> hi" "hi < length (concat xs)" using lo whole by (simp_all add: hi_def)
  ultimately show ?thesis unfolding tail by blast
qed

text \<open>
  C8. Range requests on version 2 objects. For every range \<open>s .. e\<close> inside the plaintext, the
  encrypted byte range computed from the plaintext size lies inside the object, the range
  reader over exactly these bytes (and, equally, over the whole object) is constructed, and
  reading it with any buffer sizes delivers bytes \<open>s .. e\<close> of the plaintext and then \<open>EOF\<close>,
  in whatever portions the backend delivers its bytes.
\<close>

theorem range_reader_delivers_range:
  assumes obj: "seal_object H (bound_scheme A T iv oc b) cs p = Inr obj" and laws: "aead_laws A"
    and oc: "Validate oc = Inr ()" "length b = 16"
    and cs: "16384 \<le> cs" "cs \<le> 1048576" and e: "s \<le> e" "e < length p" "length p < 2 ^ 62"
    and m: "cm_Version m = 2" "cm_ChunkSize m = int cs" "cm_ChunkCount m = of_nat (length (chunks cs p))"
      "cm_IVDerivation m = ''hkdf-sha256''"
    and ms: "\<forall>n \<in> set ms. 0 < n" "e + 1 - s < length ms"
  shows "\<exists>lo hi. ChunkedEncryptedDataRangeForPlaintextSize (int (s div cs)) (int (e div cs))
      (int (length p)) (int cs) 2 = Inr (int lo, int hi) \<and> lo \<le> hi \<and> hi < length obj \<and>
    (\<forall>src opt. src_clean src \<longrightarrow>
       src_bytes src = (if opt then take (hi + 1 - lo) (drop lo obj) else obj) \<longrightarrow>
       (\<exists>r r'. newRangeDecryptReaderBound src A (Some m) iv (int s) (int e) opt (int (length p)) oc b = Inr r \<and>
          drain (rr_Read H) ms r = (take (e + 1 - s) (drop s p), Some EOF, r')))"
proof -
  let ?c = "bound_scheme A T iv oc b"
  let ?sc = "s div cs" and ?ec = "e div cs"
  obtain xs t where xs: "seal_records H ?c 0 (chunks cs p) = Inr xs" "obj = concat xs @ t"
    using obj by (auto simp: seal_object_def and_then_eq_Inr)
  have c: "aead_laws (cs_aead ?c)" "cs_version ?c = 2 \<and> cs_binding ?c \<noteq> None" "cs_terminal ?c = Some T"
    using laws by (simp_all add: bound_scheme_def chunk_consts)
  have pos: "0 < cs" "cs < 2 ^ 62" using cs by simp_all
  have N: "chunk_count (int (length p)) (int cs) = int (length xs)" "length xs = length (chunks cs p)"
    using chunk_count_length [OF pos(1), of p] seal_records_length [OF xs(1)] by simp_all
  have ec: "?ec < length xs"
    using div_less_chunk_count [of "int e" "int (length p)" "int cs"] N e(2) pos by (simp add: zdiv_int [symmetric])
  have scec: "?sc \<le> ?ec" using e(1) by (rule div_le_mono)
  obtain lo hi where enc: "ChunkedEncryptedDataRangeForPlaintextSize (int ?sc) (int ?ec) (int (length p)) (int cs) 2 =
      Inr (int lo, int hi)" "lo \<le> hi" "hi < length obj"
    and slice: "take (hi + 1 - lo) (drop lo obj) = concat (drop ?sc (take (?ec + 1) xs))"
    using encrypted_range_records [OF xs(1) c(1) cs e(3) scec ec, of t] xs(2) by auto
  have "\<exists>r r'. newRangeDecryptReaderBound src A (Some m) iv (int s) (int e) opt (int (length p)) oc b = Inr r \<and>
      drain (rr_Read H) ms r = (take (e + 1 - s) (drop s p), Some EOF, r')"
    if src: "src_clean src" "src_bytes src = (if opt then take (hi + 1 - lo) (drop lo obj) else obj)" for src opt
  proof -
    define rest where "rest = (if opt then [] else concat (drop (?ec + 1) xs) @ t)"
    have "opt \<and> src_bytes src = concat (drop ?sc (take (?ec + 1) xs)) \<and> rest = [] \<or>
       \<not> opt \<and> src_bytes src = concat xs @ t \<and> rest = concat (drop (?ec + 1) xs) @ t"
      using src(2) slice xs(2) by (simp add: rest_def)
    from newRangeDecryptReaderBound_ok [OF xs(1) laws oc cs e m(1,2) _ m(4) src(1) this] m(3) N(2)
    obtain r where r: "newRangeDecryptReaderBound src A (Some m) iv (int s) (int e) opt (int (length p)) oc b = Inr r"
        "rr_at ?c cs p xs s e ?sc rest r"
      by auto
    have max: "max (?sc * cs) s = s" using times_div_less_eq_dividend [of cs s] by (simp add: mult.commute)
    have run: "rr_run H r = (take (e + 1 - s) (drop s p), EOF)"
      using rr_run_range [OF r(2) xs(1) c(1) order_refl scec e pos] c(2) unfolding max by blast
    note st = rr_at_state [OF r(2) e(1), unfolded max, OF e(1)]
    show ?thesis
      using ranged.reader.drain_complete [of r ms H] r(1) st run ms e by auto
  qed
  with enc show ?thesis by blast
qed

text \<open>A range that starts in the first of two records and ends in the second, short one.\<close>

theorem range_reader_delivers_range_witness:
  "\<exists>obj lo hi m r r'. seal_object sum_hkdf (bound_scheme sum_aead sum_aead ex_iv ex_oc ex_bid) 16384
       (replicate 16383 1 @ [2, 3]) = Inr obj \<and>
     ChunkedEncryptedDataRangeForPlaintextSize 0 1 16385 16384 2 = Inr (int lo, int hi) \<and>
     newRangeDecryptReaderBound [SData (take (hi + 1 - lo) (drop lo obj))] sum_aead (Some m) ex_iv 16383 16384 True
       16385 ex_oc ex_bid = Inr r \<and>
     drain (rr_Read sum_hkdf) [1, 5, 5] r = ([2, 3], Some EOF, r')"
proof -
  let ?p = "replicate 16383 1 @ [2, 3] :: bytes" and ?c = "bound_scheme sum_aead sum_aead ex_iv ex_oc ex_bid"
  let ?m = "\<lparr>cm_Version = 2, cm_ChunkSize = 16384, cm_ChunkCount = of_nat (length (chunks 16384 ?p)),
     cm_BaseIV = encodeBase64 ex_iv, cm_IVs = [], cm_IVDerivation = ''hkdf-sha256''\<rparr>"
  have oc: "Validate ex_oc = Inr ()" "length ex_bid = 16" by (simp_all add: ex_oc_def ex_bid_def Validate_def)
  obtain obj where obj: "seal_object sum_hkdf ?c 16384 ?p = Inr obj"
    using seal_object_bound [OF sum_hkdf_laws, of ?c ex_oc ex_bid sum_aead 16384 ?p] oc
    by (auto simp: bound_scheme_def chunk_consts)
  obtain lo hi where r: "ChunkedEncryptedDataRangeForPlaintextSize 0 1 16385 16384 2 = Inr (int lo, int hi)"
      "\<forall>src opt. src_clean src \<longrightarrow> src_bytes src = (if opt then take (hi + 1 - lo) (drop lo obj) else obj) \<longrightarrow>
       (\<exists>r r'. newRangeDecryptReaderBound src sum_aead (Some ?m) ex_iv 16383 16384 opt 16385 ex_oc ex_bid = Inr r \<and>
          drain (rr_Read sum_hkdf) [1, 5, 5] r = ([2, 3], Some EOF, r'))"
    using range_reader_delivers_range [OF obj sum_aead_laws oc, of 16383 16384 ?m "[1, 5, 5]"] by auto
  obtain rd r' where "newRangeDecryptReaderBound [SData (take (hi + 1 - lo) (drop lo obj))] sum_aead (Some ?m) ex_iv
      16383 16384 True 16385 ex_oc ex_bid = Inr rd" "drain (rr_Read sum_hkdf) [1, 5, 5] rd = ([2, 3], Some EOF, r')"
    using r(2) [rule_format, of "[SData (take (hi + 1 - lo) (drop lo obj))]" True] by auto
  with obj r(1) show ?thesis by blast
qed

end
