(* ===== verification/Key_Manager.thy ===== *)
theory Key_Manager
  imports Gateway_Prelude
begin

text \<open>
  The key manager interface of \<^verbatim>\<open>internal/crypto/keymanager.go\<close>: errors, envelopes, the method
  set as a record of state transformers, and the contract of the interface as a locale. A
  decorator (circuit breaker, password fallback) builds a key manager from key managers; its
  theory shows that the contract carries over.
\<close>

section \<open>Errors\<close>

text \<open>
  The sentinels of the package, errors of other code, and errors created with
  \<^verbatim>\<open>fmt.Errorf\<close>: their text and the errors they wrap with \<^verbatim>\<open>%w\<close>.
\<close>

datatype kmerr =
    ErrProviderUnavailable
  | ErrKeyNotFound
  | ErrUnwrapFailed
  | ErrInvalidEnvelope
  | ErrRotationNotSupported
  | ErrRotationAmbiguous
  | ErrRotationConflict
  | KmOther nat
  | Errorf string "kmerr list"

text \<open>\<^verbatim>\<open>errors.Is\<close> on these errors.\<close>

fun errIs :: "kmerr \<Rightarrow> kmerr \<Rightarrow> bool" where
  "errIs (Errorf t es) x \<longleftrightarrow> Errorf t es = x \<or> (\<exists>e \<in> set es. errIs e x)"
| "errIs e x \<longleftrightarrow> e = x"

lemma errIs_refl [simp]: "errIs e e"
  by (cases e) auto

section \<open>Envelopes and calls\<close>

record key_envelope =
  KeyID :: string
  KeyVersion :: int
  env_Provider :: string
  Ciphertext :: bytes
  CreatedAt :: int

record rotation_plan =
  CurrentVersion :: int
  TargetVersion :: int

text \<open>
  The circumstances of one call: the error of its context, the clock when it starts and when
  the delegated work is done, the order in which it iterates over a map, and what its reads
  from the random source deliver (nothing when the source fails).
\<close>

record km_call =
  ctxErr :: "kmerr option"
  now :: int
  later :: int
  rangeOrder :: "int list \<Rightarrow> int list"
  callRand :: "nat \<Rightarrow> (nat \<Rightarrow> byte) option"

definition rand_read :: "km_call \<Rightarrow> nat \<Rightarrow> nat \<Rightarrow> kmerr + bytes" where
  "rand_read c i n = (case callRand c i of None \<Rightarrow> Inl (KmOther 0) | Some f \<Rightarrow> Inr (map f [0..<n]))"

lemma rand_read_length: "rand_read c i n = Inr b \<Longrightarrow> length b = n"
  by (auto simp: rand_read_def split: option.splits)

type_synonym metadata = "string \<rightharpoonup> string"

section \<open>The method set\<close>

record 's rotation_ops =
  rot_Prepare :: "km_call \<Rightarrow> int option \<Rightarrow> 's \<Rightarrow> (kmerr + rotation_plan) \<times> 's"
  rot_Promote :: "km_call \<Rightarrow> rotation_plan \<Rightarrow> 's \<Rightarrow> (kmerr + unit) \<times> 's"

text \<open>The last field is the outcome of the type assertion to \<^verbatim>\<open>RotatableKeyManager\<close>.\<close>

record 's key_manager =
  km_Provider :: "'s \<Rightarrow> string"
  km_WrapKey :: "km_call \<Rightarrow> bytes \<Rightarrow> metadata \<Rightarrow> 's \<Rightarrow> (kmerr + key_envelope) \<times> 's"
  km_UnwrapKey :: "km_call \<Rightarrow> key_envelope option \<Rightarrow> metadata \<Rightarrow> 's \<Rightarrow> (kmerr + bytes) \<times> 's"
  km_ActiveKeyVersion :: "km_call \<Rightarrow> 's \<Rightarrow> (kmerr + int) \<times> 's"
  km_HealthCheck :: "km_call \<Rightarrow> 's \<Rightarrow> (kmerr + unit) \<times> 's"
  km_Close :: "km_call \<Rightarrow> 's \<Rightarrow> (kmerr + unit) \<times> 's"
  km_rotation :: "'s rotation_ops option"

text \<open>A sequence of calls, as the requests of the gateway make them.\<close>

inductive km_calls :: "'s key_manager \<Rightarrow> 's \<Rightarrow> 's \<Rightarrow> bool" for M where
  none: "km_calls M s s"
| wrap: "km_calls M s t \<Longrightarrow> km_WrapKey M c pt md t = (r, u) \<Longrightarrow> km_calls M s u"
| unwrap: "km_calls M s t \<Longrightarrow> km_UnwrapKey M c e md t = (r', u) \<Longrightarrow> km_calls M s u"

section \<open>The contract\<close>

text \<open>
  What callers rely on, for a state invariant, the closed states, the keys that can be wrapped
  and the relation between envelopes and the keys they hold:
  a wrapped key is held by its envelope, which no later call changes; unwrapping an envelope
  returns the key it holds or an error, never another key; a closed manager stays closed,
  wraps and unwraps nothing, and closing it again succeeds without effect.
\<close>

locale key_manager_contract =
  fixes M :: "'s key_manager" and inv :: "'s \<Rightarrow> bool" and closed :: "'s \<Rightarrow> bool"
    and wrappable :: "bytes \<Rightarrow> bool" and holds :: "'s \<Rightarrow> key_envelope \<Rightarrow> bytes \<Rightarrow> bool"
  assumes wrap_inv: "inv s \<Longrightarrow> km_WrapKey M c pt md s = (r, s') \<Longrightarrow>
      inv s' \<and> (closed s' \<longleftrightarrow> closed s) \<and> (\<forall>e k. holds s e k \<longrightarrow> holds s' e k)"
    and wrap_holds: "inv s \<Longrightarrow> km_WrapKey M c pt md s = (Inr env, s') \<Longrightarrow> wrappable pt \<Longrightarrow> holds s' env pt"
    and wrap_closed: "inv s \<Longrightarrow> km_WrapKey M c pt md s = (Inr env, s') \<Longrightarrow> \<not> closed s"
    and unwrap_inv: "inv s \<Longrightarrow> km_UnwrapKey M c e md s = (u, s') \<Longrightarrow>
      inv s' \<and> (closed s' \<longleftrightarrow> closed s) \<and> (\<forall>e k. holds s e k \<longrightarrow> holds s' e k)"
    and unwrap_holds: "inv s \<Longrightarrow> km_UnwrapKey M c (Some env) md s = (Inr k', s') \<Longrightarrow> holds s env k \<Longrightarrow> k' = k"
    and unwrap_closed: "inv s \<Longrightarrow> km_UnwrapKey M c e md s = (Inr k', s') \<Longrightarrow> \<not> closed s"
    and close_inv: "inv s \<Longrightarrow> km_Close M c s = (x, s') \<Longrightarrow> inv s' \<and> closed s'"
    and close_again: "inv s \<Longrightarrow> closed s \<Longrightarrow> km_Close M c s = (Inr (), s)"
begin

lemma calls_keep: "km_calls M s t \<Longrightarrow> inv s \<Longrightarrow> inv t \<and> (closed t \<longleftrightarrow> closed s) \<and> (holds s e k \<longrightarrow> holds t e k)"
  by (induction rule: km_calls.induct) (use wrap_inv unwrap_inv in blast)+

text \<open>
  Whatever other calls are made between, an envelope unwraps to the key that was wrapped, if
  it unwraps at all.
\<close>

lemma unwrap_after_wrap:
  assumes "inv s" and "wrappable pt" and "km_WrapKey M c pt md s = (Inr env, t)" and "km_calls M t u"
    and "km_UnwrapKey M c' (Some env) md' u = (Inr k, v)"
  shows "k = pt"
proof -
  have "inv t" "holds t env pt" using wrap_inv wrap_holds assms(1-3) by blast+
  then have "inv u" "holds u env pt" using calls_keep [OF assms(4)] by blast+
  then show ?thesis using unwrap_holds assms(5) by blast
qed

text \<open>Closing is final: afterwards nothing is wrapped or unwrapped.\<close>

lemma closed_is_final:
  assumes "inv s" and "km_Close M c s = (r, t)" and "km_calls M t u"
  shows "(\<exists>e. fst (km_WrapKey M c' pt md u) = Inl e) \<and> (\<exists>e. fst (km_UnwrapKey M c' env md u) = Inl e) \<and>
    km_Close M c' u = (Inr (), u)"
proof -
  have "inv t" "closed t" using close_inv assms(1,2) by blast+
  then have u: "inv u" "closed u" using calls_keep [OF assms(3)] by blast+
  have "\<exists>e. fst (km_WrapKey M c' pt md u) = Inl e"
    using wrap_closed [OF u(1), of c' pt md] u(2) by (cases "km_WrapKey M c' pt md u"; cases "fst (km_WrapKey M c' pt md u)") auto
  moreover have "\<exists>e. fst (km_UnwrapKey M c' env md u) = Inl e"
    using unwrap_closed [OF u(1), of c' env md] u(2)
    by (cases "km_UnwrapKey M c' env md u"; cases "fst (km_UnwrapKey M c' env md u)") auto
  ultimately show ?thesis using close_again u by blast
qed

text \<open>The contract also holds for a stronger invariant, if the calls keep it.\<close>

lemma restrict_inv:
  assumes "\<And>s c pt md r s'. inv s \<Longrightarrow> J s \<Longrightarrow> km_WrapKey M c pt md s = (r, s') \<Longrightarrow> J s'"
    and "\<And>s c e md r s'. inv s \<Longrightarrow> J s \<Longrightarrow> km_UnwrapKey M c e md s = (r, s') \<Longrightarrow> J s'"
    and "\<And>s c r s'. inv s \<Longrightarrow> J s \<Longrightarrow> km_Close M c s = (r, s') \<Longrightarrow> J s'"
  shows "key_manager_contract M (\<lambda>s. inv s \<and> J s) closed wrappable holds"
proof (unfold_locales, goal_cases)
  case (1 s c pt md r s')
  then show ?case using wrap_inv [of s] assms(1) [of s] by blast
next
  case (2 s c pt md env s')
  then show ?case using wrap_holds [of s] by blast
next
  case (3 s c pt md env s')
  then show ?case using wrap_closed [of s] by blast
next
  case (4 s c e md u s')
  then show ?case using unwrap_inv [of s] assms(2) [of s] by blast
next
  case (5 s c env md k' s' k)
  then show ?case using unwrap_holds [of s] by blast
next
  case (6 s c e md k' s')
  then show ?case using unwrap_closed [of s] by blast
next
  case (7 s c x s')
  then show ?case using close_inv [of s] assms(3) [of s] by blast
next
  case (8 s c)
  then show ?case using close_again by blast
qed

end

section \<open>Rotation through decorators\<close>

text \<open>
  \<^verbatim>\<open>rotatable...KeyManager\<close>: rotation calls go to a component of the state, past the decorator.
\<close>

definition forward_rotation :: "('t \<Rightarrow> 's) \<Rightarrow> ('s \<Rightarrow> 't \<Rightarrow> 't) \<Rightarrow> 's rotation_ops \<Rightarrow> 't rotation_ops" where
  "forward_rotation get put R =
     \<lparr>rot_Prepare = \<lambda>c target t. (case rot_Prepare R c target (get t) of (r, s) \<Rightarrow> (r, put s t)),
      rot_Promote = \<lambda>c plan t. (case rot_Promote R c plan (get t) of (r, s) \<Rightarrow> (r, put s t))\<rparr>"

end
