(* ===== verification/Go_Strings.thy ===== *)
theory Go_Strings
  imports Gateway_Prelude
begin

text \<open>
  The parts of packages strconv, strings and fmt the modelled code uses, on byte strings:
  decimal formatting and parsing with Go's range checks, \<^verbatim>\<open>strings.Split\<close> at a single
  character, case folding and prefixes, and \<^verbatim>\<open>fmt.Sscanf(v, "%d", _)\<close>.
  Case folding is the ASCII part of Go's; the names it is applied to are HTTP field names
  and configuration words, which are ASCII.
\<close>

section \<open>Decimal numbers\<close>

definition is_digit :: "char \<Rightarrow> bool" where
  "is_digit c \<longleftrightarrow> 48 \<le> (of_char c :: nat) \<and> (of_char c :: nat) \<le> 57"

definition digit_val :: "char \<Rightarrow> nat" where
  "digit_val c = of_char c - 48"

definition digit_char :: "nat \<Rightarrow> char" where
  "digit_char d = char_of (48 + d)"

definition digits_val :: "string \<Rightarrow> nat" where
  "digits_val s = foldl (\<lambda>a c. a * 10 + digit_val c) 0 s"

function show_nat :: "nat \<Rightarrow> string" where
  "show_nat n = (if n < 10 then [digit_char n] else show_nat (n div 10) @ [digit_char (n mod 10)])"
  by pat_completeness auto
termination
  by (relation "measure id") auto

declare show_nat.simps [simp del]

text \<open>\<^verbatim>\<open>strconv.FormatInt(i, 10)\<close> and \<^verbatim>\<open>fmt.Sprintf("%d", i)\<close>.\<close>

definition show_int :: "int \<Rightarrow> string" where
  "show_int i = (if i < 0 then CHR ''-'' # show_nat (nat (- i)) else show_nat (nat i))"

text \<open>\<^verbatim>\<open>strconv.ParseUint(s, 10, bits)\<close>.\<close>

definition parse_uint :: "nat \<Rightarrow> string \<Rightarrow> nat option" where
  "parse_uint bits s =
     (if s \<noteq> [] \<and> list_all is_digit s \<and> digits_val s < 2 ^ bits then Some (digits_val s) else None)"

text \<open>\<^verbatim>\<open>strconv.ParseInt(s, 10, 64)\<close>, and \<^verbatim>\<open>strconv.Atoi(s)\<close> on a 64-bit platform.\<close>

definition parse_int64 :: "string \<Rightarrow> int option" where
  "parse_int64 s =
     (case s of
        [] \<Rightarrow> None
      | c # r \<Rightarrow>
          if c = CHR ''-'' then
            (case parse_uint 64 r of
               None \<Rightarrow> None
             | Some u \<Rightarrow> if 9223372036854775808 < u then None else Some (- int u))
          else
            (case parse_uint 64 (if c = CHR ''+'' then r else s) of
               None \<Rightarrow> None
             | Some u \<Rightarrow> if 9223372036854775808 \<le> u then None else Some (int u)))"

lemma digit_char_props [simp]:
  "d < 10 \<Longrightarrow> is_digit (digit_char d)" "d < 10 \<Longrightarrow> digit_val (digit_char d) = d"
  by (simp_all add: is_digit_def digit_char_def digit_val_def)

lemma digits_val_snoc [simp]: "digits_val (s @ [c]) = digits_val s * 10 + digit_val c"
  by (simp add: digits_val_def)

lemma digits_val_Nil [simp]: "digits_val [] = 0"
  by (simp add: digits_val_def)

lemma digits_val_single [simp]: "digits_val [c] = digit_val c"
  by (simp add: digits_val_def)

lemma show_nat_props: "show_nat n \<noteq> [] \<and> list_all is_digit (show_nat n) \<and> digits_val (show_nat n) = n"
proof (induction n rule: show_nat.induct)
  case (1 n)
  show ?case
  proof (cases "n < 10")
    case True
    then show ?thesis by (simp add: show_nat.simps)
  next
    case False
    with 1 show ?thesis by (simp add: show_nat.simps [of n])
  qed
qed

lemma show_nat_digits: "list_all is_digit (show_nat n)"
  using show_nat_props by blast

lemma show_nat_nonempty [simp]: "show_nat n \<noteq> []"
  using show_nat_props by blast

lemma parse_uint_show [simp]: "n < 2 ^ bits \<Longrightarrow> parse_uint bits (show_nat n) = Some n"
  using show_nat_props [of n] by (simp add: parse_uint_def)

lemma hd_show_nat: "hd (show_nat n) \<noteq> CHR ''-'' \<and> hd (show_nat n) \<noteq> CHR ''+''"
  using show_nat_props [of n] by (cases "show_nat n") (auto simp: is_digit_def)

lemma parse_int64_show [simp]: "in_int64 i \<Longrightarrow> parse_int64 (show_int i) = Some i"
proof (cases "i < 0")
  case True
  assume "in_int64 i"
  with True show ?thesis
    by (simp add: parse_int64_def show_int_def in_int64_def int_limits)
next
  case False
  assume range: "in_int64 i"
  obtain c r where cr: "show_nat (nat i) = c # r" by (cases "show_nat (nat i)") auto
  then have "c \<noteq> CHR ''-''" "c \<noteq> CHR ''+''" using hd_show_nat [of "nat i"] by auto
  moreover have "parse_uint 64 (c # r) = Some (nat i)"
    unfolding cr [symmetric] using range False
    by (intro parse_uint_show) (simp add: in_int64_def int_limits)
  ultimately show ?thesis
    using False range cr by (simp add: parse_int64_def show_int_def in_int64_def int_limits)
qed

lemma parse_int64_range: "parse_int64 s = Some i \<Longrightarrow> in_int64 i"
  by (auto simp: parse_int64_def in_int64_def int_limits split: list.splits if_splits option.splits)

lemma parse_uint_range: "parse_uint bits s = Some n \<Longrightarrow> n < 2 ^ bits"
  by (simp add: parse_uint_def split: if_splits)

section \<open>Splitting, case and prefixes\<close>

fun split_on :: "char \<Rightarrow> string \<Rightarrow> string list" where
  "split_on c [] = [[]]"
| "split_on c (x # xs) =
     (if x = c then [] # split_on c xs
      else case split_on c xs of p # ps \<Rightarrow> (x # p) # ps | [] \<Rightarrow> [[x]])"

lemma split_on_nonempty [simp]: "split_on c s \<noteq> []"
  by (induction s) (auto split: list.splits)

lemma split_on_none [simp]: "c \<notin> set s \<Longrightarrow> split_on c s = [s]"
  by (induction s) auto

lemma split_on_append: "c \<notin> set s \<Longrightarrow> split_on c (s @ c # t) = s # split_on c t"
  by (induction s) auto

lemma split_on_parts: "p \<in> set (split_on c s) \<Longrightarrow> c \<notin> set p"
  by (induction s arbitrary: p) (auto split: if_splits list.splits)

definition to_lower_char :: "char \<Rightarrow> char" where
  "to_lower_char c = (if 65 \<le> (of_char c :: nat) \<and> (of_char c :: nat) \<le> 90
     then char_of ((of_char c :: nat) + 32) else c)"

definition to_lower :: "string \<Rightarrow> string" where
  "to_lower s = map to_lower_char s"

definition equal_fold :: "string \<Rightarrow> string \<Rightarrow> bool" where
  "equal_fold s t \<longleftrightarrow> to_lower s = to_lower t"

definition has_prefix :: "string \<Rightarrow> string \<Rightarrow> bool" where
  "has_prefix s p \<longleftrightarrow> take (length p) s = p"

lemma to_lower_char_idem [simp]: "to_lower_char (to_lower_char c) = to_lower_char c"
  by (simp add: to_lower_char_def)

lemma to_lower_idem [simp]: "to_lower (to_lower s) = to_lower s"
  by (simp add: to_lower_def)

lemma length_to_lower [simp]: "length (to_lower s) = length s"
  by (simp add: to_lower_def)

lemma equal_fold_refl [simp]: "equal_fold s s"
  by (simp add: equal_fold_def)

lemma equal_fold_sym: "equal_fold s t \<longleftrightarrow> equal_fold t s"
  by (auto simp: equal_fold_def)

lemma equal_fold_trans: "equal_fold s t \<Longrightarrow> equal_fold t u \<Longrightarrow> equal_fold s u"
  by (simp add: equal_fold_def)

section \<open>Scanning a decimal number\<close>

text \<open>
  \<^verbatim>\<open>fmt.Sscanf(v, "%d", &n)\<close> with an \<^verbatim>\<open>int\<close>: blanks are skipped (a line feed is an error),
  an optional sign and the longest run of digits or underscores are read, the rest of the
  text is not looked at. An underscore ends in a parse error, because the token goes to
  \<^verbatim>\<open>strconv.ParseInt\<close> in base ten.
\<close>

definition is_blank :: "char \<Rightarrow> bool" where
  "is_blank c \<longleftrightarrow> c = CHR '' '' \<or> c = CHR 0x09 \<or> c = CHR 0x0B \<or> c = CHR 0x0C \<or> c = CHR 0x0D"

definition is_scan_digit :: "char \<Rightarrow> bool" where
  "is_scan_digit c \<longleftrightarrow> is_digit c \<or> c = CHR ''_''"

definition sscanf_d :: "string \<Rightarrow> int option" where
  "sscanf_d v =
     (let s = dropWhile is_blank v in
      case s of
        [] \<Rightarrow> None
      | c # r \<Rightarrow>
          let sign = (c = CHR ''+'' \<or> c = CHR ''-'');
              tok = takeWhile is_scan_digit (if sign then r else s)
          in if tok = [] then None else parse_int64 (if sign then c # tok else tok))"

lemma takeWhile_all: "list_all P xs \<Longrightarrow> takeWhile P xs = xs"
  by (induction xs) auto

lemma sscanf_d_show [simp]: "0 \<le> i \<Longrightarrow> in_int64 i \<Longrightarrow> sscanf_d (show_int i) = Some i"
proof -
  assume i: "0 \<le> i" "in_int64 i"
  have digits: "list_all is_digit (show_nat (nat i))" by (rule show_nat_digits)
  obtain c r where cr: "show_nat (nat i) = c # r" by (cases "show_nat (nat i)") auto
  have c: "is_digit c" using digits cr by simp
  have "dropWhile is_blank (c # r) = c # r"
    using c by (auto simp: is_blank_def is_digit_def)
  moreover have "takeWhile is_scan_digit (c # r) = c # r"
    using digits cr by (intro takeWhile_all) (auto simp: is_scan_digit_def list_all_iff)
  moreover have "c \<noteq> CHR ''+''" "c \<noteq> CHR ''-''" using c by (auto simp: is_digit_def)
  ultimately show ?thesis
    using parse_int64_show [OF i(2)] i(1) cr by (simp add: sscanf_d_def show_int_def Let_def)
qed

end
