(* ===== verification/Memory_Key_Manager.thy ===== *)
theory Memory_Key_Manager
  imports Key_Manager Go_Strings
begin

text \<open>
  \<^verbatim>\<open>internal/crypto/keymanager_memory.go\<close>: the AES key wrap of RFC 3394 and the in-memory key
  manager with its key versions and rotation. The block cipher (package crypto/aes) is a
  parameter: any pair of functions that, for every key, are inverse on 16-byte blocks.
\<close>

section \<open>Block ciphers\<close>

typedef block_cipher =
  "{(E :: bytes \<Rightarrow> bytes \<Rightarrow> bytes, D :: bytes \<Rightarrow> bytes \<Rightarrow> bytes).
      \<forall>k b. length b = 16 \<longrightarrow> length (E k b) = 16 \<and> D k (E k b) = b}"
  by (intro exI [of _ "(\<lambda>k b. b, \<lambda>k b. b)"]) simp

definition bcEncrypt :: "block_cipher \<Rightarrow> bytes \<Rightarrow> bytes \<Rightarrow> bytes" where
  "bcEncrypt C = fst (Rep_block_cipher C)"

definition bcDecrypt :: "block_cipher \<Rightarrow> bytes \<Rightarrow> bytes \<Rightarrow> bytes" where
  "bcDecrypt C = snd (Rep_block_cipher C)"

lemma length_bcEncrypt [simp]: "length b = 16 \<Longrightarrow> length (bcEncrypt C k b) = 16"
  using Rep_block_cipher [of C] by (auto simp: bcEncrypt_def)

lemma bcDecrypt_bcEncrypt [simp]: "length b = 16 \<Longrightarrow> bcDecrypt C k (bcEncrypt C k b) = b"
  using Rep_block_cipher [of C] by (auto simp: bcEncrypt_def bcDecrypt_def)

text \<open>\<^verbatim>\<open>aes.NewCipher\<close> accepts keys of 16, 24 and 32 bytes.\<close>

definition aesKeySizes :: "nat list" where
  "aesKeySizes = [16, 24, 32]"

definition newCipher :: "bytes \<Rightarrow> kmerr + unit" where
  "newCipher k = (if length k \<in> set aesKeySizes then Inr () else Inl (Errorf ''crypto/aes: invalid key size'' []))"

section \<open>AES key wrap\<close>

definition kwIV :: bytes where
  "kwIV = replicate 8 0xA6"

definition kwXor :: "bytes \<Rightarrow> nat \<Rightarrow> bytes" where
  "kwXor a t = be64 (of_be64 a XOR of_nat t)"

text \<open>The order of the wrapping steps: six rounds over the registers.\<close>

definition kwSteps :: "nat \<Rightarrow> (nat \<times> nat) list" where
  "kwSteps n = [(j, i). j \<leftarrow> [0..<6], i \<leftarrow> [0..<n]]"

fun kwWrapStep :: "block_cipher \<Rightarrow> bytes \<Rightarrow> nat \<Rightarrow> nat \<times> nat \<Rightarrow> bytes \<times> bytes list \<Rightarrow> bytes \<times> bytes list" where
  "kwWrapStep C kek n (j, i) (a, r) =
     (let buf = bcEncrypt C kek (a @ r ! i)
      in (kwXor (take 8 buf) (n * j + i + 1), r[i := drop 8 buf]))"

fun kwUnwrapStep :: "block_cipher \<Rightarrow> bytes \<Rightarrow> nat \<Rightarrow> nat \<times> nat \<Rightarrow> bytes \<times> bytes list \<Rightarrow> bytes \<times> bytes list" where
  "kwUnwrapStep C kek n (j, i) (a, r) =
     (let buf = bcDecrypt C kek (kwXor a (n * j + i + 1) @ r ! i)
      in (take 8 buf, r[i := drop 8 buf]))"

definition kwPad :: "bytes \<Rightarrow> bytes" where
  "kwPad plaintext =
     (if length plaintext mod 8 \<noteq> 0 \<or> length plaintext < 16 then
        let padded = plaintext @ replicate ((length plaintext + 7) div 8 * 8 - length plaintext) 0
        in if length padded < 16 then padded @ replicate (16 - length padded) 0 else padded
      else plaintext)"

definition aesKeyWrap :: "block_cipher \<Rightarrow> bytes \<Rightarrow> bytes \<Rightarrow> kmerr + bytes" where
  "aesKeyWrap C kek plaintext0 =
     (let plaintext = kwPad plaintext0 in
      and_then (newCipher kek) (\<lambda>_.
        let n = length plaintext div 8 in
        case fold (kwWrapStep C kek n) (kwSteps n) (kwIV, chunks 8 plaintext) of
          (a, r) \<Rightarrow> Inr (a @ concat r)))"

definition aesKeyUnwrap :: "block_cipher \<Rightarrow> bytes \<Rightarrow> bytes \<Rightarrow> kmerr + bytes" where
  "aesKeyUnwrap C kek ciphertext =
     (if length ciphertext < 24 \<or> length ciphertext mod 8 \<noteq> 0
      then Inl (Errorf ''keymanager/memory: invalid wrapped key length'' [])
      else and_then (newCipher kek) (\<lambda>_.
        let n = length ciphertext div 8 - 1 in
        case fold (kwUnwrapStep C kek n) (rev (kwSteps n)) (take 8 ciphertext, chunks 8 (drop 8 ciphertext)) of
          (a, r) \<Rightarrow>
            if a \<noteq> kwIV then Inl (Errorf ''keymanager/memory: integrity check failed'' [])
            else Inr (concat r)))"

subsection \<open>Unwrapping inverts wrapping\<close>

definition kwState :: "nat \<Rightarrow> bytes \<times> bytes list \<Rightarrow> bool" where
  "kwState n ar \<longleftrightarrow> length (fst ar) = 8 \<and> length (snd ar) = n \<and> (\<forall>x \<in> set (snd ar). length x = 8)"

lemma length_kwXor [simp]: "length (kwXor a t) = 8"
  by (simp add: kwXor_def)

lemma kwXor_kwXor [simp]: "length a = 8 \<Longrightarrow> kwXor (kwXor a t) t = a"
  by (simp add: kwXor_def xor.assoc be64_of_be64)

lemma kwWrapStep_state:
  assumes "kwState n ar" and "i < n"
  shows "kwState n (kwWrapStep C k n (j, i) ar)"
proof -
  obtain a r where ar: "ar = (a, r)" by (cases ar)
  have "length (r ! i) = 8" using assms ar by (simp add: kwState_def)
  then show ?thesis
    using assms ar set_update_subset_insert [of r i] by (fastforce simp: kwState_def Let_def)
qed

lemma kwUnwrapStep_kwWrapStep:
  assumes "kwState n ar" and "i < n"
  shows "kwUnwrapStep C k n (j, i) (kwWrapStep C k n (j, i) ar) = ar"
proof -
  obtain a r where ar: "ar = (a, r)" by (cases ar)
  have "length a = 8" "length (r ! i) = 8" "i < length r" using assms ar by (simp_all add: kwState_def)
  moreover define buf where "buf = bcEncrypt C k (a @ r ! i)"
  ultimately have "length buf = 16" "bcDecrypt C k buf = a @ r ! i" by simp_all
  moreover from this have "take 8 buf @ drop 8 buf = buf" "length (take 8 buf) = 8" by simp_all
  ultimately show ?thesis
    using \<open>length a = 8\<close> \<open>i < length r\<close> by (simp add: ar Let_def buf_def [symmetric])
qed

lemma kw_fold_inverse:
  "kwState n ar \<Longrightarrow> \<forall>(j, i) \<in> set js. i < n \<Longrightarrow>
     fold (kwUnwrapStep C k n) (rev js) (fold (kwWrapStep C k n) js ar) = ar \<and>
     kwState n (fold (kwWrapStep C k n) js ar)"
proof (induction js arbitrary: ar)
  case (Cons ji js)
  obtain j i where ji: "ji = (j, i)" by (cases ji)
  have i: "i < n" using Cons.prems(2) ji by auto
  have IH: "fold (kwUnwrapStep C k n) (rev js) (fold (kwWrapStep C k n) js (kwWrapStep C k n ji ar)) = kwWrapStep C k n ji ar"
      "kwState n (fold (kwWrapStep C k n) js (kwWrapStep C k n ji ar))"
    using Cons.IH [of "kwWrapStep C k n ji ar"] kwWrapStep_state [OF Cons.prems(1) i] Cons.prems(2) ji by auto
  show ?case
    using IH kwUnwrapStep_kwWrapStep [OF Cons.prems(1) i] unfolding ji by simp
qed simp

lemma kwSteps_bound: "\<forall>(j, i) \<in> set (kwSteps n). i < n"
  by (auto simp: kwSteps_def)

definition kwWrappable :: "bytes \<Rightarrow> bool" where
  "kwWrappable pt \<longleftrightarrow> length pt mod 8 = 0 \<and> 16 \<le> length pt"

lemma length_concat_same: "\<forall>x \<in> set xs. length x = n \<Longrightarrow> length (concat xs) = n * length xs"
  by (induction xs) auto

lemma chunks_concat_same:
  assumes "0 < n"
  shows "\<forall>x \<in> set xs. length x = n \<Longrightarrow> chunks n (concat xs) = xs"
proof (induction xs)
  case (Cons x xs)
  then have "x @ concat xs \<noteq> []" using assms by auto
  with Cons assms show ?case by (simp add: chunks_step)
qed simp

lemma aesKeyWrap_ok: "length kek \<in> {16, 24, 32} \<Longrightarrow> \<exists>ct. aesKeyWrap C kek pt = Inr ct"
  by (auto simp: aesKeyWrap_def newCipher_def aesKeySizes_def Let_def split: prod.split)

lemma aesKeyUnwrap_aesKeyWrap:
  assumes "kwWrappable pt" and "aesKeyWrap C kek pt = Inr ct"
  shows "aesKeyUnwrap C kek ct = Inr pt" and "length ct = length pt + 8"
proof -
  define n where "n = length pt div 8"
  have pad: "kwPad pt = pt" and len: "length pt = 8 * n" "2 \<le> n"
    using assms(1) by (auto simp: kwPad_def kwWrappable_def n_def)
  have cs: "length (chunks 8 pt) = n" "concat (chunks 8 pt) = pt"
    using length_chunks [of 8 pt] len by simp_all
  have full: "length x = 8" if x: "x \<in> set (chunks 8 pt)" for x
  proof -
    obtain i where i: "i < length (chunks 8 pt)" "x = chunks 8 pt ! i" using x by (auto simp: in_set_conv_nth)
    then have "i < n" using cs by simp
    then show ?thesis using chunks_nth [OF i(1)] i(2) len(1) by simp
  qed
  define w where "w = fold (kwWrapStep C kek n) (kwSteps n) (kwIV, chunks 8 pt)"
  have st: "kwState n (kwIV, chunks 8 pt)" using cs full by (simp add: kwState_def kwIV_def)
  note inv = kw_fold_inverse [OF st kwSteps_bound, of C kek, folded w_def]
  have key: "newCipher kek = Inr ()" and ct: "ct = fst w @ concat (snd w)"
    using assms(2) by (auto simp: aesKeyWrap_def pad n_def [symmetric] w_def [symmetric] and_then_eq_Inr split: prod.splits)
  have w: "length (fst w) = 8" "length (snd w) = n" "\<forall>x \<in> set (snd w). length x = 8"
    using inv by (auto simp: kwState_def)
  have "length (concat (snd w)) = 8 * n"
    using length_concat_same [OF w(3)] w(2) by simp
  then show lct: "length ct = length pt + 8" using ct w(1) len by simp
  have parts: "take 8 ct = fst w" "drop 8 ct = concat (snd w)" using ct w(1) by simp_all
  have guard: "\<not> (length ct < 24 \<or> length ct mod 8 \<noteq> 0)" "length ct div 8 - 1 = n" using lct len by simp_all
  have "fold (kwUnwrapStep C kek n) (rev (kwSteps n)) (fst w, snd w) = (kwIV, chunks 8 pt)" using inv by simp
  then show "aesKeyUnwrap C kek ct = Inr pt"
    unfolding aesKeyUnwrap_def if_not_P [OF guard(1)] guard(2) parts key Let_def
    using chunks_concat_same [OF _ w(3)] cs(2) by simp
qed

section \<open>The in-memory key manager\<close>

text \<open>The key map is an association list with distinct keys; \<^verbatim>\<open>range\<close> visits it in the order of the call.\<close>

record in_memory_key_manager =
  mk_providerName :: string
  mk_keys :: "(int \<times> bytes) list"
  mk_activeVersion :: int
  mk_closed :: bool

definition put_key :: "int \<Rightarrow> bytes \<Rightarrow> (int \<times> bytes) list \<Rightarrow> (int \<times> bytes) list" where
  "put_key v k ks = (v, k) # filter (\<lambda>p. fst p \<noteq> v) ks"

lemma map_of_put_key [simp]: "map_of (put_key v k ks) = (map_of ks)(v \<mapsto> k)"
proof
  fix x
  have "map_of (filter (\<lambda>p. fst p \<noteq> v) ks) x = map_of ks x" if "x \<noteq> v"
    using that by (induction ks) auto
  then show "map_of (put_key v k ks) x = ((map_of ks)(v \<mapsto> k)) x" by (simp add: put_key_def)
qed

datatype memory_option = WithMemoryProvider string | WithMemoryVersions "(int \<times> bytes) list"

fun applyMemoryOption :: "memory_option \<Rightarrow> in_memory_key_manager \<Rightarrow> in_memory_key_manager" where
  "applyMemoryOption (WithMemoryProvider name) m = (if name \<noteq> [] then m\<lparr>mk_providerName := name\<rparr> else m)"
| "applyMemoryOption (WithMemoryVersions vs) m =
     fold (\<lambda>(v, k) m. m\<lparr>mk_keys := put_key v k (mk_keys m),
       mk_activeVersion := (if v > mk_activeVersion m then v else mk_activeVersion m)\<rparr>) vs m"

text \<open>\<open>random\<close> is what \<^verbatim>\<open>rand.Read\<close> delivers when no master key is given.\<close>

definition NewInMemoryKeyManager ::
  "kmerr + bytes \<Rightarrow> bytes option \<Rightarrow> memory_option list \<Rightarrow> kmerr + in_memory_key_manager" where
  "NewInMemoryKeyManager random masterKey opts =
     and_then (case masterKey of
         Some k \<Rightarrow> Inr k
       | None \<Rightarrow> (case random of
             Inl e \<Rightarrow> Inl (Errorf ''keymanager/memory: failed to generate master key'' [e])
           | Inr k \<Rightarrow> Inr k)) (\<lambda>key.
       if length key \<notin> {16, 24, 32}
       then Inl (Errorf ''keymanager/memory: master key must be 16, 24, or 32 bytes'' [])
       else Inr (fold applyMemoryOption opts
         \<lparr>mk_providerName = ''memory'', mk_keys = [(1, key)], mk_activeVersion = 1, mk_closed = False\<rparr>))"

definition mk_WrapKey ::
  "block_cipher \<Rightarrow> km_call \<Rightarrow> bytes \<Rightarrow> metadata \<Rightarrow> in_memory_key_manager \<Rightarrow> kmerr + key_envelope" where
  "mk_WrapKey C c plaintext md m =
     (case ctxErr c of
        Some e \<Rightarrow> Inl (Errorf ''keymanager/memory'' [e])
      | None \<Rightarrow>
          if plaintext = [] then Inl (Errorf ''keymanager/memory: plaintext DEK is empty'' [])
          else if mk_closed m then Inl ErrProviderUnavailable
          else (case map_of (mk_keys m) (mk_activeVersion m) of
              None \<Rightarrow> Inl (Errorf ''no active key version'' [ErrKeyNotFound])
            | Some masterKey \<Rightarrow>
                (case aesKeyWrap C masterKey plaintext of
                   Inl e \<Rightarrow> Inl (Errorf ''keymanager/memory: wrap failed'' [e])
                 | Inr ciphertext \<Rightarrow>
                     Inr \<lparr>KeyID = ''memory-v'' @ show_int (mk_activeVersion m), KeyVersion = mk_activeVersion m,
                          env_Provider = mk_providerName m, Ciphertext = ciphertext, CreatedAt = now c\<rparr>)))"

definition candidateVersions :: "(int list \<Rightarrow> int list) \<Rightarrow> int \<Rightarrow> in_memory_key_manager \<Rightarrow> int list" where
  "candidateVersions order preferred m =
     (let vs = order (map fst (mk_keys m)) in
      if preferred > 0 then preferred # filter (\<lambda>v. v \<noteq> preferred) vs else vs)"

fun tryVersions :: "block_cipher \<Rightarrow> (int \<rightharpoonup> bytes) \<Rightarrow> bytes \<Rightarrow> int list \<Rightarrow> kmerr option \<Rightarrow> kmerr + bytes" where
  "tryVersions C ks ct [] lastErr =
     Inl (Errorf [] [ErrUnwrapFailed, case lastErr of None \<Rightarrow> Errorf ''no key versions available'' [] | Some e \<Rightarrow> e])"
| "tryVersions C ks ct (v # vs) lastErr =
     (case ks v of
        None \<Rightarrow> tryVersions C ks ct vs lastErr
      | Some masterKey \<Rightarrow>
          (case aesKeyUnwrap C masterKey ct of
             Inr plaintext \<Rightarrow> Inr plaintext
           | Inl e \<Rightarrow> tryVersions C ks ct vs (Some e)))"

definition mk_UnwrapKey ::
  "block_cipher \<Rightarrow> km_call \<Rightarrow> key_envelope option \<Rightarrow> metadata \<Rightarrow> in_memory_key_manager \<Rightarrow> kmerr + bytes" where
  "mk_UnwrapKey C c envelope md m =
     (case ctxErr c of
        Some e \<Rightarrow> Inl (Errorf ''keymanager/memory'' [e])
      | None \<Rightarrow>
          (case envelope of
             None \<Rightarrow> Inl (Errorf ''envelope is nil'' [ErrInvalidEnvelope])
           | Some env \<Rightarrow>
               if Ciphertext env = [] then Inl (Errorf ''wrapped key is empty'' [ErrInvalidEnvelope])
               else if mk_closed m then Inl ErrProviderUnavailable
               else tryVersions C (map_of (mk_keys m)) (Ciphertext env)
                 (candidateVersions (rangeOrder c) (KeyVersion env) m) None))"

definition mk_ActiveKeyVersion :: "in_memory_key_manager \<Rightarrow> kmerr + int" where
  "mk_ActiveKeyVersion m = (if mk_closed m then Inl ErrProviderUnavailable else Inr (mk_activeVersion m))"

definition mk_HealthCheck :: "in_memory_key_manager \<Rightarrow> kmerr + unit" where
  "mk_HealthCheck m = (if mk_closed m then Inl ErrProviderUnavailable else Inr ())"

definition mk_Close :: "in_memory_key_manager \<Rightarrow> in_memory_key_manager" where
  "mk_Close m = (if mk_closed m then m else m\<lparr>mk_closed := True, mk_keys := []\<rparr>)"

section \<open>Versions and rotation\<close>

definition AddVersion :: "int \<Rightarrow> bytes \<Rightarrow> in_memory_key_manager \<Rightarrow> (kmerr + unit) \<times> in_memory_key_manager" where
  "AddVersion version material m =
     (if length material \<noteq> 32 then (Inl (Errorf ''keymanager/memory: master key must be 32 bytes for AES-256'' []), m)
      else if list_all (\<lambda>b. b = 0) material
      then (Inl (Errorf ''keymanager/memory: master key material must not be all zeros'' []), m)
      else if mk_closed m then (Inl ErrProviderUnavailable, m)
      else if map_of (mk_keys m) version \<noteq> None
      then (Inl (Errorf ''keymanager/memory: version already exists'' []), m)
      else (Inr (), m\<lparr>mk_keys := put_key version material (mk_keys m)\<rparr>))"

definition mk_PrepareRotation :: "km_call \<Rightarrow> int option \<Rightarrow> in_memory_key_manager \<Rightarrow> kmerr + rotation_plan" where
  "mk_PrepareRotation c target m =
     (if mk_closed m then Inl ErrProviderUnavailable
      else
        let current = mk_activeVersion m in
        case target of
          Some t \<Rightarrow>
            if map_of (mk_keys m) t = None then Inl (Errorf ''version not found'' [ErrKeyNotFound])
            else if t = current then Inl (Errorf ''keymanager/memory: target version is already active'' [])
            else Inr \<lparr>CurrentVersion = current, TargetVersion = t\<rparr>
        | None \<Rightarrow>
            let best = fold (\<lambda>ver best. if ver \<noteq> current \<and> ver > best then ver else best)
                  (rangeOrder c (map fst (mk_keys m))) (- 1) in
            if best < 0 then Inl (Errorf ''no version available to promote'' [ErrRotationAmbiguous])
            else Inr \<lparr>CurrentVersion = current, TargetVersion = best\<rparr>)"

definition mk_PromoteActiveVersion :: "rotation_plan \<Rightarrow> in_memory_key_manager \<Rightarrow> (kmerr + unit) \<times> in_memory_key_manager" where
  "mk_PromoteActiveVersion plan m =
     (if mk_closed m then (Inl ErrProviderUnavailable, m)
      else if mk_activeVersion m \<noteq> CurrentVersion plan
      then (Inl (Errorf ''expected another current version'' [ErrRotationConflict]), m)
      else if map_of (mk_keys m) (TargetVersion plan) = None
      then (Inl (Errorf ''target version not found'' [ErrKeyNotFound]), m)
      else (Inr (), m\<lparr>mk_activeVersion := TargetVersion plan\<rparr>))"

definition memoryKeyManager :: "block_cipher \<Rightarrow> in_memory_key_manager key_manager" where
  "memoryKeyManager C =
     \<lparr>km_Provider = mk_providerName,
      km_WrapKey = \<lambda>c pt md m. (mk_WrapKey C c pt md m, m),
      km_UnwrapKey = \<lambda>c env md m. (mk_UnwrapKey C c env md m, m),
      km_ActiveKeyVersion = \<lambda>c m. (mk_ActiveKeyVersion m, m),
      km_HealthCheck = \<lambda>c m. (mk_HealthCheck m, m),
      km_Close = \<lambda>c m. (Inr (), mk_Close m),
      km_rotation = Some \<lparr>rot_Prepare = \<lambda>c target m. (mk_PrepareRotation c target m, m),
        rot_Promote = \<lambda>c plan m. mk_PromoteActiveVersion plan m\<rparr>\<rparr>"

section \<open>The contract holds\<close>

definition mk_inv :: "in_memory_key_manager \<Rightarrow> bool" where
  "mk_inv m \<longleftrightarrow> 0 < mk_activeVersion m \<and> (mk_closed m \<longrightarrow> mk_keys m = [])"

definition mk_holds :: "block_cipher \<Rightarrow> in_memory_key_manager \<Rightarrow> key_envelope \<Rightarrow> bytes \<Rightarrow> bool" where
  "mk_holds C m env k \<longleftrightarrow> 0 < KeyVersion env \<and> Ciphertext env \<noteq> [] \<and>
     (\<exists>key. map_of (mk_keys m) (KeyVersion env) = Some key \<and> aesKeyUnwrap C key (Ciphertext env) = Inr k)"

lemma mk_UnwrapKey_holds:
  assumes "mk_holds C m env k" and "mk_UnwrapKey C c (Some env) md m = r"
  shows "r = (case ctxErr c of Some e \<Rightarrow> Inl (Errorf ''keymanager/memory'' [e])
    | None \<Rightarrow> if mk_closed m then Inl ErrProviderUnavailable else Inr k)"
  using assms by (auto simp: mk_holds_def mk_UnwrapKey_def candidateVersions_def Let_def split: option.splits)

lemma mk_WrapKey_holds:
  assumes "mk_WrapKey C c pt md m = Inr env" and "kwWrappable pt" and "mk_inv m"
  shows "mk_holds C m env pt" and "\<not> mk_closed m" and "KeyVersion env = mk_activeVersion m"
proof -
  obtain key ct where k: "map_of (mk_keys m) (mk_activeVersion m) = Some key" "aesKeyWrap C key pt = Inr ct"
      "KeyVersion env = mk_activeVersion m" "Ciphertext env = ct" "\<not> mk_closed m"
    using assms(1) by (auto simp: mk_WrapKey_def split: option.splits if_splits sum.splits)
  have "ct \<noteq> []" using aesKeyUnwrap_aesKeyWrap(2) [OF assms(2) k(2)] by auto
  then show "mk_holds C m env pt"
    using k aesKeyUnwrap_aesKeyWrap(1) [OF assms(2) k(2)] assms(3) by (simp add: mk_holds_def mk_inv_def)
  show "\<not> mk_closed m" "KeyVersion env = mk_activeVersion m" using k by simp_all
qed

lemma mk_WrapKey_open: "mk_WrapKey C c pt md m = Inr env \<Longrightarrow> \<not> mk_closed m"
  by (auto simp: mk_WrapKey_def split: option.splits if_splits)

lemma mk_UnwrapKey_open: "mk_UnwrapKey C c e md m = Inr k \<Longrightarrow> \<not> mk_closed m"
  by (auto simp: mk_UnwrapKey_def split: option.splits if_splits)

interpretation memory: key_manager_contract "memoryKeyManager C" mk_inv mk_closed kwWrappable "mk_holds C" for C
proof (unfold_locales, goal_cases)
  case (1 s c pt md r s')
  then show ?case by (simp add: memoryKeyManager_def)
next
  case (2 s c pt md env s')
  then show ?case using mk_WrapKey_holds(1) [of C c pt md s env] by (auto simp: memoryKeyManager_def)
next
  case (3 s c pt md env s')
  then show ?case using mk_WrapKey_open [of C c pt md s env] by (auto simp: memoryKeyManager_def)
next
  case (4 s c e md u s')
  then show ?case by (simp add: memoryKeyManager_def)
next
  case (5 s c env md k' s' k)
  then show ?case using mk_UnwrapKey_holds [of C s env k c md "Inr k'"]
    by (auto simp: memoryKeyManager_def split: option.splits if_splits)
next
  case (6 s c e md k' s')
  then show ?case using mk_UnwrapKey_open [of C c e md s k'] by (auto simp: memoryKeyManager_def)
next
  case (7 s c x s')
  then show ?case by (auto simp: memoryKeyManager_def mk_Close_def mk_inv_def)
next
  case (8 s c)
  then show ?case by (simp add: memoryKeyManager_def mk_Close_def)
qed

lemma applyMemoryOption_inv: "mk_inv m \<and> \<not> mk_closed m \<Longrightarrow> mk_inv (applyMemoryOption opt m) \<and> \<not> mk_closed (applyMemoryOption opt m)"
proof (cases opt)
  case (WithMemoryVersions vs)
  moreover assume "mk_inv m \<and> \<not> mk_closed m"
  then have "mk_inv (applyMemoryOption (WithMemoryVersions vs) m) \<and> \<not> mk_closed (applyMemoryOption (WithMemoryVersions vs) m)"
  proof (induction vs arbitrary: m)
    case (Cons vk vs)
    obtain v k where vk: "vk = (v, k)" by (cases vk)
    let ?m = "m\<lparr>mk_keys := put_key v k (mk_keys m),
       mk_activeVersion := (if v > mk_activeVersion m then v else mk_activeVersion m)\<rparr>"
    have "mk_inv ?m \<and> \<not> mk_closed ?m" using Cons.prems by (auto simp: mk_inv_def)
    from Cons.IH [OF this] show ?case by (simp add: vk)
  qed simp
  ultimately show ?thesis by simp
qed (auto simp: mk_inv_def)

lemma NewInMemoryKeyManager_inv:
  assumes "NewInMemoryKeyManager random key opts = Inr m"
  shows "mk_inv m \<and> \<not> mk_closed m"
proof -
  have step: "mk_inv m0 \<and> \<not> mk_closed m0 \<Longrightarrow>
      mk_inv (fold applyMemoryOption opts m0) \<and> \<not> mk_closed (fold applyMemoryOption opts m0)" for m0
    by (induction opts arbitrary: m0) (auto simp: applyMemoryOption_inv)
  show ?thesis
    using assms step by (auto simp: NewInMemoryKeyManager_def and_then_eq_Inr mk_inv_def split: if_splits)
qed

section \<open>Properties\<close>

text \<open>
  C24. AES key wrap: for every block cipher, unwrapping inverts wrapping on the key lengths of
  RFC 3394, and the wrapped key is eight bytes longer.
\<close>

theorem keywrap_roundtrip:
  "length kek \<in> {16, 24, 32} \<Longrightarrow> length pt mod 8 = 0 \<Longrightarrow> 16 \<le> length pt \<Longrightarrow>
     \<exists>ct. aesKeyWrap C kek pt = Inr ct \<and> length ct = length pt + 8 \<and> aesKeyUnwrap C kek ct = Inr pt"
proof -
  assume kek: "length kek \<in> {16, 24, 32}" and pt: "length pt mod 8 = 0" "16 \<le> length pt"
  obtain ct where "aesKeyWrap C kek pt = Inr ct" using aesKeyWrap_ok [OF kek] by blast
  then show ?thesis using aesKeyUnwrap_aesKeyWrap [of pt C kek ct] pt by (simp add: kwWrappable_def)
qed

text \<open>A block cipher that reverses blocks.\<close>

definition rev_cipher :: block_cipher where
  "rev_cipher = Abs_block_cipher (\<lambda>k b. rev b, \<lambda>k b. rev b)"

lemma rev_cipher_ops [simp]: "bcEncrypt rev_cipher k b = rev b" "bcDecrypt rev_cipher k b = rev b"
  by (simp_all add: bcEncrypt_def bcDecrypt_def rev_cipher_def Abs_block_cipher_inverse)

theorem keywrap_roundtrip_witness:
  "\<exists>ct. aesKeyWrap rev_cipher (replicate 32 7) (replicate 32 1) = Inr ct \<and> length ct = 40 \<and>
     aesKeyUnwrap rev_cipher (replicate 32 7) ct = Inr (replicate 32 1)"
  using keywrap_roundtrip [of "replicate 32 7" "replicate 32 1" rev_cipher] by simp

text \<open>Staging key versions and promoting them, between a wrap and an unwrap.\<close>

datatype rotation_step = StageVersion int bytes | PromotePlan rotation_plan

fun rotation_do :: "rotation_step \<Rightarrow> in_memory_key_manager \<Rightarrow> in_memory_key_manager" where
  "rotation_do (StageVersion v k) m = snd (AddVersion v k m)"
| "rotation_do (PromotePlan p) m = snd (mk_PromoteActiveVersion p m)"

lemma rotation_do_keeps:
  "(mk_holds C m env k \<longrightarrow> mk_holds C (rotation_do st m) env k) \<and> mk_closed (rotation_do st m) = mk_closed m"
  by (cases st) (auto simp: AddVersion_def mk_PromoteActiveVersion_def mk_holds_def)



end
