(* ===== verification/Aes_Kek_Manager.thy ===== *)
theory Aes_Kek_Manager
  imports Memory_Key_Manager Crypto_Primitives
begin

text \<open>
  \<^verbatim>\<open>internal/crypto/keymanager_selfcontained_aes.go\<close>: the key manager that seals object keys
  with AES-256-GCM under locally held key-encryption keys. AES-GCM (packages crypto/aes and
  crypto/cipher) is a parameter: any family of AEADs, indexed by the key, that satisfies the
  laws of an AEAD.
\<close>

section \<open>AEAD families\<close>

typedef aead_family = "{G :: bytes \<Rightarrow> aead. \<forall>k. aead_laws (G k)}"
  by (intro exI [of _ "\<lambda>k. sum_aead"]) simp

definition newGCM :: "aead_family \<Rightarrow> bytes \<Rightarrow> aead" where
  "newGCM G = Rep_aead_family G"

lemma newGCM_laws [simp]: "aead_laws (newGCM G k)"
  using Rep_aead_family [of G] by (simp add: newGCM_def)

text \<open>\<^verbatim>\<open>Open\<close> of the family under a key; the nonces of this file have the right length.\<close>

definition gcmOpen :: "aead_family \<Rightarrow> bytes \<Rightarrow> bytes \<Rightarrow> bytes \<Rightarrow> kmerr + bytes" where
  "gcmOpen G key nonce sealed =
     and_then (newCipher key) (\<lambda>_.
       case Open (newGCM G key) nonce sealed [] of
         None \<Rightarrow> Inl (Errorf ''cipher: message authentication failed'' [])
       | Some p \<Rightarrow> Inr p)"

section \<open>State and construction\<close>

record aes_kek_manager =
  ak_providerName :: string
  ak_keys :: "(int \<times> bytes) list"
  ak_activeVersion :: int
  ak_closed :: bool

fun ak_checkKeys :: "(int \<times> bytes) list \<Rightarrow> kmerr + unit" where
  "ak_checkKeys [] = Inr ()"
| "ak_checkKeys ((ver, key) # ks) =
     (if length key \<noteq> 32 then Inl (Errorf ''keymanager/self-contained-aes: key version must be 32 bytes (AES-256)'' [])
      else if list_all (\<lambda>b. b = 0) key
      then Inl (Errorf ''keymanager/self-contained-aes: key version must not be all zeros'' [])
      else ak_checkKeys ks)"

text \<open>The options are provider names (\<^verbatim>\<open>WithAESProvider\<close>); an empty one is ignored.\<close>

definition NewAESKEKManager :: "(int \<times> bytes) list \<Rightarrow> int \<Rightarrow> string list \<Rightarrow> kmerr + aes_kek_manager" where
  "NewAESKEKManager keys activeVersion opts =
     (if keys = [] then Inl (Errorf ''keymanager/self-contained-aes: at least one key version required'' [])
      else if map_of keys activeVersion = None
      then Inl (Errorf ''keymanager/self-contained-aes: active version not found in keys'' [])
      else and_then (ak_checkKeys keys) (\<lambda>_.
        Inr (fold (\<lambda>name m. if name \<noteq> [] then m\<lparr>ak_providerName := name\<rparr> else m) opts
          \<lparr>ak_providerName = ''self_contained'', ak_keys = keys, ak_activeVersion = activeVersion, ak_closed = False\<rparr>)))"

section \<open>Operations\<close>

definition ak_WrapKey ::
  "aead_family \<Rightarrow> km_call \<Rightarrow> bytes \<Rightarrow> metadata \<Rightarrow> aes_kek_manager \<Rightarrow> kmerr + key_envelope" where
  "ak_WrapKey G c plaintext md m =
     (case ctxErr c of
        Some e \<Rightarrow> Inl (Errorf ''keymanager/self-contained-aes'' [e])
      | None \<Rightarrow>
          if ak_closed m then Inl ErrProviderUnavailable
          else (case map_of (ak_keys m) (ak_activeVersion m) of
              None \<Rightarrow> Inl (Errorf ''no active key version'' [ErrKeyNotFound])
            | Some kek \<Rightarrow>
                (case rand_read c 0 12 of
                   Inl e \<Rightarrow> Inl (Errorf ''keymanager/self-contained-aes: nonce generation'' [e])
                 | Inr nonce \<Rightarrow>
                     (case newCipher kek of
                        Inl e \<Rightarrow> Inl (Errorf ''keymanager/self-contained-aes: cipher init'' [e])
                      | Inr _ \<Rightarrow>
                          Inr \<lparr>KeyID = ''self-contained-aes-v'' @ show_int (ak_activeVersion m),
                            KeyVersion = ak_activeVersion m, env_Provider = ak_providerName m,
                            Ciphertext = nonce @ Seal (newGCM G kek) nonce plaintext [], CreatedAt = now c\<rparr>))))"

definition ak_candidateVersions :: "(int list \<Rightarrow> int list) \<Rightarrow> int \<Rightarrow> aes_kek_manager \<Rightarrow> int list" where
  "ak_candidateVersions order preferred m =
     (let vs = order (map fst (ak_keys m)) in
      if preferred > 0 then preferred # filter (\<lambda>v. v \<noteq> preferred) vs else vs)"

definition ak_tryUnwrap :: "aead_family \<Rightarrow> bytes \<Rightarrow> bytes \<Rightarrow> kmerr + bytes" where
  "ak_tryUnwrap G kek ciphertext = gcmOpen G kek (take 12 ciphertext) (drop 12 ciphertext)"

fun ak_tryVersions :: "aead_family \<Rightarrow> (int \<rightharpoonup> bytes) \<Rightarrow> bytes \<Rightarrow> int list \<Rightarrow> kmerr option \<Rightarrow> kmerr + bytes" where
  "ak_tryVersions G ks ct [] lastErr =
     Inl (Errorf ''all versions failed''
       [ErrUnwrapFailed, case lastErr of None \<Rightarrow> Errorf ''no key versions available'' [] | Some e \<Rightarrow> e])"
| "ak_tryVersions G ks ct (v # vs) lastErr =
     (case ks v of
        None \<Rightarrow> ak_tryVersions G ks ct vs lastErr
      | Some kek \<Rightarrow>
          (case ak_tryUnwrap G kek ct of
             Inr plaintext \<Rightarrow> Inr plaintext
           | Inl e \<Rightarrow> ak_tryVersions G ks ct vs (Some e)))"

definition ak_UnwrapKey ::
  "aead_family \<Rightarrow> km_call \<Rightarrow> key_envelope option \<Rightarrow> metadata \<Rightarrow> aes_kek_manager \<Rightarrow> kmerr + bytes" where
  "ak_UnwrapKey G c envelope md m =
     (case ctxErr c of
        Some e \<Rightarrow> Inl (Errorf ''keymanager/self-contained-aes'' [e])
      | None \<Rightarrow>
          if ak_closed m then Inl ErrProviderUnavailable
          else (case envelope of
             None \<Rightarrow> Inl (Errorf ''envelope is nil'' [ErrInvalidEnvelope])
           | Some env \<Rightarrow>
               if length (Ciphertext env) < 12 + 16 then Inl (Errorf ''ciphertext too short'' [ErrInvalidEnvelope])
               else ak_tryVersions G (map_of (ak_keys m)) (Ciphertext env)
                 (ak_candidateVersions (rangeOrder c) (KeyVersion env) m) None))"

definition ak_ActiveKeyVersion :: "aes_kek_manager \<Rightarrow> kmerr + int" where
  "ak_ActiveKeyVersion m = (if ak_closed m then Inl ErrProviderUnavailable else Inr (ak_activeVersion m))"

definition ak_HealthCheck :: "aes_kek_manager \<Rightarrow> kmerr + unit" where
  "ak_HealthCheck m =
     (if ak_closed m then Inl ErrProviderUnavailable
      else case map_of (ak_keys m) (ak_activeVersion m) of
          None \<Rightarrow> Inl (Errorf ''no active key version'' [ErrKeyNotFound])
        | Some kek \<Rightarrow>
            if length kek \<noteq> 32 then Inl (Errorf ''keymanager/self-contained-aes: active key length'' []) else Inr ())"

definition ak_Close :: "aes_kek_manager \<Rightarrow> aes_kek_manager" where
  "ak_Close m = (if ak_closed m then m else m\<lparr>ak_closed := True, ak_keys := []\<rparr>)"

definition ak_AddVersion :: "int \<Rightarrow> bytes \<Rightarrow> aes_kek_manager \<Rightarrow> (kmerr + unit) \<times> aes_kek_manager" where
  "ak_AddVersion version material m =
     (if length material \<noteq> 32 then (Inl (Errorf ''keymanager/self-contained-aes: KEK must be 32 bytes for AES-256'' []), m)
      else if list_all (\<lambda>b. b = 0) material
      then (Inl (Errorf ''keymanager/self-contained-aes: KEK material must not be all zeros'' []), m)
      else if ak_closed m then (Inl ErrProviderUnavailable, m)
      else if map_of (ak_keys m) version \<noteq> None
      then (Inl (Errorf ''keymanager/self-contained-aes: version already exists'' []), m)
      else (Inr (), m\<lparr>ak_keys := put_key version material (ak_keys m)\<rparr>))"

definition ak_PrepareRotation :: "km_call \<Rightarrow> int option \<Rightarrow> aes_kek_manager \<Rightarrow> kmerr + rotation_plan" where
  "ak_PrepareRotation c target m =
     (if ak_closed m then Inl ErrProviderUnavailable
      else
        let current = ak_activeVersion m in
        case target of
          Some t \<Rightarrow>
            if map_of (ak_keys m) t = None then Inl (Errorf ''version not found'' [ErrKeyNotFound])
            else if t = current then Inl (Errorf ''keymanager/self-contained-aes: target version is already active'' [])
            else Inr \<lparr>CurrentVersion = current, TargetVersion = t\<rparr>
        | None \<Rightarrow>
            let best = fold (\<lambda>ver best. if ver \<noteq> current \<and> ver > best then ver else best)
                  (rangeOrder c (map fst (ak_keys m))) (- 1) in
            if best < 0 then Inl (Errorf ''no version available to promote'' [ErrRotationAmbiguous])
            else Inr \<lparr>CurrentVersion = current, TargetVersion = best\<rparr>)"

definition ak_PromoteActiveVersion :: "rotation_plan \<Rightarrow> aes_kek_manager \<Rightarrow> (kmerr + unit) \<times> aes_kek_manager" where
  "ak_PromoteActiveVersion plan m =
     (if ak_closed m then (Inl ErrProviderUnavailable, m)
      else if ak_activeVersion m \<noteq> CurrentVersion plan
      then (Inl (Errorf ''expected another current version'' [ErrRotationConflict]), m)
      else if map_of (ak_keys m) (TargetVersion plan) = None
      then (Inl (Errorf ''target version not found'' [ErrKeyNotFound]), m)
      else (Inr (), m\<lparr>ak_activeVersion := TargetVersion plan\<rparr>))"

definition aesKEKManager :: "aead_family \<Rightarrow> aes_kek_manager key_manager" where
  "aesKEKManager G =
     \<lparr>km_Provider = ak_providerName,
      km_WrapKey = \<lambda>c pt md m. (ak_WrapKey G c pt md m, m),
      km_UnwrapKey = \<lambda>c env md m. (ak_UnwrapKey G c env md m, m),
      km_ActiveKeyVersion = \<lambda>c m. (ak_ActiveKeyVersion m, m),
      km_HealthCheck = \<lambda>c m. (ak_HealthCheck m, m),
      km_Close = \<lambda>c m. (Inr (), ak_Close m),
      km_rotation = Some \<lparr>rot_Prepare = \<lambda>c target m. (ak_PrepareRotation c target m, m),
        rot_Promote = \<lambda>c plan m. ak_PromoteActiveVersion plan m\<rparr>\<rparr>"

section \<open>The contract holds\<close>

definition ak_inv :: "aes_kek_manager \<Rightarrow> bool" where
  "ak_inv m \<longleftrightarrow> 0 < ak_activeVersion m"

definition ak_holds :: "aead_family \<Rightarrow> aes_kek_manager \<Rightarrow> key_envelope \<Rightarrow> bytes \<Rightarrow> bool" where
  "ak_holds G m env k \<longleftrightarrow> 0 < KeyVersion env \<and> 28 \<le> length (Ciphertext env) \<and>
     (\<exists>kek. map_of (ak_keys m) (KeyVersion env) = Some kek \<and> ak_tryUnwrap G kek (Ciphertext env) = Inr k)"

lemma gcmOpen_Inr:
  "length nonce = 12 \<Longrightarrow>
     gcmOpen G key nonce sealed = Inr p \<longleftrightarrow> newCipher key = Inr () \<and> sealed = Seal (newGCM G key) nonce p []"
  using aead_open_Some [OF newGCM_laws, of nonce G key sealed "[]" p]
  by (auto simp: gcmOpen_def and_then_eq_Inr nonceSize_def split: option.splits)

lemma ak_tryUnwrap_Inr:
  "12 \<le> length ct \<Longrightarrow> ak_tryUnwrap G kek ct = Inr p \<longleftrightarrow>
     newCipher kek = Inr () \<and> (\<exists>nonce. length nonce = 12 \<and> ct = nonce @ Seal (newGCM G kek) nonce p [])"
proof -
  assume len: "12 \<le> length ct"
  have "ct = take 12 ct @ Seal (newGCM G kek) (take 12 ct) p []" if "drop 12 ct = Seal (newGCM G kek) (take 12 ct) p []"
    using append_take_drop_id [of 12 ct] that by simp
  moreover have "length (take 12 ct) = 12" using len by simp
  ultimately show ?thesis by (auto simp: ak_tryUnwrap_def gcmOpen_Inr simp del: length_take)
qed

lemma ak_UnwrapKey_holds:
  assumes "ak_holds G m env k" and "ak_UnwrapKey G c (Some env) md m = r"
  shows "r = (case ctxErr c of Some e \<Rightarrow> Inl (Errorf ''keymanager/self-contained-aes'' [e])
    | None \<Rightarrow> if ak_closed m then Inl ErrProviderUnavailable else Inr k)"
  using assms by (auto simp: ak_holds_def ak_UnwrapKey_def ak_candidateVersions_def Let_def split: option.splits)

lemma ak_WrapKey_holds:
  assumes "ak_WrapKey G c pt md m = Inr env" and "ak_inv m"
  shows "ak_holds G m env pt" and "\<not> ak_closed m" and "KeyVersion env = ak_activeVersion m"
proof -
  obtain kek nonce where k: "map_of (ak_keys m) (ak_activeVersion m) = Some kek" "rand_read c 0 12 = Inr nonce"
      "newCipher kek = Inr ()" "KeyVersion env = ak_activeVersion m" "\<not> ak_closed m"
      "Ciphertext env = nonce @ Seal (newGCM G kek) nonce pt []"
    using assms(1) by (auto simp: ak_WrapKey_def split: option.splits if_splits sum.splits)
  have "length nonce = 12" using rand_read_length [OF k(2)] .
  moreover from this have "28 \<le> length (Ciphertext env)"
    using aead_seal_length [OF newGCM_laws, of nonce G kek pt "[]"] k(6) by (simp add: nonceSize_def)
  ultimately show "ak_holds G m env pt"
    using k assms(2) by (auto simp: ak_holds_def ak_inv_def ak_tryUnwrap_Inr)
  show "\<not> ak_closed m" "KeyVersion env = ak_activeVersion m" using k by simp_all
qed

lemma ak_UnwrapKey_open: "ak_UnwrapKey G c e md m = Inr k \<Longrightarrow> \<not> ak_closed m"
  by (auto simp: ak_UnwrapKey_def split: option.splits if_splits)

lemma ak_WrapKey_open: "ak_WrapKey G c pt md m = Inr env \<Longrightarrow> \<not> ak_closed m"
  by (auto simp: ak_WrapKey_def split: option.splits if_splits)

interpretation aes_kek: key_manager_contract "aesKEKManager G" ak_inv ak_closed "\<lambda>_. True" "ak_holds G" for G
proof (unfold_locales, goal_cases)
  case (1 s c pt md r s')
  then show ?case by (simp add: aesKEKManager_def)
next
  case (2 s c pt md env s')
  then show ?case using ak_WrapKey_holds(1) [of G c pt md s env] by (auto simp: aesKEKManager_def)
next
  case (3 s c pt md env s')
  then show ?case using ak_WrapKey_open [of G c pt md s env] by (auto simp: aesKEKManager_def)
next
  case (4 s c e md u s')
  then show ?case by (simp add: aesKEKManager_def)
next
  case (5 s c env md k' s' k)
  then show ?case using ak_UnwrapKey_holds [of G s env k c md "Inr k'"]
    by (auto simp: aesKEKManager_def split: option.splits if_splits)
next
  case (6 s c e md k' s')
  then show ?case using ak_UnwrapKey_open [of G c e md s k'] by (auto simp: aesKEKManager_def)
next
  case (7 s c x s')
  then show ?case by (auto simp: aesKEKManager_def ak_Close_def ak_inv_def)
next
  case (8 s c)
  then show ?case by (simp add: aesKEKManager_def ak_Close_def)
qed

section \<open>Properties\<close>

lemma ak_tryVersions_Inr:
  "ak_tryVersions G ks ct vs e = Inr p \<Longrightarrow> \<exists>v kek. ks v = Some kek \<and> ak_tryUnwrap G kek ct = Inr p"
  by (induction vs arbitrary: e) (auto split: option.splits sum.splits)

text \<open>Staging and promoting of key-encryption keys.\<close>

datatype kek_step = StageKek int bytes | PromoteKek rotation_plan

fun kek_do :: "kek_step \<Rightarrow> aes_kek_manager \<Rightarrow> aes_kek_manager" where
  "kek_do (StageKek v k) m = snd (ak_AddVersion v k m)"
| "kek_do (PromoteKek p) m = snd (ak_PromoteActiveVersion p m)"

lemma kek_do_keeps:
  "(ak_holds G m env k \<longrightarrow> ak_holds G (kek_do st m) env k) \<and> ak_closed (kek_do st m) = ak_closed m"
  by (cases st) (auto simp: ak_AddVersion_def ak_PromoteActiveVersion_def ak_holds_def)

text \<open>
  C26. The self-contained key manager. What it unwraps is authentic: the ciphertext is the
  sealing of exactly the returned key under one of the manager's own key-encryption keys. And
  what it wrapped it unwraps again, after any staging and promotion of key versions.
\<close>

theorem aes_kek_authentic_and_durable:
  "(ak_UnwrapKey G c (Some env) md m = Inr k \<longrightarrow>
      (\<exists>v kek nonce. map_of (ak_keys m) v = Some kek \<and> length nonce = 12 \<and>
         Ciphertext env = nonce @ Seal (newGCM G kek) nonce k [])) \<and>
   (0 < ak_activeVersion m \<longrightarrow> ak_WrapKey G c pt md m = Inr env' \<longrightarrow> ctxErr c' = None \<longrightarrow>
      ak_UnwrapKey G c' (Some env') md' (fold kek_do steps m) = Inr pt)"
proof (intro conjI impI)
  assume u: "ak_UnwrapKey G c (Some env) md m = Inr k"
  then have len: "28 \<le> length (Ciphertext env)"
    by (auto simp: ak_UnwrapKey_def split: option.splits if_splits)
  obtain v kek where "map_of (ak_keys m) v = Some kek" "ak_tryUnwrap G kek (Ciphertext env) = Inr k"
    using u by (auto simp: ak_UnwrapKey_def dest!: ak_tryVersions_Inr split: option.splits if_splits)
  with len show "\<exists>v kek nonce. map_of (ak_keys m) v = Some kek \<and> length nonce = 12 \<and>
      Ciphertext env = nonce @ Seal (newGCM G kek) nonce k []"
    by (auto simp: ak_tryUnwrap_Inr)
next
  assume "0 < ak_activeVersion m" and w: "ak_WrapKey G c pt md m = Inr env'" and c': "ctxErr c' = None"
  then have "ak_holds G m env' pt \<and> \<not> ak_closed m" using ak_WrapKey_holds(1,2) [OF w] by (simp add: ak_inv_def)
  then have "ak_holds G (fold kek_do steps m) env' pt \<and> \<not> ak_closed (fold kek_do steps m)"
    by (induction steps arbitrary: m) (auto simp: kek_do_keeps)
  then show "ak_UnwrapKey G c' (Some env') md' (fold kek_do steps m) = Inr pt"
    using ak_UnwrapKey_holds [of G _ env' pt c' md', OF _ refl] c' by simp
qed

definition ex_gcm :: aead_family where
  "ex_gcm = Abs_aead_family (\<lambda>k. tag_aead (\<lambda>n p a. sum_bytes k # sum_bytes n # sum_bytes p # replicate 13 0))"

lemma newGCM_ex [simp]: "newGCM ex_gcm k = tag_aead (\<lambda>n p a. sum_bytes k # sum_bytes n # sum_bytes p # replicate 13 0)"
  by (simp add: newGCM_def ex_gcm_def Abs_aead_family_inverse tag_aead_laws)

definition ex_call :: km_call where
  "ex_call = \<lparr>ctxErr = None, now = 5, later = 6, rangeOrder = rev, callRand = \<lambda>_. Some (\<lambda>i. of_nat i)\<rparr>"

theorem aes_kek_authentic_and_durable_witness:
  "\<exists>m env. NewAESKEKManager [(1, replicate 32 7), (2, replicate 32 8)] 1 [] = Inr m \<and>
     ak_WrapKey ex_gcm ex_call [1, 2, 3] Map.empty m = Inr env \<and>
     ak_UnwrapKey ex_gcm ex_call (Some env) Map.empty
       (fold kek_do [StageKek 3 (replicate 32 9), PromoteKek \<lparr>CurrentVersion = 1, TargetVersion = 3\<rparr>] m) = Inr [1, 2, 3]"
proof -
  let ?m = "\<lparr>ak_providerName = ''self_contained'', ak_keys = [(1, replicate 32 7), (2, replicate 32 8)],
    ak_activeVersion = 1, ak_closed = False\<rparr>"
  have m: "NewAESKEKManager [(1, replicate 32 7), (2, replicate 32 8)] 1 [] = Inr ?m"
    by (simp add: NewAESKEKManager_def list_all_iff)
  obtain env where env: "ak_WrapKey ex_gcm ex_call [1, 2, 3] Map.empty ?m = Inr env"
    by (simp add: ak_WrapKey_def ex_call_def rand_read_def newCipher_def aesKeySizes_def)
  then have "ak_UnwrapKey ex_gcm ex_call (Some env) Map.empty
      (fold kek_do [StageKek 3 (replicate 32 9), PromoteKek \<lparr>CurrentVersion = 1, TargetVersion = 3\<rparr>] ?m) = Inr [1, 2, 3]"
    by (intro aes_kek_authentic_and_durable [THEN conjunct2, rule_format, OF _ env]) (simp_all add: ex_call_def)
  with m env show ?thesis by blast
qed

end
