(* ===== verification/Circuit_Breaker.thy ===== *)
theory Circuit_Breaker
  imports Key_Manager
begin

text \<open>
  \<^verbatim>\<open>internal/crypto/keymanager_circuitbreaker.go\<close>: the three-state circuit breaker around a key
  manager. Its two critical sections, \<^verbatim>\<open>allowRequest\<close> and \<^verbatim>\<open>recordResult\<close>, are separate steps:
  requests of different goroutines interleave between them. The metrics callback has no
  effect on the breaker and is left out.
\<close>

section \<open>State and configuration\<close>

datatype cbState = cbStateClosed | cbStateOpen | cbStateHalfOpen

record circuit_breaker_config =
  ConsecutiveFailures :: int
  OpenTimeout :: int
  SuccessThreshold :: int

definition DefaultCircuitBreakerConfig :: circuit_breaker_config where
  "DefaultCircuitBreakerConfig =
     \<lparr>ConsecutiveFailures = 5, OpenTimeout = 30 * 10 ^ 9, SuccessThreshold = 2\<rparr>"

record breaker =
  cb_state :: cbState
  cb_failures :: int
  cb_successes :: int
  cb_openedAt :: int
  cb_closed :: bool

definition newBreaker :: breaker where
  "newBreaker = \<lparr>cb_state = cbStateClosed, cb_failures = 0, cb_successes = 0, cb_openedAt = 0, cb_closed = False\<rparr>"

section \<open>The two critical sections\<close>

definition cbUnavailable :: kmerr where
  "cbUnavailable = Errorf ''keymanager/circuitbreaker'' [ErrProviderUnavailable]"

definition allowRequest :: "circuit_breaker_config \<Rightarrow> int \<Rightarrow> breaker \<Rightarrow> (kmerr + unit) \<times> breaker" where
  "allowRequest cfg t b =
     (if cb_closed b then (Inl cbUnavailable, b)
      else case cb_state b of
          cbStateClosed \<Rightarrow> (Inr (), b)
        | cbStateOpen \<Rightarrow>
            if t - cb_openedAt b \<ge> OpenTimeout cfg
            then (Inr (), b\<lparr>cb_state := cbStateHalfOpen, cb_successes := 0\<rparr>)
            else (Inl cbUnavailable, b)
        | cbStateHalfOpen \<Rightarrow> (Inr (), b))"

definition recordResult :: "circuit_breaker_config \<Rightarrow> int \<Rightarrow> bool \<Rightarrow> breaker \<Rightarrow> breaker" where
  "recordResult cfg t ok b =
     (if ok then
        (case cb_state b of
           cbStateClosed \<Rightarrow> b\<lparr>cb_failures := 0\<rparr>
         | cbStateHalfOpen \<Rightarrow>
             (let n = cb_successes b + 1 in
              if n \<ge> SuccessThreshold cfg
              then b\<lparr>cb_state := cbStateClosed, cb_failures := 0, cb_successes := 0\<rparr>
              else b\<lparr>cb_successes := n\<rparr>)
         | cbStateOpen \<Rightarrow> b)
      else
        (case cb_state b of
           cbStateClosed \<Rightarrow>
             (let n = cb_failures b + 1 in
              if n \<ge> ConsecutiveFailures cfg
              then b\<lparr>cb_state := cbStateOpen, cb_openedAt := t, cb_failures := 0\<rparr>
              else b\<lparr>cb_failures := n\<rparr>)
         | cbStateHalfOpen \<Rightarrow> b\<lparr>cb_state := cbStateOpen, cb_openedAt := t, cb_successes := 0\<rparr>
         | cbStateOpen \<Rightarrow> b))"

section \<open>The decorated key manager\<close>

text \<open>The state of the decorator is its breaker and the state of the inner key manager.\<close>

definition cb_guarded ::
  "circuit_breaker_config \<Rightarrow> km_call \<Rightarrow> ('s \<Rightarrow> (kmerr + 'a) \<times> 's) \<Rightarrow> breaker \<times> 's \<Rightarrow> (kmerr + 'a) \<times> breaker \<times> 's" where
  "cb_guarded cfg c call bs =
     (case bs of (b, s) \<Rightarrow>
        (case allowRequest cfg (now c) b of
           (Inl e, b1) \<Rightarrow> (Inl e, b1, s)
         | (Inr _, b1) \<Rightarrow>
             (case call s of (r, s1) \<Rightarrow> (r, recordResult cfg (later c) (\<not> isl r) b1, s1))))"

definition cb_Close :: "'s key_manager \<Rightarrow> km_call \<Rightarrow> breaker \<times> 's \<Rightarrow> (kmerr + unit) \<times> breaker \<times> 's" where
  "cb_Close M c bs =
     (case bs of (b, s) \<Rightarrow>
        if cb_closed b then (Inr (), b, s)
        else case km_Close M c s of
            (r, s1) \<Rightarrow> (r, b\<lparr>cb_closed := True, cb_state := cbStateOpen, cb_openedAt := now c\<rparr>, s1))"

definition cb_bypass :: "('s \<Rightarrow> 'a \<times> 's) \<Rightarrow> breaker \<times> 's \<Rightarrow> 'a \<times> breaker \<times> 's" where
  "cb_bypass call bs = (case call (snd bs) of (r, s1) \<Rightarrow> (r, fst bs, s1))"

definition NewCircuitBreakerKeyManager ::
  "circuit_breaker_config \<Rightarrow> 's key_manager \<Rightarrow> (breaker \<times> 's) key_manager" where
  "NewCircuitBreakerKeyManager cfg M =
     \<lparr>km_Provider = \<lambda>bs. km_Provider M (snd bs),
      km_WrapKey = \<lambda>c pt md. cb_guarded cfg c (km_WrapKey M c pt md),
      km_UnwrapKey = \<lambda>c env md. cb_guarded cfg c (km_UnwrapKey M c env md),
      km_ActiveKeyVersion = \<lambda>c. cb_bypass (km_ActiveKeyVersion M c),
      km_HealthCheck = \<lambda>c. cb_bypass (km_HealthCheck M c),
      km_Close = cb_Close M,
      km_rotation = map_option (forward_rotation snd (\<lambda>s bs. (fst bs, s))) (km_rotation M)\<rparr>"

section \<open>Interleaved requests\<close>

text \<open>
  The events of the breaker: a request asks for admission, the result of an admitted request
  is recorded, the manager is closed; each at a time.
\<close>

datatype cb_event = Admit int | Record int bool | Shut int

fun cb_step :: "circuit_breaker_config \<Rightarrow> cb_event \<Rightarrow> breaker \<Rightarrow> breaker" where
  "cb_step cfg (Admit t) b = snd (allowRequest cfg t b)"
| "cb_step cfg (Record t ok) b = recordResult cfg t ok b"
| "cb_step cfg (Shut t) b = (if cb_closed b then b else b\<lparr>cb_closed := True, cb_state := cbStateOpen, cb_openedAt := t\<rparr>)"

inductive cb_reachable :: "circuit_breaker_config \<Rightarrow> breaker \<Rightarrow> bool" for cfg where
  init: "cb_reachable cfg newBreaker"
| step: "cb_reachable cfg b \<Longrightarrow> cb_reachable cfg (cb_step cfg ev b)"

definition cb_inv :: "circuit_breaker_config \<Rightarrow> breaker \<Rightarrow> bool" where
  "cb_inv cfg b \<longleftrightarrow>
     0 \<le> cb_failures b \<and> cb_failures b < max 1 (ConsecutiveFailures cfg) \<and>
     0 \<le> cb_successes b \<and> cb_successes b < max 1 (SuccessThreshold cfg) \<and>
     (cb_state b = cbStateClosed \<longrightarrow> cb_successes b = 0) \<and>
     (cb_closed b \<longrightarrow> cb_state b = cbStateOpen)"

lemma cb_step_inv: "cb_inv cfg b \<Longrightarrow> cb_inv cfg (cb_step cfg ev b)"
  by (cases ev) (auto simp: cb_inv_def allowRequest_def recordResult_def Let_def split: cbState.splits)

lemma newBreaker_inv: "cb_inv cfg newBreaker"
  by (auto simp: cb_inv_def newBreaker_def)

lemma cb_reachable_inv: "cb_reachable cfg b \<Longrightarrow> cb_inv cfg b"
  by (induction rule: cb_reachable.induct) (simp_all add: cb_step_inv newBreaker_inv)

abbreviation cb_run :: "circuit_breaker_config \<Rightarrow> cb_event list \<Rightarrow> breaker \<Rightarrow> breaker" where
  "cb_run cfg evs b \<equiv> fold (cb_step cfg) evs b"

lemma cb_run_reachable: "cb_reachable cfg b \<Longrightarrow> cb_reachable cfg (cb_run cfg evs b)"
  by (induction evs arbitrary: b) (auto intro: cb_reachable.step)

primrec ev_time :: "cb_event \<Rightarrow> int" where
  "ev_time (Admit t) = t"
| "ev_time (Record t ok) = t"
| "ev_time (Shut t) = t"

primrec is_success :: "cb_event \<Rightarrow> bool" where
  "is_success (Admit t) = False"
| "is_success (Record t ok) = ok"
| "is_success (Shut t) = False"

primrec is_failure :: "cb_event \<Rightarrow> bool" where
  "is_failure (Admit t) = False"
| "is_failure (Record t ok) = (\<not> ok)"
| "is_failure (Shut t) = False"

primrec is_shut :: "cb_event \<Rightarrow> bool" where
  "is_shut (Admit t) = False"
| "is_shut (Record t ok) = False"
| "is_shut (Shut t) = True"

section \<open>Runs\<close>

text \<open>Until its timeout an open breaker is not moved by any interleaving of requests and results.\<close>

lemma cb_open_stays:
  "cb_state b = cbStateOpen \<Longrightarrow> \<forall>ev \<in> set evs. \<not> is_shut ev \<and> ev_time ev - cb_openedAt b < OpenTimeout cfg \<Longrightarrow>
     cb_run cfg evs b = b"
proof (induction evs)
  case (Cons ev evs)
  then have "cb_step cfg ev b = b" by (cases ev) (auto simp: allowRequest_def recordResult_def)
  with Cons show ?case by simp
qed simp

text \<open>In the normal state failures without a success between them are counted up to the threshold.\<close>

lemma cb_closed_counts:
  "cb_state b = cbStateClosed \<Longrightarrow> \<not> cb_closed b \<Longrightarrow> \<forall>ev \<in> set evs. \<not> is_success ev \<and> \<not> is_shut ev \<Longrightarrow>
     cb_failures b + int (length (filter is_failure evs)) < ConsecutiveFailures cfg \<Longrightarrow>
     cb_run cfg evs b = b\<lparr>cb_failures := cb_failures b + int (length (filter is_failure evs))\<rparr>"
proof (induction evs arbitrary: b)
  case (Cons ev evs)
  then have ev: "cb_step cfg ev b = b\<lparr>cb_failures := cb_failures b + (if is_failure ev then 1 else 0)\<rparr>"
    by (cases ev) (auto simp: allowRequest_def recordResult_def Let_def)
  have "cb_run cfg evs (cb_step cfg ev b) =
      (cb_step cfg ev b)\<lparr>cb_failures := cb_failures (cb_step cfg ev b) + int (length (filter is_failure evs))\<rparr>"
    using Cons.prems ev by (intro Cons.IH) (auto split: if_splits)
  then show ?case using ev by (simp add: algebra_simps)
qed simp

text \<open>In probe mode successes without a failure between them are counted up to the threshold.\<close>

lemma cb_half_open_counts:
  "cb_state b = cbStateHalfOpen \<Longrightarrow> \<not> cb_closed b \<Longrightarrow> \<forall>ev \<in> set evs. \<not> is_failure ev \<and> \<not> is_shut ev \<Longrightarrow>
     cb_successes b + int (length (filter is_success evs)) < SuccessThreshold cfg \<Longrightarrow>
     cb_run cfg evs b = b\<lparr>cb_successes := cb_successes b + int (length (filter is_success evs))\<rparr>"
proof (induction evs arbitrary: b)
  case (Cons ev evs)
  then have ev: "cb_step cfg ev b = b\<lparr>cb_successes := cb_successes b + (if is_success ev then 1 else 0)\<rparr>"
    by (cases ev) (auto simp: allowRequest_def recordResult_def Let_def)
  have "cb_run cfg evs (cb_step cfg ev b) =
      (cb_step cfg ev b)\<lparr>cb_successes := cb_successes (cb_step cfg ev b) + int (length (filter is_success evs))\<rparr>"
    using Cons.prems ev by (intro Cons.IH) (auto split: if_splits)
  then show ?case using ev by (simp add: algebra_simps)
qed simp

section \<open>The contract carries over\<close>

lemma cb_guarded_Inr:
  "cb_guarded cfg c call (b, s) = (Inr x, t) \<longleftrightarrow>
     (\<exists>b1 s1. allowRequest cfg (now c) b = (Inr (), b1) \<and> call s = (Inr x, s1) \<and>
       t = (recordResult cfg (later c) True b1, s1))"
  by (auto simp: cb_guarded_def split: prod.splits sum.splits)

lemma cb_guarded_inner:
  "cb_guarded cfg c call (b, s) = (r, b', s') \<Longrightarrow> s' = s \<or> (\<exists>r1. call s = (r1, s'))"
  by (auto simp: cb_guarded_def split: prod.splits sum.splits)

lemma cb_guarded_closed: "cb_guarded cfg c call (b, s) = (r, b', s') \<Longrightarrow> cb_closed b' = cb_closed b"
  by (auto simp: cb_guarded_def allowRequest_def recordResult_def Let_def
      split: prod.splits sum.splits if_splits cbState.splits)

lemma allowRequest_not_closed: "allowRequest cfg t b = (Inr (), b1) \<Longrightarrow> \<not> cb_closed b"
  by (auto simp: allowRequest_def)

context key_manager_contract
begin

lemma breaker_contract:
  "key_manager_contract (NewCircuitBreakerKeyManager cfg M) (\<lambda>(b, s). inv s) (\<lambda>(b, s). cb_closed b)
     wrappable (\<lambda>(b, s). holds s)"
proof (unfold_locales, goal_cases)
  case (1 bs c pt md r bs')
  then show ?case
    using wrap_inv [of "snd bs" c pt md]
    by (cases bs; cases bs') (auto simp: NewCircuitBreakerKeyManager_def dest: cb_guarded_inner cb_guarded_closed)
next
  case (2 bs c pt md env bs')
  then show ?case
    using wrap_holds [of "snd bs" c pt md env]
    by (cases bs; cases bs') (auto simp: NewCircuitBreakerKeyManager_def cb_guarded_Inr)
next
  case (3 bs c pt md env bs')
  then show ?case
    by (cases bs) (auto simp: NewCircuitBreakerKeyManager_def cb_guarded_Inr dest: allowRequest_not_closed)
next
  case (4 bs c e md u bs')
  then show ?case
    using unwrap_inv [of "snd bs" c e md]
    by (cases bs; cases bs') (auto simp: NewCircuitBreakerKeyManager_def dest: cb_guarded_inner cb_guarded_closed)
next
  case (5 bs c env md k' bs' k)
  then show ?case
    using unwrap_holds [of "snd bs" c env md k']
    by (cases bs) (auto simp: NewCircuitBreakerKeyManager_def cb_guarded_Inr)
next
  case (6 bs c e md k' bs')
  then show ?case
    by (cases bs) (auto simp: NewCircuitBreakerKeyManager_def cb_guarded_Inr dest: allowRequest_not_closed)
next
  case (7 bs c x bs')
  then show ?case
    using close_inv [of "snd bs" c]
    by (cases bs) (auto simp: NewCircuitBreakerKeyManager_def cb_Close_def split: if_splits prod.splits)
next
  case (8 bs c)
  then show ?case by (cases bs) (auto simp: NewCircuitBreakerKeyManager_def cb_Close_def)
qed

end

section \<open>Properties\<close>

text \<open>
  C22. Invariant of the circuit breaker, for every interleaving of admissions, results and
  shutdown: the failure count stays below the trip threshold and the probe count below the
  success threshold, no probe successes are left over in the normal state, and a shut breaker
  is open, so that it admits nothing, whatever results still arrive.
\<close>

theorem breaker_invariant:
  "cb_reachable cfg b \<Longrightarrow>
     0 \<le> cb_failures b \<and> cb_failures b < max 1 (ConsecutiveFailures cfg) \<and>
     0 \<le> cb_successes b \<and> cb_successes b < max 1 (SuccessThreshold cfg) \<and>
     (cb_state b = cbStateClosed \<longrightarrow> cb_successes b = 0) \<and>
     (cb_closed b \<longrightarrow> (\<forall>evs. cb_run cfg evs b = b \<and> (\<forall>t. allowRequest cfg t b = (Inl cbUnavailable, b))))"
proof -
  assume "cb_reachable cfg b"
  then have inv: "cb_inv cfg b" by (rule cb_reachable_inv)
  have "cb_run cfg evs b = b" if "cb_closed b" for evs
  proof (induction evs)
    case (Cons ev evs)
    have "cb_step cfg ev b = b"
      using inv that by (cases ev) (auto simp: cb_inv_def allowRequest_def recordResult_def)
    with Cons show ?case by simp
  qed simp
  with inv show ?thesis by (auto simp: cb_inv_def allowRequest_def)
qed

theorem breaker_invariant_witness:
  "let b = cb_run DefaultCircuitBreakerConfig [Admit 0, Admit 0, Record 1 False, Record 2 False] newBreaker in
     cb_failures b = 2 \<and> cb_failures b < max 1 (ConsecutiveFailures DefaultCircuitBreakerConfig)"
proof -
  let ?b = "cb_run DefaultCircuitBreakerConfig [Admit 0, Admit 0, Record 1 False, Record 2 False] newBreaker"
  have "cb_failures ?b = 2"
    by (simp add: newBreaker_def allowRequest_def recordResult_def DefaultCircuitBreakerConfig_def)
  then show ?thesis
    using breaker_invariant [OF cb_run_reachable [OF cb_reachable.init],
        of DefaultCircuitBreakerConfig "[Admit 0, Admit 0, Record 1 False, Record 2 False]"]
    by simp
qed

text \<open>
  C23. The life cycle of the breaker. In the normal state, failures with no success between
  them trip it exactly when their number reaches the threshold; from then until its timeout
  every request of the wrapped key manager is refused and the inner manager is not called;
  the first request after the timeout is admitted, and as soon as the configured number of
  results has been successes with no failure between them, the breaker is back in the normal
  state with its counters cleared. Other admissions may interleave everywhere.
\<close>

theorem breaker_cycle:
  assumes b: "cb_reachable cfg b" "cb_state b = cbStateClosed" "\<not> cb_closed b" "cb_failures b = 0"
    and fails: "\<forall>ev \<in> set fs. \<not> is_success ev \<and> \<not> is_shut ev"
      "int (length (filter is_failure fs)) + 1 = ConsecutiveFailures cfg"
    and quiet: "\<forall>ev \<in> set qs. \<not> is_shut ev \<and> ev_time ev - t < OpenTimeout cfg"
    and retry: "OpenTimeout cfg \<le> t' - t" "\<forall>ev \<in> set ps. \<not> is_failure ev \<and> \<not> is_shut ev"
      "int (length (filter is_success ps)) + 1 = SuccessThreshold cfg"
  shows "cb_state (cb_run cfg fs b) = cbStateClosed \<and>
    cb_state (cb_run cfg (fs @ Record t False # qs) b) = cbStateOpen \<and>
    (now c - t < OpenTimeout cfg \<longrightarrow>
      km_UnwrapKey (NewCircuitBreakerKeyManager cfg M) c env md (cb_run cfg (fs @ Record t False # qs) b, s) =
        (Inl cbUnavailable, cb_run cfg (fs @ Record t False # qs) b, s)) \<and>
    cb_run cfg (fs @ Record t False # qs @ Admit t' # ps @ [Record t'' True]) b =
      b\<lparr>cb_state := cbStateClosed, cb_openedAt := t, cb_failures := 0, cb_successes := 0\<rparr>"
proof -
  have f: "cb_run cfg fs b = b\<lparr>cb_failures := int (length (filter is_failure fs))\<rparr>"
    using cb_closed_counts [OF b(2,3) fails(1), of cfg] b(4) fails(2) by simp
  define o1 where "o1 = b\<lparr>cb_state := cbStateOpen, cb_openedAt := t, cb_failures := 0\<rparr>"
  have "cb_run cfg (fs @ [Record t False]) b = o1"
    using f b(2) fails(2) by (simp add: recordResult_def Let_def o1_def)
  then have o: "cb_run cfg (fs @ Record t False # qs) b = o1"
    using cb_open_stays [of o1 qs cfg] quiet by (simp add: o1_def)
  have "km_UnwrapKey (NewCircuitBreakerKeyManager cfg M) c env md (cb_run cfg (fs @ Record t False # qs) b, s) =
      (Inl cbUnavailable, cb_run cfg (fs @ Record t False # qs) b, s)" if "now c - t < OpenTimeout cfg"
    unfolding o using that b(3)
    by (simp add: NewCircuitBreakerKeyManager_def cb_guarded_def allowRequest_def o1_def)
  note refused = this
  define h where "h = b\<lparr>cb_state := cbStateHalfOpen, cb_openedAt := t, cb_failures := 0, cb_successes := 0\<rparr>"
  have "cb_step cfg (Admit t') o1 = h" using retry(1) b(3) by (simp add: allowRequest_def o1_def h_def)
  moreover have "cb_run cfg ps h = h\<lparr>cb_successes := int (length (filter is_success ps))\<rparr>"
    using cb_half_open_counts [of h ps cfg] retry(2,3) b(3) by (simp add: h_def)
  ultimately have "cb_run cfg (Admit t' # ps @ [Record t'' True]) o1 =
      b\<lparr>cb_state := cbStateClosed, cb_openedAt := t, cb_failures := 0, cb_successes := 0\<rparr>"
    using retry(3) by (simp add: recordResult_def Let_def h_def)
  then show ?thesis using f o refused b(2) by (simp add: o1_def)
qed

theorem breaker_cycle_witness:
  "cb_state (cb_run DefaultCircuitBreakerConfig (replicate 4 (Record 1 False) @ [Record 5 False]) newBreaker) = cbStateOpen \<and>
   cb_run DefaultCircuitBreakerConfig
     (replicate 4 (Record 1 False) @ Record 5 False # [Admit 6] @ Admit 30000000005 # [Admit 7, Record 8 True] @ [Record 9 True])
     newBreaker = newBreaker\<lparr>cb_openedAt := 5\<rparr>"
proof -
  let ?cfg = DefaultCircuitBreakerConfig
  define fs where "fs = replicate 4 (Record 1 False)"
  have nb: "cb_state newBreaker = cbStateClosed" "\<not> cb_closed newBreaker" "cb_failures newBreaker = 0"
    by (simp_all add: newBreaker_def)
  have fs: "\<forall>ev \<in> set fs. \<not> is_success ev \<and> \<not> is_shut ev"
      "int (length (filter is_failure fs)) + 1 = ConsecutiveFailures ?cfg"
    by (simp_all add: fs_def DefaultCircuitBreakerConfig_def)
  have cfg: "OpenTimeout ?cfg = 30000000000" "SuccessThreshold ?cfg = 2"
    by (simp_all add: DefaultCircuitBreakerConfig_def)
  note cyc = breaker_cycle [OF cb_reachable.init nb fs]
  have "cb_state (cb_run ?cfg (fs @ Record 5 False # []) newBreaker) = cbStateOpen"
    using cyc [of "[]" 5 30000000005 "[Record 8 True]", THEN conjunct2, THEN conjunct1] cfg by simp
  moreover have "cb_run ?cfg (fs @ Record 5 False # [Admit 6] @ Admit 30000000005 # [Admit 7, Record 8 True] @ [Record 9 True])
      newBreaker = newBreaker\<lparr>cb_state := cbStateClosed, cb_openedAt := 5, cb_failures := 0, cb_successes := 0\<rparr>"
    using cyc [of "[Admit 6]" 5 30000000005 "[Admit 7, Record 8 True]",
        THEN conjunct2, THEN conjunct2, THEN conjunct2] cfg by simp
  ultimately show ?thesis unfolding fs_def by (simp add: newBreaker_def)
qed

end
