(* ===== verification/Kdf.thy ===== *)
theory Kdf
  imports Go_Strings
begin

text \<open>
  \<^verbatim>\<open>internal/crypto/kdf.go\<close>: parameters of the password key derivation, their hard and
  operational limits, and their text form in the object metadata.
\<close>

section \<open>Parameters and limits\<close>

definition KDFAlgPBKDF2SHA256 :: string where "KDFAlgPBKDF2SHA256 = ''pbkdf2-sha256''"
definition KDFAlgArgon2id :: string where "KDFAlgArgon2id = ''argon2id''"
definition LegacyPBKDF2Iterations :: int where "LegacyPBKDF2Iterations = 100000"
definition DefaultPBKDF2Iterations :: int where "DefaultPBKDF2Iterations = 600000"
definition MinPBKDF2Iterations :: int where "MinPBKDF2Iterations = 100000"
definition MaxPBKDF2Iterations :: int where "MaxPBKDF2Iterations = 2000000"
definition MinArgon2idTime :: nat where "MinArgon2idTime = 1"
definition MaxArgon2idTime :: nat where "MaxArgon2idTime = 10"
definition MinArgon2idMemory :: nat where "MinArgon2idMemory = 1"
definition MaxArgon2idMemory :: nat where "MaxArgon2idMemory = 1048576"
definition MinArgon2idThreads :: nat where "MinArgon2idThreads = 1"
definition MaxArgon2idThreads :: nat where "MaxArgon2idThreads = 255"

lemmas kdf_consts =
  KDFAlgPBKDF2SHA256_def KDFAlgArgon2id_def LegacyPBKDF2Iterations_def DefaultPBKDF2Iterations_def
  MinPBKDF2Iterations_def MaxPBKDF2Iterations_def MinArgon2idTime_def MaxArgon2idTime_def
  MinArgon2idMemory_def MaxArgon2idMemory_def MinArgon2idThreads_def MaxArgon2idThreads_def

record kdf_params =
  kp_Algorithm :: string
  kp_Iterations :: int
  kp_Time :: nat
  kp_Memory :: nat
  kp_Threads :: nat

record kdf_limits =
  PBKDF2MaxIterations :: int
  Argon2idMaxTime :: nat
  Argon2idMaxMemory :: nat
  Argon2idMaxThreads :: nat

definition DefaultKDFLimits :: kdf_limits where
  "DefaultKDFLimits = \<lparr>PBKDF2MaxIterations = MaxPBKDF2Iterations, Argon2idMaxTime = MaxArgon2idTime,
     Argon2idMaxMemory = 65536, Argon2idMaxThreads = MaxArgon2idThreads\<rparr>"

text \<open>The two error types; their text is \<^verbatim>\<open>Error()\<close>.\<close>

datatype kdferr =
    ErrInvalidKDFParams string string nat string
  | ErrKDFCostTooHigh string string nat nat

fun kdf_Error :: "kdferr \<Rightarrow> string" where
  "kdf_Error (ErrInvalidKDFParams alg param value reason) =
     ''invalid '' @ alg @ '' KDF parameter '' @ param @ ''='' @ show_nat value @ '': '' @ reason"
| "kdf_Error (ErrKDFCostTooHigh alg param requested maximum) =
     alg @ '' KDF parameter '' @ param @ ''='' @ show_nat requested @ '' exceeds maximum '' @ show_nat maximum"

definition iterRange :: string where
  "iterRange = ''must be between '' @ show_int MinPBKDF2Iterations @ '' and '' @ show_int MaxPBKDF2Iterations"

definition ValidateKDFParams :: "kdf_params \<Rightarrow> kdf_limits \<Rightarrow> kdferr + unit" where
  "ValidateKDFParams p lim =
     (if kp_Algorithm p = KDFAlgPBKDF2SHA256 then
        (if kp_Iterations p < MinPBKDF2Iterations \<or> kp_Iterations p > MaxPBKDF2Iterations
         then Inl (ErrInvalidKDFParams (kp_Algorithm p) ''iterations'' (nat (kp_Iterations p)) iterRange)
         else if PBKDF2MaxIterations lim \<le> 0
         then Inl (ErrInvalidKDFParams (kp_Algorithm p) ''max_iterations'' 0
                (''must be positive (got '' @ show_int (PBKDF2MaxIterations lim) @ '')''))
         else if kp_Iterations p > PBKDF2MaxIterations lim
         then Inl (ErrKDFCostTooHigh (kp_Algorithm p) ''iterations'' (nat (kp_Iterations p)) (nat (PBKDF2MaxIterations lim)))
         else Inr ())
      else if kp_Algorithm p = KDFAlgArgon2id then
        (if kp_Time p < MinArgon2idTime \<or> kp_Time p > MaxArgon2idTime
         then Inl (ErrInvalidKDFParams (kp_Algorithm p) ''time'' (kp_Time p) ''must be between 1 and 10'')
         else if kp_Memory p < MinArgon2idMemory \<or> kp_Memory p > MaxArgon2idMemory
         then Inl (ErrInvalidKDFParams (kp_Algorithm p) ''memory'' (kp_Memory p) ''must be between 1 and 1048576'')
         else if kp_Threads p < MinArgon2idThreads \<or> kp_Threads p > MaxArgon2idThreads
         then Inl (ErrInvalidKDFParams (kp_Algorithm p) ''threads'' (kp_Threads p) ''must be between 1 and 255'')
         else if kp_Time p > Argon2idMaxTime lim
         then Inl (ErrKDFCostTooHigh (kp_Algorithm p) ''time'' (kp_Time p) (Argon2idMaxTime lim))
         else if kp_Memory p > Argon2idMaxMemory lim
         then Inl (ErrKDFCostTooHigh (kp_Algorithm p) ''memory'' (kp_Memory p) (Argon2idMaxMemory lim))
         else if kp_Threads p > Argon2idMaxThreads lim
         then Inl (ErrKDFCostTooHigh (kp_Algorithm p) ''threads'' (kp_Threads p) (Argon2idMaxThreads lim))
         else Inr ())
      else Inl (ErrInvalidKDFParams (kp_Algorithm p) ''algorithm'' 0 ''unsupported algorithm''))"

section \<open>Text form\<close>

definition FormatKDFParams :: "kdf_params \<Rightarrow> string" where
  "FormatKDFParams p =
     (if kp_Algorithm p = KDFAlgPBKDF2SHA256 then KDFAlgPBKDF2SHA256 @ '':'' @ show_int (kp_Iterations p)
      else if kp_Algorithm p = KDFAlgArgon2id
      then KDFAlgArgon2id @ '':'' @ show_nat (kp_Time p) @ '':'' @ show_nat (kp_Memory p) @ '':'' @ show_nat (kp_Threads p)
      else '''')"

definition pbkdf2Params :: "int \<Rightarrow> kdf_params" where
  "pbkdf2Params n = \<lparr>kp_Algorithm = KDFAlgPBKDF2SHA256, kp_Iterations = n, kp_Time = 0, kp_Memory = 0, kp_Threads = 0\<rparr>"

text \<open>The text of a number conversion error is not modelled.\<close>

definition ParseKDFParams :: "string \<Rightarrow> kdferr + kdf_params" where
  "ParseKDFParams value =
     (if value = [] then Inr (pbkdf2Params LegacyPBKDF2Iterations)
      else case split_on (CHR '':'') value of
          alg # parts \<Rightarrow>
            if parts = [] then Inl (ErrInvalidKDFParams [] ''format'' 0 ''expected at least algorithm:parameter'')
            else if alg = KDFAlgPBKDF2SHA256 then
              (case parts of
                 [it] \<Rightarrow>
                   (case parse_int64 it of
                      None \<Rightarrow> Inl (ErrInvalidKDFParams alg ''iterations'' 0 ''strconv'')
                    | Some n \<Rightarrow>
                        if n < MinPBKDF2Iterations then Inl (ErrInvalidKDFParams alg ''iterations'' (nat n) iterRange)
                        else if n > MaxPBKDF2Iterations
                        then Inl (ErrInvalidKDFParams alg ''iterations'' (nat n) ''exceeds hard maximum'')
                        else Inr (pbkdf2Params n))
               | _ \<Rightarrow> Inl (ErrInvalidKDFParams alg ''format'' (Suc (length parts)) ''expected 2 colon-delimited parts''))
            else if alg = KDFAlgArgon2id then
              (case parts of
                 [t, m, th] \<Rightarrow>
                   (case parse_uint 32 t of
                      None \<Rightarrow> Inl (ErrInvalidKDFParams alg ''time'' 0 ''strconv'')
                    | Some time \<Rightarrow>
                   (case parse_uint 32 m of
                      None \<Rightarrow> Inl (ErrInvalidKDFParams alg ''memory'' 0 ''strconv'')
                    | Some memory \<Rightarrow>
                        if time < MinArgon2idTime \<or> time > MaxArgon2idTime
                        then Inl (ErrInvalidKDFParams alg ''time'' time ''must be between 1 and 10'')
                        else if memory < MinArgon2idMemory \<or> memory > MaxArgon2idMemory
                        then Inl (ErrInvalidKDFParams alg ''memory'' memory ''must be between 1 and 1048576'')
                        else (case parse_uint 8 th of
                            None \<Rightarrow> Inl (ErrInvalidKDFParams alg ''threads'' 0 ''strconv'')
                          | Some threads \<Rightarrow>
                              if threads < MinArgon2idThreads
                              then Inl (ErrInvalidKDFParams alg ''threads'' threads ''must be between 1 and 255'')
                              else Inr \<lparr>kp_Algorithm = KDFAlgArgon2id, kp_Iterations = 0, kp_Time = time,
                                kp_Memory = memory, kp_Threads = threads\<rparr>)))
               | _ \<Rightarrow> Inl (ErrInvalidKDFParams alg ''format'' (Suc (length parts)) ''expected 4 colon-delimited parts''))
            else Inl (ErrInvalidKDFParams alg ''algorithm'' 0 ''unsupported algorithm''))"

definition DefaultKDFParams :: "int \<Rightarrow> kdf_params" where
  "DefaultKDFParams n = pbkdf2Params (if n < MinPBKDF2Iterations then DefaultPBKDF2Iterations else n)"

section \<open>Properties\<close>

text \<open>Parameters within the hard limits, with the fields of the other algorithm unset.\<close>

definition hardLimits :: kdf_limits where
  "hardLimits = \<lparr>PBKDF2MaxIterations = MaxPBKDF2Iterations, Argon2idMaxTime = MaxArgon2idTime,
     Argon2idMaxMemory = MaxArgon2idMemory, Argon2idMaxThreads = MaxArgon2idThreads\<rparr>"

definition kdf_canonical :: "kdf_params \<Rightarrow> bool" where
  "kdf_canonical p \<longleftrightarrow> ValidateKDFParams p hardLimits = Inr () \<and>
     (if kp_Algorithm p = KDFAlgPBKDF2SHA256 then kp_Time p = 0 \<and> kp_Memory p = 0 \<and> kp_Threads p = 0
      else kp_Iterations p = 0)"

lemma show_nat_no_colon [simp]: "CHR '':'' \<notin> set (show_nat n)"
  using show_nat_digits [of n] by (auto simp: list_all_iff is_digit_def)

lemma show_int_no_colon [simp]: "CHR '':'' \<notin> set (show_int n)"
  by (simp add: show_int_def)

lemma ParseKDFParams_canonical: "ParseKDFParams v = Inr p \<Longrightarrow> kdf_canonical p"
  by (auto simp: ParseKDFParams_def kdf_canonical_def ValidateKDFParams_def hardLimits_def pbkdf2Params_def
      kdf_consts dest: parse_uint_range split: list.splits option.splits if_splits)

lemma ParseKDFParams_Format: "kdf_canonical p \<Longrightarrow> ParseKDFParams (FormatKDFParams p) = Inr p"
proof (cases "kp_Algorithm p = KDFAlgPBKDF2SHA256")
  case True
  assume p: "kdf_canonical p"
  have "split_on (CHR '':'') (KDFAlgPBKDF2SHA256 @ '':'' @ show_int (kp_Iterations p)) =
      [KDFAlgPBKDF2SHA256, show_int (kp_Iterations p)]"
    by (simp add: split_on_append kdf_consts)
  moreover have "in_int64 (kp_Iterations p)"
    using p True by (auto simp: kdf_canonical_def ValidateKDFParams_def hardLimits_def kdf_consts in_int64_def
        int_limits split: if_splits)
  ultimately show ?thesis
    using p True by (auto simp: ParseKDFParams_def FormatKDFParams_def kdf_canonical_def ValidateKDFParams_def
        hardLimits_def pbkdf2Params_def kdf_consts split: if_splits)
next
  case False
  assume p: "kdf_canonical p"
  then have alg: "kp_Algorithm p = KDFAlgArgon2id"
    using False by (auto simp: kdf_canonical_def ValidateKDFParams_def split: if_splits)
  have "split_on (CHR '':'') (FormatKDFParams p) =
      [KDFAlgArgon2id, show_nat (kp_Time p), show_nat (kp_Memory p), show_nat (kp_Threads p)]"
    using alg False by (simp add: FormatKDFParams_def split_on_append kdf_consts)
  moreover have "FormatKDFParams p \<noteq> []" using alg False by (simp add: FormatKDFParams_def kdf_consts)
  moreover have "kp_Time p \<le> 10" "kp_Memory p \<le> 1048576" "kp_Threads p \<le> 255" "1 \<le> kp_Time p" "1 \<le> kp_Memory p"
      "1 \<le> kp_Threads p" "kp_Iterations p = 0"
    using p alg False
    by (auto simp: kdf_canonical_def ValidateKDFParams_def hardLimits_def kdf_consts split: if_splits)
  ultimately show ?thesis
    using alg by (simp add: ParseKDFParams_def kdf_consts)
qed


end
