(* ===== verification/Password_Key_Manager.thy ===== *)
theory Password_Key_Manager
  imports Aes_Kek_Manager Circuit_Breaker Kdf
begin

text \<open>
  \<^verbatim>\<open>internal/crypto/password_keymanager.go\<close> with its options, and the fallback decorator
  \<^verbatim>\<open>internal/crypto/keymanager_fallback.go\<close> that consults it. The key derivation functions
  (packages crypto/pbkdf2 and golang.org/x/crypto/argon2) are parameters; nothing is assumed of
  them but that they are functions.
\<close>

section \<open>Key derivation\<close>

record kdf_funs =
  PBKDF2 :: "bytes \<Rightarrow> bytes \<Rightarrow> int \<Rightarrow> kmerr + bytes"
  Argon2IDKey :: "bytes \<Rightarrow> bytes \<Rightarrow> nat \<Rightarrow> nat \<Rightarrow> nat \<Rightarrow> bytes"
  FipsBuild :: bool

definition kdf_kmerr :: "kdferr + 'a \<Rightarrow> kmerr + 'a" where
  "kdf_kmerr r = (case r of Inl e \<Rightarrow> Inl (Errorf (kdf_Error e) []) | Inr x \<Rightarrow> Inr x)"

lemma kdf_kmerr_Inr [simp]: "kdf_kmerr r = Inr x \<longleftrightarrow> r = Inr x"
  by (cases r) (auto simp: kdf_kmerr_def)

text \<open>Both builds of \<^verbatim>\<open>deriveKeyArgon2id\<close>: the FIPS build refuses.\<close>

definition deriveKeyArgon2id :: "kdf_funs \<Rightarrow> bytes \<Rightarrow> bytes \<Rightarrow> kdf_params \<Rightarrow> kmerr + bytes" where
  "deriveKeyArgon2id K password salt p =
     (if FipsBuild K then Inl (Errorf ''algorithm not FIPS-approved'' [])
      else and_then (kdf_kmerr (ValidateKDFParams p DefaultKDFLimits)) (\<lambda>_.
        Inr (Argon2IDKey K password salt (kp_Time p) (kp_Memory p) (kp_Threads p))))"

section \<open>State and construction\<close>

definition passwordKMProvider :: string where "passwordKMProvider = ''password''"
definition saltSize :: nat where "saltSize = 32"

record password_key_manager =
  pm_password :: bytes
  pm_kdf :: kdf_params
  pm_fipsErr :: "kmerr option"
  pm_kdfLimits :: kdf_limits
  pm_closed :: bool

datatype password_option =
    WithPasswordKMPBKDF2 int
  | WithPasswordKMKDFLimits kdf_limits
  | WithPasswordKMArgon2id nat nat nat

definition argon2idParams :: "nat \<Rightarrow> nat \<Rightarrow> nat \<Rightarrow> kdf_params" where
  "argon2idParams t m th = \<lparr>kp_Algorithm = KDFAlgArgon2id, kp_Iterations = 0, kp_Time = t, kp_Memory = m, kp_Threads = th\<rparr>"

fun applyPasswordOption :: "bool \<Rightarrow> password_option \<Rightarrow> password_key_manager \<Rightarrow> password_key_manager" where
  "applyPasswordOption fips (WithPasswordKMPBKDF2 n) m =
     (if n < MinPBKDF2Iterations \<or> n > MaxPBKDF2Iterations
      then m\<lparr>pm_fipsErr := Some (Errorf (kdf_Error (ErrInvalidKDFParams KDFAlgPBKDF2SHA256 ''iterations'' (nat n)
             ''outside hard bounds'')) [])\<rparr>
      else m\<lparr>pm_kdf := pbkdf2Params n\<rparr>)"
| "applyPasswordOption fips (WithPasswordKMKDFLimits lim) m = m\<lparr>pm_kdfLimits := lim\<rparr>"
| "applyPasswordOption fips (WithPasswordKMArgon2id t mem th) m =
     (if fips then m\<lparr>pm_fipsErr := Some (Errorf ''algorithm not FIPS-approved'' [])\<rparr>
      else case ValidateKDFParams (argon2idParams t mem th) DefaultKDFLimits of
          Inl e \<Rightarrow> m\<lparr>pm_fipsErr := Some (Errorf (kdf_Error e) [])\<rparr>
        | Inr _ \<Rightarrow> m\<lparr>pm_kdf := (pm_kdf m)\<lparr>kp_Algorithm := KDFAlgArgon2id, kp_Time := t, kp_Memory := mem, kp_Threads := th\<rparr>\<rparr>)"

definition NewPasswordKeyManager :: "bool \<Rightarrow> bytes \<Rightarrow> password_option list \<Rightarrow> kmerr + password_key_manager" where
  "NewPasswordKeyManager fips password opts =
     (if length password < 12 then Inl (Errorf ''password_keymanager: password must be at least 12 characters'' [])
      else
        let m = fold (applyPasswordOption fips) opts
          \<lparr>pm_password = password,
           pm_kdf = \<lparr>kp_Algorithm = KDFAlgPBKDF2SHA256, kp_Iterations = DefaultPBKDF2Iterations, kp_Time = 2,
             kp_Memory = 19456, kp_Threads = 1\<rparr>,
           pm_fipsErr = None, pm_kdfLimits = DefaultKDFLimits, pm_closed = False\<rparr>
        in case pm_fipsErr m of
            Some e \<Rightarrow> Inl e
          | None \<Rightarrow> and_then (kdf_kmerr (ValidateKDFParams (pm_kdf m) (pm_kdfLimits m))) (\<lambda>_. Inr m))"

section \<open>Envelope format\<close>

definition envelopeVersionMarker :: u32 where "envelopeVersionMarker = 1"
definition envelopeAlgPBKDF2 :: byte where "envelopeAlgPBKDF2 = 0"
definition envelopeAlgArgon2id :: byte where "envelopeAlgArgon2id = 1"

definition kdfAlgByte :: "password_key_manager \<Rightarrow> byte" where
  "kdfAlgByte m = (if kp_Algorithm (pm_kdf m) = KDFAlgArgon2id then envelopeAlgArgon2id else envelopeAlgPBKDF2)"

definition kdfParamsBytes :: "password_key_manager \<Rightarrow> bytes" where
  "kdfParamsBytes m =
     (if kp_Algorithm (pm_kdf m) = KDFAlgArgon2id
      then be32 (of_nat (kp_Time (pm_kdf m))) @ be32 (of_nat (kp_Memory (pm_kdf m))) @ [of_nat (kp_Threads (pm_kdf m))]
      else be32 (of_int (kp_Iterations (pm_kdf m))))"

definition deriveUnwrapKey :: "kdf_funs \<Rightarrow> password_key_manager \<Rightarrow> bytes \<Rightarrow> kdf_params \<Rightarrow> kmerr + bytes" where
  "deriveUnwrapKey K m salt p =
     and_then (kdf_kmerr (ValidateKDFParams p (pm_kdfLimits m))) (\<lambda>_.
       if kp_Algorithm p = KDFAlgArgon2id then
         deriveKeyArgon2id K (pm_password m) salt (argon2idParams (kp_Time p) (kp_Memory p) (kp_Threads p))
       else case PBKDF2 K (pm_password m) salt (kp_Iterations p) of
           Inl e \<Rightarrow> Inl (Errorf ''password_keymanager: derive unwrap key'' [e])
         | Inr key \<Rightarrow> Inr key)"

definition deriveWrappingKey :: "kdf_funs \<Rightarrow> password_key_manager \<Rightarrow> bytes \<Rightarrow> kmerr + bytes" where
  "deriveWrappingKey K m salt =
     and_then (kdf_kmerr (ValidateKDFParams (pm_kdf m) (pm_kdfLimits m))) (\<lambda>_.
       if kp_Algorithm (pm_kdf m) = KDFAlgArgon2id then
         deriveKeyArgon2id K (pm_password m) salt
           (argon2idParams (kp_Time (pm_kdf m)) (kp_Memory (pm_kdf m)) (kp_Threads (pm_kdf m)))
       else case PBKDF2 K (pm_password m) salt (kp_Iterations (pm_kdf m)) of
           Inl e \<Rightarrow> Inl (Errorf ''password_keymanager: derive wrapping key'' [e])
         | Inr key \<Rightarrow> Inr key)"

section \<open>Operations\<close>

definition pm_WrapKey ::
  "kdf_funs \<Rightarrow> aead_family \<Rightarrow> km_call \<Rightarrow> bytes \<Rightarrow> metadata \<Rightarrow> password_key_manager \<Rightarrow> kmerr + key_envelope" where
  "pm_WrapKey K G c plaintext md m =
     (if pm_closed m then Inl ErrProviderUnavailable
      else if plaintext = [] then Inl (Errorf ''password_keymanager: plaintext DEK must not be empty'' [])
      else case rand_read c 0 saltSize of
          Inl e \<Rightarrow> Inl (Errorf ''password_keymanager: generate salt'' [e])
        | Inr salt \<Rightarrow>
            and_then (deriveWrappingKey K m salt) (\<lambda>wk.
              case newCipher wk of
                Inl e \<Rightarrow> Inl (Errorf ''password_keymanager: create cipher'' [e])
              | Inr _ \<Rightarrow>
                  (case rand_read c 1 nonceSize of
                     Inl e \<Rightarrow> Inl (Errorf ''password_keymanager: generate nonce'' [e])
                   | Inr nonce \<Rightarrow>
                       Inr \<lparr>KeyID = [], KeyVersion = 1, env_Provider = passwordKMProvider,
                         Ciphertext = be32 envelopeVersionMarker @ [kdfAlgByte m] @ kdfParamsBytes m @ salt @ nonce @
                           Seal (newGCM G wk) nonce plaintext [],
                         CreatedAt = now c\<rparr>)))"

text \<open>The parameters of a version 2 envelope and where its salt starts.\<close>

definition v2Params :: "bytes \<Rightarrow> kmerr + (kdf_params \<times> nat)" where
  "v2Params payload =
     (let algByte = payload ! 4 in
      if algByte = envelopeAlgPBKDF2 then
        (if length payload < 5 + 4 + saltSize + nonceSize + 16
         then Inl (Errorf (kdf_Error (ErrInvalidKDFParams KDFAlgPBKDF2SHA256 ''format'' (length payload)
                ''v2 PBKDF2 payload too short'')) [])
         else Inr (pbkdf2Params (uint (of_be32 (take 4 (drop 5 payload)))), 9))
      else if algByte = envelopeAlgArgon2id then
        (if length payload < 5 + 9 + saltSize + nonceSize + 16
         then Inl (Errorf (kdf_Error (ErrInvalidKDFParams KDFAlgArgon2id ''format'' (length payload)
                ''v2 Argon2id payload too short'')) [])
         else Inr (argon2idParams (unat (of_be32 (take 4 (drop 5 payload)))) (unat (of_be32 (take 4 (drop 9 payload))))
                (unat (payload ! 13)), 14))
      else Inl (Errorf (kdf_Error (ErrInvalidKDFParams [] ''algorithm'' (unat algByte) ''unsupported v2 algorithm'')) []))"

definition tryUnwrapV2 :: "kdf_funs \<Rightarrow> aead_family \<Rightarrow> bytes \<Rightarrow> password_key_manager \<Rightarrow> kmerr + bytes" where
  "tryUnwrapV2 K G payload m =
     and_then (v2Params payload) (\<lambda>(p, paramsEnd).
     and_then (deriveUnwrapKey K m (take saltSize (drop paramsEnd payload)) p) (\<lambda>wk.
       gcmOpen G wk (take nonceSize (drop (paramsEnd + saltSize) payload)) (drop (paramsEnd + saltSize + nonceSize) payload)))"

definition tryUnwrap ::
  "kdf_funs \<Rightarrow> aead_family \<Rightarrow> bytes \<Rightarrow> bytes \<Rightarrow> bytes \<Rightarrow> int \<Rightarrow> password_key_manager \<Rightarrow> kmerr + bytes" where
  "tryUnwrap K G salt nonce sealed iterations m =
     and_then (kdf_kmerr (ValidateKDFParams (pbkdf2Params iterations) (pm_kdfLimits m))) (\<lambda>_.
     and_then (PBKDF2 K (pm_password m) salt iterations) (\<lambda>wk. gcmOpen G wk nonce sealed))"

text \<open>The two older formats: with an iteration prefix, and without.\<close>

definition tryV1 :: "kdf_funs \<Rightarrow> aead_family \<Rightarrow> bytes \<Rightarrow> password_key_manager \<Rightarrow> (kmerr + bytes) option" where
  "tryV1 K G payload m =
     (if length payload \<ge> saltSize + nonceSize + 16 + 4 \<and>
         MinPBKDF2Iterations \<le> uint (of_be32 (take 4 payload)) \<and> uint (of_be32 (take 4 payload)) \<le> MaxPBKDF2Iterations
      then Some (tryUnwrap K G (take saltSize (drop 4 payload)) (take nonceSize (drop (4 + saltSize) payload))
             (drop (4 + saltSize + nonceSize) payload) (uint (of_be32 (take 4 payload))) m)
      else None)"

definition tryLegacy :: "kdf_funs \<Rightarrow> aead_family \<Rightarrow> bytes \<Rightarrow> password_key_manager \<Rightarrow> kmerr + bytes" where
  "tryLegacy K G payload m =
     tryUnwrap K G (take saltSize payload) (take nonceSize (drop saltSize payload))
       (drop (saltSize + nonceSize) payload) LegacyPBKDF2Iterations m"

definition pm_UnwrapKey ::
  "kdf_funs \<Rightarrow> aead_family \<Rightarrow> km_call \<Rightarrow> key_envelope option \<Rightarrow> metadata \<Rightarrow> password_key_manager \<Rightarrow> kmerr + bytes" where
  "pm_UnwrapKey K G c envelope md m =
     (if pm_closed m then Inl ErrProviderUnavailable
      else case envelope of
          None \<Rightarrow> Inl ErrInvalidEnvelope
        | Some env \<Rightarrow>
            let payload = Ciphertext env in
            if payload = [] then Inl ErrInvalidEnvelope
            else if env_Provider env \<noteq> passwordKMProvider
            then Inl (Errorf ''password_keymanager: envelope provider mismatch'' [])
            else if length payload < saltSize + nonceSize + 16
            then Inl (Errorf ''payload too short'' [ErrInvalidEnvelope])
            else if of_be32 (take 4 payload) = envelopeVersionMarker then
              (case tryUnwrapV2 K G payload m of
                 Inr plaintext \<Rightarrow> Inr plaintext
               | Inl e \<Rightarrow> Inl (Errorf [] [ErrUnwrapFailed, e]))
            else
              (case tryV1 K G payload m of
                 Some (Inr plaintext) \<Rightarrow> Inr plaintext
               | v1 \<Rightarrow>
                   (case tryLegacy K G payload m of
                      Inr plaintext \<Rightarrow> Inr plaintext
                    | Inl e \<Rightarrow>
                        (case v1 of
                           Some (Inl v1Err) \<Rightarrow> Inl (Errorf [] [ErrUnwrapFailed, v1Err])
                         | _ \<Rightarrow> Inl (Errorf [] [ErrUnwrapFailed])))))"

definition pm_ActiveKeyVersion :: "password_key_manager \<Rightarrow> kmerr + int" where
  "pm_ActiveKeyVersion m = (if pm_closed m then Inl ErrProviderUnavailable else Inr 1)"

definition pm_HealthCheck :: "password_key_manager \<Rightarrow> kmerr + unit" where
  "pm_HealthCheck m = (if pm_closed m then Inl ErrProviderUnavailable else Inr ())"

definition pm_Close :: "password_key_manager \<Rightarrow> password_key_manager" where
  "pm_Close m = (if pm_closed m then m else m\<lparr>pm_closed := True, pm_password := []\<rparr>)"

definition passwordKeyManager :: "kdf_funs \<Rightarrow> aead_family \<Rightarrow> password_key_manager key_manager" where
  "passwordKeyManager K G =
     \<lparr>km_Provider = \<lambda>_. passwordKMProvider,
      km_WrapKey = \<lambda>c pt md m. (pm_WrapKey K G c pt md m, m),
      km_UnwrapKey = \<lambda>c env md m. (pm_UnwrapKey K G c env md m, m),
      km_ActiveKeyVersion = \<lambda>c m. (pm_ActiveKeyVersion m, m),
      km_HealthCheck = \<lambda>c m. (pm_HealthCheck m, m),
      km_Close = \<lambda>c m. (Inr (), pm_Close m),
      km_rotation = None\<rparr>"

section \<open>The contract holds\<close>

lemma kdf_algs_distinct [simp]: "KDFAlgArgon2id \<noteq> KDFAlgPBKDF2SHA256" "KDFAlgPBKDF2SHA256 \<noteq> KDFAlgArgon2id"
  by (simp_all add: kdf_consts)

definition pm_holds :: "kdf_funs \<Rightarrow> aead_family \<Rightarrow> password_key_manager \<Rightarrow> key_envelope \<Rightarrow> bytes \<Rightarrow> bool" where
  "pm_holds K G m env k \<longleftrightarrow> env_Provider env = passwordKMProvider \<and>
     saltSize + nonceSize + 16 \<le> length (Ciphertext env) \<and>
     of_be32 (take 4 (Ciphertext env)) = envelopeVersionMarker \<and> tryUnwrapV2 K G (Ciphertext env) m = Inr k"

lemma pm_UnwrapKey_holds:
  "pm_holds K G m env k \<Longrightarrow>
     pm_UnwrapKey K G c (Some env) md m = (if pm_closed m then Inl ErrProviderUnavailable else Inr k)"
  by (auto simp: pm_holds_def pm_UnwrapKey_def Let_def saltSize_def)

text \<open>The header of a version 2 envelope is read back as it was written.\<close>

lemma v2Params_pbkdf2:
  assumes "0 \<le> n" and "n < 2 ^ 32" and "length salt = saltSize" and "length nonce = nonceSize" and "16 \<le> length sealed"
  shows "v2Params (be32 envelopeVersionMarker @ [envelopeAlgPBKDF2] @ be32 (of_int n) @ salt @ nonce @ sealed) =
    Inr (pbkdf2Params n, 9)"
proof -
  have "uint (of_int n :: u32) = n" using assms(1,2) by (simp add: uint_word_of_int)
  then show ?thesis
    using assms(3-5) by (simp add: v2Params_def nth_append saltSize_def nonceSize_def envelopeAlgPBKDF2_def)
qed

lemma v2Params_argon2id:
  assumes "t < 2 ^ 32" and "mem < 2 ^ 32" and "th < 2 ^ 8"
    and "length salt = saltSize" and "length nonce = nonceSize" and "16 \<le> length sealed"
  shows "v2Params (be32 envelopeVersionMarker @ [envelopeAlgArgon2id] @
      (be32 (of_nat t) @ be32 (of_nat mem) @ [of_nat th]) @ salt @ nonce @ sealed) = Inr (argon2idParams t mem th, 14)"
  using assms by (simp add: v2Params_def nth_append saltSize_def nonceSize_def envelopeAlgPBKDF2_def
      envelopeAlgArgon2id_def unat_of_nat take_bit_nat_eq_self)

lemma deriveWrappingKey_limits:
  assumes "deriveWrappingKey K m salt = Inr wk"
  shows "kp_Algorithm (pm_kdf m) = KDFAlgArgon2id \<and> kp_Time (pm_kdf m) \<le> 10 \<and> kp_Memory (pm_kdf m) \<le> 1048576 \<and>
      kp_Threads (pm_kdf m) \<le> 255 \<or>
    kp_Algorithm (pm_kdf m) = KDFAlgPBKDF2SHA256 \<and> 0 \<le> kp_Iterations (pm_kdf m) \<and> kp_Iterations (pm_kdf m) \<le> 2000000"
  using assms by (auto simp: deriveWrappingKey_def and_then_eq_Inr ValidateKDFParams_def kdf_consts split: if_splits)

lemma Validate_argon2idParams:
  "kp_Algorithm p = KDFAlgArgon2id \<Longrightarrow>
     ValidateKDFParams (argon2idParams (kp_Time p) (kp_Memory p) (kp_Threads p)) lim = ValidateKDFParams p lim"
  by (simp add: ValidateKDFParams_def argon2idParams_def kdf_consts)

lemma Validate_pbkdf2Params:
  "kp_Algorithm p = KDFAlgPBKDF2SHA256 \<Longrightarrow>
     ValidateKDFParams (pbkdf2Params (kp_Iterations p)) lim = ValidateKDFParams p lim"
  by (simp add: ValidateKDFParams_def pbkdf2Params_def)

lemma deriveUnwrapKey_wrapping:
  assumes "deriveWrappingKey K m salt = Inr wk"
  shows "kp_Algorithm (pm_kdf m) = KDFAlgArgon2id \<Longrightarrow>
      deriveUnwrapKey K m salt (argon2idParams (kp_Time (pm_kdf m)) (kp_Memory (pm_kdf m)) (kp_Threads (pm_kdf m))) = Inr wk"
    and "kp_Algorithm (pm_kdf m) = KDFAlgPBKDF2SHA256 \<Longrightarrow>
      deriveUnwrapKey K m salt (pbkdf2Params (kp_Iterations (pm_kdf m))) = Inr wk"
  using assms
  by (simp_all add: deriveWrappingKey_def deriveUnwrapKey_def Validate_argon2idParams Validate_pbkdf2Params and_then_eq_Inr)
    (simp_all add: argon2idParams_def pbkdf2Params_def kdf_consts split: sum.splits)

lemma pm_WrapKey_holds:
  assumes "pm_WrapKey K G c pt md m = Inr env"
  shows "pm_holds K G m env pt"
proof -
  obtain salt wk nonce where w: "rand_read c 0 saltSize = Inr salt" "deriveWrappingKey K m salt = Inr wk"
      "newCipher wk = Inr ()" "rand_read c 1 nonceSize = Inr nonce" "env_Provider env = passwordKMProvider"
      "Ciphertext env = be32 envelopeVersionMarker @ [kdfAlgByte m] @ kdfParamsBytes m @ salt @ nonce @
         Seal (newGCM G wk) nonce pt []"
    using assms by (auto simp: pm_WrapKey_def and_then_eq_Inr case_err_eq_Inr split: if_splits)
  note len = rand_read_length [OF w(1)] rand_read_length [OF w(4)]
  have sealed: "length (Seal (newGCM G wk) nonce pt []) = length pt + 16"
    by (rule aead_seal_length) (simp_all add: len)
  let ?p = "pm_kdf m"
  have params: "v2Params (Ciphertext env) =
      Inr (if kp_Algorithm ?p = KDFAlgArgon2id
           then (argon2idParams (kp_Time ?p) (kp_Memory ?p) (kp_Threads ?p), 14)
           else (pbkdf2Params (kp_Iterations ?p), 9))"
    using deriveWrappingKey_limits [OF w(2)] len sealed
      v2Params_argon2id [of "kp_Time ?p" "kp_Memory ?p" "kp_Threads ?p" salt nonce "Seal (newGCM G wk) nonce pt []"]
      v2Params_pbkdf2 [of "kp_Iterations ?p" salt nonce "Seal (newGCM G wk) nonce pt []"]
    unfolding w(6) by (auto simp: kdfAlgByte_def kdfParamsBytes_def)
  have opened: "gcmOpen G wk nonce (Seal (newGCM G wk) nonce pt []) = Inr pt"
    using len w(3) by (simp add: gcmOpen_Inr nonceSize_def)
  have slices: "take saltSize (drop off (Ciphertext env)) = salt"
      "take nonceSize (drop (off + saltSize) (Ciphertext env)) = nonce"
      "drop (off + saltSize + nonceSize) (Ciphertext env) = Seal (newGCM G wk) nonce pt []"
    if "off = length (kdfParamsBytes m) + 5" for off
    using len by (simp_all add: w(6) that)
  have "tryUnwrapV2 K G (Ciphertext env) m = Inr pt"
  proof (cases "kp_Algorithm ?p = KDFAlgArgon2id")
    case True
    then have "14 = length (kdfParamsBytes m) + 5" by (simp add: kdfParamsBytes_def)
    note sl = slices [OF this]
    show ?thesis
      using deriveUnwrapKey_wrapping(1) [OF w(2) True] opened
      unfolding tryUnwrapV2_def params if_P [OF True] by (simp only: and_then_simps prod.case sl)
  next
    case False
    then have "9 = length (kdfParamsBytes m) + 5" "kp_Algorithm ?p = KDFAlgPBKDF2SHA256"
      using deriveWrappingKey_limits [OF w(2)] by (auto simp: kdfParamsBytes_def)
    note sl = slices [OF this(1)] and alg = this(2)
    show ?thesis
      using deriveUnwrapKey_wrapping(2) [OF w(2) alg] opened
      unfolding tryUnwrapV2_def params if_not_P [OF False] by (simp only: and_then_simps prod.case sl)
  qed
  then show ?thesis using w(5) len sealed by (simp add: pm_holds_def w(6) kdfParamsBytes_def)
qed

interpretation password: key_manager_contract "passwordKeyManager K G" "\<lambda>_. True" pm_closed "\<lambda>_. True"
  "pm_holds K G" for K G
proof (unfold_locales, goal_cases)
  case (2 s c pt md env s')
  then show ?case using pm_WrapKey_holds [of K G c pt md s env] by (auto simp: passwordKeyManager_def)
next
  case (5 s c env md k' s' k)
  then show ?case by (auto simp: passwordKeyManager_def pm_UnwrapKey_holds split: if_splits)
qed (auto simp: passwordKeyManager_def pm_Close_def pm_WrapKey_def pm_UnwrapKey_def)

section \<open>The fallback decorator\<close>

text \<open>The state is that of the primary and that of the fallback manager.\<close>

definition fb_UnwrapKey ::
  "'s key_manager \<Rightarrow> 't key_manager \<Rightarrow> km_call \<Rightarrow> key_envelope option \<Rightarrow> metadata \<Rightarrow> 's \<times> 't \<Rightarrow>
     (kmerr + bytes) \<times> 's \<times> 't" where
  "fb_UnwrapKey P F c envelope md st =
     (case st of (s, t) \<Rightarrow>
        (case km_UnwrapKey P c envelope md s of
           (Inr plaintext, s') \<Rightarrow> (Inr plaintext, s', t)
         | (Inl err, s') \<Rightarrow>
             if (errIs err ErrUnwrapFailed \<or> errIs err ErrInvalidEnvelope) \<and>
                (case envelope of None \<Rightarrow> False | Some env \<Rightarrow> env_Provider env = passwordKMProvider)
             then (case km_UnwrapKey F c envelope md t of
                     (Inr plaintext2, t') \<Rightarrow> (Inr plaintext2, s', t')
                   | (Inl fallbackErr, t') \<Rightarrow> (Inl (Errorf ''primary and password-fallback failed'' [ErrUnwrapFailed]), s', t'))
             else (Inl err, s', t)))"

definition fb_Close :: "'s key_manager \<Rightarrow> 't key_manager \<Rightarrow> km_call \<Rightarrow> 's \<times> 't \<Rightarrow> (kmerr + unit) \<times> 's \<times> 't" where
  "fb_Close P F c st =
     (case st of (s, t) \<Rightarrow>
        (case km_Close P c s of
           (primaryErr, s') \<Rightarrow>
             (case km_Close F c t of
                (fallbackErr, t') \<Rightarrow> (case primaryErr of Inl e \<Rightarrow> Inl e | Inr _ \<Rightarrow> fallbackErr, s', t'))))"

definition fb_primary :: "('s \<Rightarrow> 'a \<times> 's) \<Rightarrow> 's \<times> 't \<Rightarrow> 'a \<times> 's \<times> 't" where
  "fb_primary call st = (case call (fst st) of (r, s') \<Rightarrow> (r, s', snd st))"

definition NewFallbackKeyManager :: "'s key_manager \<Rightarrow> 't key_manager \<Rightarrow> ('s \<times> 't) key_manager" where
  "NewFallbackKeyManager P F =
     \<lparr>km_Provider = \<lambda>st. km_Provider P (fst st),
      km_WrapKey = \<lambda>c pt md. fb_primary (km_WrapKey P c pt md),
      km_UnwrapKey = fb_UnwrapKey P F,
      km_ActiveKeyVersion = \<lambda>c. fb_primary (km_ActiveKeyVersion P c),
      km_HealthCheck = \<lambda>c. fb_primary (km_HealthCheck P c),
      km_Close = fb_Close P F,
      km_rotation = map_option (forward_rotation fst (\<lambda>s st. (s, snd st))) (km_rotation P)\<rparr>"

text \<open>
  Two managers whose envelopes cannot be confused: the primary does not label its envelopes as
  password envelopes.
\<close>

locale fallback_pair =
  primary: key_manager_contract P inv closed wrappable holds +
  fallback: key_manager_contract F inv' closed' wrappable' holds'
  for P :: "'s key_manager" and inv closed wrappable holds and F :: "'t key_manager" and inv' closed' wrappable' holds' +
  assumes native: "inv s \<Longrightarrow> km_WrapKey P c pt md s = (Inr env, s') \<Longrightarrow> env_Provider env \<noteq> passwordKMProvider"
begin

text \<open>
  The pair holds the envelopes of the primary, and those password envelopes of the fallback
  which the primary rejects.
\<close>

definition pair_holds :: "'s \<times> 't \<Rightarrow> key_envelope \<Rightarrow> bytes \<Rightarrow> bool" where
  "pair_holds st env k \<longleftrightarrow>
     env_Provider env \<noteq> passwordKMProvider \<and> holds (fst st) env k \<or>
     env_Provider env = passwordKMProvider \<and> holds' (snd st) env k \<and>
       (\<forall>c md s k' s'. inv s \<longrightarrow> km_UnwrapKey P c (Some env) md s \<noteq> (Inr k', s'))"

lemma fb_unwrap_cases:
  assumes "fb_UnwrapKey P F c e md (s, t) = (u, s', t')"
  shows "\<exists>r. km_UnwrapKey P c e md s = (r, s') \<and>
    (t' = t \<and> u = r \<or>
     (\<exists>r'. km_UnwrapKey F c e md t = (r', t') \<and> (\<forall>k. u = Inr k \<longrightarrow> r' = Inr k) \<and>
        (\<exists>env. e = Some env \<and> env_Provider env = passwordKMProvider)))"
  using assms by (auto simp: fb_UnwrapKey_def split: prod.splits sum.splits if_splits option.splits)

lemma pair_contract:
  "key_manager_contract (NewFallbackKeyManager P F) (\<lambda>(s, t). inv s \<and> inv' t) (\<lambda>(s, t). closed s \<and> closed' t)
     wrappable pair_holds"
proof (unfold_locales, goal_cases)
  case (1 st c pt md r st')
  obtain s t where st: "st = (s, t)" by (cases st)
  obtain r s' where w: "km_WrapKey P c pt md s = (r, s')" by (cases "km_WrapKey P c pt md s")
  then have "st' = (s', t)" using 1(2) st by (simp add: NewFallbackKeyManager_def fb_primary_def)
  then show ?case using primary.wrap_inv [OF _ w] 1(1) st by (auto simp: pair_holds_def)
next
  case (2 st c pt md env st')
  obtain s t where st: "st = (s, t)" by (cases st)
  obtain s' where w: "km_WrapKey P c pt md s = (Inr env, s')" "st' = (s', t)"
    using 2(2) st by (auto simp: NewFallbackKeyManager_def fb_primary_def split: prod.splits)
  then show ?case using primary.wrap_holds [OF _ w(1) 2(3)] native [OF _ w(1)] 2(1) st by (simp add: pair_holds_def)
next
  case (3 st c pt md env st')
  then show ?case
    using primary.wrap_closed [of "fst st" c pt md env]
    by (cases st) (auto simp: NewFallbackKeyManager_def fb_primary_def split: prod.splits)
next
  case (4 st c e md u st')
  obtain s t s' t' where st: "st = (s, t)" "st' = (s', t')" by (cases st; cases st')
  with 4(2) have "fb_UnwrapKey P F c e md (s, t) = (u, s', t')" by (simp add: NewFallbackKeyManager_def)
  from fb_unwrap_cases [OF this] obtain r r' where u: "km_UnwrapKey P c e md s = (r, s')"
      "t' = t \<or> km_UnwrapKey F c e md t = (r', t')"
    by blast
  have "inv s' \<and> (closed s' \<longleftrightarrow> closed s) \<and> (\<forall>e k. holds s e k \<longrightarrow> holds s' e k)"
    using primary.unwrap_inv [OF _ u(1)] 4(1) st by simp
  moreover have "inv' t' \<and> (closed' t' \<longleftrightarrow> closed' t) \<and> (\<forall>e k. holds' t e k \<longrightarrow> holds' t' e k)"
    using u(2) fallback.unwrap_inv [of t c e md r' t'] 4(1) st by auto
  ultimately show ?case using st by (auto simp: pair_holds_def)
next
  case (5 st c env md k' st' k)
  obtain s t s' t' where st: "st = (s, t)" "st' = (s', t')" by (cases st; cases st')
  with 5(2) have "fb_UnwrapKey P F c (Some env) md (s, t) = (Inr k', s', t')" by (simp add: NewFallbackKeyManager_def)
  from fb_unwrap_cases [OF this] obtain r where u: "km_UnwrapKey P c (Some env) md s = (r, s')"
      "r = Inr k' \<or> km_UnwrapKey F c (Some env) md t = (Inr k', t') \<and> env_Provider env = passwordKMProvider"
    by auto
  show ?case
  proof (cases "env_Provider env = passwordKMProvider")
    case True
    then have h: "holds' t env k" "r \<noteq> Inr k'" using 5(1,3) st u(1) by (auto simp: pair_holds_def)
    then show ?thesis using u(2) fallback.unwrap_holds [of t c env md k' t' k] 5(1) st by auto
  next
    case False
    then show ?thesis using u primary.unwrap_holds [of s c env md k' s' k] 5(1,3) st by (auto simp: pair_holds_def)
  qed
next
  case (6 st c e md k' st')
  obtain s t s' t' where st: "st = (s, t)" "st' = (s', t')" by (cases st; cases st')
  with 6(2) have "fb_UnwrapKey P F c e md (s, t) = (Inr k', s', t')" by (simp add: NewFallbackKeyManager_def)
  from fb_unwrap_cases [OF this] have "km_UnwrapKey P c e md s = (Inr k', s') \<or> km_UnwrapKey F c e md t = (Inr k', t')"
    by auto
  then show ?case
    using primary.unwrap_closed [of s c e md k' s'] fallback.unwrap_closed [of t c e md k' t'] 6(1) st by auto
next
  case (7 st c x st')
  obtain s t where st: "st = (s, t)" by (cases st)
  obtain r s' r' t' where cl: "km_Close P c s = (r, s')" "km_Close F c t = (r', t')"
    by (cases "km_Close P c s"; cases "km_Close F c t")
  then show ?case
    using 7 st primary.close_inv [OF _ cl(1)] fallback.close_inv [OF _ cl(2)]
    by (auto simp: NewFallbackKeyManager_def fb_Close_def)
next
  case (8 st c)
  then show ?case
    using primary.close_again fallback.close_again
    by (cases st) (auto simp: NewFallbackKeyManager_def fb_Close_def)
qed

end

section \<open>The deployed stack\<close>

text \<open>
  As \<^verbatim>\<open>BuildKeyManager\<close> of \<^verbatim>\<open>internal/api/crypto_factory.go\<close> and \<^verbatim>\<open>cmd/server/main.go\<close> put it
  together: the circuit breaker directly around the self-contained manager, and the password
  fallback around both.
\<close>

definition deployedStack ::
  "circuit_breaker_config \<Rightarrow> aead_family \<Rightarrow> kdf_funs \<Rightarrow> aead_family \<Rightarrow>
     ((breaker \<times> aes_kek_manager) \<times> password_key_manager) key_manager" where
  "deployedStack cfg G K G' =
     NewFallbackKeyManager (NewCircuitBreakerKeyManager cfg (aesKEKManager G)) (passwordKeyManager K G')"

text \<open>The primary must not itself be named like the password manager.\<close>

definition stack_inv :: "breaker \<times> aes_kek_manager \<Rightarrow> bool" where
  "stack_inv bm \<longleftrightarrow> ak_inv (snd bm) \<and> ak_providerName (snd bm) \<noteq> passwordKMProvider"

lemma aes_kek_named:
  "key_manager_contract (aesKEKManager G) (\<lambda>m. ak_inv m \<and> ak_providerName m \<noteq> passwordKMProvider) ak_closed
     (\<lambda>_. True) (ak_holds G)"
  by (rule aes_kek.restrict_inv) (auto simp: aesKEKManager_def ak_Close_def)

lemma breaker_aes_kek:
  "key_manager_contract (NewCircuitBreakerKeyManager cfg (aesKEKManager G)) stack_inv (\<lambda>(b, s). cb_closed b)
     (\<lambda>_. True) (\<lambda>(b, s). ak_holds G s)"
proof -
  have "stack_inv = (\<lambda>(b, m). ak_inv m \<and> ak_providerName m \<noteq> passwordKMProvider)"
    by (auto simp: stack_inv_def fun_eq_iff)
  then show ?thesis using key_manager_contract.breaker_contract [OF aes_kek_named] by simp
qed

interpretation stack: fallback_pair "NewCircuitBreakerKeyManager cfg (aesKEKManager G)" stack_inv
  "\<lambda>(b, s). cb_closed b" "\<lambda>_. True" "\<lambda>(b, s). ak_holds G s"
  "passwordKeyManager K G'" "\<lambda>_. True" pm_closed "\<lambda>_. True" "pm_holds K G'" for cfg G K G'
proof (intro fallback_pair.intro fallback_pair_axioms.intro)
  show "env_Provider env \<noteq> passwordKMProvider"
    if "stack_inv s" "km_WrapKey (NewCircuitBreakerKeyManager cfg (aesKEKManager G)) c pt md s = (Inr env, s')"
    for s c pt md env s'
    using that by (cases s) (auto simp: NewCircuitBreakerKeyManager_def cb_guarded_Inr aesKEKManager_def ak_WrapKey_def
        stack_inv_def split: option.splits if_splits sum.splits)
qed (rule breaker_aes_kek password.key_manager_contract_axioms)+


text \<open>A key that is wrapped and unwrapped by the stack in its normal state.\<close>

definition ex_kdf :: kdf_funs where
  "ex_kdf = \<lparr>PBKDF2 = \<lambda>pw salt n. Inr (replicate 32 (sum_bytes (pw @ salt))),
     Argon2IDKey = \<lambda>pw salt t m th. replicate 32 (sum_bytes salt), FipsBuild = False\<rparr>"

definition ex_kek :: aes_kek_manager where
  "ex_kek = \<lparr>ak_providerName = ''self_contained'', ak_keys = [(1, replicate 32 7)], ak_activeVersion = 1, ak_closed = False\<rparr>"

lemma ex_kek_new: "NewAESKEKManager [(1, replicate 32 7)] 1 [] = Inr ex_kek"
  by (simp add: NewAESKEKManager_def list_all_iff ex_kek_def)


section \<open>Reads of old objects and the breaker\<close>

text \<open>
  The breaker counts every error of the manager it guards, also the refusal of an envelope
  that belongs to the password manager, which the fallback then unwraps.
\<close>

abbreviation stack_read where
  "stack_read cfg G K G' c env md \<equiv> km_UnwrapKey (deployedStack cfg G K G') c (Some env) md"

lemma stack_read_password:
  assumes "ak_UnwrapKey G c (Some env) md m = Inl e" and "errIs e ErrUnwrapFailed"
    and "env_Provider env = passwordKMProvider" and "pm_UnwrapKey K G' c (Some env) md p = Inr k"
    and "cb_state b = cbStateClosed" and "\<not> cb_closed b"
  shows "stack_read cfg G K G' c env md ((b, m), p) = (Inr k, (recordResult cfg (later c) False b, m), p)"
  using assms by (simp add: deployedStack_def NewFallbackKeyManager_def NewCircuitBreakerKeyManager_def fb_UnwrapKey_def
      cb_guarded_def allowRequest_def aesKEKManager_def passwordKeyManager_def)

text \<open>
  C30. Reading objects from before the migration takes the key manager down. As many reads of
  password-wrapped envelopes in a row as the failure threshold all succeed through the
  fallback, but each counts as a failure of the healthy primary: the breaker opens, and until
  its timeout the next such read, like every request for any other object, is refused.
\<close>

theorem password_reads_trip_breaker:
  assumes prim: "ak_UnwrapKey G c (Some env) md m = Inl e" "errIs e ErrUnwrapFailed"
    and env: "env_Provider env = passwordKMProvider" and pw: "pm_UnwrapKey K G' c (Some env) md p = Inr k"
    and b: "cb_state b = cbStateClosed" "\<not> cb_closed b" "cb_failures b = 0"
    and n: "int n = ConsecutiveFailures cfg" "0 < n" and t: "now c - later c < OpenTimeout cfg"
  shows "(\<forall>i < n. fst (stack_read cfg G K G' c env md (((snd \<circ> stack_read cfg G K G' c env md) ^^ i) ((b, m), p))) = Inr k) \<and>
    fst (stack_read cfg G K G' c env md (((snd \<circ> stack_read cfg G K G' c env md) ^^ n) ((b, m), p))) = Inl cbUnavailable"
proof -
  let ?read = "stack_read cfg G K G' c env md"
  define st where "st i = ((b\<lparr>cb_failures := int i\<rparr>, m), p)" for i
  have step: "?read (st i) = (Inr k, if i + 1 < n then st (i + 1)
      else ((b\<lparr>cb_state := cbStateOpen, cb_openedAt := later c, cb_failures := 0\<rparr>, m), p))" if "i < n" for i
    using stack_read_password [OF prim env pw, of "b\<lparr>cb_failures := int i\<rparr>" cfg] b(1,2) that n(1)
    by (auto simp: st_def recordResult_def Let_def)
  have start: "((b, m), p) = st 0" using b(3) by (simp add: st_def)
  have iter: "((snd \<circ> ?read) ^^ i) ((b, m), p) = st i" if "i < n" for i
    using that by (induction i) (simp_all add: start step)
  obtain j where j: "n = Suc j" using n(2) by (cases n) auto
  have last: "((snd \<circ> ?read) ^^ n) ((b, m), p) =
      ((b\<lparr>cb_state := cbStateOpen, cb_openedAt := later c, cb_failures := 0\<rparr>, m), p)"
    using iter [of j] step [of j] j by simp
  have "fst (?read (((snd \<circ> ?read) ^^ n) ((b, m), p))) = Inl cbUnavailable"
    unfolding last using t b(2) env
    by (simp add: deployedStack_def NewFallbackKeyManager_def NewCircuitBreakerKeyManager_def fb_UnwrapKey_def
        cb_guarded_def allowRequest_def cbUnavailable_def)
  then show ?thesis using iter step by auto
qed

definition ex_old_env :: key_envelope where
  "ex_old_env = \<lparr>KeyID = [], KeyVersion = 1, env_Provider = passwordKMProvider,
     Ciphertext = be32 1 @ [0] @ be32 600000 @ map of_nat [0..<32] @ map of_nat [0..<12] @
       Seal (newGCM ex_gcm (replicate 32 (sum_bytes (replicate 12 65 @ map of_nat [0..<32])))) (map of_nat [0..<12]) [1, 2, 3] [],
     CreatedAt = 5\<rparr>"

lemma ex_old_env_wrapped:
  "\<exists>p. NewPasswordKeyManager False (replicate 12 65) [] = Inr p \<and>
     pm_WrapKey ex_kdf ex_gcm ex_call [1, 2, 3] Map.empty p = Inr ex_old_env \<and> \<not> pm_closed p"
  by (simp add: NewPasswordKeyManager_def pm_WrapKey_def ValidateKDFParams_def DefaultKDFLimits_def kdf_consts
      kdf_kmerr_def ex_call_def rand_read_def deriveWrappingKey_def ex_kdf_def newCipher_def aesKeySizes_def
      ex_old_env_def kdfAlgByte_def kdfParamsBytes_def envelopeVersionMarker_def envelopeAlgPBKDF2_def saltSize_def nonceSize_def)

lemma ex_old_env_foreign: "\<exists>e. ak_UnwrapKey ex_gcm ex_call (Some ex_old_env) Map.empty ex_kek = Inl e \<and> errIs e ErrUnwrapFailed"
proof -
  have "Open (newGCM ex_gcm (replicate 32 7)) (take 12 (Ciphertext ex_old_env)) (drop 12 (Ciphertext ex_old_env)) [] = None"
    unfolding ex_old_env_def newGCM_ex by code_simp
  moreover have "28 \<le> length (Ciphertext ex_old_env)" unfolding ex_old_env_def newGCM_ex by code_simp
  moreover have "KeyVersion ex_old_env = 1" by (simp add: ex_old_env_def)
  ultimately show ?thesis
    by (simp add: ak_UnwrapKey_def ex_call_def ex_kek_def ak_candidateVersions_def ak_tryUnwrap_def gcmOpen_def
        newCipher_def aesKeySizes_def)
qed

theorem password_reads_trip_breaker_witness:
  "\<exists>p. NewPasswordKeyManager False (replicate 12 65) [] = Inr p \<and>
     (let read = stack_read DefaultCircuitBreakerConfig ex_gcm ex_kdf ex_gcm ex_call ex_old_env Map.empty in
      fst (read ((newBreaker, ex_kek), p)) = Inr [1, 2, 3] \<and>
      fst (read (((snd \<circ> read) ^^ 5) ((newBreaker, ex_kek), p))) = Inl cbUnavailable)"
proof -
  obtain p where p: "NewPasswordKeyManager False (replicate 12 65) [] = Inr p"
      "pm_WrapKey ex_kdf ex_gcm ex_call [1, 2, 3] Map.empty p = Inr ex_old_env" "\<not> pm_closed p"
    using ex_old_env_wrapped by blast
  obtain e where e: "ak_UnwrapKey ex_gcm ex_call (Some ex_old_env) Map.empty ex_kek = Inl e" "errIs e ErrUnwrapFailed"
    using ex_old_env_foreign by blast
  have pw: "pm_UnwrapKey ex_kdf ex_gcm ex_call (Some ex_old_env) Map.empty p = Inr [1, 2, 3]"
    using pm_UnwrapKey_holds [OF pm_WrapKey_holds [OF p(2)]] p(3) by simp
  have env: "env_Provider ex_old_env = passwordKMProvider" by (simp add: ex_old_env_def)
  have b: "cb_state newBreaker = cbStateClosed" "\<not> cb_closed newBreaker" "cb_failures newBreaker = 0"
    by (simp_all add: newBreaker_def)
  have cfg: "int 5 = ConsecutiveFailures DefaultCircuitBreakerConfig"
      "now ex_call - later ex_call < OpenTimeout DefaultCircuitBreakerConfig"
    by (simp_all add: DefaultCircuitBreakerConfig_def ex_call_def)
  note trip = password_reads_trip_breaker [OF e env pw b cfg(1) _ cfg(2)]
  show ?thesis
    using trip [THEN conjunct1, rule_format, of 0] trip [THEN conjunct2] p(1) unfolding Let_def by auto
qed

end
