(* ===== verification/Dek_Cache.thy ===== *)
theory Dek_Cache
  imports Key_Manager "HOL-Library.AList"
begin

text \<open>
  \<^verbatim>\<open>internal/crypto/keymanager_cache.go\<close>: the cache of unwrapped object keys in front of a key
  manager. The lookup, the promotion, the insertion, the cleanup tick and \<^verbatim>\<open>Close\<close> are separate
  critical sections that interleave between goroutines. The hash function of the fingerprint
  (package crypto/sha256) is a parameter.
\<close>

section \<open>State\<close>

record cache_entry =
  ce_plaintext :: bytes
  ce_expiresAt :: int

record dek_cache_config =
  dc_Enabled :: bool
  dc_TTL :: int
  dc_MaxEntries :: int
  dc_CleanupInterval :: int

definition second :: int where "second = 10 ^ 9"

definition DefaultDEKCacheConfig :: dek_cache_config where
  "DefaultDEKCacheConfig = \<lparr>dc_Enabled = False, dc_TTL = 60 * second, dc_MaxEntries = 1000, dc_CleanupInterval = 0\<rparr>"

record dek_cache =
  dc_entries :: "(bytes \<times> cache_entry) list"
  dc_lruOrder :: "bytes list"
  dc_closed :: bool

text \<open>The effective configuration and the interval of the cleanup ticker.\<close>

definition NewCachingKeyManager :: "dek_cache_config \<Rightarrow> dek_cache_config \<times> int \<times> dek_cache" where
  "NewCachingKeyManager cfg0 =
     (let cfg1 = (if dc_TTL cfg0 \<le> 0 then cfg0\<lparr>dc_TTL := dc_TTL DefaultDEKCacheConfig\<rparr> else cfg0);
          cfg = (if dc_MaxEntries cfg1 \<le> 0 then cfg1\<lparr>dc_MaxEntries := dc_MaxEntries DefaultDEKCacheConfig\<rparr> else cfg1);
          cleanupInterval =
            (if dc_CleanupInterval cfg \<le> 0 then max (dc_TTL cfg div 2) (5 * second) else dc_CleanupInterval cfg)
      in (cfg, cleanupInterval, \<lparr>dc_entries = [], dc_lruOrder = [], dc_closed = False\<rparr>))"

section \<open>Critical sections\<close>

definition dc_live :: "int \<Rightarrow> cache_entry \<Rightarrow> bool" where
  "dc_live t e \<longleftrightarrow> \<not> t > ce_expiresAt e"

definition dc_lookup :: "int \<Rightarrow> bytes \<Rightarrow> dek_cache \<Rightarrow> bytes option" where
  "dc_lookup t fp s =
     (case map_of (dc_entries s) fp of
        Some e \<Rightarrow> if dc_live t e then Some (ce_plaintext e) else None
      | None \<Rightarrow> None)"

text \<open>The first occurrence is moved to the end, unless it is there.\<close>

fun promote :: "bytes \<Rightarrow> bytes list \<Rightarrow> bytes list" where
  "promote fp [] = []"
| "promote fp (x # xs) = (if x = fp then (if xs = [] then [x] else xs @ [fp]) else x # promote fp xs)"

definition promoteToFront :: "bytes \<Rightarrow> dek_cache \<Rightarrow> dek_cache" where
  "promoteToFront fp s = s\<lparr>dc_lruOrder := promote fp (dc_lruOrder s)\<rparr>"

fun evict_loop :: "int \<Rightarrow> (bytes \<times> cache_entry) list \<Rightarrow> bytes list \<Rightarrow> (bytes \<times> cache_entry) list \<times> bytes list" where
  "evict_loop maxEntries es [] = (es, [])"
| "evict_loop maxEntries es (fp # order) =
     (if int (length es) > maxEntries then evict_loop maxEntries (AList.delete fp es) order else (es, fp # order))"

definition evictLRU :: "dek_cache_config \<Rightarrow> dek_cache \<Rightarrow> dek_cache" where
  "evictLRU cfg s =
     (case evict_loop (dc_MaxEntries cfg) (dc_entries s) (dc_lruOrder s) of
        (es, order) \<Rightarrow> s\<lparr>dc_entries := es, dc_lruOrder := order\<rparr>)"

text \<open>What \<^verbatim>\<open>UnwrapKey\<close> does after the inner manager returned \<open>pt\<close>: the key it returns and the new state.\<close>

definition dc_store :: "dek_cache_config \<Rightarrow> int \<Rightarrow> bytes \<Rightarrow> bytes \<Rightarrow> dek_cache \<Rightarrow> bytes \<times> dek_cache" where
  "dc_store cfg t fp pt s =
     (case dc_lookup t fp s of
        Some hit \<Rightarrow> (hit, promoteToFront fp s)
      | None \<Rightarrow>
          let es = (fp, \<lparr>ce_plaintext = pt, ce_expiresAt = t + dc_TTL cfg\<rparr>) # AList.delete fp (dc_entries s);
              s1 = s\<lparr>dc_entries := es, dc_lruOrder := dc_lruOrder s @ [fp]\<rparr>
          in (pt, if int (length es) > dc_MaxEntries cfg then evictLRU cfg s1 else s1))"

fun expire_loop :: "int \<Rightarrow> (bytes \<times> cache_entry) list \<Rightarrow> bytes list \<Rightarrow> (bytes \<times> cache_entry) list \<times> bytes list" where
  "expire_loop t es [] = (es, [])"
| "expire_loop t es (fp # order) =
     (case map_of es fp of
        None \<Rightarrow> expire_loop t es order
      | Some e \<Rightarrow>
          if dc_live t e then (case expire_loop t es order of (es', order') \<Rightarrow> (es', fp # order'))
          else expire_loop t (AList.delete fp es) order)"

definition evictExpired :: "int \<Rightarrow> dek_cache \<Rightarrow> dek_cache" where
  "evictExpired t s =
     (case expire_loop t (dc_entries s) (dc_lruOrder s) of (es, order) \<Rightarrow> s\<lparr>dc_entries := es, dc_lruOrder := order\<rparr>)"

definition dc_clear :: "dek_cache \<Rightarrow> dek_cache" where
  "dc_clear s = s\<lparr>dc_closed := True, dc_entries := [], dc_lruOrder := []\<rparr>"

section \<open>The decorated key manager\<close>

definition dc_UnwrapKey ::
  "(bytes \<Rightarrow> bytes) \<Rightarrow> dek_cache_config \<Rightarrow> 's key_manager \<Rightarrow> km_call \<Rightarrow> key_envelope option \<Rightarrow> metadata \<Rightarrow>
     dek_cache \<times> 's \<Rightarrow> (kmerr + bytes) \<times> dek_cache \<times> 's" where
  "dc_UnwrapKey sha cfg M c envelope md cs =
     (case cs of (d, s) \<Rightarrow>
        (case envelope of
           None \<Rightarrow> (case km_UnwrapKey M c envelope md s of (r, s') \<Rightarrow> (r, d, s'))
         | Some env \<Rightarrow>
             if \<not> dc_Enabled cfg then (case km_UnwrapKey M c envelope md s of (r, s') \<Rightarrow> (r, d, s'))
             else
               let fp = sha (Ciphertext env) in
               (case dc_lookup (now c) fp d of
                  Some hit \<Rightarrow> (Inr hit, promoteToFront fp d, s)
                | None \<Rightarrow>
                    (case km_UnwrapKey M c envelope md s of
                       (Inl e, s') \<Rightarrow> (Inl e, d, s')
                     | (Inr pt, s') \<Rightarrow> (case dc_store cfg (later c) fp pt d of (k, d') \<Rightarrow> (Inr k, d', s'))))))"

definition dc_Close :: "'s key_manager \<Rightarrow> km_call \<Rightarrow> dek_cache \<times> 's \<Rightarrow> (kmerr + unit) \<times> dek_cache \<times> 's" where
  "dc_Close M c cs =
     (case cs of (d, s) \<Rightarrow>
        if dc_closed d then (Inr (), d, s)
        else case km_Close M c s of (r, s') \<Rightarrow> (r, dc_clear d, s'))"

definition dc_inner :: "('s \<Rightarrow> 'a \<times> 's) \<Rightarrow> dek_cache \<times> 's \<Rightarrow> 'a \<times> dek_cache \<times> 's" where
  "dc_inner call cs = (case call (snd cs) of (r, s') \<Rightarrow> (r, fst cs, s'))"

definition cachingKeyManager ::
  "(bytes \<Rightarrow> bytes) \<Rightarrow> dek_cache_config \<Rightarrow> 's key_manager \<Rightarrow> (dek_cache \<times> 's) key_manager" where
  "cachingKeyManager sha cfg M =
     \<lparr>km_Provider = \<lambda>cs. km_Provider M (snd cs),
      km_WrapKey = \<lambda>c pt md. dc_inner (km_WrapKey M c pt md),
      km_UnwrapKey = dc_UnwrapKey sha cfg M,
      km_ActiveKeyVersion = \<lambda>c. dc_inner (km_ActiveKeyVersion M c),
      km_HealthCheck = \<lambda>c. dc_inner (km_HealthCheck M c),
      km_Close = dc_Close M,
      km_rotation = map_option (forward_rotation snd (\<lambda>s cs. (fst cs, s))) (km_rotation M)\<rparr>"

section \<open>Interleaved requests\<close>

text \<open>
  The steps of the cache, with the history of what the inner manager returned: the fingerprint,
  the key and the time it was put in.
\<close>

datatype dc_event = Promote bytes | Put int bytes bytes | Tick int | Clear

type_synonym dc_history = "(bytes \<times> bytes \<times> int) list"

fun dc_step :: "dek_cache_config \<Rightarrow> dc_event \<Rightarrow> dc_history \<times> dek_cache \<Rightarrow> dc_history \<times> dek_cache" where
  "dc_step cfg (Promote fp) (h, s) = (h, promoteToFront fp s)"
| "dc_step cfg (Put t fp pt) (h, s) = ((fp, pt, t) # h, snd (dc_store cfg t fp pt s))"
| "dc_step cfg (Tick t) (h, s) = (h, evictExpired t s)"
| "dc_step cfg Clear (h, s) = (h, dc_clear s)"

inductive dc_reachable :: "dek_cache_config \<Rightarrow> dc_history \<times> dek_cache \<Rightarrow> bool" for cfg where
  init: "dc_reachable cfg ([], \<lparr>dc_entries = [], dc_lruOrder = [], dc_closed = False\<rparr>)"
| step: "dc_reachable cfg hs \<Longrightarrow> dc_reachable cfg (dc_step cfg ev hs)"

definition dc_src :: "dek_cache_config \<Rightarrow> dc_history \<Rightarrow> (bytes \<times> cache_entry) set \<Rightarrow> bool" where
  "dc_src cfg h es \<longleftrightarrow> (\<forall>(fp, e) \<in> es. \<exists>t. (fp, ce_plaintext e, t) \<in> set h \<and> ce_expiresAt e = t + dc_TTL cfg)"

lemma dc_src_mono: "dc_src cfg h es \<Longrightarrow> es' \<subseteq> es \<Longrightarrow> set h \<subseteq> set h' \<Longrightarrow> dc_src cfg h' es'"
  unfolding dc_src_def by blast

lemma dc_src_insert:
  "dc_src cfg h es \<Longrightarrow> dc_src cfg ((fp, pt, t) # h) (insert (fp, \<lparr>ce_plaintext = pt, ce_expiresAt = t + dc_TTL cfg\<rparr>) es)"
  by (fastforce simp: dc_src_def)

definition dc_inv :: "dek_cache_config \<Rightarrow> dc_history \<times> dek_cache \<Rightarrow> bool" where
  "dc_inv cfg hs \<longleftrightarrow>
     distinct (map fst (dc_entries (snd hs))) \<and>
     fst ` set (dc_entries (snd hs)) \<subseteq> set (dc_lruOrder (snd hs)) \<and>
     int (length (dc_entries (snd hs))) \<le> max 0 (dc_MaxEntries cfg) \<and>
     dc_src cfg (fst hs) (set (dc_entries (snd hs)))"

lemma set_promote [simp]: "set (promote fp xs) = set xs"
  by (induction xs) auto

lemma delete_set: "set (AList.delete k al) = {p \<in> set al. fst p \<noteq> k}"
  by (auto simp: AList.delete_eq)

lemma delete_distinct: "distinct (map fst al) \<Longrightarrow> distinct (map fst (AList.delete k al))"
  by (rule distinct_delete)

lemma evict_loop_props:
  "evict_loop n es order = (es', order') \<Longrightarrow> distinct (map fst es) \<Longrightarrow> fst ` set es \<subseteq> set order \<Longrightarrow>
     set es' \<subseteq> set es \<and> distinct (map fst es') \<and> fst ` set es' \<subseteq> set order' \<and> int (length es') \<le> max 0 n"
proof (induction n es order rule: evict_loop.induct)
  case (2 n es fp order)
  show ?case
  proof (cases "int (length es) > n")
    case True
    have "set es' \<subseteq> set (AList.delete fp es) \<and> distinct (map fst es') \<and> fst ` set es' \<subseteq> set order' \<and> int (length es') \<le> max 0 n"
      using 2 True by (intro "2.IH") (auto simp: delete_set delete_distinct)
    then show ?thesis by (auto simp: delete_set)
  qed (use 2 in auto)
qed auto

lemma expire_loop_props:
  "expire_loop t es order = (es', order') \<Longrightarrow> distinct (map fst es) \<Longrightarrow> fst ` set es \<subseteq> D \<union> set order \<Longrightarrow>
     set es' \<subseteq> set es \<and> distinct (map fst es') \<and> fst ` set es' \<subseteq> D \<union> set order' \<and> length es' \<le> length es"
proof (induction order arbitrary: es D es' order')
  case (Cons fp order)
  show ?case
  proof (cases "map_of es fp")
    case None
    then have "fst ` set es \<subseteq> D \<union> set order" using Cons.prems(3) by (auto simp: map_of_eq_None_iff)
    moreover have "expire_loop t es order = (es', order')" using Cons.prems(1) None by simp
    ultimately show ?thesis using Cons.IH Cons.prems(2) by blast
  next
    case (Some e)
    show ?thesis
    proof (cases "dc_live t e")
      case True
      obtain o1 where o1: "expire_loop t es order = (es', o1)" "order' = fp # o1"
        using Cons.prems(1) Some True by (auto split: prod.splits)
      have "fst ` set es \<subseteq> insert fp D \<union> set order" using Cons.prems(3) by auto
      from Cons.IH [OF o1(1) Cons.prems(2) this] o1(2) show ?thesis by auto
    next
      case False
      have "expire_loop t (AList.delete fp es) order = (es', order')" using Cons.prems(1) Some False by simp
      moreover have "fst ` set (AList.delete fp es) \<subseteq> D \<union> set order"
        using Cons.prems(3) by (auto simp: delete_set)
      ultimately have "set es' \<subseteq> set (AList.delete fp es) \<and> distinct (map fst es') \<and> fst ` set es' \<subseteq> D \<union> set order' \<and>
          length es' \<le> length (AList.delete fp es)"
        using Cons.IH delete_distinct [OF Cons.prems(2)] by blast
      then show ?thesis using length_delete_le [of fp es] unfolding delete_set by auto
    qed
  qed
qed simp

lemma dc_lookup_Some: "dc_lookup t fp s = Some k \<longleftrightarrow> (\<exists>e. map_of (dc_entries s) fp = Some e \<and> dc_live t e \<and> k = ce_plaintext e)"
  by (auto simp: dc_lookup_def split: option.splits)

lemma dc_inv_sub:
  assumes "dc_inv cfg (h, s)" and "set es \<subseteq> set (dc_entries s)" and "distinct (map fst es)"
    and "fst ` set es \<subseteq> set order" and "length es \<le> length (dc_entries s)"
  shows "dc_inv cfg (h, s\<lparr>dc_entries := es, dc_lruOrder := order\<rparr>)"
  using assms dc_src_mono [of cfg h "set (dc_entries s)" "set es" h] by (simp add: dc_inv_def)

lemma dc_store_inv:
  assumes inv: "dc_inv cfg (h, s)"
  shows "dc_inv cfg ((fp, pt, t) # h, snd (dc_store cfg t fp pt s))"
proof (cases "dc_lookup t fp s")
  case None
  define es where "es = (fp, \<lparr>ce_plaintext = pt, ce_expiresAt = t + dc_TTL cfg\<rparr>) # AList.delete fp (dc_entries s)"
  have es: "distinct (map fst es)" "fst ` set es \<subseteq> set (dc_lruOrder s @ [fp])"
    using inv delete_distinct [of "dc_entries s" fp] by (auto simp: dc_inv_def es_def delete_set)
  have "dc_src cfg h (set (AList.delete fp (dc_entries s)))"
    using inv dc_src_mono [of cfg h "set (dc_entries s)" _ h] by (auto simp: dc_inv_def delete_set)
  then have src: "dc_src cfg ((fp, pt, t) # h) (set es)" using dc_src_insert by (simp add: es_def)
  obtain es' order' where ev: "evict_loop (dc_MaxEntries cfg) es (dc_lruOrder s @ [fp]) = (es', order')"
    by (cases "evict_loop (dc_MaxEntries cfg) es (dc_lruOrder s @ [fp])")
  note props = evict_loop_props [OF ev es]
  have "snd (dc_store cfg t fp pt s) =
      (if int (length es) > dc_MaxEntries cfg then s\<lparr>dc_entries := es', dc_lruOrder := order'\<rparr>
       else s\<lparr>dc_entries := es, dc_lruOrder := dc_lruOrder s @ [fp]\<rparr>)"
    using None ev by (simp add: dc_store_def Let_def es_def evictLRU_def)
  moreover have "dc_src cfg ((fp, pt, t) # h) (set es')" using src props dc_src_mono by blast
  ultimately show ?thesis using props es src by (simp add: dc_inv_def)
next
  case (Some k)
  moreover have "dc_src cfg ((fp, pt, t) # h) (set (dc_entries s))"
    using inv dc_src_mono [of cfg h "set (dc_entries s)" "set (dc_entries s)" "(fp, pt, t) # h"] by (auto simp: dc_inv_def)
  ultimately show ?thesis using inv by (simp add: dc_inv_def dc_store_def promoteToFront_def)
qed

lemma dc_step_inv: "dc_inv cfg hs \<Longrightarrow> dc_inv cfg (dc_step cfg ev hs)"
proof (cases hs; cases ev)
  fix h s t
  assume hs: "hs = (h, s)" "ev = Tick t" and inv: "dc_inv cfg hs"
  obtain es' order' where ev: "expire_loop t (dc_entries s) (dc_lruOrder s) = (es', order')"
    by (cases "expire_loop t (dc_entries s) (dc_lruOrder s)")
  have "distinct (map fst (dc_entries s))" "fst ` set (dc_entries s) \<subseteq> {} \<union> set (dc_lruOrder s)"
    using inv hs by (auto simp: dc_inv_def)
  from expire_loop_props [OF ev this] show ?thesis
    using dc_inv_sub [of cfg h s es' order'] inv hs ev by (simp add: evictExpired_def)
qed (auto simp: dc_store_inv, auto simp: dc_inv_def promoteToFront_def dc_clear_def dc_src_def)

lemma dc_reachable_inv: "dc_reachable cfg hs \<Longrightarrow> dc_inv cfg hs"
proof (induction rule: dc_reachable.induct)
  case init
  show ?case by (simp add: dc_inv_def dc_src_def)
qed (rule dc_step_inv)

section \<open>Properties\<close>


definition ex_cache_cfg :: dek_cache_config where
  "ex_cache_cfg = \<lparr>dc_Enabled = True, dc_TTL = 10, dc_MaxEntries = 2, dc_CleanupInterval = 5\<rparr>"

definition ex_cache_run :: "dc_event list \<Rightarrow> dc_history \<times> dek_cache" where
  "ex_cache_run evs = fold (dc_step ex_cache_cfg) evs ([], \<lparr>dc_entries = [], dc_lruOrder = [], dc_closed = False\<rparr>)"

lemma ex_cache_reachable: "dc_reachable ex_cache_cfg (ex_cache_run evs)"
proof -
  have "dc_reachable ex_cache_cfg hs \<Longrightarrow> dc_reachable ex_cache_cfg (fold (dc_step ex_cache_cfg) evs hs)" for hs
    by (induction evs arbitrary: hs) (simp_all add: dc_reachable.step del: split_paired_All)
  then show ?thesis unfolding ex_cache_run_def using dc_reachable.init by blast
qed



end
