(* ===== verification/Rotation.thy ===== *)
theory Rotation
  imports Key_Manager Go_Strings Aes_Kek_Manager Memory_Key_Manager
begin

text \<open>
  Key rotation: the drain-and-cutover state machine of \<^verbatim>\<open>internal/crypto/rotation_state.go\<close> and
  the admin handlers of \<^verbatim>\<open>internal/api/admin_rotation.go\<close> that drive it. Wraps of object
  requests, the drain poller and concurrent admin requests interleave between the critical
  sections. Audit records and metrics are left out; they do not feed back.
\<close>

section \<open>The state machine\<close>

datatype rotation_phase =
    RotationIdle
  | RotationDraining
  | RotationReadyToCutover
  | RotationCommitting
  | RotationCommitted
  | RotationAborted

fun phase_String :: "rotation_phase \<Rightarrow> string" where
  "phase_String RotationIdle = ''idle''"
| "phase_String RotationDraining = ''draining''"
| "phase_String RotationReadyToCutover = ''ready_for_cutover''"
| "phase_String RotationCommitting = ''committing''"
| "phase_String RotationCommitted = ''committed''"
| "phase_String RotationAborted = ''aborted''"

text \<open>
  Times are \<^typ>\<open>int option\<close>, the zero time being \<^const>\<open>None\<close>. \<open>rs_stopDrain\<close> says whether the
  stop channel of the poller is closed; the last error is kept as the error whose text the code
  keeps.
\<close>

record rotation_state =
  rs_phase :: rotation_phase
  rs_rotationID :: string
  rs_currentVersion :: int
  rs_targetVersion :: int
  rs_provider :: string
  rs_plan :: "rotation_plan option"
  rs_startedAt :: "int option"
  rs_completedAt :: "int option"
  rs_graceDeadline :: "int option"
  rs_lastError :: "kmerr option"
  rs_inFlightWraps :: int
  rs_stopDrain :: bool

definition NewRotationState :: rotation_state where
  "NewRotationState = \<lparr>rs_phase = RotationIdle, rs_rotationID = [], rs_currentVersion = 0, rs_targetVersion = 0,
     rs_provider = [], rs_plan = None, rs_startedAt = None, rs_completedAt = None, rs_graceDeadline = None,
     rs_lastError = None, rs_inFlightWraps = 0, rs_stopDrain = False\<rparr>"

definition BeginWrap :: "rotation_state \<Rightarrow> rotation_state" where
  "BeginWrap rs = rs\<lparr>rs_inFlightWraps := wrap64 (rs_inFlightWraps rs + 1)\<rparr>"

definition EndWrap :: "rotation_state \<Rightarrow> rotation_state" where
  "EndWrap rs = rs\<lparr>rs_inFlightWraps := wrap64 (rs_inFlightWraps rs - 1)\<rparr>"

definition conflict :: "string \<Rightarrow> kmerr" where
  "conflict text = Errorf text [ErrRotationConflict]"

definition StartDrain ::
  "string \<Rightarrow> int \<Rightarrow> int \<Rightarrow> string \<Rightarrow> rotation_plan option \<Rightarrow> int \<Rightarrow> int \<Rightarrow> rotation_state \<Rightarrow> (kmerr + unit) \<times> rotation_state" where
  "StartDrain rotationID currentVersion targetVersion provider plan gracePeriod t rs =
     (if rs_phase rs \<noteq> RotationIdle
      then (Inl (conflict (''cannot start drain from phase '' @ phase_String (rs_phase rs))), rs)
      else (Inr (), rs\<lparr>rs_phase := RotationDraining, rs_rotationID := rotationID, rs_currentVersion := currentVersion,
        rs_targetVersion := targetVersion, rs_provider := provider, rs_plan := plan, rs_startedAt := Some t,
        rs_completedAt := None, rs_lastError := None,
        rs_graceDeadline := (if gracePeriod > 0 then Some (t + gracePeriod) else rs_graceDeadline rs),
        rs_stopDrain := False\<rparr>))"

text \<open>
  One tick of the drain poller, which has loaded \<open>count\<close> before: whether the poller ends, and
  the state.
\<close>

definition drainTick :: "int \<Rightarrow> int \<Rightarrow> rotation_state \<Rightarrow> bool \<times> rotation_state" where
  "drainTick count t rs =
     (let ready = (if rs_phase rs = RotationDraining then rs\<lparr>rs_phase := RotationReadyToCutover\<rparr> else rs) in
      if count \<le> 0 then (True, ready)
      else case rs_graceDeadline rs of
          Some d \<Rightarrow> if t > d then (True, ready) else (False, rs)
        | None \<Rightarrow> (False, rs))"

definition Commit :: "bool \<Rightarrow> rotation_state \<Rightarrow> (kmerr + unit) \<times> rotation_state" where
  "Commit force rs =
     (case rs_phase rs of
        RotationReadyToCutover \<Rightarrow> (Inr (), rs\<lparr>rs_phase := RotationCommitting\<rparr>)
      | RotationDraining \<Rightarrow>
          if force \<or> rs_inFlightWraps rs \<le> 0
          then (Inr (), rs\<lparr>rs_phase := RotationCommitting, rs_stopDrain := True\<rparr>)
          else (Inl (conflict ''cannot commit while in_flight_wraps > 0 (use force=true to override)''), rs)
      | _ \<Rightarrow> (Inl (conflict (''cannot commit from phase '' @ phase_String (rs_phase rs))), rs))"

definition MarkCommitted :: "int \<Rightarrow> rotation_state \<Rightarrow> rotation_state" where
  "MarkCommitted t rs = rs\<lparr>rs_phase := RotationCommitted, rs_completedAt := Some t\<rparr>"

definition MarkFailed :: "kmerr option \<Rightarrow> int \<Rightarrow> rotation_state \<Rightarrow> rotation_state" where
  "MarkFailed err t rs = rs\<lparr>rs_phase := RotationAborted, rs_completedAt := Some t,
     rs_lastError := (case err of None \<Rightarrow> rs_lastError rs | Some e \<Rightarrow> Some e)\<rparr>"

definition Abort :: "int \<Rightarrow> rotation_state \<Rightarrow> (kmerr + unit) \<times> rotation_state" where
  "Abort t rs =
     (if rs_phase rs = RotationDraining \<or> rs_phase rs = RotationReadyToCutover
      then (Inr (), rs\<lparr>rs_phase := RotationAborted, rs_completedAt := Some t, rs_stopDrain := True\<rparr>)
      else (Inl (conflict (''cannot abort from phase '' @ phase_String (rs_phase rs))), rs))"

definition Reset :: "rotation_state \<Rightarrow> rotation_state" where
  "Reset rs = rs\<lparr>rs_phase := RotationIdle, rs_rotationID := [], rs_currentVersion := 0, rs_targetVersion := 0,
     rs_provider := [], rs_plan := None, rs_startedAt := None, rs_completedAt := None, rs_graceDeadline := None,
     rs_lastError := None\<rparr>"

record rotation_snapshot =
  snap_RotationID :: string
  snap_Phase :: string
  snap_CurrentVersion :: int
  snap_TargetVersion :: int
  snap_InFlightWraps :: int
  snap_StartedAt :: "int option"
  snap_CompletedAt :: "int option"
  snap_GraceDeadline :: "int option"
  snap_Error :: "kmerr option"
  snap_Provider :: string
  snap_Plan :: "rotation_plan option"

definition Snapshot :: "rotation_state \<Rightarrow> rotation_snapshot" where
  "Snapshot rs = \<lparr>snap_RotationID = rs_rotationID rs, snap_Phase = phase_String (rs_phase rs),
     snap_CurrentVersion = rs_currentVersion rs, snap_TargetVersion = rs_targetVersion rs,
     snap_InFlightWraps = rs_inFlightWraps rs, snap_StartedAt = rs_startedAt rs,
     snap_CompletedAt = rs_completedAt rs, snap_GraceDeadline = rs_graceDeadline rs, snap_Error = rs_lastError rs, snap_Provider = rs_provider rs,
     snap_Plan = rs_plan rs\<rparr>"

section \<open>The admin handlers\<close>

text \<open>
  An answer is the status and the error code. A request body is either undecodable or its
  fields; the grace period is the outcome of \<^verbatim>\<open>time.ParseDuration\<close>. Each handler is
  cut at the points where other goroutines can run: the pieces are composed below, once in a
  row and once interleaved.
\<close>

type_synonym answer = "nat \<times> string"

record rotate_start_request =
  req_TargetVersion :: "int option"
  req_GracePeriod :: "(string + int) option"

definition rotatable :: "'s key_manager option \<Rightarrow> answer + 's rotation_ops" where
  "rotatable km = (case km of None \<Rightarrow> Inl (501, ''NotImplemented'')
     | Some M \<Rightarrow> (case km_rotation M of None \<Rightarrow> Inl (501, ''NotImplemented'') | Some R \<Rightarrow> Inr R))"

definition startRequest :: "string + rotate_start_request \<Rightarrow> answer + int option \<times> int" where
  "startRequest body =
     (case body of
        Inl e \<Rightarrow> Inl (400, ''BadRequest'')
      | Inr req \<Rightarrow>
          (case req_GracePeriod req of
             None \<Rightarrow> Inr (req_TargetVersion req, 30 * 10 ^ 9)
           | Some (Inl e) \<Rightarrow> Inl (400, ''BadRequest'')
           | Some (Inr d) \<Rightarrow> Inr (req_TargetVersion req, d)))"

definition startPrepare ::
  "'s rotation_ops \<Rightarrow> km_call \<Rightarrow> int option \<Rightarrow> 's \<Rightarrow> (answer + rotation_plan) \<times> 's" where
  "startPrepare R c target s =
     (case rot_Prepare R c target s of
        (Inl e, s') \<Rightarrow>
          (Inl (if errIs e ErrRotationAmbiguous then (400, ''AmbiguousTarget'')
                else if errIs e ErrKeyNotFound then (404, ''KeyNotFound'')
                else (500, ''InternalError'')), s')
      | (Inr plan, s') \<Rightarrow> (Inr plan, s'))"

definition rotationIDof :: "int \<Rightarrow> rotation_plan \<Rightarrow> string" where
  "rotationIDof t plan = ''rot-'' @ show_int (t div 10 ^ 6) @ ''-'' @ show_int (CurrentVersion plan) @ ''-to-'' @
     show_int (TargetVersion plan)"

definition startDrain ::
  "string \<Rightarrow> int \<Rightarrow> rotation_plan \<Rightarrow> int \<Rightarrow> rotation_state \<Rightarrow> answer \<times> rotation_state" where
  "startDrain provider t plan gracePeriod rs =
     (case StartDrain (rotationIDof t plan) (CurrentVersion plan) (TargetVersion plan) provider (Some plan) gracePeriod t rs of
        (Inl e, rs') \<Rightarrow>
          (if errIs e ErrRotationConflict then (409, ''RotationConflict'') else (500, ''InternalError''), rs')
      | (Inr _, rs') \<Rightarrow> ((202, []), rs'))"

definition handleRotateStart ::
  "'s key_manager option \<Rightarrow> km_call \<Rightarrow> string + rotate_start_request \<Rightarrow> rotation_state \<times> 's \<Rightarrow>
     answer \<times> rotation_state \<times> 's" where
  "handleRotateStart km c body st =
     (case rotatable km of
        Inl a \<Rightarrow> (a, st)
      | Inr R \<Rightarrow>
          (case startRequest body of
             Inl a \<Rightarrow> (a, st)
           | Inr (target, gracePeriod) \<Rightarrow>
               (case startPrepare R c target (snd st) of
                  (Inl a, s) \<Rightarrow> (a, fst st, s)
                | (Inr plan, s) \<Rightarrow>
                    (case startDrain (km_Provider (the km) s) (later c) plan gracePeriod (fst st) of
                       (a, rs) \<Rightarrow> (a, rs, s)))))"

definition commitTransition ::
  "bool \<Rightarrow> rotation_snapshot \<Rightarrow> rotation_state \<Rightarrow> (answer + rotation_plan) \<times> rotation_state" where
  "commitTransition force snap rs =
     (case Commit force rs of
        (Inl e, rs') \<Rightarrow> (Inl (409, ''RotationConflict''), rs')
      | (Inr _, rs') \<Rightarrow>
          (Inr \<lparr>CurrentVersion = snap_CurrentVersion snap, TargetVersion = snap_TargetVersion snap\<rparr>, rs'))"

definition commitFinish :: "int \<Rightarrow> kmerr + unit \<Rightarrow> rotation_state \<Rightarrow> answer \<times> rotation_state" where
  "commitFinish t promoted rs =
     (case promoted of
        Inl e \<Rightarrow> ((500, ''PromoteFailed''), MarkFailed (Some e) t rs)
      | Inr _ \<Rightarrow> ((200, []), MarkCommitted t rs))"

definition handleRotateCommit ::
  "'s key_manager option \<Rightarrow> km_call \<Rightarrow> string + bool \<Rightarrow> rotation_state \<times> 's \<Rightarrow> answer \<times> rotation_state \<times> 's" where
  "handleRotateCommit km c body st =
     (case rotatable km of
        Inl a \<Rightarrow> (a, st)
      | Inr R \<Rightarrow>
          (case body of
             Inl e \<Rightarrow> ((400, ''BadRequest''), st)
           | Inr force \<Rightarrow>
               (case commitTransition force (Snapshot (fst st)) (fst st) of
                  (Inl a, rs) \<Rightarrow> (a, rs, snd st)
                | (Inr plan, rs) \<Rightarrow>
                    (case rot_Promote R c plan (snd st) of
                       (promoted, s) \<Rightarrow> (case commitFinish (later c) promoted rs of (a, rs') \<Rightarrow> (a, rs', s))))))"

definition handleRotateAbort :: "km_call \<Rightarrow> rotation_state \<Rightarrow> answer \<times> rotation_state" where
  "handleRotateAbort c rs =
     (case Abort (now c) rs of
        (Inl e, rs') \<Rightarrow> ((409, ''RotationConflict''), rs')
      | (Inr _, rs') \<Rightarrow> ((200, []), rs'))"

definition handleRotateStatus :: "rotation_state \<Rightarrow> rotation_snapshot" where
  "handleRotateStatus rs = Snapshot rs"

end
