(* ===== verification/Rotation_System.thy ===== *)
theory Rotation_System
  imports Rotation
begin

text \<open>
  The rotation of a running gateway: wraps of object requests, any number of concurrent admin
  requests and the drain poller interleave between the critical sections of
  \<^verbatim>\<open>rotation_state.go\<close>. The handlers of \<^verbatim>\<open>admin_rotation.go\<close> are the pieces of theory
  \<^verbatim>\<open>Rotation\<close>; no handler calls \<^const>\<open>Reset\<close>.
\<close>

section \<open>Interleaved requests\<close>

text \<open>Where an admin request stands, and where the poller does.\<close>

datatype admin_pc =
    AdminIdle
  | Prepared rotation_plan int
  | Snapped bool rotation_snapshot
  | Promoting rotation_plan
  | Finishing "kmerr + unit"

datatype poller = PollOff | PollWaiting | PollLoaded int

text \<open>
  The last two fields are history: the drain was over at some moment after its start (no wrap
  in flight, or the deadline passed), and a commit was forced.
\<close>

record 's rot_sys =
  sys_rs :: rotation_state
  sys_km :: 's
  sys_pc :: "nat \<Rightarrow> admin_pc"
  sys_poller :: poller
  sys_drained :: bool
  sys_forced :: bool

datatype rot_event =
    WrapBegins
  | WrapEnds
  | PrepareReq nat km_call "int option" int
  | DrainReq nat string int
  | SnapReq nat bool
  | CutoverReq nat
  | PromoteReq nat km_call
  | MarkReq nat int
  | AbortReq km_call
  | PollLoad
  | PollTick int
  | PollStop

abbreviation set_pc :: "nat \<Rightarrow> admin_pc \<Rightarrow> 's rot_sys \<Rightarrow> 's rot_sys" where
  "set_pc h pc y \<equiv> y\<lparr>sys_pc := (sys_pc y)(h := pc)\<rparr>"

text \<open>One step of the system; an event that is not enabled changes nothing.\<close>

fun rot_step :: "'s rotation_ops \<Rightarrow> rot_event \<Rightarrow> 's rot_sys \<Rightarrow> 's rot_sys" where
  "rot_step R WrapBegins y = y\<lparr>sys_rs := BeginWrap (sys_rs y)\<rparr>"
| "rot_step R WrapEnds y = y\<lparr>sys_rs := EndWrap (sys_rs y)\<rparr>"
| "rot_step R (PrepareReq h c target grace) y =
     (if sys_pc y h \<noteq> AdminIdle then y
      else case startPrepare R c target (sys_km y) of
          (Inl a, s) \<Rightarrow> y\<lparr>sys_km := s\<rparr>
        | (Inr plan, s) \<Rightarrow> set_pc h (Prepared plan grace) (y\<lparr>sys_km := s\<rparr>))"
| "rot_step R (DrainReq h provider t) y =
     (case sys_pc y h of
        Prepared plan grace \<Rightarrow>
          (case startDrain provider t plan grace (sys_rs y) of
             (a, rs) \<Rightarrow>
               if fst a = 202
               then set_pc h AdminIdle (y\<lparr>sys_rs := rs, sys_poller := PollWaiting, sys_drained := False, sys_forced := False\<rparr>)
               else set_pc h AdminIdle (y\<lparr>sys_rs := rs\<rparr>))
      | _ \<Rightarrow> y)"
| "rot_step R (SnapReq h force) y =
     (if sys_pc y h \<noteq> AdminIdle then y else set_pc h (Snapped force (Snapshot (sys_rs y))) y)"
| "rot_step R (CutoverReq h) y =
     (case sys_pc y h of
        Snapped force snap \<Rightarrow>
          (case commitTransition force snap (sys_rs y) of
             (Inl a, rs) \<Rightarrow> set_pc h AdminIdle (y\<lparr>sys_rs := rs\<rparr>)
           | (Inr plan, rs) \<Rightarrow>
               set_pc h (Promoting plan) (y\<lparr>sys_rs := rs, sys_forced := force,
                 sys_drained := (sys_drained y \<or> rs_inFlightWraps (sys_rs y) \<le> 0)\<rparr>))
      | _ \<Rightarrow> y)"
| "rot_step R (PromoteReq h c) y =
     (case sys_pc y h of
        Promoting plan \<Rightarrow>
          (case rot_Promote R c plan (sys_km y) of (promoted, s) \<Rightarrow> set_pc h (Finishing promoted) (y\<lparr>sys_km := s\<rparr>))
      | _ \<Rightarrow> y)"
| "rot_step R (MarkReq h t) y =
     (case sys_pc y h of
        Finishing promoted \<Rightarrow> set_pc h AdminIdle (y\<lparr>sys_rs := snd (commitFinish t promoted (sys_rs y))\<rparr>)
      | _ \<Rightarrow> y)"
| "rot_step R (AbortReq c) y = y\<lparr>sys_rs := snd (handleRotateAbort c (sys_rs y))\<rparr>"
| "rot_step R PollLoad y =
     (if sys_poller y = PollWaiting
      then y\<lparr>sys_poller := PollLoaded (rs_inFlightWraps (sys_rs y)),
             sys_drained := (sys_drained y \<or> rs_inFlightWraps (sys_rs y) \<le> 0)\<rparr>
      else y)"
| "rot_step R (PollTick t) y =
     (case sys_poller y of
        PollLoaded count \<Rightarrow>
          (case drainTick count t (sys_rs y) of
             (stop, rs) \<Rightarrow> y\<lparr>sys_rs := rs, sys_poller := (if stop then PollOff else PollWaiting),
               sys_drained := (sys_drained y \<or> (\<exists>d. rs_graceDeadline (sys_rs y) = Some d \<and> d < t))\<rparr>)
      | _ \<Rightarrow> y)"
| "rot_step R PollStop y =
     (if sys_poller y = PollWaiting \<and> rs_stopDrain (sys_rs y) then y\<lparr>sys_poller := PollOff\<rparr> else y)"

definition rot_start :: "'s \<Rightarrow> 's rot_sys" where
  "rot_start s = \<lparr>sys_rs = NewRotationState, sys_km = s, sys_pc = (\<lambda>_. AdminIdle), sys_poller = PollOff,
     sys_drained = False, sys_forced = False\<rparr>"

abbreviation rot_run :: "'s rotation_ops \<Rightarrow> rot_event list \<Rightarrow> 's rot_sys \<Rightarrow> 's rot_sys" where
  "rot_run R evs y \<equiv> fold (rot_step R) evs y"

text \<open>A request between cutover and mark.\<close>

definition busy :: "admin_pc \<Rightarrow> bool" where
  "busy pc \<longleftrightarrow> (case pc of Promoting _ \<Rightarrow> True | Finishing _ \<Rightarrow> True | _ \<Rightarrow> False)"

lemma drainTick_cases:
  assumes "drainTick n t rs = (stop, rs')"
  obtains (over) "stop" "rs' = (if rs_phase rs = RotationDraining then rs\<lparr>rs_phase := RotationReadyToCutover\<rparr> else rs)"
      "n \<le> 0 \<or> (\<exists>d. rs_graceDeadline rs = Some d \<and> d < t)"
  | (wait) "\<not> stop" "rs' = rs"
  using assms by (auto simp: drainTick_def Let_def split: if_splits option.splits)

section \<open>The interface to the key manager\<close>

text \<open>
  What the rotation relies on: preparing changes nothing and plans from the active version;
  promoting succeeds only from the planned version and then the target is active; a failed
  promotion changes nothing; version 0 is never active.
\<close>

locale rotatable_manager =
  fixes R :: "'s rotation_ops" and active :: "'s \<Rightarrow> int" and good :: "'s \<Rightarrow> bool"
  assumes prepare_plans: "rot_Prepare R c target s = (r, s') \<Longrightarrow> s' = s \<and> (\<forall>p. r = Inr p \<longrightarrow> CurrentVersion p = active s)"
    and promote_moves: "rot_Promote R c plan s = (Inr u, s') \<Longrightarrow> good s \<Longrightarrow>
      good s' \<and> active s = CurrentVersion plan \<and> active s' = TargetVersion plan"
    and promote_fails: "rot_Promote R c plan s = (Inl e, s') \<Longrightarrow> s' = s"
    and active_nonzero: "good s \<Longrightarrow> active s \<noteq> 0"
begin

text \<open>
  The invariant. At most one request is between cutover and mark, exactly in phase committing;
  a plan taken from a snapshot is that of the rotation under way or void; the active version
  is that of the phase.
\<close>

definition plan_ok :: "rotation_state \<Rightarrow> int \<Rightarrow> int \<Rightarrow> bool" where
  "plan_ok rs cur tgt \<longleftrightarrow> (cur = 0 \<and> tgt = 0) \<or> (cur = rs_currentVersion rs \<and> tgt = rs_targetVersion rs)"

definition pc_ok :: "rotation_state \<Rightarrow> 's \<Rightarrow> admin_pc \<Rightarrow> bool" where
  "pc_ok rs s pc \<longleftrightarrow>
     (case pc of
        AdminIdle \<Rightarrow> True
      | Prepared plan _ \<Rightarrow> rs_phase rs = RotationIdle \<longrightarrow> CurrentVersion plan = active s
      | Snapped _ snap \<Rightarrow> plan_ok rs (snap_CurrentVersion snap) (snap_TargetVersion snap)
      | Promoting plan \<Rightarrow> rs_phase rs = RotationCommitting \<and> active s = rs_currentVersion rs \<and>
          plan_ok rs (CurrentVersion plan) (TargetVersion plan)
      | Finishing r \<Rightarrow> rs_phase rs = RotationCommitting \<and>
          active s = (case r of Inl _ \<Rightarrow> rs_currentVersion rs | Inr _ \<Rightarrow> rs_targetVersion rs))"

definition rs_ok :: "rotation_state \<Rightarrow> 's \<Rightarrow> bool \<Rightarrow> bool \<Rightarrow> poller \<Rightarrow> bool" where
  "rs_ok rs s drained forced poll \<longleftrightarrow> good s \<and>
     (rs_phase rs = RotationIdle \<longrightarrow> rs_currentVersion rs = 0 \<and> rs_targetVersion rs = 0) \<and>
     (rs_phase rs \<in> {RotationDraining, RotationReadyToCutover, RotationAborted} \<longrightarrow> active s = rs_currentVersion rs) \<and>
     (rs_phase rs = RotationCommitted \<longrightarrow> active s = rs_targetVersion rs) \<and>
     (rs_phase rs = RotationReadyToCutover \<longrightarrow> drained) \<and>
     (rs_phase rs \<in> {RotationCommitting, RotationCommitted} \<longrightarrow> drained \<or> forced) \<and>
     (\<forall>n. poll = PollLoaded n \<longrightarrow> n \<le> 0 \<longrightarrow> drained) \<and>
     (rs_phase rs = RotationDraining \<longrightarrow> poll \<noteq> PollOff \<and> \<not> rs_stopDrain rs)"

definition rot_inv :: "'s rot_sys \<Rightarrow> bool" where
  "rot_inv y \<longleftrightarrow> rs_ok (sys_rs y) (sys_km y) (sys_drained y) (sys_forced y) (sys_poller y) \<and>
     (\<forall>h. pc_ok (sys_rs y) (sys_km y) (sys_pc y h)) \<and>
     (\<forall>h h'. busy (sys_pc y h) \<longrightarrow> busy (sys_pc y h') \<longrightarrow> h = h') \<and>
     (rs_phase (sys_rs y) = RotationCommitting \<longrightarrow> (\<exists>h. busy (sys_pc y h)))"

lemmas rot_inv_defs = rot_inv_def rs_ok_def

lemma rot_inv_start: "good s \<Longrightarrow> rot_inv (rot_start s)"
  by (simp add: rot_inv_defs pc_ok_def busy_def rot_start_def NewRotationState_def)

text \<open>A state change that keeps phase and versions keeps every program counter in order.\<close>

lemma pc_ok_cong:
  "rs_phase rs' = rs_phase rs \<Longrightarrow> rs_currentVersion rs' = rs_currentVersion rs \<Longrightarrow>
     rs_targetVersion rs' = rs_targetVersion rs \<Longrightarrow> pc_ok rs' s pc = pc_ok rs s pc"
  by (simp add: pc_ok_def plan_ok_def split: admin_pc.split sum.split)

lemma pc_ok_phase:
  "pc_ok rs s pc \<Longrightarrow> \<not> busy pc \<or> rs_phase rs' = RotationCommitting \<Longrightarrow> rs_phase rs' \<noteq> RotationIdle \<Longrightarrow>
     rs_currentVersion rs' = rs_currentVersion rs \<Longrightarrow> rs_targetVersion rs' = rs_targetVersion rs \<Longrightarrow> pc_ok rs' s pc"
  by (auto simp: pc_ok_def plan_ok_def busy_def split: admin_pc.splits sum.splits)

lemma busy_phase: "pc_ok rs s pc \<Longrightarrow> busy pc \<Longrightarrow> rs_phase rs = RotationCommitting"
  by (simp add: pc_ok_def busy_def split: admin_pc.splits)

lemma rot_inv_pc_ok: "rot_inv y \<Longrightarrow> pc_ok (sys_rs y) (sys_km y) (sys_pc y h)"
  by (simp add: rot_inv_def)

lemma not_busy: "rot_inv y \<Longrightarrow> rs_phase (sys_rs y) \<noteq> RotationCommitting \<Longrightarrow> \<not> busy (sys_pc y h)"
  using busy_phase rot_inv_pc_ok by blast

text \<open>
  The steps that keep phase and versions, the steps that only move the phase of a rotation
  nobody is committing, and the steps of one request.
\<close>

lemma rot_inv_quiet:
  assumes "rot_inv y" and "rs_phase rs = rs_phase (sys_rs y)" and "rs_currentVersion rs = rs_currentVersion (sys_rs y)"
    and "rs_targetVersion rs = rs_targetVersion (sys_rs y)" and "sys_drained y \<longrightarrow> d"
    and "\<forall>n. p = PollLoaded n \<longrightarrow> n \<le> 0 \<longrightarrow> d" and "rs_phase rs = RotationDraining \<longrightarrow> p \<noteq> PollOff \<and> \<not> rs_stopDrain rs"
  shows "rot_inv (y\<lparr>sys_rs := rs, sys_poller := p, sys_drained := d\<rparr>)"
proof -
  have "rs_ok rs (sys_km y) d (sys_forced y) p" using assms unfolding rot_inv_defs by simp blast
  then show ?thesis using assms(1,2) by (simp add: rot_inv_def pc_ok_cong [OF assms(2-4)])
qed

lemma rot_inv_phase:
  assumes "rot_inv y" and "rs_phase (sys_rs y) \<in> {RotationDraining, RotationReadyToCutover}"
    and "rs_phase rs \<in> {RotationReadyToCutover, RotationAborted}"
    and "rs_currentVersion rs = rs_currentVersion (sys_rs y)" and "rs_targetVersion rs = rs_targetVersion (sys_rs y)"
    and "rs_phase rs = RotationReadyToCutover \<longrightarrow> d" and "\<forall>n. p = PollLoaded n \<longrightarrow> n \<le> 0 \<longrightarrow> d"
  shows "rot_inv (y\<lparr>sys_rs := rs, sys_poller := p, sys_drained := d\<rparr>)"
proof -
  have idle: "\<not> busy (sys_pc y h)" for h using not_busy [OF assms(1)] assms(2) by auto
  then have "pc_ok rs (sys_km y) (sys_pc y h)" for h
    using idle assms(3-5) by (intro pc_ok_phase [OF rot_inv_pc_ok [OF assms(1)]]) auto
  moreover have "rs_ok rs (sys_km y) d (sys_forced y) p" using assms unfolding rot_inv_defs by (elim conjE insertE) simp_all
  ultimately show ?thesis using assms(3) idle unfolding rot_inv_def by auto
qed

lemma rot_inv_pc:
  assumes "rot_inv y" and "pc_ok (sys_rs y) (sys_km y) pc" and "busy pc \<longleftrightarrow> busy (sys_pc y h)"
  shows "rot_inv (set_pc h pc y)"
  using assms unfolding rot_inv_def by auto

text \<open>The steps of a start request.\<close>

lemma rot_inv_prepare: "rot_inv y \<Longrightarrow> rot_inv (rot_step R (PrepareReq h c target grace) y)"
proof -
  assume inv: "rot_inv y"
  obtain r s where p: "rot_Prepare R c target (sys_km y) = (r, s)" by fastforce
  then have s: "s = sys_km y" and plan: "\<forall>p. r = Inr p \<longrightarrow> CurrentVersion p = active (sys_km y)"
    using prepare_plans by blast+
  have same: "y\<lparr>sys_km := sys_km y\<rparr> = y" by (cases y) simp
  show ?thesis
  proof (cases "sys_pc y h = AdminIdle")
    case True
    show ?thesis
    proof (cases r)
      case (Inl e)
      then show ?thesis using inv p s same by (simp add: startPrepare_def)
    next
      case (Inr plan)
      then have "pc_ok (sys_rs y) (sys_km y) (Prepared plan grace)" using plan by (simp add: pc_ok_def)
      then have "rot_inv (set_pc h (Prepared plan grace) y)" using True by (intro rot_inv_pc [OF inv]) (simp_all add: busy_def)
      then show ?thesis using Inr p s same True by (simp add: startPrepare_def)
    qed
  qed (use inv in simp)
qed

lemma rot_inv_drain: "rot_inv y \<Longrightarrow> rot_inv (rot_step R (DrainReq h provider t) y)"
proof -
  assume inv: "rot_inv y"
  have out: "rot_inv (set_pc h AdminIdle (y\<lparr>sys_rs := sys_rs y\<rparr>))" if "sys_pc y h = Prepared plan grace" for plan grace
    using rot_inv_pc [OF inv, of AdminIdle h] that by (cases y) (simp add: pc_ok_def busy_def)
  show ?thesis
  proof (cases "sys_pc y h")
    case (Prepared plan grace)
    show ?thesis
    proof (cases "rs_phase (sys_rs y) = RotationIdle")
      case True
      have idle: "\<not> busy (sys_pc y k)" for k using not_busy [OF inv] True by simp
      have cur: "CurrentVersion plan = active (sys_km y)" "good (sys_km y)"
          "rs_currentVersion (sys_rs y) = 0" "rs_targetVersion (sys_rs y) = 0"
        using rot_inv_pc_ok [OF inv, of h] inv Prepared True by (simp_all add: pc_ok_def rot_inv_defs)
      let ?rs = "snd (startDrain provider t plan grace (sys_rs y))"
      have ph: "rs_phase ?rs = RotationDraining" "rs_currentVersion ?rs = CurrentVersion plan"
          "fst (startDrain provider t plan grace (sys_rs y)) = (202, [])" "\<not> rs_stopDrain ?rs"
        using True by (simp_all add: startDrain_def StartDrain_def)
      have "pc_ok ?rs (sys_km y) (sys_pc y k)" for k
        using rot_inv_pc_ok [OF inv, of k] idle [of k] cur(3,4) ph(1)
        by (auto simp: pc_ok_def plan_ok_def busy_def split: admin_pc.splits)
      moreover have "rs_ok ?rs (sys_km y) False False PollWaiting" using ph cur by (simp add: rs_ok_def)
      ultimately have "rot_inv (set_pc h AdminIdle (y\<lparr>sys_rs := ?rs, sys_poller := PollWaiting, sys_drained := False, sys_forced := False\<rparr>))"
        using idle ph(1) unfolding rot_inv_def by (simp add: pc_ok_def [of _ _ AdminIdle] busy_def [of AdminIdle])
      then show ?thesis using Prepared ph(3) by (auto simp: case_prod_beta)
    next
      case False
      then have "startDrain provider t plan grace (sys_rs y) = ((409, ''RotationConflict''), sys_rs y)"
        by (simp add: startDrain_def StartDrain_def conflict_def)
      then show ?thesis using Prepared out by simp
    qed
  qed (use inv in simp_all)
qed

text \<open>The steps of a commit request.\<close>

lemma rot_inv_cutover: "rot_inv y \<Longrightarrow> rot_inv (rot_step R (CutoverReq h) y)"
proof -
  assume inv: "rot_inv y"
  show ?thesis
  proof (cases "sys_pc y h")
    case (Snapped force snap)
    have snap: "plan_ok (sys_rs y) (snap_CurrentVersion snap) (snap_TargetVersion snap)"
      using rot_inv_pc_ok [OF inv, of h] Snapped by (simp add: pc_ok_def)
    consider (no) e where "Commit force (sys_rs y) = (Inl e, sys_rs y)"
      | (yes) rs where "Commit force (sys_rs y) = (Inr (), rs)" "rs_phase (sys_rs y) \<in> {RotationDraining, RotationReadyToCutover}"
          "rs_phase rs = RotationCommitting" "rs_currentVersion rs = rs_currentVersion (sys_rs y)"
          "rs_targetVersion rs = rs_targetVersion (sys_rs y)"
          "force \<or> rs_inFlightWraps (sys_rs y) \<le> 0 \<or> rs_phase (sys_rs y) = RotationReadyToCutover"
      by (cases "rs_phase (sys_rs y)"; cases "force \<or> rs_inFlightWraps (sys_rs y) \<le> 0") (simp_all add: Commit_def)
    then show ?thesis
    proof cases
      case no
      have "rot_inv (set_pc h AdminIdle y)" using Snapped by (intro rot_inv_pc [OF inv]) (simp_all add: pc_ok_def busy_def)
      then show ?thesis using no Snapped by (cases y) (simp add: commitTransition_def)
    next
      case yes
      let ?plan = "\<lparr>CurrentVersion = snap_CurrentVersion snap, TargetVersion = snap_TargetVersion snap\<rparr>"
      have idle: "\<not> busy (sys_pc y k)" for k using not_busy [OF inv] yes(2) by auto
      have "pc_ok rs (sys_km y) (sys_pc y k)" for k
        using yes by (intro pc_ok_phase [OF rot_inv_pc_ok [OF inv]]) simp_all
      moreover have act: "active (sys_km y) = rs_currentVersion (sys_rs y)" using inv yes(2) by (auto simp: rot_inv_defs)
      moreover from this have "pc_ok rs (sys_km y) (Promoting ?plan)" using snap yes by (simp add: pc_ok_def plan_ok_def)
      moreover have "rs_ok rs (sys_km y) (sys_drained y \<or> rs_inFlightWraps (sys_rs y) \<le> 0) force (sys_poller y)"
        using inv yes(3,6) unfolding rot_inv_defs by auto
      ultimately show ?thesis using Snapped yes(1,3) idle
        by (simp add: commitTransition_def rot_inv_def busy_def [of "Promoting _"])
    qed
  qed (use inv in simp_all)
qed

lemma rot_inv_promote: "rot_inv y \<Longrightarrow> rot_inv (rot_step R (PromoteReq h c) y)"
proof -
  assume inv: "rot_inv y"
  show ?thesis
  proof (cases "sys_pc y h")
    case (Promoting plan)
    obtain r s where p: "rot_Promote R c plan (sys_km y) = (r, s)" by fastforce
    have me: "rs_phase (sys_rs y) = RotationCommitting" "active (sys_km y) = rs_currentVersion (sys_rs y)"
        "plan_ok (sys_rs y) (CurrentVersion plan) (TargetVersion plan)" "good (sys_km y)"
      using rot_inv_pc_ok [OF inv, of h] inv Promoting by (simp_all add: pc_ok_def rot_inv_defs)
    have after: "good s \<and> active s = (case r of Inl _ \<Rightarrow> rs_currentVersion (sys_rs y) | Inr _ \<Rightarrow> rs_targetVersion (sys_rs y))"
      using p promote_fails [of c plan "sys_km y" _ s] promote_moves [of c plan "sys_km y" _ s] me active_nonzero [of "sys_km y"]
      by (cases r) (auto simp: plan_ok_def)
    have idle: "\<not> busy (sys_pc y k)" if "k \<noteq> h" for k using inv Promoting that by (auto simp: rot_inv_def busy_def)
    have "pc_ok (sys_rs y) s (sys_pc y k)" if "k \<noteq> h" for k
      using rot_inv_pc_ok [OF inv, of k] idle [OF that] me(1)
      by (simp add: pc_ok_def busy_def split: admin_pc.splits)
    moreover have "pc_ok (sys_rs y) s (Finishing r)" using after me by (simp add: pc_ok_def)
    moreover have "rs_ok (sys_rs y) s (sys_drained y) (sys_forced y) (sys_poller y)"
      using inv after me(1) by (simp add: rot_inv_defs)
    ultimately show ?thesis using Promoting p idle
      by (simp add: rot_inv_def busy_def [of "Finishing _"])
  qed (use inv in simp_all)
qed

lemma rot_inv_mark: "rot_inv y \<Longrightarrow> rot_inv (rot_step R (MarkReq h t) y)"
proof -
  assume inv: "rot_inv y"
  show ?thesis
  proof (cases "sys_pc y h")
    case (Finishing r)
    let ?rs = "snd (commitFinish t r (sys_rs y))"
    have me: "rs_phase (sys_rs y) = RotationCommitting" "good (sys_km y)" "sys_drained y \<or> sys_forced y"
        "active (sys_km y) = (case r of Inl _ \<Rightarrow> rs_currentVersion (sys_rs y) | Inr _ \<Rightarrow> rs_targetVersion (sys_rs y))"
      using rot_inv_pc_ok [OF inv, of h] inv Finishing by (auto simp: pc_ok_def rot_inv_defs split: sum.split)
    have rs: "rs_phase ?rs = (case r of Inl _ \<Rightarrow> RotationAborted | Inr _ \<Rightarrow> RotationCommitted)"
        "rs_currentVersion ?rs = rs_currentVersion (sys_rs y)" "rs_targetVersion ?rs = rs_targetVersion (sys_rs y)"
      by (simp_all add: commitFinish_def MarkFailed_def MarkCommitted_def split: sum.split)
    have idle: "\<not> busy (sys_pc y k)" if "k \<noteq> h" for k using inv Finishing that by (auto simp: rot_inv_def busy_def)
    have "pc_ok ?rs (sys_km y) (sys_pc y k)" if "k \<noteq> h" for k
      using idle [OF that] rs by (intro pc_ok_phase [OF rot_inv_pc_ok [OF inv]]) (simp_all split: sum.split)
    moreover have "rs_ok ?rs (sys_km y) (sys_drained y) (sys_forced y) (sys_poller y)"
      using inv me rs by (cases r) (simp_all add: rot_inv_defs)
    ultimately show ?thesis using Finishing idle rs(1)
      by (simp add: rot_inv_def pc_ok_def [of _ _ AdminIdle] busy_def [of AdminIdle] split: sum.split)
  qed (use inv in simp_all)
qed

text \<open>The steps of aborting requests, of the poller and of object requests.\<close>

lemma rot_inv_abort: "rot_inv y \<Longrightarrow> rot_inv (rot_step R (AbortReq c) y)"
proof (cases "rs_phase (sys_rs y) \<in> {RotationDraining, RotationReadyToCutover}")
  case True
  moreover assume "rot_inv y"
  ultimately show ?thesis
    using rot_inv_phase [of y "snd (handleRotateAbort c (sys_rs y))" "sys_drained y" "sys_poller y"]
    by (auto simp: handleRotateAbort_def Abort_def rot_inv_defs)
next
  case False
  moreover assume "rot_inv y"
  ultimately show ?thesis by (cases y) (auto simp: handleRotateAbort_def Abort_def)
qed

lemma rot_inv_poll: "rot_inv y \<Longrightarrow> rot_inv (rot_step R (PollTick t) y)"
proof -
  assume inv: "rot_inv y"
  show ?thesis
  proof (cases "sys_poller y")
    case (PollLoaded n)
    let ?d = "sys_drained y \<or> (\<exists>d. rs_graceDeadline (sys_rs y) = Some d \<and> d < t)"
    obtain stop rs where tick: "drainTick n t (sys_rs y) = (stop, rs)" by fastforce
    have ok: "n \<le> 0 \<Longrightarrow> sys_drained y" using inv PollLoaded by (simp add: rot_inv_defs)
    from tick have "rot_inv (y\<lparr>sys_rs := rs, sys_poller := (if stop then PollOff else PollWaiting), sys_drained := ?d\<rparr>)"
    proof (cases rule: drainTick_cases)
      case over
      show ?thesis
      proof (cases "rs_phase (sys_rs y) = RotationDraining")
        case True
        then show ?thesis using over ok by (intro rot_inv_phase [OF inv]) auto
      qed (use over in \<open>intro rot_inv_quiet [OF inv], auto\<close>)
    next
      case wait
      then show ?thesis using inv by (intro rot_inv_quiet [OF inv]) (simp_all add: rot_inv_defs)
    qed
    then show ?thesis using PollLoaded tick by simp
  qed (use inv in simp_all)
qed

lemma rot_inv_step: "rot_inv y \<Longrightarrow> rot_inv (rot_step R ev y)"
proof (induction ev)
  case WrapBegins
  then show ?case using rot_inv_quiet [OF WrapBegins, of "BeginWrap (sys_rs y)" "sys_drained y" "sys_poller y"]
    by (simp add: BeginWrap_def rot_inv_defs)
next
  case WrapEnds
  then show ?case using rot_inv_quiet [OF WrapEnds, of "EndWrap (sys_rs y)" "sys_drained y" "sys_poller y"]
    by (simp add: EndWrap_def rot_inv_defs)
next
  case (SnapReq h force)
  then show ?case
    using rot_inv_pc [OF SnapReq, of "Snapped force (Snapshot (sys_rs y))" h]
    by (simp add: pc_ok_def plan_ok_def busy_def Snapshot_def)
next
  case PollLoad
  then have "rs_phase (sys_rs y) = RotationDraining \<longrightarrow> \<not> rs_stopDrain (sys_rs y)" by (simp add: rot_inv_defs)
  then show ?case
    using rot_inv_quiet [OF PollLoad, of "sys_rs y" "sys_drained y \<or> rs_inFlightWraps (sys_rs y) \<le> 0"
      "PollLoaded (rs_inFlightWraps (sys_rs y))"] PollLoad
    by simp
next
  case PollStop
  then show ?case using rot_inv_quiet [OF PollStop, of "sys_rs y" "sys_drained y" PollOff]
    by (cases "rs_phase (sys_rs y) = RotationDraining") (simp_all add: rot_inv_defs)
qed (simp_all only: rot_inv_prepare rot_inv_drain rot_inv_cutover rot_inv_promote rot_inv_mark rot_inv_abort rot_inv_poll)

lemma rot_inv_run: "rot_inv y \<Longrightarrow> rot_inv (rot_run R evs y)"
  by (induction evs arbitrary: y) (simp_all add: rot_inv_step)

lemma rot_inv_reached: "good s \<Longrightarrow> rot_inv (rot_run R evs (rot_start s))"
  by (intro rot_inv_run rot_inv_start)

text \<open>A rotation that is over stays over.\<close>

lemma terminal_step:
  assumes "rot_inv y" and "rs_phase (sys_rs y) \<in> {RotationCommitted, RotationAborted}"
  shows "rs_phase (sys_rs (rot_step R ev y)) = rs_phase (sys_rs y)"
proof -
  have "\<not> busy (sys_pc y h)" for h using not_busy [OF assms(1)] assms(2) by auto
  then have "(\<forall>plan. sys_pc y h \<noteq> Promoting plan) \<and> (\<forall>r. sys_pc y h \<noteq> Finishing r)" for h
    by (metis admin_pc.simps(28,29) busy_def)
  then show ?thesis using assms(2)
    by (cases ev) (auto simp: BeginWrap_def EndWrap_def startDrain_def StartDrain_def conflict_def commitTransition_def
      Commit_def handleRotateAbort_def Abort_def drainTick_def Let_def split: admin_pc.split poller.split option.split prod.split sum.split)
qed

lemma terminal_run:
  assumes "rot_inv y" and "rs_phase (sys_rs y) \<in> {RotationCommitted, RotationAborted}"
  shows "rs_phase (sys_rs (rot_run R evs y)) = rs_phase (sys_rs y)"
  using assms
proof (induction evs arbitrary: y)
  case (Cons ev evs)
  then show ?case using terminal_step [of y ev] rot_inv_step [of y ev] by simp
qed simp

text \<open>A drain is over when the poller has looked after the last wrap, or after the deadline.\<close>

lemma drain_over:
  assumes "rot_inv y" and "rs_phase (sys_rs y) = RotationDraining"
    and "(\<exists>d. rs_graceDeadline (sys_rs y) = Some d \<and> d < t) \<or> (sys_poller y = PollWaiting \<and> rs_inFlightWraps (sys_rs y) \<le> 0)"
  shows "rs_phase (sys_rs (rot_run R [PollLoad, PollTick t] y)) = RotationReadyToCutover"
proof -
  have "sys_poller y \<noteq> PollOff" using assms(1,2) by (simp add: rot_inv_defs)
  then show ?thesis using assms(2,3) by (cases "sys_poller y") (auto simp: drainTick_def Let_def)
qed

end

abbreviation aes_rotation :: "aes_kek_manager rotation_ops" where
  "aes_rotation \<equiv> \<lparr>rot_Prepare = \<lambda>c target m. (ak_PrepareRotation c target m, m),
     rot_Promote = \<lambda>c plan m. ak_PromoteActiveVersion plan m\<rparr>"

abbreviation memory_rotation :: "in_memory_key_manager rotation_ops" where
  "memory_rotation \<equiv> \<lparr>rot_Prepare = \<lambda>c target m. (mk_PrepareRotation c target m, m),
     rot_Promote = \<lambda>c plan m. mk_PromoteActiveVersion plan m\<rparr>"

text \<open>Version 0 means that no version is given; a manager that has no key for it is rotatable.\<close>

definition ak_rotatable :: "aes_kek_manager \<Rightarrow> bool" where
  "ak_rotatable m \<longleftrightarrow> ak_activeVersion m \<noteq> 0 \<and> map_of (ak_keys m) 0 = None"

definition mk_rotatable :: "in_memory_key_manager \<Rightarrow> bool" where
  "mk_rotatable m \<longleftrightarrow> mk_activeVersion m \<noteq> 0 \<and> map_of (mk_keys m) 0 = None"

interpretation aes_rot: rotatable_manager aes_rotation ak_activeVersion ak_rotatable
  by unfold_locales
    (auto simp: ak_PrepareRotation_def ak_PromoteActiveVersion_def ak_rotatable_def Let_def split: if_splits option.splits)

interpretation memory_rot: rotatable_manager memory_rotation mk_activeVersion mk_rotatable
  by unfold_locales
    (auto simp: mk_PrepareRotation_def mk_PromoteActiveVersion_def mk_rotatable_def Let_def split: if_splits option.splits)

abbreviation ex_keks :: aes_kek_manager where
  "ex_keks \<equiv> \<lparr>ak_providerName = [], ak_keys = [(1, replicate 32 7), (2, replicate 32 8)], ak_activeVersion = 1, ak_closed = False\<rparr>"

lemmas rotation_exec = Let_def rot_start_def NewRotationState_def startPrepare_def ak_PrepareRotation_def startDrain_def
  StartDrain_def Snapshot_def commitTransition_def Commit_def ak_PromoteActiveVersion_def commitFinish_def MarkFailed_def
  MarkCommitted_def drainTick_def BeginWrap_def EndWrap_def wrap64_def

section \<open>Properties\<close>

text \<open>
  C10. However object wraps, concurrent admin requests and the drain poller interleave: at most
  one commit request is between cutover and mark; the keys cut over only after the drain was
  over (no wrap in flight or the grace deadline passed) unless a commit was forced; a
  committed rotation has made its target the active version; a rotation that is draining,
  ready or aborted has left the version it started from active.
\<close>

theorem rotation_interleavings_safe:
  assumes "ak_rotatable m" and "y = rot_run aes_rotation evs (rot_start m)"
  shows "(busy (sys_pc y h) \<and> busy (sys_pc y h') \<longrightarrow> h = h') \<and>
    (rs_phase (sys_rs y) \<in> {RotationReadyToCutover, RotationCommitting, RotationCommitted} \<longrightarrow> sys_drained y \<or> sys_forced y) \<and>
    (rs_phase (sys_rs y) = RotationCommitted \<longrightarrow> ak_activeVersion (sys_km y) = rs_targetVersion (sys_rs y)) \<and>
    (rs_phase (sys_rs y) \<in> {RotationDraining, RotationReadyToCutover, RotationAborted} \<longrightarrow>
       ak_activeVersion (sys_km y) = rs_currentVersion (sys_rs y))"
  using aes_rot.rot_inv_reached [OF assms(1), of evs] unfolding assms(2) [symmetric] aes_rot.rot_inv_defs by auto

theorem rotation_interleavings_safe_witness:
  "let y = rot_run aes_rotation [WrapBegins, PrepareReq 1 ex_call None 30, DrainReq 1 [] 5, PollLoad, PollTick 6, WrapEnds,
       SnapReq 2 False, CutoverReq 2, PromoteReq 2 ex_call, MarkReq 2 7] (rot_start ex_keks)
   in rs_phase (sys_rs y) = RotationCommitted \<and> (sys_drained y \<or> sys_forced y) \<and>
      ak_activeVersion (sys_km y) = rs_targetVersion (sys_rs y)"
proof -
  let ?evs = "[WrapBegins, PrepareReq 1 ex_call None 30, DrainReq 1 [] 5, PollLoad, PollTick 6, WrapEnds,
       SnapReq 2 False, CutoverReq 2, PromoteReq 2 ex_call, MarkReq 2 7]"
  have "rs_phase (sys_rs (rot_run aes_rotation ?evs (rot_start ex_keks))) = RotationCommitted"
    by (simp add: rotation_exec ex_call_def)
  then show ?thesis using rotation_interleavings_safe [of ex_keks _ ?evs 1 2, OF _ refl]
    unfolding Let_def by (simp add: ak_rotatable_def del: rot_step.simps fold.simps)
qed



text \<open>
  C32. The gateway rotates at most once: nothing the admin interface can do leaves the phases
  committed and aborted, and in them every start request is turned down, although
  \<^verbatim>\<open>Reset\<close> exists to make the machine idle again.
\<close>

theorem rotation_only_once:
  assumes "ak_rotatable m" and "y = rot_run aes_rotation evs (rot_start m)"
    and "rs_phase (sys_rs y) \<in> {RotationCommitted, RotationAborted}" and "z = rot_run aes_rotation evs' y"
  shows "rs_phase (sys_rs z) = rs_phase (sys_rs y) \<and>
    fst (fst (handleRotateStart (Some (aesKEKManager G)) c body (sys_rs z, sys_km z))) \<in> {400, 404, 409, 500}"
proof -
  have same: "rs_phase (sys_rs z) = rs_phase (sys_rs y)"
    using aes_rot.terminal_run [OF aes_rot.rot_inv_reached [OF assms(1)], of evs evs'] assms(2-4) by simp
  then have "rs_phase (sys_rs z) \<noteq> RotationIdle" using assms(3) by auto
  then have "startDrain p t plan g (sys_rs z) = ((409, ''RotationConflict''), sys_rs z)" for p t plan g
    by (simp add: startDrain_def StartDrain_def conflict_def)
  then show ?thesis using same
    by (auto simp: handleRotateStart_def rotatable_def aesKEKManager_def startRequest_def startPrepare_def
      split: sum.split option.split prod.split)
qed

theorem rotation_only_once_witness:
  "let y = rot_run aes_rotation [PrepareReq 1 ex_call None 30, DrainReq 1 [] 5, AbortReq ex_call] (rot_start ex_keks) in
     rs_phase (sys_rs y) = RotationAborted \<and>
     fst (fst (handleRotateStart (Some (aesKEKManager ex_gcm)) ex_call (Inr \<lparr>req_TargetVersion = Some 2, req_GracePeriod = None\<rparr>)
       (sys_rs y, sys_km y))) \<in> {400, 404, 409, 500}"
proof -
  let ?evs = "[PrepareReq 1 ex_call None 30, DrainReq 1 [] 5, AbortReq ex_call]"
  let ?y = "rot_run aes_rotation ?evs (rot_start ex_keks)"
  have "rs_phase (sys_rs ?y) = RotationAborted"
    by (simp add: rotation_exec ex_call_def handleRotateAbort_def Abort_def)
  moreover from this have "fst (fst (handleRotateStart (Some (aesKEKManager ex_gcm)) ex_call
      (Inr \<lparr>req_TargetVersion = Some 2, req_GracePeriod = None\<rparr>) (sys_rs ?y, sys_km ?y))) \<in> {400, 404, 409, 500}"
    by (intro rotation_only_once [of ex_keks ?y ?evs ?y "[]", THEN conjunct2]) (simp_all add: ak_rotatable_def del: rot_step.simps)
  ultimately show ?thesis unfolding Let_def by blast
qed


end
