(* ===== verification/Mpu_Manifest.thy ===== *)
theory Mpu_Manifest
  imports Object_AAD Chunk_Size
begin

text \<open>
  The manifest of an encrypted multipart upload, \<^verbatim>\<open>internal/crypto/mpu_manifest.go\<close>: the layout
  of the parts, its validation, and the translation of plaintext ranges to ranges of the
  stored bytes. The JSON form (\<^verbatim>\<open>Marshal\<close>, \<^verbatim>\<open>UnmarshalMultipartManifest\<close>) is left out.
  Fields of type \<^verbatim>\<open>int64\<close> and \<^verbatim>\<open>int32\<close> are integers; sums are wrapped.
\<close>

section \<open>Manifests\<close>

definition mpuManifestVersion :: int where "mpuManifestVersion = 2"
definition mpuAEADTagSize :: int where "mpuAEADTagSize = 16"

record mpu_part_record =
  mp_PartNumber :: int
  mp_ETag :: string
  mp_PlainLen :: int
  mp_EncLen :: int
  mp_ChunkCount :: int

record multipart_manifest =
  mm_Version :: int
  mm_ParentBucket :: string
  mm_ParentKey :: string
  mm_CompanionBucket :: string
  mm_CompanionKey :: string
  mm_BindingID :: string
  mm_Algorithm :: string
  mm_ChunkSize :: int
  mm_IVPrefix :: string
  mm_UploadIDHash :: string
  mm_WrappedDEK :: string
  mm_KMSKeyID :: string
  mm_KMSProvider :: string
  mm_KMSKeyVersion :: int
  mm_Parts :: "mpu_part_record list"
  mm_OriginalETag :: string
  mm_TotalPlainSize :: int

text \<open>The number of chunks of a plaintext length.\<close>

definition mpuChunkCount :: "int \<Rightarrow> int \<Rightarrow> int" where
  "mpuChunkCount chunkSize plainLen = plainLen div chunkSize + (if plainLen mod chunkSize \<noteq> 0 then 1 else 0)"

fun layoutLoop :: "int \<Rightarrow> int \<Rightarrow> int \<Rightarrow> int \<Rightarrow> mpu_part_record list \<Rightarrow> goerr + int" where
  "layoutLoop chunkSize previous totalPlain totalEnc [] = Inr totalPlain"
| "layoutLoop chunkSize previous totalPlain totalEnc (part # parts) =
     (if mp_PartNumber part \<le> previous \<or> mp_PartNumber part > 10000 \<or> mp_PlainLen part < 0 \<or> mp_EncLen part < 0 \<or>
         mp_ChunkCount part < 0
      then Inl (Err ''mpu_manifest: invalid part layout'')
      else
        let count = mpuChunkCount chunkSize (mp_PlainLen part) in
        if count > maxInt32 \<or> count \<noteq> mp_ChunkCount part \<or> count > (maxInt64 - mp_PlainLen part) div mpuAEADTagSize
        then Inl (Err ''mpu_manifest: invalid chunk count or ciphertext size'')
        else if mp_EncLen part \<noteq> wrap64 (mp_PlainLen part + wrap64 (count * mpuAEADTagSize)) \<or>
           mp_PlainLen part > maxInt64 - totalPlain \<or> mp_EncLen part > maxInt64 - totalEnc
        then Inl (Err ''mpu_manifest: inconsistent or overflowing part sizes'')
        else layoutLoop chunkSize (mp_PartNumber part) (wrap64 (totalPlain + mp_PlainLen part))
               (wrap64 (totalEnc + mp_EncLen part)) parts)"

definition validateLayout :: "multipart_manifest \<Rightarrow> goerr + unit" where
  "validateLayout m =
     (if mm_TotalPlainSize m < 0 \<or> 10000 < length (mm_Parts m)
      then Inl (Err ''mpu_manifest: invalid total size or part count'')
      else if mm_Parts m = [] \<and> mm_TotalPlainSize m = 0 then Inr ()
      else if mm_ChunkSize m \<le> 0 \<or> mm_ChunkSize m > MaxChunkSize
      then Inl (Err ''mpu_manifest: invalid chunk size'')
      else and_then (layoutLoop (mm_ChunkSize m) 0 0 0 (mm_Parts m)) (\<lambda>totalPlain.
        if totalPlain \<noteq> mm_TotalPlainSize m
        then Inl (Err ''mpu_manifest: total plaintext size does not match parts'')
        else Inr ()))"

text \<open>\<open>decodeID\<close> is \<^verbatim>\<open>base64.RawURLEncoding.DecodeString\<close>.\<close>

definition ValidateFor ::
  "(string \<Rightarrow> bytes option) \<Rightarrow> object_context \<Rightarrow> object_context \<Rightarrow> bytes \<Rightarrow> multipart_manifest \<Rightarrow> goerr + unit" where
  "ValidateFor decodeID parent companion bindingID m =
     and_then (validateLayout m) (\<lambda>_. and_then (Validate parent) (\<lambda>_. and_then (Validate companion) (\<lambda>_.
       if mm_Version m = 1 then Inr ()
       else if mm_Version m \<noteq> mpuManifestVersion then Inl (Err ''mpu_manifest: unsupported version'')
       else if mm_ParentBucket m \<noteq> oc_bucket parent \<or> mm_ParentKey m \<noteq> oc_key parent \<or>
               mm_CompanionBucket m \<noteq> oc_bucket companion \<or> mm_CompanionKey m \<noteq> oc_key companion
       then Inl (Err ''mpu_manifest: object relationship mismatch'')
       else if decodeID (mm_BindingID m) \<noteq> Some bindingID \<or> length bindingID \<noteq> 16
       then Inl (Err ''mpu_manifest: binding mismatch'')
       else Inr ())))"

section \<open>Offsets\<close>

text \<open>The loop of \<^verbatim>\<open>PlainOffsetToPartChunk\<close>: part index, chunk index and offset in the chunk.\<close>

fun locateLoop :: "int \<Rightarrow> int \<Rightarrow> int \<Rightarrow> nat \<Rightarrow> mpu_part_record list \<Rightarrow> goerr + nat \<times> int \<times> int" where
  "locateLoop chunkSize offset cumPlain i [] = Inl (Err ''mpu_manifest: offset beyond total plain size'')"
| "locateLoop chunkSize offset cumPlain i (part # parts) =
     (if offset < wrap64 (cumPlain + mp_PlainLen part) then
        (let relOffset = offset - cumPlain; index = relOffset div chunkSize in
         if index < 0 \<or> index > maxInt32 then Inl (Err ''mpu_manifest: chunk index overflow'')
         else Inr (i, index, relOffset mod chunkSize))
      else locateLoop chunkSize offset (wrap64 (cumPlain + mp_PlainLen part)) (i + 1) parts)"

definition PlainOffsetToPartChunk :: "multipart_manifest \<Rightarrow> int \<Rightarrow> goerr + nat \<times> int \<times> int" where
  "PlainOffsetToPartChunk m offset =
     and_then (validateLayout m) (\<lambda>_.
       if offset < 0 \<or> offset \<ge> mm_TotalPlainSize m then Inl (Err ''mpu_manifest: offset out of range'')
       else locateLoop (mm_ChunkSize m) offset 0 0 (mm_Parts m))"

definition sumEnc :: "mpu_part_record list \<Rightarrow> int" where
  "sumEnc parts = foldl (\<lambda>s p. wrap64 (s + mp_EncLen p)) 0 parts"

definition EncOffsetForPartChunk :: "multipart_manifest \<Rightarrow> int \<Rightarrow> int \<Rightarrow> goerr + int" where
  "EncOffsetForPartChunk m partIdx chunkIdx =
     and_then (validateLayout m) (\<lambda>_.
       if partIdx < 0 \<or> partIdx \<ge> int (length (mm_Parts m)) then Inl (Err ''mpu_manifest: part index out of range'')
       else if chunkIdx < 0 \<or> chunkIdx \<ge> mp_ChunkCount (mm_Parts m ! nat partIdx)
       then Inl (Err ''mpu_manifest: chunk index out of range'')
       else Inr (wrap64 (sumEnc (take (nat partIdx) (mm_Parts m)) + wrap64 (chunkIdx * (mm_ChunkSize m + 16)))))"

record mpu_range_result =
  rg_EncStart :: int
  rg_EncEnd :: int
  rg_PartStartIdx :: nat
  rg_ChunkStart :: int
  rg_PartEndIdx :: nat
  rg_ChunkEnd :: int

definition EncRangeForPlaintextRange :: "multipart_manifest \<Rightarrow> int \<Rightarrow> int \<Rightarrow> goerr + mpu_range_result" where
  "EncRangeForPlaintextRange m pStart pEnd =
     and_then (validateLayout m) (\<lambda>_.
       if pStart < 0 \<or> pStart > pEnd \<or> pEnd \<ge> mm_TotalPlainSize m then Inl (Err ''mpu_manifest: range out of bounds'')
       else
         let encChunkSize = mm_ChunkSize m + 16 in
         and_then (PlainOffsetToPartChunk m pStart) (\<lambda>(partStartIdx, chunkStart, _).
         and_then (PlainOffsetToPartChunk m pEnd) (\<lambda>(partEndIdx, chunkEnd, _).
           let partStartOff = sumEnc (take partStartIdx (mm_Parts m));
               partEndOff = sumEnc (take partEndIdx (mm_Parts m));
               encStart = wrap64 (partStartOff + wrap64 (chunkStart * encChunkSize));
               encEnd = (if chunkEnd = mp_ChunkCount (mm_Parts m ! partEndIdx) - 1
                 then wrap64 (partEndOff + mp_EncLen (mm_Parts m ! partEndIdx) - 1)
                 else wrap64 (partEndOff + wrap64 ((chunkEnd + 1) * encChunkSize) - 1))
           in Inr \<lparr>rg_EncStart = encStart, rg_EncEnd = encEnd, rg_PartStartIdx = partStartIdx, rg_ChunkStart = chunkStart,
                   rg_PartEndIdx = partEndIdx, rg_ChunkEnd = chunkEnd\<rparr>)))"

section \<open>Valid layouts\<close>

text \<open>
  What a valid layout is, free of machine arithmetic: part numbers ascend from at least 1 to
  at most 10000, every part has the chunk count and the stored length of its plaintext
  length, and the totals are in range.
\<close>

definition part_ok :: "int \<Rightarrow> mpu_part_record \<Rightarrow> bool" where
  "part_ok cs p \<longleftrightarrow> 0 \<le> mp_PlainLen p \<and> mp_ChunkCount p = mpuChunkCount cs (mp_PlainLen p) \<and>
     mp_ChunkCount p \<le> maxInt32 \<and> mp_EncLen p = mp_PlainLen p + 16 * mp_ChunkCount p"

abbreviation plainSum :: "mpu_part_record list \<Rightarrow> int" where
  "plainSum ps \<equiv> sum_list (map mp_PlainLen ps)"

abbreviation encSum :: "mpu_part_record list \<Rightarrow> int" where
  "encSum ps \<equiv> sum_list (map mp_EncLen ps)"

definition layout_ok :: "multipart_manifest \<Rightarrow> bool" where
  "layout_ok m \<longleftrightarrow> length (mm_Parts m) \<le> 10000 \<and> mm_TotalPlainSize m = plainSum (mm_Parts m) \<and>
     (mm_Parts m \<noteq> [] \<longrightarrow> 0 < mm_ChunkSize m \<and> mm_ChunkSize m \<le> MaxChunkSize) \<and>
     (\<forall>p \<in> set (mm_Parts m). part_ok (mm_ChunkSize m) p \<and> mp_PartNumber p \<le> 10000) \<and>
     sorted_wrt (<) (0 # map mp_PartNumber (mm_Parts m)) \<and>
     plainSum (mm_Parts m) \<le> maxInt64 \<and> encSum (mm_Parts m) \<le> maxInt64"

lemma mpuChunkCount_bounds:
  assumes "0 < cs" and "0 \<le> n"
  shows "0 \<le> mpuChunkCount cs n" "n \<le> mpuChunkCount cs n * cs" "0 < n \<Longrightarrow> (mpuChunkCount cs n - 1) * cs < n"
    "mpuChunkCount cs n = 0 \<longleftrightarrow> n = 0"
proof -
  define q r where "q = n div cs" and "r = n mod cs"
  then have n: "n = q * cs + r" "0 \<le> r" "r < cs" "0 \<le> q" and count: "mpuChunkCount cs n = q + (if r \<noteq> 0 then 1 else 0)"
    using assms by (simp_all add: pos_imp_zdiv_nonneg_iff mpuChunkCount_def)
  then have "0 \<le> q * cs" "q = 0 \<or> cs \<le> q * cs" using assms(1) mult_right_mono [of 1 q cs] by fastforce+
  then show "0 \<le> mpuChunkCount cs n" "n \<le> mpuChunkCount cs n * cs" "0 < n \<Longrightarrow> (mpuChunkCount cs n - 1) * cs < n"
    using n assms(1) unfolding count by (auto simp: algebra_simps)
  show "mpuChunkCount cs n = 0 \<longleftrightarrow> n = 0"
  proof (cases "n = 0")
    case True
    then show ?thesis by (simp add: mpuChunkCount_def)
  next
    case False
    then show ?thesis using n unfolding count by (cases "q = 0") auto
  qed
qed

lemma part_ok_nonneg: "0 < cs \<Longrightarrow> part_ok cs p \<Longrightarrow> 0 \<le> mp_PlainLen p \<and> 0 \<le> mp_ChunkCount p \<and> mp_PlainLen p \<le> mp_EncLen p"
  using mpuChunkCount_bounds(1) [of cs "mp_PlainLen p"] by (simp add: part_ok_def)

lemma sums_nonneg: "0 < cs \<Longrightarrow> \<forall>p \<in> set ps. part_ok cs p \<Longrightarrow> 0 \<le> plainSum ps \<and> plainSum ps \<le> encSum ps"
proof (induction ps)
  case (Cons p ps)
  then show ?case using part_ok_nonneg [of cs p] by simp
qed simp

lemma layoutLoop_Inr:
  assumes "0 < cs" and "0 \<le> tp" "tp \<le> maxInt64" and "0 \<le> te" "te \<le> maxInt64"
  shows "layoutLoop cs prev tp te ps = Inr t \<longleftrightarrow>
    (\<forall>p \<in> set ps. part_ok cs p \<and> mp_PartNumber p \<le> 10000) \<and> sorted_wrt (<) (prev # map mp_PartNumber ps) \<and>
    t = tp + plainSum ps \<and> tp + plainSum ps \<le> maxInt64 \<and> te + encSum ps \<le> maxInt64"
  using assms(2-5)
proof (induction ps arbitrary: prev tp te)
  case (Cons p ps)
  let ?P = "mp_PlainLen p" and ?E = "mp_EncLen p" and ?n = "mpuChunkCount cs (mp_PlainLen p)"
  let ?ok = "prev < mp_PartNumber p \<and> mp_PartNumber p \<le> 10000 \<and> part_ok cs p \<and> tp + ?P \<le> maxInt64 \<and> te + ?E \<le> maxInt64"
  have n: "0 \<le> ?P \<Longrightarrow> 0 \<le> ?n" using assms(1) mpuChunkCount_bounds(1) by blast
  have fit: "?n > (maxInt64 - ?P) div mpuAEADTagSize \<longleftrightarrow> maxInt64 < ?P + 16 * ?n"
    by (simp add: mpuAEADTagSize_def) linarith
  have wrap: "wrap64 (?P + wrap64 (?n * mpuAEADTagSize)) = ?P + 16 * ?n" if "0 \<le> ?P" "?P + 16 * ?n \<le> maxInt64"
    using that n by (simp add: wrap64_id in_int64_def int_limits mpuAEADTagSize_def)
  show ?case
  proof (cases ?ok)
    case True
    then have "0 \<le> ?P" "0 \<le> ?E" "?E = ?P + 16 * ?n" "?n = mp_ChunkCount p" "?n \<le> maxInt32" "0 \<le> ?n" "?P + 16 * ?n \<le> maxInt64"
      using n Cons.prems by (auto simp: part_ok_def)
    then have "layoutLoop cs prev tp te (p # ps) = layoutLoop cs (mp_PartNumber p) (tp + ?P) (te + ?E) ps"
      using True Cons.prems wrap fit by (simp add: Let_def wrap64_id in_int64_def int_limits)
    moreover have "sorted_wrt (<) (prev # map mp_PartNumber (p # ps)) \<longleftrightarrow> sorted_wrt (<) (mp_PartNumber p # map mp_PartNumber ps)"
      using True by fastforce
    ultimately show ?thesis
      using Cons.IH [of "tp + ?P" "te + ?E" "mp_PartNumber p"] True Cons.prems \<open>0 \<le> ?P\<close> \<open>0 \<le> ?E\<close>
      by (simp add: algebra_simps del: layoutLoop.simps sorted_wrt.simps)
  next
    case False
    have "\<not> (layoutLoop cs prev tp te (p # ps) = Inr t)"
      using False wrap fit n by (auto simp: Let_def part_ok_def split: if_splits)
    moreover have "\<not> (tp + plainSum (p # ps) \<le> maxInt64 \<and> te + encSum (p # ps) \<le> maxInt64)"
      if "prev < mp_PartNumber p" "mp_PartNumber p \<le> 10000" "part_ok cs p" "\<forall>q \<in> set ps. part_ok cs q"
      using False that sums_nonneg [OF assms(1) that(4)] by auto
    ultimately show ?thesis by auto
  qed
qed auto

lemma validateLayout_Inr: "validateLayout m = Inr () \<longleftrightarrow> layout_ok m"
proof (cases "mm_Parts m = []")
  case False
  show ?thesis
  proof (cases "0 < mm_ChunkSize m")
    case True
    note loop = layoutLoop_Inr [of "mm_ChunkSize m" 0 0 0 "mm_Parts m"]
    show ?thesis using False True sums_nonneg [of "mm_ChunkSize m" "mm_Parts m"]
      by (auto simp: validateLayout_def layout_ok_def and_then_eq_Inr loop int_limits split: if_splits)
  qed (use False in \<open>auto simp: validateLayout_def layout_ok_def\<close>)
qed (auto simp: validateLayout_def layout_ok_def int_limits)

lemma validateLayout_ok [simp]: "layout_ok m \<Longrightarrow> validateLayout m = Inr ()"
  by (simp add: validateLayout_Inr)

section \<open>Positions\<close>

text \<open>
  Where chunk \<open>c\<close> of part \<open>i\<close> starts in the plaintext and in the stored bytes, and its
  plaintext length.
\<close>

definition chunk_at :: "multipart_manifest \<Rightarrow> nat \<Rightarrow> int \<Rightarrow> bool" where
  "chunk_at m i c \<longleftrightarrow> i < length (mm_Parts m) \<and> 0 \<le> c \<and> c < mp_ChunkCount (mm_Parts m ! i)"

definition plainOff :: "multipart_manifest \<Rightarrow> nat \<Rightarrow> int \<Rightarrow> int" where
  "plainOff m i c = plainSum (take i (mm_Parts m)) + c * mm_ChunkSize m"

definition encOff :: "multipart_manifest \<Rightarrow> nat \<Rightarrow> int \<Rightarrow> int" where
  "encOff m i c = encSum (take i (mm_Parts m)) + c * (mm_ChunkSize m + 16)"

definition chunkLen :: "multipart_manifest \<Rightarrow> nat \<Rightarrow> int \<Rightarrow> int" where
  "chunkLen m i c = min (mm_ChunkSize m) (mp_PlainLen (mm_Parts m ! i) - c * mm_ChunkSize m)"

definition located :: "multipart_manifest \<Rightarrow> int \<Rightarrow> nat \<Rightarrow> int \<Rightarrow> bool" where
  "located m off i c \<longleftrightarrow> chunk_at m i c \<and> plainOff m i c \<le> off \<and> off < plainOff m i c + chunkLen m i c"

lemma layout_chunk_size: "layout_ok m \<Longrightarrow> chunk_at m i c \<Longrightarrow> 0 < mm_ChunkSize m \<and> mm_ChunkSize m \<le> MaxChunkSize"
  by (auto simp: layout_ok_def chunk_at_def)

lemma layout_part: "layout_ok m \<Longrightarrow> i < length (mm_Parts m) \<Longrightarrow> part_ok (mm_ChunkSize m) (mm_Parts m ! i)"
  by (simp add: layout_ok_def)

lemma sum_take_nth: "i < length xs \<Longrightarrow> sum_list (map f (take (Suc i) xs)) = sum_list (map f (take i xs)) + f (xs ! i)"
  for f :: "'a \<Rightarrow> int"
  by (simp add: take_Suc_conv_app_nth)

lemma sum_take_le: "\<forall>x \<in> set xs. 0 \<le> f x \<Longrightarrow> 0 \<le> sum_list (map f (take i xs)) \<and> sum_list (map f (take i xs)) \<le> sum_list (map f xs)"
  for f :: "'a \<Rightarrow> int"
proof -
  assume pos: "\<forall>x \<in> set xs. 0 \<le> f x"
  have "sum_list (map f xs) = sum_list (map f (take i xs)) + sum_list (map f (drop i xs))"
    by (metis append_take_drop_id map_append sum_list_append)
  moreover have "0 \<le> sum_list (map f (drop i xs))" "0 \<le> sum_list (map f (take i xs))"
    using pos by (force intro!: sum_list_nonneg dest: in_set_dropD in_set_takeD)+
  ultimately show ?thesis by simp
qed

lemma chunkLen_pos: "layout_ok m \<Longrightarrow> chunk_at m i c \<Longrightarrow> 0 < chunkLen m i c \<and> chunkLen m i c \<le> mm_ChunkSize m"
proof -
  assume m: "layout_ok m" and c: "chunk_at m i c"
  note cs = layout_chunk_size [OF m c]
  have p: "part_ok (mm_ChunkSize m) (mm_Parts m ! i)" using layout_part [OF m] c by (simp add: chunk_at_def)
  then have "0 < mp_PlainLen (mm_Parts m ! i)"
    using c mpuChunkCount_bounds(4) [of "mm_ChunkSize m" "mp_PlainLen (mm_Parts m ! i)"] cs
    by (auto simp: part_ok_def chunk_at_def)
  then have "(mp_ChunkCount (mm_Parts m ! i) - 1) * mm_ChunkSize m < mp_PlainLen (mm_Parts m ! i)"
    using mpuChunkCount_bounds(3) [of "mm_ChunkSize m" "mp_PlainLen (mm_Parts m ! i)"] cs p by (simp add: part_ok_def)
  moreover have "c * mm_ChunkSize m \<le> (mp_ChunkCount (mm_Parts m ! i) - 1) * mm_ChunkSize m"
    using c cs by (intro mult_right_mono) (auto simp: chunk_at_def)
  ultimately have "c * mm_ChunkSize m < mp_PlainLen (mm_Parts m ! i)" by linarith
  then show ?thesis using cs by (auto simp: chunkLen_def)
qed

text \<open>A chunk that is not the last of its part is full; behind the last one the next part begins.\<close>

lemma chunk_next:
  assumes "layout_ok m" and "chunk_at m i c"
  shows "c < mp_ChunkCount (mm_Parts m ! i) - 1 \<Longrightarrow> chunkLen m i c = mm_ChunkSize m"
    and "c = mp_ChunkCount (mm_Parts m ! i) - 1 \<Longrightarrow> chunkLen m i c = mp_PlainLen (mm_Parts m ! i) - c * mm_ChunkSize m"
    and "plainOff m i c + chunkLen m i c =
      (if c = mp_ChunkCount (mm_Parts m ! i) - 1 then plainOff m (Suc i) 0 else plainOff m i (c + 1))"
    and "encOff m i c + chunkLen m i c + 16 =
      (if c = mp_ChunkCount (mm_Parts m ! i) - 1 then encOff m (Suc i) 0 else encOff m i (c + 1))"
proof -
  let ?p = "mm_Parts m ! i" and ?cs = "mm_ChunkSize m"
  note cs = layout_chunk_size [OF assms]
  have i: "i < length (mm_Parts m)" "0 \<le> c" "c < mp_ChunkCount ?p" using assms(2) by (auto simp: chunk_at_def)
  have p: "part_ok ?cs ?p" using layout_part [OF assms(1) i(1)] .
  have P: "0 \<le> mp_PlainLen ?p" "mp_PlainLen ?p \<le> mp_ChunkCount ?p * ?cs"
      "0 < mp_PlainLen ?p \<Longrightarrow> (mp_ChunkCount ?p - 1) * ?cs < mp_PlainLen ?p" "0 < mp_PlainLen ?p"
    using mpuChunkCount_bounds [of ?cs "mp_PlainLen ?p"] cs p i by (auto simp: part_ok_def)
  show full: "chunkLen m i c = ?cs" if "c < mp_ChunkCount ?p - 1"
  proof -
    have "(c + 1) * ?cs \<le> (mp_ChunkCount ?p - 1) * ?cs" using that cs by (intro mult_right_mono) auto
    then have "(c + 1) * ?cs < mp_PlainLen ?p" using P(3,4) by linarith
    then show ?thesis by (simp add: chunkLen_def algebra_simps)
  qed
  show last: "chunkLen m i c = mp_PlainLen ?p - c * ?cs" if "c = mp_ChunkCount ?p - 1"
  proof -
    have n: "mp_ChunkCount ?p = c + 1" using that by simp
    have "mp_ChunkCount ?p * ?cs = c * ?cs + ?cs" unfolding n by (simp add: algebra_simps)
    then show ?thesis using P(2) by (simp add: chunkLen_def)
  qed
  show "plainOff m i c + chunkLen m i c = (if c = mp_ChunkCount ?p - 1 then plainOff m (Suc i) 0 else plainOff m i (c + 1))"
    using full last i by (auto simp: plainOff_def sum_take_nth algebra_simps)
  show "encOff m i c + chunkLen m i c + 16 = (if c = mp_ChunkCount ?p - 1 then encOff m (Suc i) 0 else encOff m i (c + 1))"
    using full last i p by (auto simp: encOff_def sum_take_nth part_ok_def algebra_simps)
qed

section \<open>Ranges\<close>

lemma chunk_index_bound:
  assumes "0 < cs" and "part_ok cs p" and "0 \<le> r" and "c * cs + r < mp_PlainLen p"
  shows "c < mp_ChunkCount p"
proof -
  have "mp_PlainLen p \<le> mp_ChunkCount p * cs"
    using mpuChunkCount_bounds(2) [OF assms(1), of "mp_PlainLen p"] assms(2) by (simp add: part_ok_def)
  then have "c * cs < mp_ChunkCount p * cs" using assms(3,4) by linarith
  then show ?thesis using assms(1) by (simp add: mult_less_cancel_right)
qed

lemma locateLoop_ok:
  assumes "0 < cs" and "\<forall>p \<in> set ps. part_ok cs p" and "0 \<le> cum" "cum \<le> off" "off < cum + plainSum ps" "cum + plainSum ps \<le> maxInt64"
  shows "\<exists>k c r. locateLoop cs off cum i ps = Inr (i + k, c, r) \<and> k < length ps \<and>
    off = cum + plainSum (take k ps) + c * cs + r \<and> 0 \<le> r \<and> r < cs \<and> 0 \<le> c \<and> c * cs + r < mp_PlainLen (ps ! k)"
  using assms(2-)
proof (induction ps arbitrary: cum i)
  case (Cons p ps)
  have p: "0 \<le> mp_PlainLen p" "0 \<le> plainSum ps"
    using Cons.prems(1) part_ok_nonneg [OF assms(1), of p] sums_nonneg [OF assms(1), of ps] by auto
  have w: "wrap64 (cum + mp_PlainLen p) = cum + mp_PlainLen p"
    using p Cons.prems by (intro wrap64_id) (auto simp: in_int64_def int_limits)
  show ?case
  proof (cases "off < cum + mp_PlainLen p")
    case True
    define c r where cr: "c = (off - cum) div cs" "r = (off - cum) mod cs"
    then have c: "0 \<le> c" "off - cum = c * cs + r" "0 \<le> r" "r < cs"
      using assms(1) Cons.prems by (simp_all add: pos_imp_zdiv_nonneg_iff)
    have "c < mp_ChunkCount p" using c(2,3) True Cons.prems(1) by (intro chunk_index_bound [OF assms(1)]) auto
    then have "c \<le> maxInt32" using Cons.prems(1) by (simp add: part_ok_def)
    then show ?thesis using True w c by (intro exI [of _ 0] exI [of _ c] exI [of _ r]) (simp add: Let_def flip: cr)
  next
    case False
    then obtain k c r where k: "locateLoop cs off (cum + mp_PlainLen p) (i + 1) ps = Inr (i + 1 + k, c, r)" "k < length ps"
        "off = cum + mp_PlainLen p + plainSum (take k ps) + c * cs + r" "0 \<le> r" "r < cs" "0 \<le> c" "c * cs + r < mp_PlainLen (ps ! k)"
      using Cons.IH [of "cum + mp_PlainLen p" "i + 1"] Cons.prems p by (auto simp: algebra_simps)
    then show ?thesis using False w by (intro exI [of _ "Suc k"] exI [of _ c] exI [of _ r]) simp
  qed
qed simp

lemma PlainOffsetToPartChunk_ok:
  assumes "layout_ok m" and "0 \<le> off" "off < mm_TotalPlainSize m"
  shows "\<exists>i c r. PlainOffsetToPartChunk m off = Inr (i, c, r) \<and> located m off i c \<and> off = plainOff m i c + r"
proof -
  have parts: "mm_Parts m \<noteq> []" using assms by (auto simp: layout_ok_def)
  then have cs: "0 < mm_ChunkSize m" using assms(1) by (simp add: layout_ok_def)
  obtain i c r where l: "locateLoop (mm_ChunkSize m) off 0 0 (mm_Parts m) = Inr (i, c, r)" "i < length (mm_Parts m)"
      "off = plainSum (take i (mm_Parts m)) + c * mm_ChunkSize m + r" "0 \<le> r" "r < mm_ChunkSize m" "0 \<le> c"
      "c * mm_ChunkSize m + r < mp_PlainLen (mm_Parts m ! i)"
    using locateLoop_ok [OF cs, of "mm_Parts m" 0 off 0] assms by (auto simp: layout_ok_def)
  then have "c < mp_ChunkCount (mm_Parts m ! i)" using chunk_index_bound [OF cs layout_part [OF assms(1)]] by blast
  then have "located m off i c" using l by (simp add: located_def chunk_at_def plainOff_def chunkLen_def)
  then show ?thesis using l assms by (simp add: PlainOffsetToPartChunk_def plainOff_def)
qed

lemma sumEnc_sum:
  assumes "\<forall>p \<in> set ps. 0 \<le> mp_EncLen p" and "encSum ps \<le> maxInt64"
  shows "sumEnc ps = encSum ps"
proof -
  have "foldl (\<lambda>s p. wrap64 (s + mp_EncLen p)) a ps = a + encSum ps" if "0 \<le> a" "a + encSum ps \<le> maxInt64" for a
    using that assms(1)
  proof (induction ps arbitrary: a)
    case (Cons p ps)
    have "0 \<le> encSum ps" using Cons.prems(3) by (force intro!: sum_list_nonneg)
    then have "wrap64 (a + mp_EncLen p) = a + mp_EncLen p"
      using Cons.prems by (intro wrap64_id) (auto simp: in_int64_def int_limits)
    then show ?case using Cons.IH [of "a + mp_EncLen p"] Cons.prems by simp
  qed simp
  from this [of 0] show ?thesis using assms(2) by (simp add: sumEnc_def)
qed

lemma layout_enc_take:
  assumes "layout_ok m"
  shows "sumEnc (take i (mm_Parts m)) = encSum (take i (mm_Parts m))" "0 \<le> encSum (take i (mm_Parts m))"
    "encSum (take i (mm_Parts m)) \<le> encSum (mm_Parts m)"
proof -
  have pos: "\<forall>p \<in> set (mm_Parts m). 0 \<le> mp_EncLen p"
    using assms part_ok_nonneg [of "mm_ChunkSize m"] by (fastforce simp: layout_ok_def)
  then show le: "0 \<le> encSum (take i (mm_Parts m))" "encSum (take i (mm_Parts m)) \<le> encSum (mm_Parts m)"
    using sum_take_le [OF pos] by blast+
  show "sumEnc (take i (mm_Parts m)) = encSum (take i (mm_Parts m))"
    using pos le(2) assms by (intro sumEnc_sum) (auto simp: layout_ok_def dest: in_set_takeD)
qed

text \<open>The stored bytes of a chunk lie inside the object, so that offsets do not wrap.\<close>

lemma encOff_bounds:
  assumes "layout_ok m" and "chunk_at m i c"
  shows "0 \<le> encOff m i c" "encOff m i c + chunkLen m i c + 16 \<le> encSum (take (Suc i) (mm_Parts m))"
    "encSum (take (Suc i) (mm_Parts m)) \<le> encSum (mm_Parts m)" "encSum (mm_Parts m) \<le> maxInt64"
    "0 \<le> c * (mm_ChunkSize m + 16)"
proof -
  let ?p = "mm_Parts m ! i" and ?cs = "mm_ChunkSize m"
  note cs = layout_chunk_size [OF assms]
  have i: "i < length (mm_Parts m)" "0 \<le> c" "c < mp_ChunkCount ?p" using assms(2) by (auto simp: chunk_at_def)
  show c0: "0 \<le> c * (?cs + 16)" using i cs by simp
  then show "0 \<le> encOff m i c" using layout_enc_take(2) [OF assms(1), of i] by (simp add: encOff_def)
  have "c * ?cs + chunkLen m i c \<le> mp_PlainLen ?p" by (simp add: chunkLen_def)
  moreover have "16 * c + 16 \<le> 16 * mp_ChunkCount ?p" using i by simp
  ultimately have "c * (?cs + 16) + chunkLen m i c + 16 \<le> mp_EncLen ?p"
    using layout_part [OF assms(1) i(1)] by (simp add: part_ok_def algebra_simps)
  then show "encOff m i c + chunkLen m i c + 16 \<le> encSum (take (Suc i) (mm_Parts m))"
    using i by (simp add: encOff_def sum_take_nth)
  show "encSum (take (Suc i) (mm_Parts m)) \<le> encSum (mm_Parts m)" using layout_enc_take(3) [OF assms(1)] .
  show "encSum (mm_Parts m) \<le> maxInt64" using assms(1) by (simp add: layout_ok_def)
qed

lemma EncOffsetForPartChunk_ok:
  assumes "layout_ok m" and "chunk_at m i c"
  shows "EncOffsetForPartChunk m (int i) c = Inr (encOff m i c)"
proof -
  note b = encOff_bounds [OF assms] and t = layout_enc_take [OF assms(1), of i]
  have "c * (mm_ChunkSize m + 16) \<le> maxInt64" "encOff m i c \<le> maxInt64"
    using b t(2) chunkLen_pos [OF assms] by (auto simp: encOff_def)
  then show ?thesis
    using assms b t by (simp add: EncOffsetForPartChunk_def chunk_at_def encOff_def wrap64_id in_int64_def int_limits)
qed

lemma located_mono:
  assumes "layout_ok m" and "located m a i c" and "located m b j d" and "a \<le> b"
  shows "encOff m i c + chunkLen m i c + 16 \<le> encOff m j d + chunkLen m j d + 16"
proof -
  have at: "chunk_at m i c" "chunk_at m j d" using assms(2,3) by (simp_all add: located_def)
  note bi = encOff_bounds [OF assms(1) at(1)] and bj = encOff_bounds [OF assms(1) at(2)]
  have pos: "\<forall>p \<in> set (mm_Parts m). 0 \<le> mp_PlainLen p" "\<forall>p \<in> set (mm_Parts m). 0 \<le> mp_EncLen p"
    using assms(1) part_ok_nonneg [of "mm_ChunkSize m"] by (fastforce simp: layout_ok_def)+
  have mono: "sum_list (map f (take k (mm_Parts m))) \<le> sum_list (map f (take l (mm_Parts m)))"
    if "k \<le> l" "\<forall>p \<in> set (mm_Parts m). 0 \<le> f p" for k l and f :: "mpu_part_record \<Rightarrow> int"
    using sum_take_le [of "take l (mm_Parts m)" f k] that by (auto simp: min_def dest: in_set_takeD)
  consider "i < j" | "j < i" | "i = j" "c \<le> d" | "i = j" "d < c" by linarith
  then show ?thesis
  proof cases
    case 1
    then have "encSum (take (Suc i) (mm_Parts m)) \<le> encSum (take j (mm_Parts m))" using mono [OF _ pos(2)] by simp
    then show ?thesis using bi(2) bj(5) chunkLen_pos [OF assms(1) at(2)] by (simp add: encOff_def)
  next
    case 2
    have "b < plainSum (take (Suc j) (mm_Parts m))"
      using assms(3) at(2) by (auto simp: located_def plainOff_def chunkLen_def chunk_at_def sum_take_nth)
    also have "\<dots> \<le> plainSum (take i (mm_Parts m))" using 2 mono [OF _ pos(1)] by simp
    also have "\<dots> \<le> a"
    proof -
      have "0 \<le> c * mm_ChunkSize m" using at(1) layout_chunk_size [OF assms(1) at(1)] by (simp add: chunk_at_def)
      then show ?thesis using assms(2) by (simp add: located_def plainOff_def)
    qed
    finally show ?thesis using assms(4) by simp
  next
    case 3
    show ?thesis
    proof (cases "c = d")
      case False
      with 3 have "c < mp_ChunkCount (mm_Parts m ! i) - 1" using at by (auto simp: chunk_at_def)
      then have "encOff m i c + chunkLen m i c + 16 = encOff m i (c + 1)" using chunk_next(4) [OF assms(1) at(1)] by auto
      also have "\<dots> \<le> encOff m j d"
        using 3 False layout_chunk_size [OF assms(1) at(1)] mult_right_mono [of "c + 1" d "mm_ChunkSize m + 16"] by (simp add: encOff_def)
      finally show ?thesis using chunkLen_pos [OF assms(1) at(2)] by simp
    qed (use 3 in simp)
  next
    case 4
    have "(d + 1) * mm_ChunkSize m \<le> c * mm_ChunkSize m"
      using 4 layout_chunk_size [OF assms(1) at(1)] by (intro mult_right_mono) auto
    then have "b < a" using assms(2,3) 4 chunkLen_pos [OF assms(1) at(2)] by (auto simp: located_def plainOff_def algebra_simps)
    then show ?thesis using assms(4) by simp
  qed
qed

lemma EncRangeForPlaintextRange_ok:
  assumes "layout_ok m" and "0 \<le> a" "a \<le> b" "b < mm_TotalPlainSize m"
  obtains res where "EncRangeForPlaintextRange m a b = Inr res"
    and "located m a (rg_PartStartIdx res) (rg_ChunkStart res)" and "located m b (rg_PartEndIdx res) (rg_ChunkEnd res)"
    and "rg_EncStart res = encOff m (rg_PartStartIdx res) (rg_ChunkStart res)"
    and "rg_EncEnd res + 1 = encOff m (rg_PartEndIdx res) (rg_ChunkEnd res) + chunkLen m (rg_PartEndIdx res) (rg_ChunkEnd res) + 16"
proof -
  obtain i c r where i: "PlainOffsetToPartChunk m a = Inr (i, c, r)" "located m a i c"
    using PlainOffsetToPartChunk_ok [of m a] assms by auto
  obtain j d q where j: "PlainOffsetToPartChunk m b = Inr (j, d, q)" "located m b j d"
    using PlainOffsetToPartChunk_ok [of m b] assms by auto
  have at: "chunk_at m i c" "chunk_at m j d" using i j by (simp_all add: located_def)
  note bi = encOff_bounds [OF assms(1) at(1)] and bj = encOff_bounds [OF assms(1) at(2)]
  note ti = layout_enc_take [OF assms(1), of i] and tj = layout_enc_take [OF assms(1), of j]
  have start: "wrap64 (encSum (take i (mm_Parts m)) + wrap64 (c * (mm_ChunkSize m + 16))) = encOff m i c"
    using bi ti chunkLen_pos [OF assms(1) at(1)] by (simp add: encOff_def wrap64_id in_int64_def int_limits)
  define e where "e = (if d = mp_ChunkCount (mm_Parts m ! j) - 1
      then wrap64 (encSum (take j (mm_Parts m)) + mp_EncLen (mm_Parts m ! j) - 1)
      else wrap64 (encSum (take j (mm_Parts m)) + wrap64 ((d + 1) * (mm_ChunkSize m + 16)) - 1))"
  have "e + 1 = encOff m j d + chunkLen m j d + 16"
  proof (cases "d = mp_ChunkCount (mm_Parts m ! j) - 1")
    case True
    then have "encOff m j d + chunkLen m j d + 16 = encSum (take j (mm_Parts m)) + mp_EncLen (mm_Parts m ! j)"
      using chunk_next(4) [OF assms(1) at(2)] at(2) by (simp add: encOff_def sum_take_nth chunk_at_def)
    then show ?thesis using True bj chunkLen_pos [OF assms(1) at(2)] by (simp add: e_def wrap64_id in_int64_def int_limits)
  next
    case False
    then have eq: "encOff m j d + chunkLen m j d + 16 = encSum (take j (mm_Parts m)) + (d + 1) * (mm_ChunkSize m + 16)"
      using chunk_next(4) [OF assms(1) at(2)] by (simp add: encOff_def)
    moreover have "0 \<le> (d + 1) * (mm_ChunkSize m + 16)"
      using at(2) layout_chunk_size [OF assms(1) at(2)] by (simp add: chunk_at_def)
    ultimately show ?thesis using False bj tj(2) chunkLen_pos [OF assms(1) at(2)]
      by (simp add: e_def wrap64_id in_int64_def int_limits)
  qed
  moreover have "EncRangeForPlaintextRange m a b = Inr \<lparr>rg_EncStart = encOff m i c, rg_EncEnd = e,
      rg_PartStartIdx = i, rg_ChunkStart = c, rg_PartEndIdx = j, rg_ChunkEnd = d\<rparr>"
    using assms i j start ti(1) tj(1) by (simp add: EncRangeForPlaintextRange_def Let_def e_def)
  ultimately show thesis using that i j by fastforce
qed

section \<open>Properties\<close>

text \<open>
  C15. The layout check of multipart manifests is exact: it accepts a manifest if and only if
  the part numbers ascend within 1 to 10000, every part has the chunk count and stored length
  that belong to its plaintext length, and the totals agree and fit into 63 bits; no
  intermediate sum of the check wraps around.
\<close>

theorem mpu_layout_exact:
  "validateLayout m = Inr () \<longleftrightarrow>
     length (mm_Parts m) \<le> 10000 \<and> mm_TotalPlainSize m = plainSum (mm_Parts m) \<and>
     (mm_Parts m = [] \<or> 0 < mm_ChunkSize m \<and> mm_ChunkSize m \<le> MaxChunkSize) \<and>
     list_all (\<lambda>p. part_ok (mm_ChunkSize m) p \<and> mp_PartNumber p \<le> 10000) (mm_Parts m) \<and>
     sorted_wrt (<) (0 # map mp_PartNumber (mm_Parts m)) \<and>
     plainSum (mm_Parts m) \<le> maxInt64 \<and> encSum (mm_Parts m) \<le> maxInt64"
  unfolding validateLayout_Inr layout_ok_def list_all_iff by blast

end
