(* ===== verification/Algorithms.thy ===== *)
theory Algorithms
  imports Crypto_Primitives
begin

text \<open>
  The choice of the AEAD: \<^verbatim>\<open>internal/crypto/algorithms.go\<close> and the build-dependent
  \<^verbatim>\<open>algorithms_default.go\<close>, \<^verbatim>\<open>algorithms_fips.go\<close>, \<^verbatim>\<open>createaead_default.go\<close> and
  \<^verbatim>\<open>createaead_fips.go\<close>. Whether the build has the \<^verbatim>\<open>fips\<close> tag is an argument. The ciphers
  themselves are a parameter, one AEAD per algorithm and key.
\<close>

definition AlgorithmAES256GCM :: string where "AlgorithmAES256GCM = ''AES256-GCM''"
definition AlgorithmChaCha20Poly1305 :: string where "AlgorithmChaCha20Poly1305 = ''ChaCha20-Poly1305''"
definition aesKeySize :: nat where "aesKeySize = 32"
definition chacha20KeySize :: nat where "chacha20KeySize = 32"
definition chacha20NonceSize :: nat where "chacha20NonceSize = 12"

record cipher_suite =
  aes_gcm :: "bytes \<Rightarrow> aead"
  chacha20_poly1305 :: "bytes \<Rightarrow> aead"
  fips_build :: bool

definition suite_laws :: "cipher_suite \<Rightarrow> bool" where
  "suite_laws S \<longleftrightarrow> (\<forall>k. aead_laws (aes_gcm S k)) \<and> (\<forall>k. aead_laws (chacha20_poly1305 S k))"

record algorithm_config =
  PreferredAlgorithm :: string
  SupportedAlgorithms :: "string list"

definition DefaultAlgorithmConfig :: "cipher_suite \<Rightarrow> algorithm_config" where
  "DefaultAlgorithmConfig S =
     (if fips_build S
      then \<lparr>PreferredAlgorithm = AlgorithmAES256GCM, SupportedAlgorithms = [AlgorithmAES256GCM]\<rparr>
      else \<lparr>PreferredAlgorithm = AlgorithmAES256GCM,
             SupportedAlgorithms = [AlgorithmAES256GCM, AlgorithmChaCha20Poly1305]\<rparr>)"

definition createAESGCMCipher :: "cipher_suite \<Rightarrow> bytes \<Rightarrow> goerr + aead" where
  "createAESGCMCipher S key =
     (if length key \<noteq> aesKeySize then Inl (Err ''invalid key size for AES-256'') else Inr (aes_gcm S key))"

definition createChaCha20Poly1305Cipher :: "cipher_suite \<Rightarrow> bytes \<Rightarrow> goerr + aead" where
  "createChaCha20Poly1305Cipher S key =
     (if fips_build S then Inl (Err ''crypto: algorithm not FIPS-approved in this build'')
      else if length key \<noteq> chacha20KeySize then Inl (Err ''invalid key size for ChaCha20'')
      else Inr (chacha20_poly1305 S key))"

definition createAEADCipher :: "cipher_suite \<Rightarrow> string \<Rightarrow> bytes \<Rightarrow> goerr + aead" where
  "createAEADCipher S algorithm key =
     (if algorithm = AlgorithmAES256GCM then createAESGCMCipher S key
      else if algorithm = AlgorithmChaCha20Poly1305 then createChaCha20Poly1305Cipher S key
      else Inl (Err ''unsupported algorithm''))"

definition AEADOverheadForAlgorithm :: "string \<Rightarrow> goerr + nat" where
  "AEADOverheadForAlgorithm algorithm =
     (if algorithm = AlgorithmAES256GCM \<or> algorithm = AlgorithmChaCha20Poly1305 then Inr 16
      else Inl (Err ''unsupported algorithm''))"

definition getNonceSize :: "string \<Rightarrow> goerr + nat" where
  "getNonceSize algorithm =
     (if algorithm = AlgorithmAES256GCM then Inr nonceSize
      else if algorithm = AlgorithmChaCha20Poly1305 then Inr chacha20NonceSize
      else Inl (Err ''unsupported algorithm''))"

definition isAlgorithmSupported :: "string \<Rightarrow> string list \<Rightarrow> bool" where
  "isAlgorithmSupported algorithm supported =
     (if supported = [] then algorithm = AlgorithmAES256GCM \<or> algorithm = AlgorithmChaCha20Poly1305
      else algorithm \<in> set supported)"

text \<open>\<^verbatim>\<open>createMPUAEADCipher\<close> of \<^verbatim>\<open>mpu_encrypter.go\<close>: the old spelling and the empty name mean AES.\<close>

definition createMPUAEADCipher :: "cipher_suite \<Rightarrow> string \<Rightarrow> bytes \<Rightarrow> goerr + aead" where
  "createMPUAEADCipher S algorithm key =
     (let algorithm = (if algorithm = [] then AlgorithmAES256GCM else algorithm);
          algorithm = (if algorithm = ''AES256GCM'' then AlgorithmAES256GCM else algorithm)
      in case createAEADCipher S algorithm key of
           Inl e \<Rightarrow> Inl (wrapErr (Err ''mpu_encrypter: create AEAD for algorithm'') e)
         | Inr A \<Rightarrow> Inr A)"

lemma createAEADCipher_laws: "suite_laws S \<Longrightarrow> createAEADCipher S alg k = Inr A \<Longrightarrow> aead_laws A"
  by (auto simp: suite_laws_def createAEADCipher_def createAESGCMCipher_def createChaCha20Poly1305Cipher_def split: if_splits)

lemma createMPUAEADCipher_laws: "suite_laws S \<Longrightarrow> createMPUAEADCipher S alg k = Inr A \<Longrightarrow> aead_laws A"
  by (auto simp: createMPUAEADCipher_def Let_def createAEADCipher_laws split: sum.splits)

end
