(* ===== verification/Mpu_Stream.thy ===== *)
theory Mpu_Stream
  imports Mpu_Manifest Algorithms Go_Reader
begin

text \<open>
  Encryption of multipart uploads, \<^verbatim>\<open>internal/crypto/mpu_iv.go\<close> and \<^verbatim>\<open>mpu_encrypter.go\<close>: the nonce
  derivation, the reader that encrypts one part, the reader that decrypts a completed object
  along its manifest, and the decryption of chunks of one part. Buffer pools are left out;
  the copy of the data key that a reader wipes when it ends is part of the state.
\<close>

section \<open>Chunks\<close>

definition mpuIVSize :: nat where "mpuIVSize = 12"

definition DeriveMultipartIV :: "hkdf \<Rightarrow> bytes \<Rightarrow> bytes \<Rightarrow> bytes \<Rightarrow> u32 \<Rightarrow> u32 \<Rightarrow> bytes" where
  "DeriveMultipartIV H dek uploadIDHash ivPrefix partNumber chunkIndex =
     HkdfNew H dek uploadIDHash (ivPrefix @ be32 partNumber @ be32 chunkIndex) mpuIVSize"

text \<open>Keys and identity of an upload; the identity is bound in version 2.\<close>

record mpu_scheme =
  ms_aead :: aead
  ms_dek :: bytes
  ms_hash :: bytes
  ms_prefix :: bytes
  ms_object :: object_context
  ms_binding :: bytes
  ms_bound :: bool

definition mpuChunkAAD :: "mpu_scheme \<Rightarrow> u32 \<Rightarrow> u32 \<Rightarrow> goerr + bytes" where
  "mpuChunkAAD S part idx =
     (if ms_bound S then buildObjectAAD aadMPUV2Chunk (ms_object S) (ms_binding S) [ucast part, ucast idx] else Inr [])"

definition sealChunk :: "hkdf \<Rightarrow> mpu_scheme \<Rightarrow> u32 \<Rightarrow> u32 \<Rightarrow> bytes \<Rightarrow> goerr + bytes" where
  "sealChunk H S part idx p =
     and_then (mpuChunkAAD S part idx) (\<lambda>aad.
       goSeal (ms_aead S) (DeriveMultipartIV H (ms_dek S) (ms_hash S) (ms_prefix S) part idx) p aad)"

definition openChunk :: "hkdf \<Rightarrow> mpu_scheme \<Rightarrow> u32 \<Rightarrow> u32 \<Rightarrow> bytes \<Rightarrow> goerr + bytes" where
  "openChunk H S part idx c =
     and_then (mpuChunkAAD S part idx) (\<lambda>aad.
       case goOpen (ms_aead S) (DeriveMultipartIV H (ms_dek S) (ms_hash S) (ms_prefix S) part idx) c aad of
         Inl e \<Rightarrow> Inl (wrapErr (Err ''mpu: auth failure'') e) | Inr p \<Rightarrow> Inr p)"

section \<open>Encrypting a part\<close>

record mpu_encrypt_reader =
  me_src :: source
  me_scheme :: mpu_scheme
  me_part :: u32
  me_csz :: nat
  me_pending :: bytes
  me_chunkIdx :: u32
  me_srcDone :: bool
  me_remaining :: int
  me_eof :: bool
  me_err :: "goerr option"

text \<open>\<^verbatim>\<open>returnPlainBuf\<close> wipes the reader's copy of the data key.\<close>

definition me_release :: "mpu_encrypt_reader \<Rightarrow> mpu_encrypt_reader" where
  "me_release r = r\<lparr>me_scheme := (me_scheme r)\<lparr>ms_dek := replicate (length (ms_dek (me_scheme r))) 0\<rparr>\<rparr>"

definition newMPUPartEncryptReader ::
  "cipher_suite \<Rightarrow> object_context \<Rightarrow> bytes \<Rightarrow> source \<Rightarrow> bytes \<Rightarrow> bytes \<Rightarrow> bytes \<Rightarrow> int \<Rightarrow> int \<Rightarrow> int \<Rightarrow> string \<Rightarrow> bool \<Rightarrow>
     goerr + mpu_encrypt_reader \<times> int" where
  "newMPUPartEncryptReader Su object bindingID body dek uploadIDHash ivPrefix partNumber chunkSize plainLen algorithm bound =
     and_then (Validate object) (\<lambda>_.
       let chunkSize = (if chunkSize \<le> 0 then DefaultChunkSize else chunkSize) in
       if partNumber < 1 \<or> partNumber > 10000 \<or> plainLen < 0 \<or> chunkSize > MaxChunkSize
       then Inl (Err ''mpu_encrypter: invalid part number, plaintext length, or chunk size'')
       else and_then (createMPUAEADCipher Su algorithm dek) (\<lambda>A.
         let count = mpuChunkCount chunkSize plainLen in
         if count > maxInt32 \<or> count > (maxInt64 - plainLen) div mpuAEADTagSize
         then Inl (Err ''mpu_encrypter: chunk count or ciphertext length overflow'')
         else Inr (\<lparr>me_src = body,
             me_scheme = \<lparr>ms_aead = A, ms_dek = dek, ms_hash = uploadIDHash, ms_prefix = ivPrefix, ms_object = object,
               ms_binding = bindingID, ms_bound = bound\<rparr>,
             me_part = of_int partNumber, me_csz = nat chunkSize, me_pending = [], me_chunkIdx = 0,
             me_srcDone = False, me_remaining = plainLen, me_eof = False, me_err = None\<rparr>,
           wrap64 (plainLen + wrap64 (count * mpuAEADTagSize)))))"

definition NewMPUPartEncryptReader ::
  "cipher_suite \<Rightarrow> object_context \<Rightarrow> bytes \<Rightarrow> source \<Rightarrow> bytes \<Rightarrow> bytes \<Rightarrow> bytes \<Rightarrow> int \<Rightarrow> int \<Rightarrow> int \<Rightarrow> string \<Rightarrow>
     goerr + mpu_encrypt_reader \<times> int" where
  "NewMPUPartEncryptReader Su object bindingID body dek uploadIDHash ivPrefix partNumber chunkSize plainLen algorithm =
     and_then (Validate object) (\<lambda>_.
       if bindingID = replicate 16 0 then Inl (Err ''mpu: v2 binding ID is required'')
       else newMPUPartEncryptReader Su object bindingID body dek uploadIDHash ivPrefix partNumber chunkSize plainLen algorithm True)"

definition NewMPUPartEncryptReaderV1 ::
  "cipher_suite \<Rightarrow> object_context \<Rightarrow> source \<Rightarrow> bytes \<Rightarrow> bytes \<Rightarrow> bytes \<Rightarrow> int \<Rightarrow> int \<Rightarrow> int \<Rightarrow> string \<Rightarrow>
     goerr + mpu_encrypt_reader \<times> int" where
  "NewMPUPartEncryptReaderV1 Su object src dek uploadIDHash ivPrefix partNumber chunkSize plainLen algorithm =
     newMPUPartEncryptReader Su object (replicate 16 0) src dek uploadIDHash ivPrefix partNumber chunkSize plainLen algorithm False"

text \<open>One round of the loop of \<^verbatim>\<open>Read\<close> with nothing pending.\<close>

definition me_chunk :: "hkdf \<Rightarrow> mpu_encrypt_reader \<Rightarrow> mpu_encrypt_reader" where
  "me_chunk H r =
     (case read_full (me_src r) (min (me_csz r) (nat (me_remaining r))) of
        (b, Some e, s) \<Rightarrow> me_release (r\<lparr>me_src := s, me_err := Some (Err ''mpu_encrypter: read source'')\<rparr>)
      | (b, None, s) \<Rightarrow>
          let r = r\<lparr>me_src := s, me_remaining := me_remaining r - int (length b)\<rparr> in
          (case sealChunk H (me_scheme r) (me_part r) (me_chunkIdx r) b of
             Inl e \<Rightarrow> me_release (r\<lparr>me_err := Some e\<rparr>)
           | Inr ct \<Rightarrow> r\<lparr>me_pending := ct, me_chunkIdx := me_chunkIdx r + 1\<rparr>))"

definition me_fetch :: "hkdf \<Rightarrow> mpu_encrypt_reader \<Rightarrow> mpu_encrypt_reader" where
  "me_fetch H r =
     (if me_srcDone r then me_release (r\<lparr>me_eof := True\<rparr>)
      else if me_remaining r = 0 then
        (case read_full (me_src r) 1 of
           (b, e, s) \<Rightarrow>
             if b \<noteq> [] \<or> e \<noteq> Some EOF
             then me_release (r\<lparr>me_src := s, me_err := Some (Err ''mpu_encrypter: source exceeds declared plaintext length'')\<rparr>)
             else r\<lparr>me_src := s, me_srcDone := True\<rparr>)
      else if 0x7FFFFFFF \<le> me_chunkIdx r
      then me_release (r\<lparr>me_err := Some (Err ''mpu_encrypter: chunk index overflow'')\<rparr>)
      else me_chunk H r)"

definition me_size :: "mpu_encrypt_reader \<Rightarrow> nat" where
  "me_size r = (if me_eof r then 0 else 1) + (if me_srcDone r then 0 else 1 + (0x7FFFFFFF - unat (me_chunkIdx r)))"

lemma me_release_sel [simp]:
  "me_err (me_release r) = me_err r" "me_eof (me_release r) = me_eof r" "me_pending (me_release r) = me_pending r"
  "me_srcDone (me_release r) = me_srcDone r" "me_chunkIdx (me_release r) = me_chunkIdx r"
  by (simp_all add: me_release_def)

lemma u32_less_step: "i < (0x7FFFFFFF :: u32) \<Longrightarrow> unat (i + 1) = unat i + 1 \<and> unat i < 0x7FFFFFFF"
proof -
  assume "i < 0x7FFFFFFF"
  then have "unat i < 0x7FFFFFFF" by (simp add: word_less_nat_alt)
  then show ?thesis by (simp add: unat_word_ariths take_bit_nat_eq_self)
qed

lemma me_fetch_size:
  assumes "me_err (me_fetch H r) = None" and "me_err r = None" and "\<not> me_eof r"
  shows "me_size (me_fetch H r) < me_size r"
proof -
  have "unat (me_chunkIdx r + 1) = unat (me_chunkIdx r) + 1 \<and> unat (me_chunkIdx r) < 0x7FFFFFFF"
    if "\<not> 0x7FFFFFFF \<le> me_chunkIdx r"
    using u32_less_step that by simp
  then show ?thesis using assms
    by (auto simp: me_fetch_def me_chunk_def me_size_def Let_def split: if_splits prod.splits option.splits sum.splits)
qed

function me_loop :: "hkdf \<Rightarrow> mpu_encrypt_reader \<Rightarrow> nat \<Rightarrow> bytes \<times> goerr option \<times> mpu_encrypt_reader" where
  "me_loop H r room =
     (if room = 0 then ([], None, r)
      else if me_pending r \<noteq> [] then
        (case me_loop H (r\<lparr>me_pending := drop room (me_pending r)\<rparr>) (room - length (me_pending r)) of
           (b, e, r') \<Rightarrow> (take room (me_pending r) @ b, e, r'))
      else if me_eof r \<or> me_err r \<noteq> None then ([], None, r)
      else case me_err (me_fetch H r) of
          Some e \<Rightarrow> ([], Some e, me_fetch H r)
        | None \<Rightarrow> me_loop H (me_fetch H r) room)"
  by pat_completeness auto
termination
  by (relation "measure (\<lambda>(H, r, room). me_size r + room)")
    (auto simp: me_size_def dest: me_fetch_size [unfolded me_size_def])

declare me_loop.simps [simp del]

definition me_Read :: "hkdf \<Rightarrow> mpu_encrypt_reader \<Rightarrow> nat \<Rightarrow> bytes \<times> goerr option \<times> mpu_encrypt_reader" where
  "me_Read H r n =
     (case me_err r of
        Some e \<Rightarrow> ([], Some e, r)
      | None \<Rightarrow>
          if me_eof r then ([], Some EOF, me_release r)
          else
            (case me_loop H r n of
               (b, Some e, r') \<Rightarrow> (b, Some e, r')
             | (b, None, r') \<Rightarrow> if me_eof r' \<and> b = [] then ([], Some EOF, r') else (b, None, r')))"

section \<open>The stored form of a part\<close>

text \<open>A usable scheme: lawful cipher, valid object, and a binding of 16 bytes if it is bound.\<close>

definition scheme_ok :: "mpu_scheme \<Rightarrow> bool" where
  "scheme_ok S \<longleftrightarrow> aead_laws (ms_aead S) \<and> Validate (ms_object S) = Inr () \<and> (ms_bound S \<longrightarrow> length (ms_binding S) = 16)"

definition mpuAAD :: "mpu_scheme \<Rightarrow> u32 \<Rightarrow> u32 \<Rightarrow> bytes" where
  "mpuAAD S part idx = (case mpuChunkAAD S part idx of Inl _ \<Rightarrow> [] | Inr a \<Rightarrow> a)"

definition mpu_record :: "hkdf \<Rightarrow> mpu_scheme \<Rightarrow> u32 \<Rightarrow> u32 \<Rightarrow> bytes \<Rightarrow> bytes" where
  "mpu_record H S part idx p =
     Seal (ms_aead S) (DeriveMultipartIV H (ms_dek S) (ms_hash S) (ms_prefix S) part idx) p (mpuAAD S part idx)"

primrec mpu_records :: "hkdf \<Rightarrow> mpu_scheme \<Rightarrow> u32 \<Rightarrow> u32 \<Rightarrow> bytes list \<Rightarrow> bytes list" where
  "mpu_records H S part idx [] = []"
| "mpu_records H S part idx (p # ps) = mpu_record H S part idx p # mpu_records H S part (idx + 1) ps"

definition part_bytes :: "hkdf \<Rightarrow> mpu_scheme \<Rightarrow> u32 \<Rightarrow> nat \<Rightarrow> bytes \<Rightarrow> bytes" where
  "part_bytes H S part cs pt = concat (mpu_records H S part 0 (chunks cs pt))"

lemma mpu_iv_length [simp]: "hkdf_laws H \<Longrightarrow> length (DeriveMultipartIV H d h p a b) = nonceSize"
  by (simp add: DeriveMultipartIV_def mpuIVSize_def nonceSize_def)

lemma mpuChunkAAD_ok: "scheme_ok S \<Longrightarrow> mpuChunkAAD S part idx = Inr (mpuAAD S part idx)"
proof -
  assume S: "scheme_ok S"
  have "\<exists>a. mpuChunkAAD S part idx = Inr a"
    using S buildObjectAAD_total [of "ms_object S" aadMPUV2Chunk "ms_binding S" "[ucast part, ucast idx]"]
    by (auto simp: mpuChunkAAD_def scheme_ok_def aadDomains_def)
  then show ?thesis by (auto simp: mpuAAD_def)
qed

lemma sealChunk_ok: "hkdf_laws H \<Longrightarrow> scheme_ok S \<Longrightarrow> sealChunk H S part idx p = Inr (mpu_record H S part idx p)"
  by (simp add: sealChunk_def mpuChunkAAD_ok goSeal_def mpu_record_def)

lemma openChunk_Inr: "hkdf_laws H \<Longrightarrow> scheme_ok S \<Longrightarrow> openChunk H S part idx c = Inr p \<longleftrightarrow> c = mpu_record H S part idx p"
proof -
  assume H: "hkdf_laws H" and S: "scheme_ok S"
  have "openChunk H S part idx c = Inr p \<longleftrightarrow>
      goOpen (ms_aead S) (DeriveMultipartIV H (ms_dek S) (ms_hash S) (ms_prefix S) part idx) c (mpuAAD S part idx) = Inr p"
    by (simp add: openChunk_def mpuChunkAAD_ok [OF S] split: sum.split)
  then show ?thesis using H S by (simp add: goOpen_Inr scheme_ok_def mpu_record_def)
qed

lemma openChunk_record [simp]: "hkdf_laws H \<Longrightarrow> scheme_ok S \<Longrightarrow> openChunk H S part idx (mpu_record H S part idx p) = Inr p"
  by (simp add: openChunk_Inr)

lemma openChunk_not_EOF: "openChunk H S part idx c \<noteq> Inl EOF"
  by (auto simp: openChunk_def mpuChunkAAD_def and_then_eq_Inl wrapErr_def goOpen_def buildObjectAAD_def Validate_def
      writeLengthPrefixed_def checkedLengthPrefix_def split: if_splits sum.splits option.splits)

lemma length_mpu_record [wire_length]: "hkdf_laws H \<Longrightarrow> scheme_ok S \<Longrightarrow> length (mpu_record H S part idx p) = length p + 16"
  by (simp add: mpu_record_def scheme_ok_def aead_seal_length)

lemma length_mpu_records [simp]: "length (mpu_records H S part idx ps) = length ps"
  by (induction ps arbitrary: idx) simp_all

lemma mpu_records_nth: "k < length ps \<Longrightarrow> mpu_records H S part idx ps ! k = mpu_record H S part (idx + of_nat k) (ps ! k)"
proof (induction ps arbitrary: idx k)
  case (Cons p ps)
  then show ?case by (cases k) (simp_all add: ac_simps)
qed simp

lemma mpu_records_append:
  "mpu_records H S part idx (ps @ qs) = mpu_records H S part idx ps @ mpu_records H S part (idx + of_nat (length ps)) qs"
  by (induction ps arbitrary: idx) (simp_all add: ac_simps)

lemma length_concat_records:
  "hkdf_laws H \<Longrightarrow> scheme_ok S \<Longrightarrow>
     length (concat (mpu_records H S part idx ps)) = length (concat ps) + 16 * length ps"
  by (induction ps arbitrary: idx) (simp_all add: length_mpu_record)

lemma ucast_u64_inject: "(ucast a :: u64) = ucast b \<longleftrightarrow> a = b" for a b :: u32
proof
  assume eq: "(ucast a :: u64) = ucast b"
  show "a = b"
  proof (rule bit_word_eqI)
    fix n assume "n < LENGTH(32)"
    then show "bit a n \<longleftrightarrow> bit b n" using arg_cong [OF eq, of "\<lambda>w. bit w n"] by (simp add: bit_simps)
  qed
qed simp

text \<open>A record binds its object, its part and its position in the part.\<close>

lemma mpuAAD_inject:
  assumes "scheme_ok S" "scheme_ok S'" and "ms_bound S" "ms_bound S'" and "mpuAAD S part idx = mpuAAD S' part' idx'"
  shows "ms_object S = ms_object S' \<and> ms_binding S = ms_binding S' \<and> part = part' \<and> idx = idx'"
proof -
  have "buildObjectAAD aadMPUV2Chunk (ms_object S) (ms_binding S) [ucast part, ucast idx] =
      buildObjectAAD aadMPUV2Chunk (ms_object S') (ms_binding S') [ucast part', ucast idx']"
    using mpuChunkAAD_ok [OF assms(1), of part idx] mpuChunkAAD_ok [OF assms(2), of part' idx'] assms(3-5)
    by (simp add: mpuChunkAAD_def)
  then have "ms_object S = ms_object S' \<and> ms_binding S = ms_binding S' \<and>
      [ucast part, ucast idx] = [ucast part', ucast idx' :: u64]"
    using buildObjectAAD_inject mpuChunkAAD_ok [OF assms(1), of part idx] assms(3) by (metis mpuChunkAAD_def)
  then show ?thesis by (simp add: ucast_u64_inject)
qed

section \<open>What the part encrypter delivers\<close>

text \<open>
  Over a clean source, the plaintext that is sealed: the declared length if the source has
  it, otherwise the full chunks it has. \<open>me_fin\<close> is how the reader ends: regularly exactly
  when the source has the declared length.
\<close>

definition sealable :: "nat \<Rightarrow> nat \<Rightarrow> bytes \<Rightarrow> bytes" where
  "sealable cs n d = (if length d < n then take (cs * (length d div cs)) d else take n d)"

definition me_data :: "mpu_encrypt_reader \<Rightarrow> bytes" where
  "me_data r = sealable (me_csz r) (nat (me_remaining r)) (src_bytes (me_src r))"

definition me_tail :: "hkdf \<Rightarrow> mpu_encrypt_reader \<Rightarrow> bytes" where
  "me_tail H r = (if me_err r \<noteq> None \<or> me_srcDone r then []
     else concat (mpu_records H (me_scheme r) (me_part r) (me_chunkIdx r) (chunks (me_csz r) (me_data r))))"

definition me_fin :: "mpu_encrypt_reader \<Rightarrow> goerr" where
  "me_fin r = (case me_err r of
     Some e \<Rightarrow> e
   | None \<Rightarrow>
       if me_srcDone r then EOF
       else if length (src_bytes (me_src r)) < nat (me_remaining r) then Err ''mpu_encrypter: read source''
       else if nat (me_remaining r) < length (src_bytes (me_src r))
       then Err ''mpu_encrypter: source exceeds declared plaintext length''
       else EOF)"

definition me_inv :: "mpu_encrypt_reader \<Rightarrow> bool" where
  "me_inv r \<longleftrightarrow> src_clean (me_src r) \<and> 0 < me_csz r \<and> 0 \<le> me_remaining r \<and>
     unat (me_chunkIdx r) + (nat (me_remaining r) + me_csz r - 1) div me_csz r \<le> 0x7FFFFFFF \<and>
     (me_eof r \<longrightarrow> me_srcDone r \<and> me_pending r = [] \<and> me_release r = r) \<and>
     (me_err r = None \<and> \<not> me_srcDone r \<longrightarrow> scheme_ok (me_scheme r))"

lemma me_release_idem [simp]: "me_release (me_release r) = me_release r"
  by (simp add: me_release_def)

lemma me_release_inv:
  assumes "src_clean (me_src r)" and "0 < me_csz r" and "0 \<le> me_remaining r"
    and "unat (me_chunkIdx r) + (nat (me_remaining r) + me_csz r - 1) div me_csz r \<le> 0x7FFFFFFF"
    and "me_err r \<noteq> None \<or> me_srcDone r" and "me_eof r \<longrightarrow> me_srcDone r \<and> me_pending r = []"
  shows "me_inv (me_release r)"
proof -
  have "me_release (me_release r) = me_release r" by simp
  then show ?thesis using assms by (auto simp: me_inv_def simp del: me_release_idem) (auto simp: me_release_def)
qed

text \<open>One chunk of the data, and what is left.\<close>

lemma sealable_step:
  assumes "0 < cs" and "0 < n" and "min cs n \<le> length d"
  shows "chunks cs (sealable cs n d) = take (min cs n) d # chunks cs (sealable cs (n - min cs n) (drop (min cs n) d))"
proof (cases "cs \<le> n")
  case True
  then have cs: "min cs n = cs" "cs \<le> length d" using assms(3) by auto
  have k: "cs * (length d div cs) = cs + cs * ((length d - cs) div cs)"
    using cs(2) assms(1) by (simp add: le_div_geq)
  have D: "take cs (sealable cs n d) = take cs d" "drop cs (sealable cs n d) = sealable cs (n - cs) (drop cs d)"
      "sealable cs n d \<noteq> []"
    using assms(1,2) cs True k by (auto simp: sealable_def drop_take min_def split: if_splits)
  then show ?thesis using assms(1) by (subst chunks_step) (simp_all add: cs)
next
  case False
  then have "min cs n = n" "sealable cs n d = take n d" "sealable cs 0 (drop n d) = []"
    using assms by (auto simp: sealable_def)
  then show ?thesis using False assms(2,3) by (subst chunks_step) auto
qed

lemma me_fetch_chunk:
  assumes "me_inv r" and "hkdf_laws H" and "me_err r = None" "\<not> me_srcDone r" "me_pending r = []" "0 < me_remaining r"
    and "min (me_csz r) (nat (me_remaining r)) \<le> length (src_bytes (me_src r))"
  shows "me_inv (me_fetch H r) \<and> me_err (me_fetch H r) = None \<and> me_fin (me_fetch H r) = me_fin r \<and>
    me_tail H r = me_pending (me_fetch H r) @ me_tail H (me_fetch H r)"
proof -
  define n w d where nwd: "n = nat (me_remaining r)" "w = min (me_csz r) n" "d = src_bytes (me_src r)"
  have cs: "0 < me_csz r" "scheme_ok (me_scheme r)" and n: "me_remaining r = int n" "0 < n" "w \<le> n" "0 < w"
    using assms(1,3,4,6) by (auto simp: me_inv_def nwd)
  obtain b e s where rf: "read_full (me_src r) w = (b, e, s)" by (cases "read_full (me_src r) w")
  have rd: "b = take w d" "src_bytes s = drop w d" "src_clean s" "e = None" "length b = w"
    using read_full_clean [OF _ rf] assms(1,7) by (auto simp: me_inv_def nwd)
  define m where m: "m = n - w"
  then have m': "me_remaining r - int w = int m" using n by simp
  define r' where "r' = r\<lparr>me_src := s, me_remaining := int m,
      me_pending := mpu_record H (me_scheme r) (me_part r) (me_chunkIdx r) b, me_chunkIdx := me_chunkIdx r + 1\<rparr>"
  have count: "(n + me_csz r - 1) div me_csz r = Suc ((m + me_csz r - 1) div me_csz r)"
    using n(2) cs(1) by (cases "me_csz r \<le> n") (auto simp: m nwd(2) min_def le_div_geq div_add_self2 div_eq_0_iff)
  have bound: "unat (me_chunkIdx r) + (n + me_csz r - 1) div me_csz r \<le> 0x7FFFFFFF"
    using assms(1) n(1) by (simp add: me_inv_def)
  then have "unat (me_chunkIdx r) < 0x7FFFFFFF" using count by simp
  then have idx: "\<not> 0x7FFFFFFF \<le> me_chunkIdx r" "unat (me_chunkIdx r + 1) = unat (me_chunkIdx r) + 1"
    using u32_less_step [of "me_chunkIdx r"] by (simp_all add: word_le_nat_alt word_less_nat_alt)
  have fetch: "me_fetch H r = r'"
    using assms(4) rf rd(4,5) idx(1) n(2) m' assms(6) sealChunk_ok [OF assms(2) cs(2)]
    by (simp add: me_fetch_def me_chunk_def r'_def flip: nwd(1,2))
  have "chunks (me_csz r) (me_data r) = take w d # chunks (me_csz r) (me_data r')"
    using sealable_step [OF cs(1) n(2), of d] assms(7) rd(2) n(1)
    by (simp add: me_data_def r'_def m flip: nwd)
  then have "me_tail H r = me_pending r' @ me_tail H r'"
    using assms(3,4) rd(1) by (simp add: me_tail_def) (simp add: r'_def)
  moreover have "me_inv r'"
    using assms(1,4) cs rd(3) count bound idx(2) by (simp add: me_inv_def r'_def)
  moreover have "me_fin r' = me_fin r"
    using assms(3,4,7) n(1,3) rd(2) by (auto simp: me_fin_def r'_def m simp flip: nwd)
  ultimately show ?thesis using fetch assms(3) by (simp add: r'_def)
qed

lemma me_fetch_ok:
  assumes "me_inv r" and "hkdf_laws H" and "me_err r = None" "\<not> me_eof r" "me_pending r = []"
  shows "me_inv (me_fetch H r) \<and> me_fin (me_fetch H r) = me_fin r \<and>
    (case me_err (me_fetch H r) of
       None \<Rightarrow> me_tail H r = me_pending (me_fetch H r) @ me_tail H (me_fetch H r) \<and> me_size (me_fetch H r) < me_size r
     | Some e \<Rightarrow> me_tail H r = [])"
proof -
  let ?d = "src_bytes (me_src r)" and ?n = "nat (me_remaining r)"
  have inv: "src_clean (me_src r)" "0 < me_csz r" "0 \<le> me_remaining r"
      "unat (me_chunkIdx r) + (?n + me_csz r - 1) div me_csz r \<le> 0x7FFFFFFF"
    using assms(1) by (simp_all add: me_inv_def)
  consider (src_over) "me_srcDone r" | (all_read) "\<not> me_srcDone r" "me_remaining r = 0"
    | (chunk) "\<not> me_srcDone r" "0 < me_remaining r" "min (me_csz r) ?n \<le> length ?d"
    | (short) "\<not> me_srcDone r" "0 < me_remaining r" "length ?d < min (me_csz r) ?n"
    using inv(3) by linarith
  then show ?thesis
  proof cases
    case src_over
    then have f: "me_fetch H r = me_release (r\<lparr>me_eof := True\<rparr>)" by (simp add: me_fetch_def)
    moreover have "me_inv (me_release (r\<lparr>me_eof := True\<rparr>))" using inv src_over assms(5) by (intro me_release_inv) simp_all
    ultimately show ?thesis using assms src_over by (simp add: me_tail_def me_fin_def me_size_def)
  next
    case all_read
    obtain b e s where rf: "read_full (me_src r) 1 = (b, e, s)" by (cases "read_full (me_src r) 1")
    note rd = read_full_clean [OF inv(1) rf]
    show ?thesis
    proof (cases "?d = []")
      case True
      then have "me_fetch H r = r\<lparr>me_src := s, me_srcDone := True\<rparr>" using all_read rf rd by (simp add: me_fetch_def)
      then show ?thesis using assms all_read True inv rd
        by (simp add: me_tail_def me_fin_def me_size_def me_inv_def me_data_def sealable_def)
    next
      case False
      then have f: "me_fetch H r = me_release (r\<lparr>me_src := s, me_err := Some (Err ''mpu_encrypter: source exceeds declared plaintext length'')\<rparr>)"
        using all_read rf rd by (simp add: me_fetch_def)
      moreover have "me_inv (me_fetch H r)" unfolding f using inv rd assms(4) by (intro me_release_inv) simp_all
      ultimately show ?thesis using assms all_read False by (simp add: me_tail_def me_fin_def me_data_def sealable_def)
    qed
  next
    case chunk
    then show ?thesis using me_fetch_chunk [OF assms(1,2,3) _ assms(5)] me_fetch_size [of H r] assms(3,4) by simp
  next
    case short
    obtain b e s where rf: "read_full (me_src r) (min (me_csz r) ?n) = (b, e, s)" by (cases "read_full (me_src r) (min (me_csz r) ?n)")
    note rd = read_full_clean [OF inv(1) rf]
    obtain x where e: "e = Some x" using rd(4) short(3) by (auto split: if_splits)
    have "1 \<le> (?n + me_csz r - 1) div me_csz r" using short(2) inv(2) by (simp add: div_greater_zero_iff Suc_le_eq)
    then have "\<not> 0x7FFFFFFF \<le> me_chunkIdx r" using inv(4) by (simp add: word_le_nat_alt)
    then have f: "me_fetch H r = me_release (r\<lparr>me_src := s, me_err := Some (Err ''mpu_encrypter: read source'')\<rparr>)"
      using short rf e by (simp add: me_fetch_def me_chunk_def)
    moreover have "me_inv (me_fetch H r)" unfolding f using inv rd assms(4) by (intro me_release_inv) simp_all
    moreover have "me_data r = []" using short(3) by (auto simp: me_data_def sealable_def)
    ultimately show ?thesis using assms short by (simp add: me_tail_def me_fin_def)
  qed
qed

lemma me_loop_finished: "me_loop H r n = ([], None, r') \<Longrightarrow> 0 < n \<Longrightarrow> me_err r = None \<Longrightarrow> me_eof r'"
proof (induction H r n rule: me_loop.induct)
  case (1 H r room)
  then show ?case
    by (subst (asm) (2) me_loop.simps) (auto split: if_splits option.splits prod.splits)
qed

lemma me_inv_consume:
  "me_inv r \<Longrightarrow> me_err r = None \<Longrightarrow>
     me_inv (r\<lparr>me_pending := drop n (me_pending r)\<rparr>) \<and> me_tail H (r\<lparr>me_pending := drop n (me_pending r)\<rparr>) = me_tail H r \<and>
     me_fin (r\<lparr>me_pending := drop n (me_pending r)\<rparr>) = me_fin r"
  by (cases r) (auto simp: me_inv_def me_tail_def me_fin_def me_data_def me_release_def)

interpretation mpu_encrypt: buffered_reader "me_Read H" "me_loop H" "me_fetch H" me_pending
  "\<lambda>n r. r\<lparr>me_pending := drop n (me_pending r)\<rparr>" "\<lambda>_. False" me_eof me_err me_size "\<lambda>r. hkdf_laws H \<and> me_inv r"
  "me_tail H" me_fin for H
proof (unfold_locales, goal_cases)
  case (1 r n)
  obtain b e r' where lp: "me_loop H r n = (b, e, r')" by (cases "me_loop H r n")
  show ?case
  proof (cases "me_err r")
    case None
    have "me_eof r \<Longrightarrow> me_loop H r n = ([], None, r) \<and> me_release r = r"
      using 1 None by (auto simp: me_loop.simps [of H r] me_inv_def)
    then show ?thesis using lp None 1(2) me_loop_finished [of H r n r']
      by (auto simp: me_Read_def split: option.splits)
  qed (simp add: me_Read_def)
next
  case (2 r n)
  then show ?case by (subst me_loop.simps) (auto split: prod.splits option.splits)
next
  case (3 r n)
  then show ?case using me_inv_consume [of r n H] by (simp add: me_size_def)
next
  case (5 r)
  then show ?case by (auto simp: me_inv_def me_tail_def me_fin_def)
next
  case (6 r e)
  then show ?case by (simp add: me_fin_def)
next
  case (7 r)
  then show ?case using me_fetch_ok [of r H] by (auto split: option.splits)
qed simp

text \<open>The reader as constructed, and the ciphertext length that is announced for it.\<close>

lemma count_nat:
  assumes "0 < cs" and "0 \<le> n"
  shows "nat (mpuChunkCount cs n) = (nat n + nat cs - 1) div nat cs"
proof -
  obtain a b where ab: "cs = int a" "n = int b" using assms by (metis zero_le_imp_eq_int less_imp_le)
  define q r where "q = b div a" and "r = b mod a"
  then have qr: "b = q * a + r" "r < a" using assms(1) ab(1) by simp_all
  have "mpuChunkCount cs n = int (q + (if r \<noteq> 0 then 1 else 0))"
    using qr by (simp add: mpuChunkCount_def ab q_def r_def flip: zdiv_int zmod_int)
  moreover have "(b + a - 1) div a = q + (if r \<noteq> 0 then 1 else 0)"
    using qr by (intro div_nat_eqI) (auto simp: algebra_simps)
  ultimately show ?thesis by (simp add: ab)
qed

lemma newMPUPartEncryptReader_Inr:
  assumes "newMPUPartEncryptReader Su oc b src dek h pre pn cs n alg bound = Inr (r, encLen)"
    and "suite_laws Su" and "bound \<longrightarrow> length b = 16" and "src_clean src"
  shows "me_inv r" "me_src r = src" "me_part r = of_int pn" "me_remaining r = n" "me_pending r = []" "me_chunkIdx r = 0"
    "me_err r = None" "\<not> me_srcDone r" "scheme_ok (me_scheme r)" "0 < me_csz r" "0 \<le> n"
    "encLen = int (nat n + 16 * ((nat n + me_csz r - 1) div me_csz r))"
proof -
  define sz where "sz = (if cs \<le> 0 then DefaultChunkSize else cs)"
  have c: "0 \<le> n" "0 < sz" "mpuChunkCount sz n \<le> maxInt32" "mpuChunkCount sz n \<le> (maxInt64 - n) div 16" "me_csz r = nat sz"
      "encLen = wrap64 (n + wrap64 (mpuChunkCount sz n * 16))"
      "me_src r = src" "me_part r = of_int pn" "me_remaining r = n" "me_pending r = []" "me_chunkIdx r = 0"
      "me_err r = None" "\<not> me_srcDone r" "\<not> me_eof r"
    and ok: "scheme_ok (me_scheme r)"
    using assms by (auto simp: newMPUPartEncryptReader_def Let_def and_then_eq_Inr sz_def[symmetric] mpuAEADTagSize_def scheme_ok_def
        split: if_splits dest: createMPUAEADCipher_laws) (auto simp: sz_def chunk_consts split: if_splits)
  note count = count_nat [OF c(2,1)] mpuChunkCount_bounds(1) [OF c(2,1)]
  have "(mpuChunkCount sz n) * 16 \<le> maxInt64 - n" using c(4) by linarith
  then have "encLen = n + 16 * mpuChunkCount sz n" using c(1,6) count(2)
    by (simp add: wrap64_id in_int64_def int_limits)
  then show "encLen = int (nat n + 16 * ((nat n + me_csz r - 1) div me_csz r))"
    unfolding c(5) count(1) [symmetric] using count(2) c(1) by simp
  have "(nat n + me_csz r - 1) div me_csz r \<le> 0x7FFFFFFF" unfolding c(5) count(1) [symmetric] using c(3) by (simp add: int_limits)
  then show "me_inv r" using c ok assms(4) by (simp add: me_inv_def)
  show "me_src r = src" "me_part r = of_int pn" "me_remaining r = n" "me_pending r = []" "me_chunkIdx r = 0"
      "me_err r = None" "\<not> me_srcDone r" "scheme_ok (me_scheme r)" "0 < me_csz r" "0 \<le> n"
    using c ok by simp_all
qed

lemma sealable_length: "length (sealable cs n d) \<le> n"
  by (simp add: sealable_def min_def)

lemma part_encrypt_drain:
  assumes "newMPUPartEncryptReader Su oc b src dek h pre pn cs n alg bound = Inr (r, encLen)"
    and "suite_laws Su" and "hkdf_laws H" and "bound \<longrightarrow> length b = 16" and "src_clean src"
    and "\<forall>k \<in> set ns. 0 < k" and "nat encLen < length ns"
  shows "\<exists>out e r'. drain (me_Read H) ns r = (out, Some e, r') \<and>
    (e = EOF \<longleftrightarrow> int (length (src_bytes src)) = n) \<and>
    (e = EOF \<longrightarrow> out = part_bytes H (me_scheme r) (of_int pn) (me_csz r) (src_bytes src) \<and> int (length out) = encLen)"
proof -
  note r = newMPUPartEncryptReader_Inr [OF assms(1,2,4,5)]
  let ?cs = "me_csz r" and ?d = "src_bytes src"
  have tl: "me_tail H r = concat (mpu_records H (me_scheme r) (of_int pn) 0 (chunks ?cs (sealable ?cs (nat n) ?d)))"
    using r by (simp add: me_tail_def me_data_def)
  have len: "length (me_tail H r) = length (sealable ?cs (nat n) ?d) + 16 * ((length (sealable ?cs (nat n) ?d) + ?cs - 1) div ?cs)"
    unfolding tl using length_concat_records [OF assms(3) r(9)] r(10) by (simp add: length_chunks)
  also have "\<dots> \<le> nat encLen" unfolding r(12) nat_int using sealable_length [of ?cs "nat n" ?d]
    by (intro add_mono mult_le_mono2 div_le_mono diff_le_mono) auto
  finally have "length (me_pending r @ me_tail H r) < length ns" using assms(7) r(5) by simp
  then obtain r' where dr: "drain (me_Read H) ns r = (me_tail H r, Some (me_fin r), r')"
    using mpu_encrypt.reader.drain_complete [of H r ns] assms(3,6) r(1,5,7) by auto
  have "me_fin r = EOF \<longleftrightarrow> int (length ?d) = n" using r by (auto simp: me_fin_def)
  moreover have "me_tail H r = part_bytes H (me_scheme r) (of_int pn) ?cs ?d" "int (length (me_tail H r)) = encLen"
    if "int (length ?d) = n"
  proof -
    have "sealable ?cs (nat n) ?d = ?d" using that by (auto simp: sealable_def)
    then show "me_tail H r = part_bytes H (me_scheme r) (of_int pn) ?cs ?d" "int (length (me_tail H r)) = encLen"
      using tl len r(12) that by (auto simp: part_bytes_def)
  qed
  ultimately show ?thesis using dr by blast
qed

text \<open>
  C13. An uploaded part is encrypted exactly or not at all. Over a source without failures,
  reading the part encrypter to its end with any buffer sizes gives \<open>EOF\<close> precisely when the
  source has the declared number of bytes, and then the chunks of the plaintext, sealed one by
  one under the part number and the chunk index, with the length that was announced to the
  backend. A source that is shorter or longer ends in an error.
\<close>

theorem mpu_part_encrypt_exact:
  assumes "newMPUPartEncryptReader Su oc b src dek h pre pn cs n alg bound = Inr (r, encLen)"
    and "suite_laws Su" and "hkdf_laws H" and "bound \<longrightarrow> length b = 16" and "src_clean src"
    and "\<forall>k \<in> set ns. 0 < k" and "nat encLen < length ns"
  shows "\<exists>out e r'. drain (me_Read H) ns r = (out, Some e, r') \<and>
    (e = EOF \<longleftrightarrow> int (length (src_bytes src)) = n) \<and>
    (e = EOF \<longrightarrow> out = part_bytes H (me_scheme r) (of_int pn) (me_csz r) (src_bytes src) \<and> int (length out) = encLen)"
  using assms by (rule part_encrypt_drain)

text \<open>A part of three bytes, in chunks of two, with the declared length right and wrong.\<close>

definition ex_suite :: cipher_suite where
  "ex_suite = \<lparr>aes_gcm = \<lambda>_. sum_aead, chacha20_poly1305 = \<lambda>_. sum_aead, fips_build = False\<rparr>"

lemma ex_suite_laws [simp]: "suite_laws ex_suite"
  by (simp add: suite_laws_def ex_suite_def)

lemma ex_part_encrypter:
  "\<exists>r. newMPUPartEncryptReader ex_suite \<lparr>oc_bucket = ''b'', oc_key = ''k''\<rparr> (replicate 16 9) [SData [1, 2, 3]] (replicate 32 7)
     (replicate 32 8) (replicate 12 6) 1 2 3 [] True = Inr (r, 35)"
  by (simp add: newMPUPartEncryptReader_def Validate_def createMPUAEADCipher_def createAEADCipher_def createAESGCMCipher_def
      aesKeySize_def ex_suite_def mpuChunkCount_def mpuAEADTagSize_def int_limits wrap64_id in_int64_def chunk_consts
      AlgorithmAES256GCM_def AlgorithmChaCha20Poly1305_def)

theorem mpu_part_encrypt_exact_witness:
  "\<exists>r out r'. newMPUPartEncryptReader ex_suite \<lparr>oc_bucket = ''b'', oc_key = ''k''\<rparr> (replicate 16 9) [SData [1, 2, 3]]
       (replicate 32 7) (replicate 32 8) (replicate 12 6) 1 2 3 [] True = Inr (r, 35) \<and>
     drain (me_Read sum_hkdf) (replicate 40 7) r = (out, Some EOF, r') \<and> length out = 35"
proof -
  obtain r where r: "newMPUPartEncryptReader ex_suite \<lparr>oc_bucket = ''b'', oc_key = ''k''\<rparr> (replicate 16 9) [SData [1, 2, 3]]
      (replicate 32 7) (replicate 32 8) (replicate 12 6) 1 2 3 [] True = Inr (r, 35)"
    using ex_part_encrypter by blast
  show ?thesis
    using r mpu_part_encrypt_exact [OF r ex_suite_laws sum_hkdf_laws, of "replicate 40 7"] by auto
qed

end
