(* ===== verification/Mpu_Decrypt.thy ===== *)
theory Mpu_Decrypt
  imports Mpu_Stream "HOL-Library.Sublist"
begin

text \<open>
  Reading encrypted multipart objects, \<^verbatim>\<open>internal/crypto/mpu_encrypter.go\<close>: the reader over a
  whole object (\<^verbatim>\<open>mpuDecryptReader\<close>) and the decryption of chunks of one part
  (\<^verbatim>\<open>DecryptMPUPartRange\<close>, \<^verbatim>\<open>DecryptMPUPart\<close>).
\<close>

section \<open>The reader\<close>

record mpu_decrypt_reader =
  md_src :: source
  md_manifest :: multipart_manifest
  md_scheme :: mpu_scheme
  md_partIdx :: nat
  md_chunkIdx :: int
  md_buf :: bytes
  md_done :: bool
  md_err :: "goerr option"

text \<open>
  The constructor's result is \<^const>\<open>None\<close> for a manifest without parts, for which the code
  returns an empty reader.
\<close>

definition newMPUDecryptReader ::
  "cipher_suite \<Rightarrow> object_context \<Rightarrow> bytes \<Rightarrow> source \<Rightarrow> multipart_manifest option \<Rightarrow> bytes \<Rightarrow> bytes \<Rightarrow> bytes \<Rightarrow> string \<Rightarrow> bool \<Rightarrow>
     goerr + mpu_decrypt_reader option" where
  "newMPUDecryptReader Su object bindingID src manifest dek uploadIDHash ivPrefix algorithm bound =
     and_then (Validate object) (\<lambda>_.
       case manifest of
         None \<Rightarrow> Inl (Err ''mpu: nil manifest'')
       | Some m \<Rightarrow>
           and_then (validateLayout m) (\<lambda>_.
             if mm_Parts m = [] then Inr None
             else and_then (createMPUAEADCipher Su algorithm dek) (\<lambda>A.
               Inr (Some \<lparr>md_src = src, md_manifest = m,
                 md_scheme = \<lparr>ms_aead = A, ms_dek = dek, ms_hash = uploadIDHash, ms_prefix = ivPrefix, ms_object = object,
                   ms_binding = bindingID, ms_bound = bound\<rparr>,
                 md_partIdx = 0, md_chunkIdx = 0, md_buf = [], md_done = False, md_err = None\<rparr>))))"

definition NewMPUDecryptReaderV1 ::
  "cipher_suite \<Rightarrow> object_context \<Rightarrow> source \<Rightarrow> multipart_manifest option \<Rightarrow> bytes \<Rightarrow> bytes \<Rightarrow> bytes \<Rightarrow> string \<Rightarrow>
     goerr + mpu_decrypt_reader option" where
  "NewMPUDecryptReaderV1 Su object src manifest dek uploadIDHash ivPrefix algorithm =
     newMPUDecryptReader Su object (replicate 16 0) src manifest dek uploadIDHash ivPrefix algorithm False"

definition NewMPUDecryptReader ::
  "cipher_suite \<Rightarrow> object_context \<Rightarrow> bytes \<Rightarrow> source \<Rightarrow> multipart_manifest option \<Rightarrow> bytes \<Rightarrow> bytes \<Rightarrow> bytes \<Rightarrow> string \<Rightarrow>
     goerr + mpu_decrypt_reader option" where
  "NewMPUDecryptReader Su object bindingID src manifest dek uploadIDHash ivPrefix algorithm =
     and_then (Validate object) (\<lambda>_.
       case manifest of
         None \<Rightarrow> Inl (Err ''mpu: nil manifest'')
       | Some m \<Rightarrow>
           if mm_Version m = 1
           then newMPUDecryptReader Su object bindingID src manifest dek uploadIDHash ivPrefix algorithm False
           else if mm_Version m \<noteq> 2 \<or> bindingID = replicate 16 0 then Inl (Err ''mpu: v2 binding ID is required'')
           else newMPUDecryptReader Su object bindingID src manifest dek uploadIDHash ivPrefix algorithm True)"

text \<open>\<^verbatim>\<open>returnEncBuf\<close> wipes the reader's copy of the data key.\<close>

definition md_release :: "mpu_decrypt_reader \<Rightarrow> mpu_decrypt_reader" where
  "md_release r = r\<lparr>md_scheme := (md_scheme r)\<lparr>ms_dek := replicate (length (ms_dek (md_scheme r))) 0\<rparr>\<rparr>"

definition decryptNextChunk ::
  "hkdf \<Rightarrow> mpu_part_record \<Rightarrow> mpu_decrypt_reader \<Rightarrow> goerr option \<times> mpu_decrypt_reader" where
  "decryptNextChunk H part r =
     (if mp_PartNumber part < 1 \<or> mp_PartNumber part > 10000 \<or> md_chunkIdx r < 0 \<or> md_chunkIdx r \<ge> mp_ChunkCount part
      then (Some (Err ''mpu_decrypt: invalid part or chunk index''), r)
      else
        let encSize = (if md_chunkIdx r = mp_ChunkCount part - 1
              then mp_PlainLen part - (mp_ChunkCount part - 1) * mm_ChunkSize (md_manifest r) + mpuAEADTagSize
              else mm_ChunkSize (md_manifest r) + mpuAEADTagSize) in
        case read_full (md_src r) (nat encSize) of
          (b, Some e, s) \<Rightarrow> (Some (Err ''mpu_decrypt: read''), r\<lparr>md_src := s\<rparr>)
        | (b, None, s) \<Rightarrow>
            let r = r\<lparr>md_src := s\<rparr> in
            (case openChunk H (md_scheme r) (of_int (mp_PartNumber part)) (of_int (md_chunkIdx r)) b of
               Inl e \<Rightarrow> (Some e, r)
             | Inr plain \<Rightarrow>
                 let r = r\<lparr>md_buf := plain, md_chunkIdx := md_chunkIdx r + 1\<rparr>;
                     r = (if md_chunkIdx r \<ge> mp_ChunkCount part
                          then r\<lparr>md_partIdx := md_partIdx r + 1, md_chunkIdx := 0\<rparr> else r) in
                 (None, if md_partIdx r \<ge> length (mm_Parts (md_manifest r)) then r\<lparr>md_done := True\<rparr> else r)))"

text \<open>One round of the loop of \<^verbatim>\<open>Read\<close> with an empty buffer.\<close>

definition md_fetch :: "hkdf \<Rightarrow> mpu_decrypt_reader \<Rightarrow> goerr option \<times> mpu_decrypt_reader" where
  "md_fetch H r =
     (if md_done r then (Some EOF, md_release r)
      else if md_partIdx r \<ge> length (mm_Parts (md_manifest r)) then (Some EOF, md_release (r\<lparr>md_done := True\<rparr>))
      else
        let part = mm_Parts (md_manifest r) ! md_partIdx r in
        if mp_ChunkCount part = 0 then (None, r\<lparr>md_partIdx := md_partIdx r + 1\<rparr>)
        else case decryptNextChunk H part r of
            (Some e, r') \<Rightarrow> (Some e, md_release (r'\<lparr>md_err := Some e\<rparr>))
          | (None, r') \<Rightarrow> (None, r'))"

definition md_size :: "mpu_decrypt_reader \<Rightarrow> nat" where
  "md_size r =
     (case drop (md_partIdx r) (mm_Parts (md_manifest r)) of
        [] \<Rightarrow> 0
      | p # ps \<Rightarrow> 1 + nat (mp_ChunkCount p - max 0 (md_chunkIdx r)) + sum_list (map (\<lambda>p. 1 + nat (mp_ChunkCount p)) ps))"

lemma drop_nth_step: "i < length xs \<Longrightarrow> drop i xs = xs ! i # drop (Suc i) xs"
  by (simp add: Cons_nth_drop_Suc)

lemma md_size_next_part:
  assumes "md_partIdx r < length (mm_Parts (md_manifest r))" and "md_partIdx r' = Suc (md_partIdx r)" and "md_manifest r' = md_manifest r"
  shows "md_size r' < md_size r"
  using assms by (auto simp: md_size_def drop_nth_step less_Suc_eq_le split: list.split intro!: trans_le_add2 nat_mono)

lemma md_size_next_chunk:
  assumes "md_partIdx r < length (mm_Parts (md_manifest r))" and "md_partIdx r' = md_partIdx r" and "md_manifest r' = md_manifest r"
    and "md_chunkIdx r' = md_chunkIdx r + 1" "0 \<le> md_chunkIdx r"
    and "md_chunkIdx r < mp_ChunkCount (mm_Parts (md_manifest r) ! md_partIdx r)"
  shows "md_size r' < md_size r"
  using assms by (simp add: md_size_def drop_nth_step)

lemma md_fetch_size:
  assumes "md_fetch H r = (None, r')"
  shows "md_size r' < md_size r"
proof -
  let ?p = "mm_Parts (md_manifest r) ! md_partIdx r"
  have i: "md_partIdx r < length (mm_Parts (md_manifest r))" using assms by (auto simp: md_fetch_def split: if_splits)
  show ?thesis
  proof (cases "mp_ChunkCount ?p = 0")
    case True
    then have "r' = r\<lparr>md_partIdx := md_partIdx r + 1\<rparr>" using assms i by (auto simp: md_fetch_def split: if_splits)
    then show ?thesis using i by (intro md_size_next_part) simp_all
  next
    case False
    then have d: "decryptNextChunk H ?p r = (None, r')"
      using assms i by (auto simp: md_fetch_def Let_def split: if_splits option.splits prod.splits)
    then have c: "0 \<le> md_chunkIdx r" "md_chunkIdx r < mp_ChunkCount ?p" by (auto simp: decryptNextChunk_def split: if_splits)
    have m: "md_manifest r' = md_manifest r"
      using d by (auto simp: decryptNextChunk_def Let_def split: if_splits option.splits prod.splits sum.splits)
    have "md_partIdx r' = Suc (md_partIdx r) \<or> md_partIdx r' = md_partIdx r \<and> md_chunkIdx r' = md_chunkIdx r + 1"
      using d by (auto simp: decryptNextChunk_def Let_def split: if_splits option.splits prod.splits sum.splits)
    then show ?thesis
      using md_size_next_part [OF i _ m] md_size_next_chunk [OF i _ m _ c] by blast
  qed
qed

function md_loop :: "hkdf \<Rightarrow> mpu_decrypt_reader \<Rightarrow> nat \<Rightarrow> bytes \<times> goerr option \<times> mpu_decrypt_reader" where
  "md_loop H r n =
     (if md_buf r \<noteq> [] then (take n (md_buf r), None, r\<lparr>md_buf := drop n (md_buf r)\<rparr>)
      else case md_fetch H r of
          (Some e, r') \<Rightarrow> ([], Some e, r')
        | (None, r') \<Rightarrow> md_loop H r' n)"
  by pat_completeness auto
termination
  by (relation "measure (\<lambda>(H, r, n). md_size r)") (auto dest: sym md_fetch_size)

declare md_loop.simps [simp del]

definition md_Read :: "hkdf \<Rightarrow> mpu_decrypt_reader \<Rightarrow> nat \<Rightarrow> bytes \<times> goerr option \<times> mpu_decrypt_reader" where
  "md_Read H r n =
     (case md_err r of
        Some e \<Rightarrow> ([], Some e, r)
      | None \<Rightarrow> if n = 0 then ([], None, r) else md_loop H r n)"

section \<open>What the reader delivers\<close>

text \<open>
  The chunks from a position on, and the outcome of opening chunks one after the other: the
  plaintext released and how it ends.
\<close>

definition chunks_from :: "multipart_manifest \<Rightarrow> nat \<Rightarrow> int \<Rightarrow> (nat \<times> int) list" where
  "chunks_from m i c =
     (if i < length (mm_Parts m) then
        map (Pair i) [c..mp_ChunkCount (mm_Parts m ! i) - 1] @
        concat (map (\<lambda>j. map (Pair j) [0..mp_ChunkCount (mm_Parts m ! j) - 1]) [Suc i..<length (mm_Parts m)])
      else [])"

fun open_chunks :: "hkdf \<Rightarrow> mpu_scheme \<Rightarrow> multipart_manifest \<Rightarrow> source \<Rightarrow> (nat \<times> int) list \<Rightarrow> bytes \<times> goerr" where
  "open_chunks H S m src [] = ([], EOF)"
| "open_chunks H S m src ((i, c) # ps) =
     (case read_full src (nat (chunkLen m i c + 16)) of
        (b, Some e, s) \<Rightarrow> ([], Err ''mpu_decrypt: read'')
      | (b, None, s) \<Rightarrow>
          (case openChunk H S (of_int (mp_PartNumber (mm_Parts m ! i))) (of_int c) b of
             Inl e \<Rightarrow> ([], e)
           | Inr p \<Rightarrow> (case open_chunks H S m s ps of (q, e) \<Rightarrow> (p @ q, e))))"

lemma chunks_from_end [simp]: "length (mm_Parts m) \<le> i \<Longrightarrow> chunks_from m i c = []"
  by (simp add: chunks_from_def)

lemma chunks_from_next_part:
  assumes "i < length (mm_Parts m)"
  shows "chunks_from m i c = map (Pair i) [c..mp_ChunkCount (mm_Parts m ! i) - 1] @ chunks_from m (Suc i) 0"
  using assms by (cases "Suc i < length (mm_Parts m)") (simp_all add: chunks_from_def upt_rec [of "Suc i"])

lemma chunks_from_step:
  assumes "chunk_at m i c"
  shows "chunks_from m i c =
    (i, c) # (if c = mp_ChunkCount (mm_Parts m ! i) - 1 then chunks_from m (Suc i) 0 else chunks_from m i (c + 1))"
  using assms by (auto simp: chunk_at_def chunks_from_next_part upto_rec1)

definition md_run :: "hkdf \<Rightarrow> mpu_decrypt_reader \<Rightarrow> bytes \<times> goerr" where
  "md_run H r =
     (case md_err r of
        Some e \<Rightarrow> ([], e)
      | None \<Rightarrow>
          if md_done r then ([], EOF)
          else open_chunks H (md_scheme r) (md_manifest r) (md_src r) (chunks_from (md_manifest r) (md_partIdx r) (md_chunkIdx r)))"

definition md_inv :: "mpu_decrypt_reader \<Rightarrow> bool" where
  "md_inv r \<longleftrightarrow> layout_ok (md_manifest r) \<and> (md_err r \<noteq> None \<longrightarrow> md_buf r = []) \<and>
     (md_partIdx r < length (mm_Parts (md_manifest r)) \<longrightarrow>
        md_chunkIdx r = 0 \<or> chunk_at (md_manifest r) (md_partIdx r) (md_chunkIdx r))"

definition md_step :: "hkdf \<Rightarrow> mpu_decrypt_reader \<Rightarrow> goerr option \<times> mpu_decrypt_reader" where
  "md_step H r = (case md_err r of Some e \<Rightarrow> (Some e, r) | None \<Rightarrow> md_fetch H r)"

lemma md_release_sel [simp]:
  "md_err (md_release r) = md_err r" "md_buf (md_release r) = md_buf r" "md_done (md_release r) = md_done r"
  "md_inv (md_release r) = md_inv r"
  by (simp_all add: md_release_def md_inv_def)

lemma layout_part_number:
  "layout_ok m \<Longrightarrow> i < length (mm_Parts m) \<Longrightarrow> 0 < mp_PartNumber (mm_Parts m ! i) \<and> mp_PartNumber (mm_Parts m ! i) \<le> 10000"
  by (auto simp: layout_ok_def)

lemma decryptNextChunk_step:
  assumes "layout_ok (md_manifest r)" and "chunk_at (md_manifest r) (md_partIdx r) (md_chunkIdx r)"
    and "decryptNextChunk H (mm_Parts (md_manifest r) ! md_partIdx r) r = (x, r')"
    and "md_err r = None" "\<not> md_done r" "md_inv r" "md_buf r = []"
  shows "(case x of
      Some e \<Rightarrow> md_run H r = ([], e) \<and> md_buf r' = [] \<and> md_inv r'
    | None \<Rightarrow> md_inv r' \<and> md_err r' = None \<and> fst (md_run H r) = md_buf r' @ fst (md_run H r') \<and> snd (md_run H r') = snd (md_run H r))"
proof -
  let ?m = "md_manifest r" and ?i = "md_partIdx r" and ?c = "md_chunkIdx r"
  let ?p = "mm_Parts ?m ! ?i"
  have i: "?i < length (mm_Parts ?m)" "0 \<le> ?c" "?c < mp_ChunkCount ?p" using assms(2) by (auto simp: chunk_at_def)
  note pn = layout_part_number [OF assms(1) i(1)]
  have sz: "(if ?c = mp_ChunkCount ?p - 1 then mp_PlainLen ?p - (mp_ChunkCount ?p - 1) * mm_ChunkSize ?m + mpuAEADTagSize
      else mm_ChunkSize ?m + mpuAEADTagSize) = chunkLen ?m ?i ?c + 16"
    using chunk_next(1,2) [OF assms(1,2)] i(3) by (auto simp: mpuAEADTagSize_def)
  obtain b e s where rf: "read_full (md_src r) (nat (chunkLen ?m ?i ?c + 16)) = (b, e, s)"
    by (cases "read_full (md_src r) (nat (chunkLen ?m ?i ?c + 16))")
  note dec = assms(3) [unfolded decryptNextChunk_def sz] and run = chunks_from_step [OF assms(2)]
  show ?thesis
  proof (cases e)
    case (Some y)
    then have "x = Some (Err ''mpu_decrypt: read'')" "r' = r\<lparr>md_src := s\<rparr>" using dec rf pn i by (simp_all add: Let_def)
    then show ?thesis using assms(4-7) Some rf by (simp add: md_run_def run md_inv_def)
  next
    case None
    show ?thesis
    proof (cases "openChunk H (md_scheme r) (of_int (mp_PartNumber ?p)) (of_int ?c) b")
      case (Inl y)
      then have "x = Some y" "r' = r\<lparr>md_src := s\<rparr>" using dec rf pn i None by (simp_all add: Let_def)
      then show ?thesis using assms(4-7) None Inl rf by (simp add: md_run_def run md_inv_def)
    next
      case (Inr plain)
      let ?last = "?c = mp_ChunkCount ?p - 1"
      define r1 where "r1 = (if ?last then r\<lparr>md_src := s, md_buf := plain, md_partIdx := Suc ?i, md_chunkIdx := 0\<rparr>
        else r\<lparr>md_src := s, md_buf := plain, md_chunkIdx := ?c + 1\<rparr>)"
      have r': "x = None" "r' = (if length (mm_Parts ?m) \<le> md_partIdx r1 then r1\<lparr>md_done := True\<rparr> else r1)"
        using dec rf pn i None Inr by (auto simp: Let_def r1_def)
      have "chunk_at ?m ?i (?c + 1)" if "\<not> ?last" using i that by (simp add: chunk_at_def)
      then have inv: "md_inv r'" using assms(1,4) r'(2) by (auto simp: md_inv_def r1_def)
      have rest: "md_run H r' = open_chunks H (md_scheme r) ?m s (chunks_from ?m (md_partIdx r1) (md_chunkIdx r1))"
        using r'(2) assms(4,5) i(1) by (auto simp: md_run_def r1_def)
      have "md_run H r = (plain @ fst (md_run H r'), snd (md_run H r'))"
        unfolding rest using assms(4,5) rf None Inr by (auto simp: md_run_def run r1_def split: prod.splits)
      moreover have "md_buf r' = plain" "md_err r' = None" using r' assms(4) by (simp_all add: r1_def)
      ultimately show ?thesis using inv r'(1) by simp
    qed
  qed
qed

lemma md_fetch_step:
  assumes "md_inv r" "md_buf r = []" "md_step H r = (x, r')"
  shows "md_inv r' \<and> snd (md_run H r') = snd (md_run H r) \<and>
    (case x of
       None \<Rightarrow> fst (md_run H r) = md_buf r' @ fst (md_run H r') \<and> md_size r' < md_size r
     | Some e \<Rightarrow> e = snd (md_run H r) \<and> fst (md_run H r) = [] \<and> md_buf r' = [] \<and> fst (md_run H r') = [])"
proof (cases "md_err r")
  case (Some e)
  then have "x = Some e" "r' = r" using assms by (simp_all add: md_step_def)
  then show ?thesis using assms Some by (simp add: md_run_def)
next
  case err: None
  let ?m = "md_manifest r" and ?i = "md_partIdx r" and ?c = "md_chunkIdx r"
  let ?p = "mm_Parts ?m ! ?i"
  have f: "md_fetch H r = (x, r')" and L: "layout_ok ?m" using assms err by (simp_all add: md_step_def md_inv_def)
  consider "md_done r \<or> length (mm_Parts ?m) \<le> ?i"
    | (empty) "\<not> md_done r" "?i < length (mm_Parts ?m)" "mp_ChunkCount ?p = 0"
    | (chunk) "\<not> md_done r" "?i < length (mm_Parts ?m)" "mp_ChunkCount ?p \<noteq> 0"
    by linarith
  then show ?thesis
  proof cases
    case 1
    then have "x = Some EOF" "md_err r' = None" "md_done r'" "md_buf r' = []" "md_inv r'" "md_run H r = ([], EOF)"
      using f assms err by (auto simp: md_fetch_def md_run_def md_inv_def md_release_def split: if_splits)
    then show ?thesis by (simp add: md_run_def)
  next
    case empty
    then have c: "?c = 0" using assms(1) by (auto simp: md_inv_def chunk_at_def)
    have r': "x = None" "r' = r\<lparr>md_partIdx := Suc ?i\<rparr>" using f empty by (simp_all add: md_fetch_def)
    moreover have "md_run H r' = md_run H r" using empty err c r' by (simp add: md_run_def chunks_from_next_part)
    ultimately show ?thesis
      using assms(1,2) err c md_fetch_size [of H r r'] f by (simp add: md_inv_def)
  next
    case chunk
    have at: "chunk_at ?m ?i ?c"
      using assms(1) chunk part_ok_nonneg [OF _ layout_part [OF L chunk(2)]] L by (auto simp: md_inv_def chunk_at_def layout_ok_def)
    obtain y s where d: "decryptNextChunk H ?p r = (y, s)" by (cases "decryptNextChunk H ?p r")
    note step = decryptNextChunk_step [OF L at d err chunk(1) assms(1,2)]
    show ?thesis
    proof (cases y)
      case None
      then show ?thesis using step f d chunk md_fetch_size [of H r r'] by (simp add: md_fetch_def)
    next
      case (Some e)
      then have "x = Some e" "r' = md_release (s\<lparr>md_err := Some e\<rparr>)" using f d chunk by (auto simp: md_fetch_def)
      moreover have "md_inv (s\<lparr>md_err := Some e\<rparr>)" using step Some by (simp add: md_inv_def)
      moreover have "md_run H r' = ([], e)" using calculation(2) by (simp add: md_run_def)
      ultimately show ?thesis using step Some by simp
    qed
  qed
qed

interpretation mpu_decrypt: single_copy_reader "md_Read H" "md_step H" md_buf "\<lambda>n r. r\<lparr>md_buf := drop n (md_buf r)\<rparr>"
  md_size md_inv "\<lambda>r. fst (md_run H r)" "\<lambda>r. snd (md_run H r)"
proof
  fix r n assume "md_inv r" "0 < (n :: nat)"
  moreover have "md_err r' = None" if "md_fetch H r = (None, r')" "md_err r = None" for r'
    using that by (auto simp: md_fetch_def decryptNextChunk_def Let_def split: if_splits option.splits prod.splits sum.splits)
  ultimately show "md_Read H r n =
      (if md_buf r \<noteq> [] then (take n (md_buf r), None, r\<lparr>md_buf := drop n (md_buf r)\<rparr>)
       else case md_step H r of (Some e, r') \<Rightarrow> ([], Some e, r') | (None, r') \<Rightarrow> md_Read H r' n)"
    by (auto simp: md_Read_def md_step_def md_inv_def md_loop.simps [of H r] split: option.splits prod.splits)
next
  fix r n assume "md_inv r" "md_buf r \<noteq> []"
  then show "md_inv (r\<lparr>md_buf := drop n (md_buf r)\<rparr>) \<and> md_buf (r\<lparr>md_buf := drop n (md_buf r)\<rparr>) = drop n (md_buf r) \<and>
      fst (md_run H (r\<lparr>md_buf := drop n (md_buf r)\<rparr>)) = fst (md_run H r) \<and>
      snd (md_run H (r\<lparr>md_buf := drop n (md_buf r)\<rparr>)) = snd (md_run H r)"
    by (auto simp: md_inv_def md_run_def)
next
  fix r x r' assume "md_inv r" "md_buf r = []" "md_step H r = (x, r')"
  then show "md_inv r' \<and> snd (md_run H r') = snd (md_run H r) \<and>
      (case x of
         None \<Rightarrow> fst (md_run H r) = md_buf r' @ fst (md_run H r') \<and> md_size r' < md_size r
       | Some e \<Rightarrow> e = snd (md_run H r) \<and> fst (md_run H r) = [] \<and> md_buf r' = [] \<and> fst (md_run H r') = [])"
    by (rule md_fetch_step)
qed

section \<open>Objects in parts and in chunks\<close>

lemma chunks_unique:
  assumes "0 < n" and "\<And>j. j + 1 < length qs \<Longrightarrow> length (qs ! j) = n" and "qs \<noteq> [] \<Longrightarrow> last qs \<noteq> [] \<and> length (last qs) \<le> n"
  shows "chunks n (concat qs) = qs \<and> (qs \<noteq> [] \<longrightarrow> length (concat qs) = (length qs - 1) * n + length (last qs))"
  using assms(2,3)
proof (induction qs)
  case (Cons q qs)
  show ?case
  proof (cases "qs = []")
    case True
    then show ?thesis using Cons.prems(2) assms(1) by (simp add: chunks_step)
  next
    case False
    have q: "length q = n" using Cons.prems(1) [of 0] False by simp
    have "chunks n (concat qs) = qs \<and> (qs \<noteq> [] \<longrightarrow> length (concat qs) = (length qs - 1) * n + length (last qs))"
    proof (rule Cons.IH)
      show "length (qs ! j) = n" if "j + 1 < length qs" for j using Cons.prems(1) [of "Suc j"] that by simp
      show "last qs \<noteq> [] \<and> length (last qs) \<le> n" if "qs \<noteq> []" using Cons.prems(2) that by simp
    qed
    moreover have "chunks n (q @ concat qs) = q # chunks n (concat qs)" using q assms(1) by (subst chunks_step) auto
    ultimately show ?thesis using q False by (cases qs) auto
  qed
qed simp

text \<open>Plaintexts of the chunks at some positions, and of the parts.\<close>

definition fit_chunk :: "multipart_manifest \<Rightarrow> nat \<times> int \<Rightarrow> bytes \<Rightarrow> bool" where
  "fit_chunk m ic q \<longleftrightarrow> int (length q) = chunkLen m (fst ic) (snd ic)"

definition fit_part :: "mpu_part_record \<Rightarrow> bytes \<Rightarrow> bool" where
  "fit_part p pt \<longleftrightarrow> int (length pt) = mp_PlainLen p"

abbreviation mcs :: "multipart_manifest \<Rightarrow> nat" where
  "mcs m \<equiv> nat (mm_ChunkSize m)"

lemma part_chunks:
  assumes "layout_ok m" and "i < length (mm_Parts m)"
  shows "list_all2 (fit_chunk m) (map (Pair i) [0..mp_ChunkCount (mm_Parts m ! i) - 1]) qs \<longleftrightarrow>
    fit_part (mm_Parts m ! i) (concat qs) \<and> qs = chunks (mcs m) (concat qs)" (is "?L \<longleftrightarrow> ?R")
proof -
  let ?p = "mm_Parts m ! i"
  have p: "part_ok (mm_ChunkSize m) ?p" and "0 < mm_ChunkSize m"
    using layout_part [OF assms] assms by (auto simp: layout_ok_def)
  then obtain n where cs: "mm_ChunkSize m = int n" "0 < n" by (metis zero_less_imp_eq_int)
  note pn = part_ok_nonneg [OF \<open>0 < mm_ChunkSize m\<close> p]
  define k where "k = nat (mp_ChunkCount ?p)"
  have k: "mp_ChunkCount ?p = int k" using pn by (simp add: k_def)
  have count: "k = (nat (mp_PlainLen ?p) + n - 1) div n"
    using pn p count_nat [OF \<open>0 < mm_ChunkSize m\<close>, of "mp_PlainLen ?p"] by (simp add: k_def part_ok_def cs)
  have at: "chunk_at m i (int j)" if "j < k" for j using assms(2) that k by (simp add: chunk_at_def)
  have all: "?L \<longleftrightarrow> length qs = k \<and> (\<forall>j < k. int (length (qs ! j)) = chunkLen m i (int j))"
    using k by (auto simp: list_all2_conv_all_nth fit_chunk_def)
  show ?thesis
  proof
    assume ?L
    then have q: "length qs = k" "\<And>j. j < k \<Longrightarrow> int (length (qs ! j)) = chunkLen m i (int j)" using all by auto
    have "length (qs ! j) = n" if "j + 1 < length qs" for j
      using q(1) q(2) [of j] that chunk_next(1) [OF assms(1) at, of j] k cs(1) by simp
    moreover have "last qs \<noteq> [] \<and> length (last qs) \<le> n" if "qs \<noteq> []"
      using q(2) [of "k - 1"] chunkLen_pos [OF assms(1) at, of "k - 1"] q(1) that cs(1) by (cases k) (auto simp: last_conv_nth)
    ultimately have "chunks n (concat qs) = qs" and len: "qs \<noteq> [] \<longrightarrow> length (concat qs) = (k - 1) * n + length (last qs)"
      using chunks_unique [OF cs(2), of qs] q(1) by auto
    moreover have "fit_part ?p (concat qs)"
    proof (cases "k = 0")
      case True
      then show ?thesis using q(1) k p mpuChunkCount_bounds(4) [of "mm_ChunkSize m" "mp_PlainLen ?p"] pn \<open>0 < mm_ChunkSize m\<close>
        by (simp add: fit_part_def part_ok_def)
    next
      case False
      then obtain j where j: "k = Suc j" using not0_implies_Suc by blast
      then have "int (length (last qs)) = mp_PlainLen ?p - int j * mm_ChunkSize m"
        using q(1) q(2) [of j] chunk_next(2) [OF assms(1) at, of j] k last_conv_nth [of qs] by force
      then show ?thesis using len j q(1) cs(1) by (auto simp: fit_part_def)
    qed
    ultimately show ?R by (simp add: cs)
  next
    assume R: ?R
    define pt where "pt = concat qs"
    have q: "qs = chunks n pt" and pt: "mp_PlainLen ?p = int (length pt)" using R by (auto simp: fit_part_def pt_def cs)
    have "length qs = k" using q pt count cs(2) by (simp add: length_chunks)
    moreover have "int (length (qs ! j)) = chunkLen m i (int j)" if "j < k" for j
    proof -
      have j: "j < length (chunks n pt)" using \<open>length qs = k\<close> that unfolding q by simp
      then have "qs ! j = take n (drop (j * n) pt)" "qs ! j \<noteq> []"
        using chunks_nth [OF j] chunks_nonempty [OF nth_mem [OF j]] unfolding q by simp_all
      then have "length (qs ! j) = min n (length pt - j * n)" "j * n < length pt" by auto
      then have "int (length (qs ! j)) = min (int n) (int (length pt) - int (j * n))" by linarith
      then show ?thesis using pt cs(1) by (simp add: chunkLen_def)
    qed
    ultimately show ?L using all by simp
  qed
qed

definition chunk_record :: "hkdf \<Rightarrow> mpu_scheme \<Rightarrow> multipart_manifest \<Rightarrow> nat \<times> int \<Rightarrow> bytes \<Rightarrow> bytes" where
  "chunk_record H S m ic q = mpu_record H S (of_int (mp_PartNumber (mm_Parts m ! fst ic))) (of_int (snd ic)) q"

definition object_chunks :: "hkdf \<Rightarrow> mpu_scheme \<Rightarrow> multipart_manifest \<Rightarrow> (nat \<times> int) list \<Rightarrow> bytes list \<Rightarrow> bytes" where
  "object_chunks H S m ps qs = concat (map2 (chunk_record H S m) ps qs)"

definition object_bytes :: "hkdf \<Rightarrow> mpu_scheme \<Rightarrow> multipart_manifest \<Rightarrow> bytes list \<Rightarrow> bytes" where
  "object_bytes H S m pts = concat (map2 (\<lambda>p. part_bytes H S (of_int (mp_PartNumber p)) (mcs m)) (mm_Parts m) pts)"

lemma object_chunks_simps [simp]:
  "object_chunks H S m ps [] = []" "object_chunks H S m [] qs = []"
  "object_chunks H S m (ic # ps) (q # qs) = chunk_record H S m ic q @ object_chunks H S m ps qs"
  by (simp_all add: object_chunks_def)

lemma object_chunks_append:
  "length ps = length qs \<Longrightarrow> object_chunks H S m (ps @ ps') (qs @ qs') = object_chunks H S m ps qs @ object_chunks H S m ps' qs'"
  by (simp add: object_chunks_def)

lemma object_chunks_part:
  "length qs = nat k \<Longrightarrow> object_chunks H S m (map (Pair i) [0..k - 1]) qs =
     concat (mpu_records H S (of_int (mp_PartNumber (mm_Parts m ! i))) 0 qs)"
  by (auto simp: object_chunks_def chunk_record_def mpu_records_nth intro!: arg_cong [where f = concat] nth_equalityI)

text \<open>Chunk plaintexts that fit all positions are the chunks of part plaintexts that fit.\<close>

lemma fit_chunks_parts:
  assumes "layout_ok m" and "i \<le> length (mm_Parts m)"
  shows "list_all2 (fit_chunk m) (chunks_from m i 0) qs \<longleftrightarrow>
    (\<exists>pts. list_all2 fit_part (drop i (mm_Parts m)) pts \<and> qs = concat (map (chunks (mcs m)) pts))"
  using assms(2)
proof (induction i arbitrary: qs rule: inc_induct)
  case base
  then show ?case by simp
next
  case (step i)
  let ?ps = "map (Pair i) [0..mp_ChunkCount (mm_Parts m ! i) - 1]"
  note i = step.hyps(2) and P = part_chunks [OF assms(1) step.hyps(2)]
  have cs: "0 < mcs m" using assms(1) i by (auto simp: layout_ok_def)
  have "list_all2 (fit_chunk m) (chunks_from m i 0) qs \<longleftrightarrow>
      (\<exists>us vs. qs = us @ vs \<and> list_all2 (fit_chunk m) ?ps us \<and> list_all2 (fit_chunk m) (chunks_from m (Suc i) 0) vs)"
    unfolding chunks_from_next_part [OF i] list_all2_append1 by (metis list_all2_lengthD)
  also have "\<dots> \<longleftrightarrow> (\<exists>us pts. fit_part (mm_Parts m ! i) (concat us) \<and> us = chunks (mcs m) (concat us) \<and>
      list_all2 fit_part (drop (Suc i) (mm_Parts m)) pts \<and> qs = us @ concat (map (chunks (mcs m)) pts))"
    unfolding P step.IH by blast
  also have "\<dots> \<longleftrightarrow> (\<exists>pt pts. fit_part (mm_Parts m ! i) pt \<and>
      list_all2 fit_part (drop (Suc i) (mm_Parts m)) pts \<and> qs = chunks (mcs m) pt @ concat (map (chunks (mcs m)) pts))"
    using cs by (metis concat_chunks)
  also have "\<dots> \<longleftrightarrow> (\<exists>pts. list_all2 fit_part (drop i (mm_Parts m)) pts \<and> qs = concat (map (chunks (mcs m)) pts))"
    unfolding drop_nth_step [OF i] list_all2_Cons1 by force
  finally show ?case .
qed

lemma object_chunks_bytes:
  assumes "layout_ok m" and "i \<le> length (mm_Parts m)" and "list_all2 fit_part (drop i (mm_Parts m)) pts"
  shows "object_chunks H S m (chunks_from m i 0) (concat (map (chunks (mcs m)) pts)) =
    concat (map2 (\<lambda>p. part_bytes H S (of_int (mp_PartNumber p)) (mcs m)) (drop i (mm_Parts m)) pts)"
  using assms(2,3)
proof (induction i arbitrary: pts rule: inc_induct)
  case (step i)
  let ?p = "mm_Parts m ! i"
  note i = step.hyps(2)
  obtain pt pts' where pts: "pts = pt # pts'" "fit_part ?p pt" "list_all2 fit_part (drop (Suc i) (mm_Parts m)) pts'"
    using step.prems unfolding drop_nth_step [OF i] by (auto simp: list_all2_Cons1)
  have cs: "0 < mcs m" using assms(1) i by (auto simp: layout_ok_def)
  then have "list_all2 (fit_chunk m) (map (Pair i) [0..mp_ChunkCount ?p - 1]) (chunks (mcs m) pt)"
    using part_chunks [OF assms(1) i] pts(2) by simp
  then have "length (chunks (mcs m) pt) = nat (mp_ChunkCount ?p)" by (auto dest: list_all2_lengthD)
  then show ?case
    using step.IH [OF pts(3)] object_chunks_part [of "chunks (mcs m) pt" "mp_ChunkCount ?p" H S m i]
    by (simp add: chunks_from_next_part [OF i] pts(1) object_chunks_append drop_nth_step [OF i] part_bytes_def)
qed simp

lemma chunks_from_at: "ic \<in> set (chunks_from m i 0) \<Longrightarrow> chunk_at m (fst ic) (snd ic)"
  by (auto simp: chunks_from_def chunk_at_def split: if_splits)

lemma length_chunk_record: "hkdf_laws H \<Longrightarrow> scheme_ok S \<Longrightarrow> length (chunk_record H S m ic q) = length q + 16"
  by (simp add: chunk_record_def length_mpu_record)

lemma open_chunks_authentic:
  assumes "hkdf_laws H" "scheme_ok S" "layout_ok m"
  shows "src_clean src \<Longrightarrow> \<forall>ic \<in> set ps. chunk_at m (fst ic) (snd ic) \<Longrightarrow> open_chunks H S m src ps = (q, e) \<Longrightarrow>
    \<exists>qs. q = concat qs \<and> length qs \<le> length ps \<and> list_all2 (fit_chunk m) (take (length qs) ps) qs \<and>
      prefix (object_chunks H S m ps qs) (src_bytes src) \<and> (e = EOF \<longleftrightarrow> length qs = length ps)"
proof (induction ps arbitrary: src q)
  case (Cons ic ps)
  obtain i c where ic: "ic = (i, c)" by (cases ic)
  let ?n = "nat (chunkLen m i c + 16)"
  obtain b x s where rf: "read_full src ?n = (b, x, s)" by (cases "read_full src ?n")
  note rd = read_full_clean [OF Cons.prems(1) rf]
  show ?case
  proof (cases "x = None \<and> (\<exists>p. openChunk H S (of_int (mp_PartNumber (mm_Parts m ! i))) (of_int c) b = Inr p)")
    case False
    then have "q = []" "e \<noteq> EOF" using Cons.prems(3) rf openChunk_not_EOF [of H S "of_int (mp_PartNumber (mm_Parts m ! i))" "of_int c" b]
      by (auto simp: ic split: option.splits sum.splits)
    then show ?thesis by (intro exI [of _ "[]"]) simp
  next
    case True
    then obtain p where p: "x = None" "openChunk H S (of_int (mp_PartNumber (mm_Parts m ! i))) (of_int c) b = Inr p" by blast
    obtain q' where q: "open_chunks H S m s ps = (q', e)" "q = p @ q'"
      using Cons.prems(3) rf p by (auto simp: ic split: prod.splits)
    then obtain qs where qs: "q' = concat qs" "length qs \<le> length ps" "list_all2 (fit_chunk m) (take (length qs) ps) qs"
        "prefix (object_chunks H S m ps qs) (src_bytes s)" "e = EOF \<longleftrightarrow> length qs = length ps"
      using Cons.IH [OF rd(3) _ q(1)] Cons.prems(2) by auto
    have b: "b = chunk_record H S m ic p" using p(2) by (simp add: openChunk_Inr [OF assms(1,2)] chunk_record_def ic)
    have "chunkLen m i c > 0" using chunkLen_pos [OF assms(3)] Cons.prems(2) by (simp add: ic)
    moreover have "length b = ?n" using rd(1,4) p(1) by (auto split: if_splits)
    ultimately have "fit_chunk m ic p" using length_chunk_record [OF assms(1,2), of m ic p] b by (simp add: fit_chunk_def ic)
    moreover have "src_bytes src = b @ src_bytes s" using rd(1,2) by simp
    ultimately show ?thesis using qs q(2) b by (intro exI [of _ "p # qs"]) auto
  qed
qed simp

lemma open_chunks_complete:
  assumes "hkdf_laws H" "scheme_ok S"
  shows "src_clean src \<Longrightarrow> list_all2 (fit_chunk m) ps qs \<Longrightarrow> prefix (object_chunks H S m ps qs) (src_bytes src) \<Longrightarrow>
    open_chunks H S m src ps = (concat qs, EOF)"
proof (induction ps arbitrary: src qs)
  case (Cons ic ps)
  obtain i c where ic: "ic = (i, c)" by (cases ic)
  obtain q qs' where qs: "qs = q # qs'" "fit_chunk m ic q" "list_all2 (fit_chunk m) ps qs'"
    using Cons.prems(2) by (auto simp: list_all2_Cons1)
  let ?n = "nat (chunkLen m i c + 16)"
  obtain b x s where rf: "read_full src ?n = (b, x, s)" by (cases "read_full src ?n")
  note rd = read_full_clean [OF Cons.prems(1) rf]
  have n: "?n = length (chunk_record H S m ic q)"
    using qs(2) length_chunk_record [OF assms, of m ic q] by (simp add: fit_chunk_def ic)
  obtain w where w: "src_bytes src = chunk_record H S m ic q @ object_chunks H S m ps qs' @ w"
    using Cons.prems(3) by (auto simp: qs(1) prefix_def)
  then have "x = None" "b = chunk_record H S m ic q" "src_bytes s = object_chunks H S m ps qs' @ w" using rd n by simp_all
  moreover from this have "open_chunks H S m s ps = (concat qs', EOF)" using Cons.IH [OF rd(3) qs(3)] by simp
  ultimately show ?case using rf by (simp add: ic qs(1) chunk_record_def openChunk_record [OF assms])
qed simp

text \<open>The reader as constructed.\<close>

lemma newMPUDecryptReader_Inr:
  assumes "newMPUDecryptReader Su oc b src (Some m) dek h pre alg bound = Inr (Some r)"
    and "suite_laws Su" and "bound \<longrightarrow> length b = 16"
  shows "md_inv r" "layout_ok m" "scheme_ok (md_scheme r)" "md_buf r = []"
    "md_run H r = open_chunks H (md_scheme r) m src (chunks_from m 0 0)"
  using assms by (auto simp: newMPUDecryptReader_def and_then_eq_Inr validateLayout_Inr md_inv_def scheme_ok_def md_run_def
      split: if_splits dest: createMPUAEADCipher_laws)

section \<open>Uploads and downloads\<close>

text \<open>
  What the part encrypter delivered for one part of an upload: a client read it to \<open>EOF\<close>
  over a source with the part's plaintext.
\<close>

definition encrypted_part ::
  "hkdf \<Rightarrow> cipher_suite \<Rightarrow> object_context \<Rightarrow> bytes \<Rightarrow> bytes \<Rightarrow> bytes \<Rightarrow> bytes \<Rightarrow> string \<Rightarrow> bool \<Rightarrow> int \<Rightarrow>
     mpu_part_record \<Rightarrow> bytes \<Rightarrow> bytes \<Rightarrow> bool" where
  "encrypted_part H Su oc b dek h pre alg bound cs p pt ct \<longleftrightarrow>
     (\<exists>src r l ns r'. newMPUPartEncryptReader Su oc b src dek h pre (mp_PartNumber p) cs (mp_PlainLen p) alg bound = Inr (r, l) \<and>
        src_clean src \<and> src_bytes src = pt \<and> (\<forall>k \<in> set ns. 0 < k) \<and> drain (me_Read H) ns r = (ct, Some EOF, r'))"

lemma schemes_agree:
  assumes "newMPUPartEncryptReader Su oc b src dek h pre pn cs n alg bound = Inr (re, l)"
    and "newMPUDecryptReader Su oc b src' (Some m) dek h pre alg bound = Inr (Some rd)"
  shows "me_scheme re = md_scheme rd \<and> (0 < cs \<longrightarrow> me_csz re = nat cs)"
  using assms by (auto simp: newMPUPartEncryptReader_def newMPUDecryptReader_def Let_def and_then_eq_Inr split: if_splits)

lemma encrypted_part_bytes:
  assumes "newMPUDecryptReader Su oc b src' (Some m) dek h pre alg bound = Inr (Some rd)"
    and "suite_laws Su" "hkdf_laws H" "bound \<longrightarrow> length b = 16" "0 < cs"
    and "encrypted_part H Su oc b dek h pre alg bound cs p pt ct"
  shows "fit_part p pt \<and> ct = part_bytes H (md_scheme rd) (of_int (mp_PartNumber p)) (nat cs) pt"
proof -
  obtain src r l ns r' where r: "newMPUPartEncryptReader Su oc b src dek h pre (mp_PartNumber p) cs (mp_PlainLen p) alg bound = Inr (r, l)"
      "src_clean src" "src_bytes src = pt" "\<forall>k \<in> set ns. 0 < k" "drain (me_Read H) ns r = (ct, Some EOF, r')"
    using assms(6) unfolding encrypted_part_def by blast
  note S = schemes_agree [OF r(1) assms(1)] and i = newMPUPartEncryptReader_Inr [OF r(1) assms(2,4) r(2)]
  have "me_fin r = EOF" "ct = me_tail H r"
    using mpu_encrypt.reader.drain_prefix [of H r ns ct "Some EOF" r'] r(4,5) assms(3) i(1,5,7) by auto
  then show ?thesis using i S r(3) assms(5)
    by (auto simp: fit_part_def me_fin_def me_tail_def me_data_def sealable_def part_bytes_def split: if_splits)
qed

lemma encrypted_parts_object:
  assumes "newMPUDecryptReader Su oc b src' (Some m) dek h pre alg bound = Inr (Some rd)"
    and "suite_laws Su" "hkdf_laws H" "bound \<longrightarrow> length b = 16"
    and "length pts = length (mm_Parts m)" "length cts = length (mm_Parts m)"
    and "\<And>i. i < length (mm_Parts m) \<Longrightarrow>
      encrypted_part H Su oc b dek h pre alg bound (mm_ChunkSize m) (mm_Parts m ! i) (pts ! i) (cts ! i)"
  shows "list_all2 fit_part (mm_Parts m) pts \<and> concat cts = object_bytes H (md_scheme rd) m pts"
proof -
  note L = newMPUDecryptReader_Inr(2) [OF assms(1,2,4)]
  have part: "fit_part (mm_Parts m ! i) (pts ! i) \<and>
      cts ! i = part_bytes H (md_scheme rd) (of_int (mp_PartNumber (mm_Parts m ! i))) (mcs m) (pts ! i)" if "i < length (mm_Parts m)" for i
    using encrypted_part_bytes [OF assms(1-4) _ assms(7) [OF that]] L that by (auto simp: layout_ok_def)
  then have "cts = map2 (\<lambda>p. part_bytes H (md_scheme rd) (of_int (mp_PartNumber p)) (mcs m)) (mm_Parts m) pts"
    using assms(5,6) by (intro nth_equalityI) auto
  then show ?thesis using part assms(5) by (simp add: list_all2_conv_all_nth object_bytes_def)
qed

lemma concat_part_chunks: "0 < n \<Longrightarrow> concat (concat (map (chunks n) pts)) = concat pts"
  by (induction pts) simp_all

text \<open>The reader delivers exactly the stored parts.\<close>

lemma md_run_object:
  assumes "newMPUDecryptReader Su oc b src (Some m) dek h pre alg bound = Inr (Some r)"
    and "suite_laws Su" "hkdf_laws H" "bound \<longrightarrow> length b = 16" "src_clean src"
    and "list_all2 fit_part (mm_Parts m) pts" "prefix (object_bytes H (md_scheme r) m pts) (src_bytes src)"
  shows "md_run H r = (concat pts, EOF)"
proof -
  note r = newMPUDecryptReader_Inr [OF assms(1,2,4)]
  let ?qs = "concat (map (chunks (mcs m)) pts)"
  have "list_all2 (fit_chunk m) (chunks_from m 0 0) ?qs" using fit_chunks_parts [OF r(2), of 0 ?qs] assms(6) by auto
  moreover have "object_chunks H (md_scheme r) m (chunks_from m 0 0) ?qs = object_bytes H (md_scheme r) m pts"
    using object_chunks_bytes [OF r(2), of 0] assms(6) by (simp add: object_bytes_def)
  ultimately have "md_run H r = (concat ?qs, EOF)"
    using open_chunks_complete [OF assms(3) r(3) assms(5)] r(5) assms(7) by simp
  moreover have "concat ?qs = concat pts"
  proof (cases "pts = []")
    case False
    then have "0 < mcs m" using r(2) assms(6) by (auto simp: layout_ok_def)
    then show ?thesis by (rule concat_part_chunks)
  qed simp
  ultimately show ?thesis by simp
qed

text \<open>
  C11. A multipart object downloads as it was uploaded. If every part's ciphertext is what the
  part encrypter delivered for a plaintext of the recorded length, under the same key, upload
  identity and chunk size, then reading the concatenated parts through the decrypting reader
  along the manifest, with buffers of any sizes, gives the concatenated plaintexts and then
  \<open>EOF\<close>, also when parts are empty or end in a short chunk.
\<close>

theorem mpu_roundtrip:
  assumes "newMPUDecryptReader Su oc b src (Some m) dek h pre alg bound = Inr (Some r)"
    and "suite_laws Su" "hkdf_laws H" "bound \<longrightarrow> length b = 16"
    and "length pts = length (mm_Parts m)" "length cts = length (mm_Parts m)"
    and "\<And>i. i < length (mm_Parts m) \<Longrightarrow>
      encrypted_part H Su oc b dek h pre alg bound (mm_ChunkSize m) (mm_Parts m ! i) (pts ! i) (cts ! i)"
    and "src_clean src" "src_bytes src = concat cts"
    and "\<forall>k \<in> set ns. 0 < k" "length (concat pts) < length ns"
  shows "\<exists>r'. drain (md_Read H) ns r = (concat pts, Some EOF, r')"
proof -
  note r = newMPUDecryptReader_Inr [OF assms(1,2,4)]
  have "md_run H r = (concat pts, EOF)"
    using md_run_object [OF assms(1-4,8)] encrypted_parts_object [OF assms(1-7)] assms(9) by simp
  then show ?thesis using mpu_decrypt.reader.drain_complete [OF r(1) assms(10), of H] assms(11) r(4) by simp
qed

text \<open>
  C12. Only authenticated plaintext of a multipart object is released, in order and complete.
  Whatever the backend returns, the bytes a client has received are a prefix of chunk
  plaintexts whose records, each sealed for its part number and chunk index, stand at the
  front of the backend's data. The client sees \<open>EOF\<close> only when every chunk of the manifest has
  been delivered: the plaintext is then the concatenation of part plaintexts of the recorded
  lengths whose encrypted parts are what the backend returned. Truncated, reordered or foreign
  parts end in an error.
\<close>

theorem mpu_releases_authenticated:
  assumes "newMPUDecryptReader Su oc b src (Some m) dek h pre alg bound = Inr (Some r)"
    and "suite_laws Su" "hkdf_laws H" "bound \<longrightarrow> length b = 16"
    and "src_clean src" "\<forall>k \<in> set ns. 0 < k" "drain (md_Read H) ns r = (out, e, r')"
  shows "(\<exists>qs. prefix out (concat qs) \<and> list_all2 (fit_chunk m) (take (length qs) (chunks_from m 0 0)) qs \<and>
      prefix (object_chunks H (md_scheme r) m (chunks_from m 0 0) qs) (src_bytes src)) \<and>
    (e = Some EOF \<longrightarrow> (\<exists>pts. out = concat pts \<and> list_all2 fit_part (mm_Parts m) pts \<and>
      prefix (object_bytes H (md_scheme r) m pts) (src_bytes src)))"
proof -
  note r = newMPUDecryptReader_Inr [OF assms(1,2,4)]
  note d = mpu_decrypt.reader.drain_prefix [OF r(1) assms(6,7)]
  obtain q x where run: "open_chunks H (md_scheme r) m src (chunks_from m 0 0) = (q, x)" by fastforce
  then obtain qs where qs: "q = concat qs" "list_all2 (fit_chunk m) (take (length qs) (chunks_from m 0 0)) qs"
      "prefix (object_chunks H (md_scheme r) m (chunks_from m 0 0) qs) (src_bytes src)" "x = EOF \<longleftrightarrow> length qs = length (chunks_from m 0 0)"
    using open_chunks_authentic [OF assms(3) r(3,2) assms(5) _ run] chunks_from_at by blast
  have out: "prefix out q" "e = Some EOF \<Longrightarrow> x = EOF \<and> out = q"
    using d r(4) by (auto simp: r(5) run prefix_def)
  have "\<exists>pts. out = concat pts \<and> list_all2 fit_part (mm_Parts m) pts \<and> prefix (object_bytes H (md_scheme r) m pts) (src_bytes src)"
    if "e = Some EOF"
  proof -
    have all: "out = concat qs" "list_all2 (fit_chunk m) (chunks_from m 0 0) qs" using out(2) [OF that] qs by auto
    then obtain pts where pts: "list_all2 fit_part (mm_Parts m) pts" "qs = concat (map (chunks (mcs m)) pts)"
      using fit_chunks_parts [OF r(2), of 0 qs] by auto
    moreover have "mm_Parts m \<noteq> []" using assms(1) by (auto simp: newMPUDecryptReader_def and_then_eq_Inr split: if_splits)
    ultimately have "out = concat pts" using all(1) r(2) concat_part_chunks [of "mcs m" pts] by (simp add: layout_ok_def)
    moreover have "prefix (object_bytes H (md_scheme r) m pts) (src_bytes src)"
      using object_chunks_bytes [OF r(2), of 0 pts H "md_scheme r"] pts qs(3) by (simp add: object_bytes_def)
    ultimately show ?thesis using pts(1) by blast
  qed
  then show ?thesis using out(1) qs(1-3) by blast
qed

section \<open>Witnesses\<close>

text \<open>An upload of two parts, with three bytes and one byte in chunks of two.\<close>

definition ex_part :: "int \<Rightarrow> int \<Rightarrow> mpu_part_record" where
  "ex_part pn n = \<lparr>mp_PartNumber = pn, mp_ETag = [], mp_PlainLen = n, mp_EncLen = n + 16 * mpuChunkCount 2 n, mp_ChunkCount = mpuChunkCount 2 n\<rparr>"

definition ex_mpu :: multipart_manifest where
  "ex_mpu = \<lparr>mm_Version = 2, mm_ParentBucket = ''b'', mm_ParentKey = ''k'', mm_CompanionBucket = [], mm_CompanionKey = [],
     mm_BindingID = [], mm_Algorithm = [], mm_ChunkSize = 2, mm_IVPrefix = [], mm_UploadIDHash = [], mm_WrappedDEK = [],
     mm_KMSKeyID = [], mm_KMSProvider = [], mm_KMSKeyVersion = 0, mm_Parts = [ex_part 1 3, ex_part 5 1], mm_OriginalETag = [], mm_TotalPlainSize = 4\<rparr>"

abbreviation ex_oc_mpu :: object_context where
  "ex_oc_mpu \<equiv> \<lparr>oc_bucket = ''b'', oc_key = ''k''\<rparr>"

lemma ex_cipher: "createMPUAEADCipher ex_suite [] (replicate 32 7) = Inr sum_aead"
  by (simp add: createMPUAEADCipher_def createAEADCipher_def createAESGCMCipher_def aesKeySize_def ex_suite_def
      AlgorithmAES256GCM_def AlgorithmChaCha20Poly1305_def)

lemma ex_mpu_layout [simp]: "layout_ok ex_mpu"
  by (simp add: layout_ok_def ex_mpu_def ex_part_def part_ok_def mpuChunkCount_def int_limits chunk_consts)

lemma ex_mpu_parts [simp]: "mm_Parts ex_mpu = [ex_part 1 3, ex_part 5 1]" "mm_ChunkSize ex_mpu = 2"
  by (simp_all add: ex_mpu_def)

lemma ex_mpu_reader:
  "\<exists>r. newMPUDecryptReader ex_suite ex_oc_mpu (replicate 16 9) src (Some ex_mpu) (replicate 32 7) (replicate 32 8)
     (replicate 12 6) [] True = Inr (Some r)"
  by (simp add: newMPUDecryptReader_def Validate_def ex_cipher)

lemma ex_encrypted_part:
  assumes "pn \<in> {1..10000}" and "length pt \<le> 1000"
  shows "\<exists>ct. encrypted_part sum_hkdf ex_suite ex_oc_mpu (replicate 16 9) (replicate 32 7) (replicate 32 8)
     (replicate 12 6) [] True 2 (ex_part pn (int (length pt))) pt ct"
proof -
  have c: "0 \<le> mpuChunkCount 2 (int (length pt))" "mpuChunkCount 2 (int (length pt)) \<le> 1000"
      "mpuChunkCount 2 (int (length pt)) \<le> (maxInt64 - int (length pt)) div 16"
    using assms(2) by (auto simp: mpuChunkCount_def int_limits)
  obtain r l where r: "newMPUPartEncryptReader ex_suite ex_oc_mpu (replicate 16 9) [SData pt] (replicate 32 7)
      (replicate 32 8) (replicate 12 6) pn 2 (int (length pt)) [] True = Inr (r, l)"
    using assms c by (simp add: newMPUPartEncryptReader_def Validate_def ex_cipher mpuAEADTagSize_def int_limits chunk_consts Let_def)
  have "\<exists>ct r'. drain (me_Read sum_hkdf) (replicate (Suc (nat l)) 1) r = (ct, Some EOF, r')"
    using part_encrypt_drain [OF r ex_suite_laws sum_hkdf_laws, of "replicate (Suc (nat l)) 1"] by auto
  then obtain ct r' where d: "drain (me_Read sum_hkdf) (replicate (Suc (nat l)) 1) r = (ct, Some EOF, r')" by blast
  have "src_clean [SData pt]" "src_bytes [SData pt] = pt" "\<forall>k \<in> set (replicate (Suc (nat l)) 1). 0 < (k :: nat)" by simp_all
  then show ?thesis unfolding encrypted_part_def ex_part_def mpu_part_record.simps using r d by blast
qed

theorem mpu_roundtrip_witness:
  "\<exists>src r r'. newMPUDecryptReader ex_suite ex_oc_mpu (replicate 16 9) src (Some ex_mpu) (replicate 32 7) (replicate 32 8)
       (replicate 12 6) [] True = Inr (Some r) \<and>
     drain (md_Read sum_hkdf) (replicate 5 3) r = ([1, 2, 3, 4], Some EOF, r')"
proof -
  let ?E = "encrypted_part sum_hkdf ex_suite ex_oc_mpu (replicate 16 9) (replicate 32 7) (replicate 32 8) (replicate 12 6) [] True 2"
  obtain c1 c2 where ct: "?E (ex_part 1 3) [1, 2, 3] c1" "?E (ex_part 5 1) [4] c2"
    using ex_encrypted_part [of 1 "[1, 2, 3]"] ex_encrypted_part [of 5 "[4]"] by auto
  define src where "src = [SData c1, SData c2]"
  obtain r where r: "newMPUDecryptReader ex_suite ex_oc_mpu (replicate 16 9) src (Some ex_mpu) (replicate 32 7) (replicate 32 8)
      (replicate 12 6) [] True = Inr (Some r)"
    using ex_mpu_reader by blast
  have parts: "?E ([ex_part 1 3, ex_part 5 1] ! i) ([[1, 2, 3], [4]] ! i) ([c1, c2] ! i)" if "i < length [ex_part 1 3, ex_part 5 1]" for i
    using that ct by (auto simp: less_Suc_eq)
  show ?thesis
    using r mpu_roundtrip [OF r ex_suite_laws sum_hkdf_laws, of "[[1, 2, 3], [4]]" "[c1, c2]" "replicate 5 3"] parts
    by (auto simp: src_def)
qed

text \<open>The same object without its last byte: the first part is released, and then an error.\<close>

theorem mpu_releases_authenticated_witness:
  "\<exists>r out r'. newMPUDecryptReader ex_suite ex_oc_mpu (replicate 16 9) [SData [1, 2, 3]] (Some ex_mpu) (replicate 32 7) (replicate 32 8)
       (replicate 12 6) [] True = Inr (Some r) \<and>
     drain (md_Read sum_hkdf) (replicate 5 3) r = (out, Some (Err ''mpu_decrypt: read''), r') \<and>
     (\<exists>qs. prefix out (concat qs) \<and> list_all2 (fit_chunk ex_mpu) (take (length qs) (chunks_from ex_mpu 0 0)) qs)"
proof -
  obtain r where r: "newMPUDecryptReader ex_suite ex_oc_mpu (replicate 16 9) [SData [1, 2, 3]] (Some ex_mpu) (replicate 32 7)
      (replicate 32 8) (replicate 12 6) [] True = Inr (Some r)"
    using ex_mpu_reader by blast
  note i = newMPUDecryptReader_Inr [OF r ex_suite_laws]
  have "md_run sum_hkdf r = ([], Err ''mpu_decrypt: read'')"
    by (simp add: i(5) chunks_from_def ex_part_def mpuChunkCount_def upto_rec1 chunkLen_def)
  then obtain r' where d: "drain (md_Read sum_hkdf) (replicate 5 3) r = ([], Some (Err ''mpu_decrypt: read''), r')"
    using mpu_decrypt.reader.drain_complete [of r "replicate 5 3" sum_hkdf] i(1,4) by auto
  show ?thesis using r d mpu_releases_authenticated [OF r ex_suite_laws sum_hkdf_laws _ _ _ d] by auto
qed

end
