(* ===== verification/Mpu_Range.thy ===== *)
theory Mpu_Range
  imports Mpu_Decrypt
begin

text \<open>
  Reading parts of a multipart object: the decryption of whole chunks in memory
  (\<^verbatim>\<open>DecryptMPUPartRange\<close> and its variants of \<^verbatim>\<open>internal/crypto/mpu_encrypter.go\<close>), the reader behind
  ranged GET requests (\<^verbatim>\<open>mpuPlaintextRangeReader\<close> of \<^verbatim>\<open>internal/api/object_stream.go\<close>) and the range
  decoder of part copies (\<^verbatim>\<open>decodeMPUPlaintextRange\<close> of \<^verbatim>\<open>internal/api/upload_part_copy.go\<close>).
\<close>

section \<open>Decrypting chunks of one part\<close>

function decryptLoop :: "hkdf \<Rightarrow> mpu_scheme \<Rightarrow> u32 \<Rightarrow> nat \<Rightarrow> u32 \<Rightarrow> bytes \<Rightarrow> goerr + bytes" where
  "decryptLoop H S part chunkSize chunkIndex ciphertext =
     (if ciphertext = [] then Inr []
      else if 0x7FFFFFFF \<le> chunkIndex then Inl (Err ''mpu_encrypter: chunk index overflow'')
      else case openChunk H S part chunkIndex (take (chunkSize + 16) ciphertext) of
          Inl e \<Rightarrow> Inl e
        | Inr plain \<Rightarrow>
            (case decryptLoop H S part chunkSize (chunkIndex + 1) (drop (chunkSize + 16) ciphertext) of
               Inl e \<Rightarrow> Inl e
             | Inr out \<Rightarrow> Inr (plain @ out)))"
  by pat_completeness auto
termination
  by (relation "measure (\<lambda>(H, S, part, cs, i, ct). length ct)") auto

declare decryptLoop.simps [simp del]

definition decryptMPUPartRange ::
  "hkdf \<Rightarrow> cipher_suite \<Rightarrow> object_context \<Rightarrow> bytes \<Rightarrow> bytes \<Rightarrow> bytes \<Rightarrow> bytes \<Rightarrow> bytes \<Rightarrow> int \<Rightarrow> int \<Rightarrow> int \<Rightarrow> string \<Rightarrow> bool \<Rightarrow>
     goerr + bytes" where
  "decryptMPUPartRange H Su object bindingID ciphertext dek uploadIDHash ivPrefix partNumber chunkSize startChunkIdx algorithm bound =
     and_then (Validate object) (\<lambda>_.
       let chunkSize = (if chunkSize \<le> 0 then DefaultChunkSize else chunkSize) in
       if partNumber < 1 \<or> partNumber > 10000 \<or> startChunkIdx < 0 \<or> chunkSize > MaxChunkSize
       then Inl (Err ''mpu_encrypter: invalid part number, chunk index, or chunk size'')
       else and_then (createMPUAEADCipher Su algorithm dek) (\<lambda>A.
         decryptLoop H \<lparr>ms_aead = A, ms_dek = dek, ms_hash = uploadIDHash, ms_prefix = ivPrefix, ms_object = object,
             ms_binding = bindingID, ms_bound = bound\<rparr>
           (of_int partNumber) (nat chunkSize) (of_int startChunkIdx) ciphertext))"

definition DecryptMPUPartRange ::
  "hkdf \<Rightarrow> cipher_suite \<Rightarrow> object_context \<Rightarrow> bytes \<Rightarrow> bytes \<Rightarrow> bytes \<Rightarrow> bytes \<Rightarrow> bytes \<Rightarrow> int \<Rightarrow> int \<Rightarrow> int \<Rightarrow> string \<Rightarrow>
     goerr + bytes" where
  "DecryptMPUPartRange H Su object bindingID ciphertext dek uploadIDHash ivPrefix partNumber chunkSize startChunkIdx algorithm =
     and_then (Validate object) (\<lambda>_.
       if bindingID = replicate 16 0 then Inl (Err ''mpu: v2 binding ID is required'')
       else decryptMPUPartRange H Su object bindingID ciphertext dek uploadIDHash ivPrefix partNumber chunkSize startChunkIdx
         algorithm True)"

definition DecryptMPUPartRangeV1 ::
  "hkdf \<Rightarrow> cipher_suite \<Rightarrow> object_context \<Rightarrow> bytes \<Rightarrow> bytes \<Rightarrow> bytes \<Rightarrow> bytes \<Rightarrow> int \<Rightarrow> int \<Rightarrow> int \<Rightarrow> string \<Rightarrow> goerr + bytes" where
  "DecryptMPUPartRangeV1 H Su object ciphertext dek uploadIDHash ivPrefix partNumber chunkSize startChunkIdx algorithm =
     decryptMPUPartRange H Su object (replicate 16 0) ciphertext dek uploadIDHash ivPrefix partNumber chunkSize startChunkIdx
       algorithm False"

text \<open>\<^verbatim>\<open>DecryptMPUPart\<close> has no object: its chunks are opened without associated data.\<close>

definition DecryptMPUPart ::
  "hkdf \<Rightarrow> cipher_suite \<Rightarrow> bytes \<Rightarrow> bytes \<Rightarrow> bytes \<Rightarrow> bytes \<Rightarrow> int \<Rightarrow> int \<Rightarrow> string \<Rightarrow> goerr + bytes" where
  "DecryptMPUPart H Su ciphertext dek uploadIDHash ivPrefix partNumber chunkSize algorithm =
     (let chunkSize = (if chunkSize \<le> 0 then DefaultChunkSize else chunkSize) in
      if partNumber < 1 \<or> partNumber > 10000 \<or> chunkSize > MaxChunkSize
      then Inl (Err ''mpu_encrypter: invalid part number or chunk size'')
      else and_then (createMPUAEADCipher Su algorithm dek) (\<lambda>A.
        decryptLoop H \<lparr>ms_aead = A, ms_dek = dek, ms_hash = uploadIDHash, ms_prefix = ivPrefix,
            ms_object = \<lparr>oc_bucket = [], oc_key = []\<rparr>, ms_binding = [], ms_bound = False\<rparr>
          (of_int partNumber) (nat chunkSize) 0 ciphertext))"

section \<open>The reader behind ranged GET requests\<close>

type_synonym chunk_decryptor = "object_context \<Rightarrow> bytes \<Rightarrow> bytes \<Rightarrow> bytes \<Rightarrow> bytes \<Rightarrow> int \<Rightarrow> int \<Rightarrow> int \<Rightarrow> goerr + bytes"

definition mpuChunkDecryptor :: "hkdf \<Rightarrow> cipher_suite \<Rightarrow> bool \<Rightarrow> bytes \<Rightarrow> string \<Rightarrow> chunk_decryptor" where
  "mpuChunkDecryptor H Su isV2 bindingID algorithm =
     (if isV2
      then (\<lambda>object ciphertext dek uploadIDHash ivPrefix partNumber chunkSize chunkIndex.
        DecryptMPUPartRange H Su object bindingID ciphertext dek uploadIDHash ivPrefix partNumber chunkSize chunkIndex algorithm)
      else (\<lambda>object ciphertext dek uploadIDHash ivPrefix partNumber chunkSize chunkIndex.
        DecryptMPUPartRangeV1 H Su object ciphertext dek uploadIDHash ivPrefix partNumber chunkSize chunkIndex algorithm))"

record mpu_range_reader =
  mr_src :: source
  mr_manifest :: multipart_manifest
  mr_range :: mpu_range_result
  mr_rangeStart :: int
  mr_rangeEnd :: int
  mr_plainOffset :: int
  mr_partIndex :: nat
  mr_chunkIndex :: int
  mr_object :: object_context
  mr_dek :: bytes
  mr_hash :: bytes
  mr_prefix :: bytes
  mr_decrypt :: chunk_decryptor
  mr_pending :: bytes
  mr_done :: bool

text \<open>The reader that \<^verbatim>\<open>serveMPURangedGet\<close> builds for a planned range.\<close>

definition newRangeReader ::
  "source \<Rightarrow> multipart_manifest \<Rightarrow> mpu_range_result \<Rightarrow> int \<Rightarrow> int \<Rightarrow> object_context \<Rightarrow> bytes \<Rightarrow> bytes \<Rightarrow> bytes \<Rightarrow> chunk_decryptor \<Rightarrow>
     mpu_range_reader" where
  "newRangeReader src m rr pStart pEnd object dek uploadIDHash ivPrefix decrypt =
     \<lparr>mr_src = src, mr_manifest = m, mr_range = rr, mr_rangeStart = pStart, mr_rangeEnd = pEnd,
      mr_plainOffset = plainSum (take (rg_PartStartIdx rr) (mm_Parts m)) + rg_ChunkStart rr * mm_ChunkSize m,
      mr_partIndex = rg_PartStartIdx rr, mr_chunkIndex = rg_ChunkStart rr, mr_object = object, mr_dek = dek,
      mr_hash = uploadIDHash, mr_prefix = ivPrefix, mr_decrypt = decrypt, mr_pending = [], mr_done = False\<rparr>"

definition mr_advance :: "mpu_part_record \<Rightarrow> mpu_range_reader \<Rightarrow> mpu_range_reader" where
  "mr_advance part r =
     (if mr_chunkIndex r = rg_ChunkEnd (mr_range r) \<and> mr_partIndex r = rg_PartEndIdx (mr_range r) then r\<lparr>mr_done := True\<rparr>
      else if mr_chunkIndex r = mp_ChunkCount part - 1
      then r\<lparr>mr_partIndex := mr_partIndex r + 1,
             mr_chunkIndex := (if mr_partIndex r + 1 \<le> rg_PartEndIdx (mr_range r) then 0 else mr_chunkIndex r)\<rparr>
      else r\<lparr>mr_chunkIndex := mr_chunkIndex r + 1\<rparr>)"

text \<open>The bytes of a chunk that starts at plaintext offset \<open>off\<close> and lie in the range.\<close>

definition mr_clip :: "int \<Rightarrow> int \<Rightarrow> int \<Rightarrow> bytes \<Rightarrow> bytes" where
  "mr_clip rangeStart rangeEnd off plain =
     (let chunkEnd = off + int (length plain) - 1;
          writeStart = (if rangeStart < off then off else rangeStart);
          writeEnd = (if rangeEnd > chunkEnd then chunkEnd else rangeEnd)
      in if writeStart \<le> writeEnd
         then take (nat (writeEnd - off + 1) - nat (writeStart - off)) (drop (nat (writeStart - off)) plain)
         else [])"

text \<open>
  One round of the loop of \<^verbatim>\<open>Read\<close>. Only validated manifests are loaded, whose chunks have
  positive lengths; a length that is not positive, for which the allocation of the buffer
  panics, is an error.
\<close>

definition mr_fetch :: "mpu_range_reader \<Rightarrow> goerr option \<times> mpu_range_reader" where
  "mr_fetch r =
     (if mr_done r then (Some EOF, r)
      else if mr_partIndex r > rg_PartEndIdx (mr_range r) then (Some EOF, r\<lparr>mr_done := True\<rparr>)
      else if mr_partIndex r \<ge> length (mm_Parts (mr_manifest r)) then (Some (Err ''panic: index out of range''), r)
      else
        let part = mm_Parts (mr_manifest r) ! mr_partIndex r;
            chunkPlainLen = (if mr_chunkIndex r = mp_ChunkCount part - 1
              then mp_PlainLen part - mr_chunkIndex r * mm_ChunkSize (mr_manifest r) else mm_ChunkSize (mr_manifest r))
        in if chunkPlainLen + 16 \<le> 0 then (Some (Err ''panic: makeslice: len out of range''), r)
           else case read_full (mr_src r) (nat (chunkPlainLen + 16)) of
               (b, Some e, s) \<Rightarrow> (Some e, r\<lparr>mr_src := s\<rparr>)
             | (b, None, s) \<Rightarrow>
                 (case mr_decrypt r (mr_object r) b (mr_dek r) (mr_hash r) (mr_prefix r) (mp_PartNumber part)
                     (mm_ChunkSize (mr_manifest r)) (mr_chunkIndex r) of
                    Inl e \<Rightarrow> (Some e, r\<lparr>mr_src := s\<rparr>)
                  | Inr plain \<Rightarrow>
                      (None, mr_advance part (r\<lparr>mr_src := s, mr_plainOffset := mr_plainOffset r + chunkPlainLen,
                         mr_pending := mr_clip (mr_rangeStart r) (mr_rangeEnd r) (mr_plainOffset r) plain\<rparr>))))"

lemma mr_advance_sel [simp]:
  "mr_src (mr_advance p r) = mr_src r" "mr_pending (mr_advance p r) = mr_pending r"
  by (simp_all add: mr_advance_def)

lemma read_full_shrinks: "read_full s n = (b, None, s') \<Longrightarrow> 0 < n \<Longrightarrow> src_size s' < src_size s"
  using read_full_None [of s n b s'] read_full_data_size [of s n b None s'] by auto

lemma mr_fetch_size: "mr_fetch r = (None, r') \<Longrightarrow> src_size (mr_src r') < src_size (mr_src r)"
  by (auto simp: mr_fetch_def Let_def split: if_splits prod.splits option.splits sum.splits elim!: read_full_shrinks)

function mr_Read :: "mpu_range_reader \<Rightarrow> nat \<Rightarrow> bytes \<times> goerr option \<times> mpu_range_reader" where
  "mr_Read r n =
     (if n = 0 then ([], None, r)
      else if mr_pending r \<noteq> [] then (take n (mr_pending r), None, r\<lparr>mr_pending := drop n (mr_pending r)\<rparr>)
      else case mr_fetch r of
          (Some e, r') \<Rightarrow> ([], Some e, r')
        | (None, r') \<Rightarrow> mr_Read r' n)"
  by pat_completeness auto
termination
  by (relation "measure (\<lambda>(r, n). src_size (mr_src r))") (auto dest: sym mr_fetch_size)

declare mr_Read.simps [simp del]

section \<open>Slices of a stored object\<close>

text \<open>The record of a chunk stands at the offset that the layout gives it.\<close>

lemma fit_parts_sum:
  "list_all2 fit_part ps pts \<Longrightarrow> int (length (concat pts)) = plainSum ps"
  by (induction ps pts rule: list_all2_induct) (simp_all add: fit_part_def)

lemma length_part_bytes:
  assumes "hkdf_laws H" "scheme_ok S" "0 < n" "part_ok (int n) p" "fit_part p pt"
  shows "int (length (part_bytes H S x n pt)) = mp_EncLen p"
proof -
  have p: "mp_PlainLen p = int (length pt)" using assms(5) by (simp add: fit_part_def)
  have "length (part_bytes H S x n pt) = length pt + 16 * nat (mp_ChunkCount p)"
    using length_concat_records [OF assms(1,2)] count_nat [of "int n" "int (length pt)"] assms(3,4)
    by (simp add: part_bytes_def length_chunks part_ok_def p)
  then show ?thesis using assms(3-5) part_ok_nonneg [of "int n" p] by (simp add: part_ok_def fit_part_def)
qed

lemma object_bytes_sum:
  "hkdf_laws H \<Longrightarrow> scheme_ok S \<Longrightarrow> 0 < n \<Longrightarrow> list_all2 fit_part ps pts \<Longrightarrow> \<forall>p \<in> set ps. part_ok (int n) p \<Longrightarrow>
     int (length (concat (map2 (\<lambda>p. part_bytes H S (of_int (mp_PartNumber p)) n) ps pts))) = encSum ps"
  by (induction ps arbitrary: pts) (auto simp: list_all2_Cons1 length_part_bytes)

lemma part_chunk_slice:
  assumes "hkdf_laws H" "scheme_ok S" "k < length (chunks n pt)"
  shows "take (length (chunks n pt ! k) + 16) (drop (k * (n + 16)) (part_bytes H S x n pt)) = mpu_record H S x (of_nat k) (chunks n pt ! k)"
proof -
  let ?rs = "mpu_records H S x 0 (chunks n pt)"
  have len: "length (?rs ! j) = length (chunks n pt ! j) + 16" if "j < length (chunks n pt)" for j
    using that assms(1,2) by (simp add: mpu_records_nth length_mpu_record)
  have "drop (k * (n + 16)) (part_bytes H S x n pt) = concat (drop k ?rs)"
    unfolding part_bytes_def using assms(3) len chunks_full [of _ n pt] by (intro concat_drop_uniform) (auto simp: len)
  also have "\<dots> = ?rs ! k @ concat (drop (Suc k) ?rs)" using assms(3) by (simp add: Cons_nth_drop_Suc [symmetric])
  finally show ?thesis using len [OF assms(3)] assms(3) by (simp add: mpu_records_nth)
qed

lemma object_chunk_slice:
  assumes "hkdf_laws H" "scheme_ok S" "layout_ok m" "list_all2 fit_part (mm_Parts m) pts" and "chunk_at m i c"
  shows "take (nat (chunkLen m i c + 16)) (drop (nat (encOff m i c)) (object_bytes H S m pts)) =
      chunk_record H S m (i, c) (take (nat (chunkLen m i c)) (drop (nat (plainOff m i c)) (concat pts)))"
proof -
  let ?p = "mm_Parts m ! i" and ?pt = "pts ! i"
  obtain n where n: "mm_ChunkSize m = int n" "0 < n" using layout_chunk_size [OF assms(3,5)] by (metis zero_less_imp_eq_int)
  have i: "i < length (mm_Parts m)" "length pts = length (mm_Parts m)" "fit_part ?p ?pt"
    using assms(4,5) by (auto simp: chunk_at_def list_all2_conv_all_nth)
  obtain k where k: "c = int k" using assms(5) by (auto simp: chunk_at_def dest: zero_le_imp_eq_int)
  let ?qs = "chunks n ?pt"
  have fit: "list_all2 (fit_chunk m) (map (Pair i) [0..mp_ChunkCount ?p - 1]) ?qs"
    using part_chunks [OF assms(3) i(1), of ?qs] i(3) n by simp
  then have len: "k < length ?qs" "chunkLen m i c = int (length (?qs ! k))"
    using assms(5) k by (auto simp: list_all2_conv_all_nth fit_chunk_def chunk_at_def)
  let ?xs = "map2 (\<lambda>p. part_bytes H S (of_int (mp_PartNumber p)) n) (mm_Parts m) pts"
  have xs: "object_bytes H S m pts = concat ?xs" "?xs ! i = part_bytes H S (of_int (mp_PartNumber ?p)) n ?pt"
    using i n by (simp_all add: object_bytes_def)
  have "int (length (concat (take i ?xs))) = encSum (take i (mm_Parts m))"
    using object_bytes_sum [OF assms(1,2) n(2) list_all2_takeI [OF assms(4)], of i] assms(3) n
    by (auto simp: take_map take_zip layout_ok_def dest: in_set_takeD)
  then have "encOff m i c = int (length (concat (take i ?xs)) + k * (n + 16))"
    using n k by (simp add: encOff_def)
  then have enc: "nat (encOff m i c) = length (concat (take i ?xs)) + k * (n + 16)" by linarith
  have "int (length (concat (take i pts))) = plainSum (take i (mm_Parts m))"
    using fit_parts_sum [OF list_all2_takeI [OF assms(4)]] .
  then have "plainOff m i c = int (length (concat (take i pts)) + k * n)"
    using n k by (simp add: plainOff_def)
  then have plain: "nat (plainOff m i c) = length (concat (take i pts)) + k * n" by linarith
  have "length (?qs ! k) \<le> length (drop (k * n) ?pt)" using chunks_nth [OF len(1)] by simp
  moreover have "drop (k * n) ?pt \<noteq> []" using chunks_nonempty [OF nth_mem [OF len(1)]] chunks_nth [OF len(1)] by auto
  ultimately have "k * n + length (?qs ! k) \<le> length ?pt" by simp
  then have "take (length (?qs ! k)) (drop (nat (plainOff m i c)) (concat pts)) = take (length (?qs ! k)) (drop (k * n) ?pt)"
    unfolding plain using concat_nth_slice [of i pts] i by (intro slice_in_slice) auto
  also have "\<dots> = ?qs ! k" using chunks_nth [OF len(1)] by (auto simp: min_def)
  finally have P: "take (length (?qs ! k)) (drop (nat (plainOff m i c)) (concat pts)) = ?qs ! k" .
  have "k * (n + 16) + (length (?qs ! k) + 16) \<le> length (?xs ! i)"
    using arg_cong [OF part_chunk_slice [OF assms(1,2) len(1), of "of_int (mp_PartNumber ?p)"], of length]
      length_mpu_record [OF assms(1,2)] by (simp add: xs(2))
  then have "take (length (?qs ! k) + 16) (drop (nat (encOff m i c)) (concat ?xs)) =
      take (length (?qs ! k) + 16) (drop (k * (n + 16)) (?xs ! i))"
    unfolding enc using concat_nth_slice [of i ?xs] i by (intro slice_in_slice) auto
  then show ?thesis using part_chunk_slice [OF assms(1,2) len(1), of "of_int (mp_PartNumber ?p)"] P len(2) k
    by (simp add: xs chunk_record_def nat_add_distrib)
qed

text \<open>Chunks lie one behind the other in the plaintext, so an offset is in one chunk only.\<close>

lemma layout_plain_mono:
  assumes "layout_ok m" and "k \<le> l"
  shows "plainSum (take k (mm_Parts m)) \<le> plainSum (take l (mm_Parts m))"
proof -
  have "\<forall>p \<in> set (mm_Parts m). 0 \<le> mp_PlainLen p" using assms(1) by (auto simp: layout_ok_def part_ok_def)
  then show ?thesis using sum_take_le [of "take l (mm_Parts m)" mp_PlainLen k] assms(2) by (auto simp: min_def dest: in_set_takeD)
qed

lemma plainOff_step:
  assumes "layout_ok m" "chunk_at m i c" "chunk_at m j d" and "i < j \<or> i = j \<and> c < d"
  shows "plainOff m i c + chunkLen m i c \<le> plainOff m j d"
proof (cases "i < j")
  case True
  have "c * mm_ChunkSize m + chunkLen m i c \<le> mp_PlainLen (mm_Parts m ! i)" by (simp add: chunkLen_def)
  moreover have "plainSum (take (Suc i) (mm_Parts m)) \<le> plainSum (take j (mm_Parts m))"
    using layout_plain_mono [OF assms(1)] True by simp
  moreover have "0 \<le> d * mm_ChunkSize m" using assms(3) layout_chunk_size [OF assms(1,3)] by (simp add: chunk_at_def)
  ultimately show ?thesis using assms(2) by (simp add: plainOff_def chunk_at_def sum_take_nth)
next
  case False
  then have "(c + 1) * mm_ChunkSize m \<le> d * mm_ChunkSize m"
    using assms(4) layout_chunk_size [OF assms(1,2)] by (intro mult_right_mono) auto
  then show ?thesis using False assms(4) chunkLen_pos [OF assms(1,2)] by (simp add: plainOff_def algebra_simps)
qed

lemma plainOff_bounds:
  assumes "layout_ok m" "chunk_at m i c"
  shows "0 \<le> plainOff m i c" "plainOff m i c + chunkLen m i c \<le> plainSum (mm_Parts m)"
proof -
  have "0 \<le> c * mm_ChunkSize m" using assms(2) layout_chunk_size [OF assms] by (simp add: chunk_at_def)
  then show "0 \<le> plainOff m i c" using layout_plain_mono [OF assms(1), of 0 i] by (simp add: plainOff_def)
  have "c * mm_ChunkSize m + chunkLen m i c \<le> mp_PlainLen (mm_Parts m ! i)" by (simp add: chunkLen_def)
  then show "plainOff m i c + chunkLen m i c \<le> plainSum (mm_Parts m)"
    using layout_plain_mono [OF assms(1), of "Suc i" "length (mm_Parts m)"] assms(2)
    by (simp add: plainOff_def chunk_at_def sum_take_nth)
qed

lemma located_here: "layout_ok m \<Longrightarrow> chunk_at m i c \<Longrightarrow> located m (plainOff m i c) i c"
  using chunkLen_pos [of m i c] by (simp add: located_def)

text \<open>If the chunk at hand is not the one that holds \<open>b\<close>, then \<open>b\<close> lies behind it, in the same part or a later one.\<close>

lemma located_behind:
  assumes "layout_ok m" "chunk_at m i c" "located m b j d" "plainOff m i c \<le> b" "(i, c) \<noteq> (j, d)"
  shows "plainOff m i c + chunkLen m i c \<le> b" "i < j \<or> i = j \<and> c < d"
proof -
  have j: "chunk_at m j d" "plainOff m j d \<le> b" "b < plainOff m j d + chunkLen m j d" using assms(3) by (simp_all add: located_def)
  show o: "i < j \<or> i = j \<and> c < d"
  proof (rule ccontr)
    assume "\<not> (i < j \<or> i = j \<and> c < d)"
    then have "j < i \<or> j = i \<and> d < c" using assms(5) by auto
    then show False using plainOff_step [OF assms(1) j(1) assms(2)] assms(4) j(3) by linarith
  qed
  show "plainOff m i c + chunkLen m i c \<le> b" using plainOff_step [OF assms(1,2) j(1) o] j(2) by linarith
qed

section \<open>The decrypter of single chunks\<close>

definition range_scheme :: "aead \<Rightarrow> object_context \<Rightarrow> bytes \<Rightarrow> bytes \<Rightarrow> bytes \<Rightarrow> bool \<Rightarrow> bytes \<Rightarrow> mpu_scheme" where
  "range_scheme A oc dek h pre isV2 b = \<lparr>ms_aead = A, ms_dek = dek, ms_hash = h, ms_prefix = pre, ms_object = oc,
     ms_binding = (if isV2 then b else replicate 16 0), ms_bound = isV2\<rparr>"

lemma decryptLoop_single:
  assumes "hkdf_laws H" "scheme_ok S" "length q \<le> cs" "idx < 0x7FFFFFFF"
  shows "decryptLoop H S part cs idx (mpu_record H S part idx q) = Inr q"
proof -
  have "length (mpu_record H S part idx q) \<le> cs + 16" "mpu_record H S part idx q \<noteq> []"
    using length_mpu_record [OF assms(1,2), of part idx q] assms(3) by auto
  moreover have "\<not> 0x7FFFFFFF \<le> idx" using assms(4) by simp
  ultimately show ?thesis using assms(1,2) by (simp add: decryptLoop.simps)
qed

lemma mpuChunkDecryptor_record:
  assumes "hkdf_laws H" "createMPUAEADCipher Su alg dek = Inr A" "aead_laws A" "Validate oc = Inr ()"
    and "isV2 \<Longrightarrow> length b = 16 \<and> b \<noteq> replicate 16 0"
    and "1 \<le> pn" "pn \<le> 10000" "0 < cs" "cs \<le> MaxChunkSize" "0 \<le> c" "c < maxInt32" "int (length q) \<le> cs"
  shows "mpuChunkDecryptor H Su isV2 b alg oc
    (mpu_record H (range_scheme A oc dek h pre isV2 b) (of_int pn) (of_int c) q) dek h pre pn cs c = Inr q"
proof -
  let ?S = "range_scheme A oc dek h pre isV2 b"
  have "scheme_ok ?S" using assms(3-5) by (simp add: scheme_ok_def range_scheme_def)
  moreover have "(of_int c :: u32) < 0x7FFFFFFF"
    using assms(10,11) by (simp add: word_less_def uint_word_of_int take_bit_int_eq_self int_limits)
  ultimately have "decryptLoop H ?S (of_int pn) (nat cs) (of_int c) (mpu_record H ?S (of_int pn) (of_int c) q) = Inr q"
    using assms(1,12) by (intro decryptLoop_single) auto
  then show ?thesis using assms(2,4-11)
    by (cases isV2) (simp_all add: mpuChunkDecryptor_def DecryptMPUPartRange_def DecryptMPUPartRangeV1_def decryptMPUPartRange_def
        range_scheme_def)
qed

section \<open>What the range reader delivers\<close>

abbreviation mr_scheme :: "aead \<Rightarrow> bool \<Rightarrow> bytes \<Rightarrow> mpu_range_reader \<Rightarrow> mpu_scheme" where
  "mr_scheme A isV2 b r \<equiv> range_scheme A (mr_object r) (mr_dek r) (mr_hash r) (mr_prefix r) isV2 b"

text \<open>
  The fixed part of the reader: a lawful cipher, a valid manifest and the part plaintexts, and
  a planned range whose inner parts are not empty.
\<close>

definition mr_static ::
  "hkdf \<Rightarrow> cipher_suite \<Rightarrow> aead \<Rightarrow> bool \<Rightarrow> bytes \<Rightarrow> string \<Rightarrow> bytes list \<Rightarrow> mpu_range_reader \<Rightarrow> bool" where
  "mr_static H Su A isV2 b alg pts r \<longleftrightarrow>
     hkdf_laws H \<and> createMPUAEADCipher Su alg (mr_dek r) = Inr A \<and> aead_laws A \<and> Validate (mr_object r) = Inr () \<and>
     (isV2 \<longrightarrow> length b = 16 \<and> b \<noteq> replicate 16 0) \<and> mr_decrypt r = mpuChunkDecryptor H Su isV2 b alg \<and>
     layout_ok (mr_manifest r) \<and> list_all2 fit_part (mm_Parts (mr_manifest r)) pts \<and>
     0 \<le> mr_rangeStart r \<and> located (mr_manifest r) (mr_rangeEnd r) (rg_PartEndIdx (mr_range r)) (rg_ChunkEnd (mr_range r)) \<and>
     rg_EncEnd (mr_range r) + 1 = encOff (mr_manifest r) (rg_PartEndIdx (mr_range r)) (rg_ChunkEnd (mr_range r)) +
       chunkLen (mr_manifest r) (rg_PartEndIdx (mr_range r)) (rg_ChunkEnd (mr_range r)) + 16 \<and>
     (\<forall>k. rg_PartStartIdx (mr_range r) < k \<and> k < rg_PartEndIdx (mr_range r) \<longrightarrow> mp_ChunkCount (mm_Parts (mr_manifest r) ! k) \<noteq> 0)"

definition mr_pos :: "hkdf \<Rightarrow> mpu_scheme \<Rightarrow> bytes list \<Rightarrow> mpu_range_reader \<Rightarrow> bool" where
  "mr_pos H S pts r \<longleftrightarrow>
     chunk_at (mr_manifest r) (mr_partIndex r) (mr_chunkIndex r) \<and> rg_PartStartIdx (mr_range r) \<le> mr_partIndex r \<and>
     mr_plainOffset r = plainOff (mr_manifest r) (mr_partIndex r) (mr_chunkIndex r) \<and> mr_plainOffset r \<le> mr_rangeEnd r \<and>
     src_clean (mr_src r) \<and>
     src_bytes (mr_src r) = drop (nat (encOff (mr_manifest r) (mr_partIndex r) (mr_chunkIndex r)))
       (take (nat (rg_EncEnd (mr_range r) + 1)) (object_bytes H S (mr_manifest r) pts))"

definition mr_inv ::
  "hkdf \<Rightarrow> cipher_suite \<Rightarrow> aead \<Rightarrow> bool \<Rightarrow> bytes \<Rightarrow> string \<Rightarrow> bytes list \<Rightarrow> mpu_range_reader \<Rightarrow> bool" where
  "mr_inv H Su A isV2 b alg pts r \<longleftrightarrow>
     mr_static H Su A isV2 b alg pts r \<and> (mr_done r \<or> mr_pos H (mr_scheme A isV2 b r) pts r)"

lemma mr_inv_pending [simp]:
  "mr_static H Su A isV2 b alg pts (r\<lparr>mr_pending := x\<rparr>) = mr_static H Su A isV2 b alg pts r"
  "mr_pos H S pts (r\<lparr>mr_pending := x\<rparr>) = mr_pos H S pts r"
  by (simp_all add: mr_static_def mr_pos_def)

definition mr_tail :: "bytes list \<Rightarrow> mpu_range_reader \<Rightarrow> bytes" where
  "mr_tail pts r = (if mr_done r then []
     else drop (nat (max (mr_rangeStart r) (mr_plainOffset r))) (take (nat (mr_rangeEnd r + 1)) (concat pts)))"

lemma drop_take_split: "k \<le> l \<Longrightarrow> drop k (take e w) = take (min e l - k) (drop k w) @ drop l (take e w)"
proof -
  assume "k \<le> l"
  have "drop k (take e w) = take (min e l - k) (drop k (take e w)) @ drop (min e l - k) (drop k (take e w))"
    by (rule append_take_drop_id [symmetric])
  moreover have "drop (min e l - k) (drop k (take e w)) = drop l (take e w)"
    using \<open>k \<le> l\<close> by (cases "e \<le> l") (auto simp: min_def)
  moreover have "take (min e l - k) (drop k (take e w)) = take (min e l - k) (drop k w)"
    by (auto simp: drop_take take_take min_def)
  ultimately show ?thesis by metis
qed

lemma mr_clip_slice:
  assumes "0 \<le> a" "0 \<le> off" "0 \<le> n" "off \<le> e" "off + n \<le> int (length w)"
  shows "drop (nat (max a off)) (take (nat (e + 1)) w) =
    mr_clip a e off (take (nat n) (drop (nat off) w)) @ drop (nat (max a (off + n))) (take (nat (e + 1)) w)"
proof -
  obtain a' o' n' e' where eq: "a = int a'" "off = int o'" "n = int n'" "e = int e'"
    using assms by (metis zero_le_imp_eq_int order.trans)
  have l: "length (take n' (drop o' w)) = n'" using assms(5) eq by simp
  have clip: "mr_clip a e off (take n' (drop o' w)) = take (min (e' + 1) (o' + n') - max a' o') (drop (max a' o' - o') (take n' (drop o' w)))"
    unfolding mr_clip_def eq l Let_def by (auto simp: nat_diff_distrib max_def min_def nat_add_distrib add.commute [of n'])
  have "drop (max a' o') (take (Suc e') w) =
      take (min (Suc e') (max a' (o' + n')) - max a' o') (drop (max a' o') w) @ drop (max a' (o' + n')) (take (Suc e') w)"
    by (rule drop_take_split) simp
  moreover have "take (min (Suc e') (max a' (o' + n')) - max a' o') (drop (max a' o') w) =
      take (min (e' + 1) (o' + n') - max a' o') (drop (max a' o' - o') (take n' (drop o' w)))"
    by (cases "a' \<le> o' + n'") (auto simp: drop_take take_take max_def min_def)
  moreover have "nat (max a (off + n)) = max a' (o' + n')" using eq by (simp flip: of_nat_add of_nat_max)
  ultimately show ?thesis using clip eq by (simp add: nat_add_distrib flip: of_nat_max)
qed

lemma object_bytes_length:
  assumes "hkdf_laws H" "scheme_ok S" "layout_ok m" "list_all2 fit_part (mm_Parts m) pts"
  shows "int (length (object_bytes H S m pts)) = encSum (mm_Parts m)"
proof (cases "mm_Parts m = []")
  case False
  then obtain n where "mm_ChunkSize m = int n" "0 < n" using assms(3) by (auto simp: layout_ok_def dest: zero_less_imp_eq_int)
  then show ?thesis using object_bytes_sum [OF assms(1,2) _ assms(4), of n] assms(3) by (simp add: object_bytes_def layout_ok_def)
qed (simp add: object_bytes_def)

text \<open>Reading and opening the chunk at the reader's position.\<close>

lemma mr_read_chunk:
  assumes "mr_static H Su A isV2 b alg pts r" "mr_pos H (mr_scheme A isV2 b r) pts r"
    and "m = mr_manifest r" "i = mr_partIndex r" "c = mr_chunkIndex r" "n = chunkLen m i c"
    and "read_full (mr_src r) (nat (n + 16)) = (ct, x, s)"
  shows "x = None" "src_clean s"
    "src_bytes s = drop (nat (encOff m i c + n + 16)) (take (nat (rg_EncEnd (mr_range r) + 1)) (object_bytes H (mr_scheme A isV2 b r) m pts))"
    "mr_decrypt r (mr_object r) ct (mr_dek r) (mr_hash r) (mr_prefix r) (mp_PartNumber (mm_Parts m ! i)) (mm_ChunkSize m) c =
      Inr (take (nat n) (drop (nat (plainOff m i c)) (concat pts)))"
proof -
  let ?S = "mr_scheme A isV2 b r" and ?E = "rg_EncEnd (mr_range r) + 1" and ?q = "take (nat n) (drop (nat (plainOff m i c)) (concat pts))"
  note st = assms(1) [unfolded mr_static_def, folded assms(3)] and ps = assms(2) [unfolded mr_pos_def, folded assms(3-5)]
  have laws: "hkdf_laws H" "layout_ok m" "list_all2 fit_part (mm_Parts m) pts" and at: "chunk_at m i c" using st ps by blast+
  have S: "scheme_ok ?S" using st by (simp add: scheme_ok_def range_scheme_def)
  note n = chunkLen_pos [OF laws(2) at, folded assms(6)] and eb = encOff_bounds [OF laws(2) at, folded assms(6)]
  have fit: "encOff m i c + n + 16 \<le> ?E"
    using located_mono [OF laws(2) located_here [OF laws(2) at]] st ps assms(6) by auto
  have len: "encOff m i c + n + 16 \<le> int (length (object_bytes H ?S m pts))"
    using object_bytes_length [OF laws(1) S laws(2,3)] eb by linarith
  note rd = read_full_clean [OF _ assms(7)]
  have src: "src_clean (mr_src r)" "src_bytes (mr_src r) = drop (nat (encOff m i c)) (take (nat ?E) (object_bytes H ?S m pts))"
    using ps by blast+
  show "src_clean s" using rd src by blast
  show "x = None" using rd(4) src fit len n eb(1) by (auto simp: nat_le_iff)
  have sum: "nat (n + 16) + nat (encOff m i c) = nat (encOff m i c + n + 16)" using n eb(1) by linarith
  then show "src_bytes s = drop (nat (encOff m i c + n + 16)) (take (nat ?E) (object_bytes H ?S m pts))"
    using rd(2) src by simp
  have "ct = take (nat (n + 16)) (drop (nat (encOff m i c)) (object_bytes H ?S m pts))"
    using rd(1) src fit sum by (simp add: take_drop min_def)
  then have ct: "ct = mpu_record H ?S (of_int (mp_PartNumber (mm_Parts m ! i))) (of_int c) ?q"
    using object_chunk_slice [OF laws(1) S laws(2,3) at] assms(6) by (simp add: chunk_record_def)
  have i: "i < length (mm_Parts m)" "0 \<le> c" "c < mp_ChunkCount (mm_Parts m ! i)" using at by (simp_all add: chunk_at_def)
  show "mr_decrypt r (mr_object r) ct (mr_dek r) (mr_hash r) (mr_prefix r) (mp_PartNumber (mm_Parts m ! i)) (mm_ChunkSize m) c = Inr ?q"
  proof -
    have "mr_decrypt r = mpuChunkDecryptor H Su isV2 b alg" using st by blast
    moreover have "int (length ?q) \<le> mm_ChunkSize m" using n unfolding length_take by linarith
    moreover have "c < maxInt32" using i(3) layout_part [OF laws(2) i(1)] by (simp add: part_ok_def)
    ultimately show ?thesis unfolding ct
      using mpuChunkDecryptor_record [OF laws(1)] st i(2) layout_part_number [OF laws(2) i(1)] layout_chunk_size [OF laws(2) at]
      by (simp add: int_one_le_iff_zero_less)
  qed
qed

text \<open>After a chunk that does not hold the end of the range, the reader stands at the next chunk.\<close>

lemma mr_next_chunk:
  assumes "mr_static H Su A isV2 b alg pts r" "mr_pos H S pts r"
    and "m = mr_manifest r" "i = mr_partIndex r" "c = mr_chunkIndex r"
    and "(i, c) \<noteq> (rg_PartEndIdx (mr_range r), rg_ChunkEnd (mr_range r))"
    and "(j, d) = (if c = mp_ChunkCount (mm_Parts m ! i) - 1 then (Suc i, 0) else (i, c + 1))"
  shows "chunk_at m j d" "plainOff m i c + chunkLen m i c = plainOff m j d" "encOff m i c + chunkLen m i c + 16 = encOff m j d"
    "j \<le> rg_PartEndIdx (mr_range r)" "plainOff m j d \<le> mr_rangeEnd r"
proof -
  let ?pe = "rg_PartEndIdx (mr_range r)" and ?ce = "rg_ChunkEnd (mr_range r)"
  have L: "layout_ok m" and e: "located m (mr_rangeEnd r) ?pe ?ce" and at: "chunk_at m i c" "plainOff m i c \<le> mr_rangeEnd r"
    and ne: "\<And>k. rg_PartStartIdx (mr_range r) < k \<Longrightarrow> k < ?pe \<Longrightarrow> mp_ChunkCount (mm_Parts m ! k) \<noteq> 0"
    and ps: "rg_PartStartIdx (mr_range r) \<le> i"
    using assms(1-5) by (auto simp: mr_static_def mr_pos_def)
  note nx = chunk_next(3,4) [OF L at(1)] and bh = located_behind [OF L at(1) e at(2) assms(6)]
  show pl: "plainOff m i c + chunkLen m i c = plainOff m j d" and "encOff m i c + chunkLen m i c + 16 = encOff m j d"
    using nx assms(7) by (auto split: if_splits)
  then show "plainOff m j d \<le> mr_rangeEnd r" using bh(1) by simp
  have pe: "chunk_at m ?pe ?ce" using e by (simp add: located_def)
  show "j \<le> ?pe" using bh(2) assms(7) pe by (auto simp: chunk_at_def split: if_splits)
  show "chunk_at m j d"
  proof (cases "c = mp_ChunkCount (mm_Parts m ! i) - 1")
    case True
    then have j: "j = Suc i" "d = 0" using assms(7) by auto
    have i: "j < length (mm_Parts m)" using \<open>j \<le> ?pe\<close> pe by (simp add: chunk_at_def)
    then have "0 \<le> mp_ChunkCount (mm_Parts m ! j)"
      using layout_part [OF L i] part_ok_nonneg [of "mm_ChunkSize m"] layout_chunk_size [OF L at(1)] by blast
    moreover have "mp_ChunkCount (mm_Parts m ! j) \<noteq> 0"
      using ne [of j] ps j(1) \<open>j \<le> ?pe\<close> pe by (cases "j = ?pe") (auto simp: chunk_at_def)
    ultimately show ?thesis using i j by (simp add: chunk_at_def)
  qed (use assms(7) at(1) in \<open>auto simp: chunk_at_def\<close>)
qed

lemma mr_fetch_step:
  assumes "mr_inv H Su A isV2 b alg pts r" "mr_pending r = []" "mr_fetch r = (x, r')"
  shows "mr_inv H Su A isV2 b alg pts r' \<and>
    (case x of
       None \<Rightarrow> mr_tail pts r = mr_pending r' @ mr_tail pts r' \<and> src_size (mr_src r') < src_size (mr_src r)
     | Some e \<Rightarrow> e = EOF \<and> mr_tail pts r = [] \<and> mr_pending r' = [] \<and> mr_tail pts r' = [])"
proof (cases "mr_done r")
  case True
  then show ?thesis using assms by (auto simp: mr_fetch_def mr_tail_def)
next
  case False
  let ?rr = "mr_range r"
  define m i c n where mic: "m = mr_manifest r" "i = mr_partIndex r" "c = mr_chunkIndex r" "n = chunkLen m i c"
  have st: "mr_static H Su A isV2 b alg pts r" and ps: "mr_pos H (mr_scheme A isV2 b r) pts r"
    using assms(1) False by (auto simp: mr_inv_def)
  have L: "layout_ok m" and fit: "list_all2 fit_part (mm_Parts m) pts" and at: "chunk_at m i c" "mr_plainOffset r = plainOff m i c"
      "plainOff m i c \<le> mr_rangeEnd r" and e: "located m (mr_rangeEnd r) (rg_PartEndIdx ?rr) (rg_ChunkEnd ?rr)" "0 \<le> mr_rangeStart r"
    using st ps by (auto simp: mr_static_def mr_pos_def mic)
  have i: "i < length (mm_Parts m)" "0 \<le> c" "c < mp_ChunkCount (mm_Parts m ! i)" using at(1) by (simp_all add: chunk_at_def)
  note n = chunkLen_pos [OF L at(1), folded mic(4)]
  have pe: "\<not> rg_PartEndIdx ?rr < i"
    using located_behind(2) [OF L at(1) e(1) at(3)] by (cases "(i, c) = (rg_PartEndIdx ?rr, rg_ChunkEnd ?rr)") auto
  have sz: "(if c = mp_ChunkCount (mm_Parts m ! i) - 1 then mp_PlainLen (mm_Parts m ! i) - c * mm_ChunkSize m else mm_ChunkSize m) = n"
    using chunk_next(1,2) [OF L at(1)] i(3) by (auto simp: mic(4))
  obtain ct y s where rf: "read_full (mr_src r) (nat (n + 16)) = (ct, y, s)" by (cases "read_full (mr_src r) (nat (n + 16))")
  note rc = mr_read_chunk [OF st ps mic rf]
  let ?q = "take (nat n) (drop (nat (plainOff m i c)) (concat pts))"
  define r0 where "r0 = r\<lparr>mr_src := s, mr_plainOffset := plainOff m i c + n,
      mr_pending := mr_clip (mr_rangeStart r) (mr_rangeEnd r) (plainOff m i c) ?q\<rparr>"
  have "mr_fetch r = (None, mr_advance (mm_Parts m ! i) r0)"
    using False pe i(1) sz n rf rc at(2) unfolding mr_fetch_def Let_def mic(1-3) [symmetric] by (simp add: r0_def)
  then have x: "x = None" "r' = mr_advance (mm_Parts m ! i) r0" using assms(3) by simp_all
  have off: "0 \<le> plainOff m i c" "plainOff m i c + n \<le> int (length (concat pts))"
    using fit_parts_sum [OF fit] plainOff_bounds [OF L at(1)] by (simp_all add: mic(4))
  note clip = mr_clip_slice [OF e(2) off(1) less_imp_le [OF conjunct1 [OF n]] at(3) off(2)]
  have tail: "mr_tail pts r = mr_pending r' @ drop (nat (max (mr_rangeStart r) (plainOff m i c + n))) (take (nat (mr_rangeEnd r + 1)) (concat pts))"
    using clip False at(2) by (simp add: mr_tail_def x(2) r0_def)
  have static: "mr_static H Su A isV2 b alg pts r'" and S: "mr_scheme A isV2 b r' = mr_scheme A isV2 b r"
    using st by (simp_all add: x(2) r0_def mr_static_def mr_advance_def)
  note size = mr_fetch_size [OF assms(3) [unfolded x(1)]]
  show ?thesis
  proof (cases "(i, c) = (rg_PartEndIdx ?rr, rg_ChunkEnd ?rr)")
    case True
    then have d: "mr_done r'" using mic by (simp add: x(2) r0_def mr_advance_def)
    have "mr_rangeEnd r < plainOff m i c + n" using e(1) True by (simp add: located_def mic(4))
    then have "drop (nat (max (mr_rangeStart r) (plainOff m i c + n))) (take (nat (mr_rangeEnd r + 1)) (concat pts)) = []" by simp
    then show ?thesis using tail static d size x(1) by (simp add: mr_inv_def mr_tail_def)
  next
    case more: False
    obtain j d where jd: "(j, d) = (if c = mp_ChunkCount (mm_Parts m ! i) - 1 then (Suc i, 0) else (i, c + 1))"
      by metis
    note nx = mr_next_chunk [OF st ps mic(1-3) more jd]
    have r0: "mr_chunkIndex r0 = c" "mr_partIndex r0 = i" "mr_range r0 = ?rr" by (simp_all add: r0_def mic(2,3))
    have "mr_advance (mm_Parts m ! i) r0 = r0\<lparr>mr_partIndex := j, mr_chunkIndex := d\<rparr>"
      using more jd nx(4) unfolding mr_advance_def r0 by (cases "c = mp_ChunkCount (mm_Parts m ! i) - 1") (auto simp: r0 (1,2) [symmetric])
    then have r': "r' = r0\<lparr>mr_partIndex := j, mr_chunkIndex := d\<rparr>" by (simp add: x(2))
    have "i \<le> j" using jd by (auto split: if_splits)
    then have "mr_pos H (mr_scheme A isV2 b r) pts r'"
      using ps nx rc(2,3) unfolding mr_pos_def mic(1-3) [symmetric] mic(4) by (simp add: r' r0_def mic(4) flip: mic(1))
    moreover have "mr_tail pts r' = drop (nat (max (mr_rangeStart r) (plainOff m i c + n))) (take (nat (mr_rangeEnd r + 1)) (concat pts))"
      using False by (simp add: mr_tail_def r' r0_def)
    ultimately show ?thesis using tail static S size x(1) by (simp add: mr_inv_def)
  qed
qed

interpretation mpu_range: single_copy_reader mr_Read mr_fetch mr_pending "\<lambda>n r. r\<lparr>mr_pending := drop n (mr_pending r)\<rparr>"
  "\<lambda>r. src_size (mr_src r)" "mr_inv H Su A isV2 b alg pts" "mr_tail pts" "\<lambda>_. EOF" for H Su A isV2 b alg pts
proof
  fix r n assume "0 < (n :: nat)"
  then show "mr_Read r n = (if mr_pending r \<noteq> [] then (take n (mr_pending r), None, r\<lparr>mr_pending := drop n (mr_pending r)\<rparr>)
      else case mr_fetch r of (Some e, r') \<Rightarrow> ([], Some e, r') | (None, r') \<Rightarrow> mr_Read r' n)"
    by (simp add: mr_Read.simps [of r])
next
  fix r n assume "mr_inv H Su A isV2 b alg pts r"
  then show "mr_inv H Su A isV2 b alg pts (r\<lparr>mr_pending := drop n (mr_pending r)\<rparr>) \<and>
      mr_pending (r\<lparr>mr_pending := drop n (mr_pending r)\<rparr>) = drop n (mr_pending r) \<and>
      mr_tail pts (r\<lparr>mr_pending := drop n (mr_pending r)\<rparr>) = mr_tail pts r \<and> EOF = EOF"
    by (simp add: mr_inv_def mr_tail_def)
next
  fix r x r' assume "mr_inv H Su A isV2 b alg pts r" "mr_pending r = []" "mr_fetch r = (x, r')"
  from mr_fetch_step [OF this] show "mr_inv H Su A isV2 b alg pts r' \<and> EOF = EOF \<and>
      (case x of
         None \<Rightarrow> mr_tail pts r = mr_pending r' @ mr_tail pts r' \<and> src_size (mr_src r') < src_size (mr_src r)
       | Some e \<Rightarrow> e = EOF \<and> mr_tail pts r = [] \<and> mr_pending r' = [] \<and> mr_tail pts r' = [])"
    by simp
qed

text \<open>
  C14. Ranged GET of a multipart object: for every range \<open>a..b\<close> inside a stored object, the
  planned backend range, read through the range reader with any buffer sizes, gives exactly
  the plaintext bytes \<open>a\<close> to \<open>b\<close> and then \<open>EOF\<close>, across chunk and part boundaries, for both
  manifest versions. The backend returns the planned bytes of the object, and no part strictly
  inside the range is empty.
\<close>

theorem mpu_range_delivers_range:
  assumes "validateLayout m = Inr ()" "0 \<le> a" "a \<le> e" "e < mm_TotalPlainSize m"
    and "EncRangeForPlaintextRange m a e = Inr rr"
    and "\<And>k. rg_PartStartIdx rr < k \<Longrightarrow> k < rg_PartEndIdx rr \<Longrightarrow> mp_PlainLen (mm_Parts m ! k) \<noteq> 0"
    and "hkdf_laws H" "createMPUAEADCipher Su alg dek = Inr A" "aead_laws A" "Validate oc = Inr ()"
    and "isV2 \<Longrightarrow> length b = 16 \<and> b \<noteq> replicate 16 0"
    and "list_all2 fit_part (mm_Parts m) pts"
    and "src_clean src" "src_bytes src = drop (nat (rg_EncStart rr)) (take (nat (rg_EncEnd rr + 1))
      (object_bytes H (range_scheme A oc dek h pre isV2 b) m pts))"
    and "\<forall>k \<in> set ns. 0 < k" "e - a + 1 < int (length ns)"
  shows "\<exists>r'. drain mr_Read ns (newRangeReader src m rr a e oc dek h pre (mpuChunkDecryptor H Su isV2 b alg)) =
    (drop (nat a) (take (nat (e + 1)) (concat pts)), Some EOF, r')"
proof -
  let ?r = "newRangeReader src m rr a e oc dek h pre (mpuChunkDecryptor H Su isV2 b alg)"
  have L: "layout_ok m" using assms(1) by (simp add: validateLayout_Inr)
  obtain rr' where rr: "EncRangeForPlaintextRange m a e = Inr rr'" "located m a (rg_PartStartIdx rr') (rg_ChunkStart rr')"
      "located m e (rg_PartEndIdx rr') (rg_ChunkEnd rr')" "rg_EncStart rr' = encOff m (rg_PartStartIdx rr') (rg_ChunkStart rr')"
      "rg_EncEnd rr' + 1 = encOff m (rg_PartEndIdx rr') (rg_ChunkEnd rr') + chunkLen m (rg_PartEndIdx rr') (rg_ChunkEnd rr') + 16"
    using EncRangeForPlaintextRange_ok [OF L assms(2-4)] by blast
  then have [simp]: "rr' = rr" using assms(5) by simp
  have at: "chunk_at m (rg_PartEndIdx rr) (rg_ChunkEnd rr)" using rr(3) by (simp add: located_def)
  have "mp_ChunkCount (mm_Parts m ! k) \<noteq> 0" if "rg_PartStartIdx rr < k" "k < rg_PartEndIdx rr" for k
  proof -
    have "k < length (mm_Parts m)" using that at by (simp add: chunk_at_def)
    then show ?thesis using layout_part [OF L] assms(6) [OF that] mpuChunkCount_bounds(4) layout_chunk_size [OF L at]
      by (fastforce simp: part_ok_def)
  qed
  then have "mr_static H Su A isV2 b alg pts ?r"
    using assms L rr(3,5) by (simp add: mr_static_def newRangeReader_def)
  moreover have "mr_pos H (mr_scheme A isV2 b ?r) pts ?r"
    using assms(3,13,14) rr(2,4) by (auto simp: mr_pos_def newRangeReader_def located_def plainOff_def)
  ultimately have inv: "mr_inv H Su A isV2 b alg pts ?r" by (simp add: mr_inv_def)
  have "max a (plainOff m (rg_PartStartIdx rr) (rg_ChunkStart rr)) = a" using rr(2) by (simp add: located_def)
  then have tail: "mr_tail pts ?r = drop (nat a) (take (nat (e + 1)) (concat pts))"
    by (simp add: mr_tail_def newRangeReader_def plainOff_def)
  have "length (mr_tail pts ?r) < length ns" using assms(2,3,16) unfolding tail by (auto simp: nat_le_iff)
  then show ?thesis
    using mpu_range.reader.drain_complete [OF inv assms(15)] tail by (simp add: newRangeReader_def)
qed

lemma ex_range: "\<exists>rr. EncRangeForPlaintextRange ex_mpu 1 3 = Inr rr \<and> rg_PartEndIdx rr < 2"
proof -
  obtain rr where "EncRangeForPlaintextRange ex_mpu 1 3 = Inr rr" "located ex_mpu 3 (rg_PartEndIdx rr) (rg_ChunkEnd rr)"
    by (rule EncRangeForPlaintextRange_ok [OF ex_mpu_layout, of 1 3]) (simp_all add: ex_mpu_def)
  then show ?thesis by (auto simp: located_def chunk_at_def)
qed

lemma ex_fit: "list_all2 fit_part (mm_Parts ex_mpu) [[1, 2, 3], [4]]"
  by (simp add: fit_part_def ex_part_def)

theorem mpu_range_delivers_range_witness:
  "\<exists>src rr r'. EncRangeForPlaintextRange ex_mpu 1 3 = Inr rr \<and>
     drain mr_Read (replicate 4 2) (newRangeReader src ex_mpu rr 1 3 ex_oc_mpu (replicate 32 7) (replicate 32 8) (replicate 12 6)
       (mpuChunkDecryptor sum_hkdf ex_suite True (replicate 16 9) [])) = ([2, 3, 4], Some EOF, r')"
proof -
  obtain rr where rr: "EncRangeForPlaintextRange ex_mpu 1 3 = Inr rr" "rg_PartEndIdx rr < 2" using ex_range by blast
  define src where "src = [SData (drop (nat (rg_EncStart rr)) (take (nat (rg_EncEnd rr + 1)) (object_bytes sum_hkdf
    (range_scheme sum_aead ex_oc_mpu (replicate 32 7) (replicate 32 8) (replicate 12 6) True (replicate 16 9)) ex_mpu [[1, 2, 3], [4]])))]"
  have "validateLayout ex_mpu = Inr ()" "(0 :: int) \<le> 1" "(1 :: int) \<le> 3" "3 < mm_TotalPlainSize ex_mpu" by (simp_all add: ex_mpu_def validateLayout_ok [OF ex_mpu_layout, unfolded ex_mpu_def])
  note T = mpu_range_delivers_range [OF this rr(1) _ sum_hkdf_laws ex_cipher sum_aead_laws _ _ ex_fit, of ex_oc_mpu True
      "replicate 16 9" src "replicate 32 8" "replicate 12 6" "replicate 4 2"]
  show ?thesis using T rr by (auto simp: Validate_def src_def)
qed

section \<open>The range decoder of part copies\<close>

text \<open>The stored length that the decoder takes for the chunks \<open>first..last\<close> of part \<open>pi\<close>.\<close>

definition spanFirst :: "mpu_range_result \<Rightarrow> nat \<Rightarrow> int" where
  "spanFirst rr pi = (if pi = rg_PartStartIdx rr then rg_ChunkStart rr else 0)"

definition spanLen :: "multipart_manifest \<Rightarrow> mpu_range_result \<Rightarrow> nat \<Rightarrow> int" where
  "spanLen m rr pi =
     (let part = mm_Parts m ! pi;
          encChunkSize = mm_ChunkSize m + 16;
          first = spanFirst rr pi;
          last = (if pi = rg_PartEndIdx rr then rg_ChunkEnd rr else mp_ChunkCount part - 1)
      in if pi \<noteq> rg_PartEndIdx rr \<or> last \<noteq> mp_ChunkCount part - 1
         then (last - first + 1) * encChunkSize else mp_EncLen part - first * encChunkSize)"

fun decodeSpans ::
  "hkdf \<Rightarrow> cipher_suite \<Rightarrow> bytes \<Rightarrow> multipart_manifest \<Rightarrow> bytes \<Rightarrow> bytes \<Rightarrow> bytes \<Rightarrow> mpu_range_result \<Rightarrow> object_context \<Rightarrow> bytes \<Rightarrow>
     int \<Rightarrow> nat list \<Rightarrow> goerr + bytes" where
  "decodeSpans H Su ciphertext m dek uploadIDHash ivPrefix rr object bindingID consumed [] = Inr []"
| "decodeSpans H Su ciphertext m dek uploadIDHash ivPrefix rr object bindingID consumed (pi # pis) =
     (if pi \<ge> length (mm_Parts m) then Inl (Err ''manifest part index out of range'')
      else if spanLen m rr pi < 0 \<or> consumed > int (length ciphertext) then Inl (Err ''invalid ciphertext span'')
      else
        let partLen = (if consumed + spanLen m rr pi > int (length ciphertext) then int (length ciphertext) - consumed
              else spanLen m rr pi) in
        case DecryptMPUPartRange H Su object bindingID (take (nat partLen) (drop (nat consumed) ciphertext)) dek uploadIDHash ivPrefix
            (mp_PartNumber (mm_Parts m ! pi)) (mm_ChunkSize m) (spanFirst rr pi) (mm_Algorithm m) of
          Inl e \<Rightarrow> Inl e
        | Inr plain \<Rightarrow>
            (case decodeSpans H Su ciphertext m dek uploadIDHash ivPrefix rr object bindingID (consumed + partLen) pis of
               Inl e \<Rightarrow> Inl e
             | Inr plaintext \<Rightarrow> Inr (plain @ plaintext)))"

fun decodeSpansV1 ::
  "hkdf \<Rightarrow> cipher_suite \<Rightarrow> bytes \<Rightarrow> multipart_manifest \<Rightarrow> bytes \<Rightarrow> bytes \<Rightarrow> bytes \<Rightarrow> mpu_range_result \<Rightarrow> object_context \<Rightarrow>
     int \<Rightarrow> nat list \<Rightarrow> goerr + bytes" where
  "decodeSpansV1 H Su ciphertext m dek uploadIDHash ivPrefix rr object consumed [] = Inr []"
| "decodeSpansV1 H Su ciphertext m dek uploadIDHash ivPrefix rr object consumed (pi # pis) =
     (if pi \<ge> length (mm_Parts m) then Inl (Err ''panic: index out of range'')
      else if consumed + spanLen m rr pi > int (length ciphertext) then Inl (Err ''invalid legacy MPU ciphertext span'')
      else if spanLen m rr pi < 0 then Inl (Err ''panic: slice bounds out of range'')
      else
        case DecryptMPUPartRangeV1 H Su object (take (nat (spanLen m rr pi)) (drop (nat consumed) ciphertext)) dek uploadIDHash ivPrefix
            (mp_PartNumber (mm_Parts m ! pi)) (mm_ChunkSize m) (spanFirst rr pi) (mm_Algorithm m) of
          Inl e \<Rightarrow> Inl e
        | Inr plain \<Rightarrow>
            (case decodeSpansV1 H Su ciphertext m dek uploadIDHash ivPrefix rr object (consumed + spanLen m rr pi) pis of
               Inl e \<Rightarrow> Inl e
             | Inr plaintext \<Rightarrow> Inr (plain @ plaintext)))"

text \<open>Trimming the decrypted chunks, which start at \<open>base\<close>, to the requested bytes.\<close>

definition trimRange :: "string \<Rightarrow> int \<Rightarrow> int \<Rightarrow> int \<Rightarrow> bytes \<Rightarrow> goerr + bytes" where
  "trimRange msg base pStart pEnd plaintext =
     (if pStart - base < 0 \<or> pEnd - base \<ge> int (length plaintext) \<or> pStart - base > pEnd - base then Inl (Err msg)
      else Inr (drop (nat (pStart - base)) (take (nat (pEnd - base + 1)) plaintext)))"

definition decodeMPUPlaintextRange ::
  "hkdf \<Rightarrow> cipher_suite \<Rightarrow> bytes \<Rightarrow> multipart_manifest \<Rightarrow> bytes \<Rightarrow> bytes \<Rightarrow> bytes \<Rightarrow> mpu_range_result \<Rightarrow> int \<Rightarrow> int \<Rightarrow> object_context \<Rightarrow>
     bytes \<Rightarrow> goerr + bytes" where
  "decodeMPUPlaintextRange H Su ciphertext m dek uploadIDHash ivPrefix rr pStart pEnd object bindingID =
     and_then (decodeSpans H Su ciphertext m dek uploadIDHash ivPrefix rr object bindingID 0 [rg_PartStartIdx rr..<rg_PartEndIdx rr + 1])
       (\<lambda>plaintext. if rg_PartStartIdx rr > length (mm_Parts m) then Inl (Err ''manifest part index out of range'')
        else trimRange ''decrypted range slice outside the plaintext''
          (plainSum (take (rg_PartStartIdx rr) (mm_Parts m)) + rg_ChunkStart rr * mm_ChunkSize m) pStart pEnd plaintext)"

definition decodeMPUPlaintextRangeV1 ::
  "hkdf \<Rightarrow> cipher_suite \<Rightarrow> bytes \<Rightarrow> multipart_manifest \<Rightarrow> bytes \<Rightarrow> bytes \<Rightarrow> bytes \<Rightarrow> mpu_range_result \<Rightarrow> int \<Rightarrow> int \<Rightarrow> object_context \<Rightarrow>
     goerr + bytes" where
  "decodeMPUPlaintextRangeV1 H Su ciphertext m dek uploadIDHash ivPrefix rr pStart pEnd object =
     and_then (decodeSpansV1 H Su ciphertext m dek uploadIDHash ivPrefix rr object 0 [rg_PartStartIdx rr..<rg_PartEndIdx rr + 1])
       (\<lambda>plaintext. if rg_PartStartIdx rr > length (mm_Parts m) then Inl (Err ''panic: index out of range'')
        else trimRange ''decrypted legacy range outside plaintext''
          (plainSum (take (rg_PartStartIdx rr) (mm_Parts m)) + rg_ChunkStart rr * mm_ChunkSize m) pStart pEnd plaintext)"

text \<open>
  An intact object of two parts, of three bytes and one byte in chunks of two bytes, under a
  cipher that appends a fixed tag.
\<close>

definition fixed_aead :: aead where
  "fixed_aead = tag_aead (\<lambda>_ _ _. replicate 16 5)"

definition fixed_suite :: cipher_suite where
  "fixed_suite = \<lparr>aes_gcm = \<lambda>_. fixed_aead, chacha20_poly1305 = \<lambda>_. fixed_aead, fips_build = False\<rparr>"

definition fixed_scheme :: mpu_scheme where
  "fixed_scheme = range_scheme fixed_aead ex_oc_mpu (replicate 32 7) (replicate 32 8) (replicate 12 6) True (replicate 16 9)"

lemma fixed_record: "mpu_record H fixed_scheme part idx q = q @ replicate 16 5"
  by (simp add: mpu_record_def fixed_scheme_def range_scheme_def fixed_aead_def tag_aead_def)

lemma fixed_scheme_ok: "scheme_ok fixed_scheme"
proof -
  have "aead_laws fixed_aead" unfolding fixed_aead_def by (rule tag_aead_laws) simp
  then show ?thesis by (simp add: fixed_scheme_def scheme_ok_def range_scheme_def Validate_def)
qed

lemma fixed_object:
  "object_bytes H fixed_scheme ex_mpu [[1, 2, 3], [4]] = [1, 2] @ replicate 16 5 @ [3] @ replicate 16 5 @ [4] @ replicate 16 5"
  by (simp add: object_bytes_def part_bytes_def chunks_step fixed_record del: replicate_Suc)

lemma fixed_open_long: "openChunk sum_hkdf fixed_scheme part idx (3 # replicate 16 5 @ [4]) = Inl (Err ''mpu: auth failure'')"
proof -
  have "replicate 15 5 @ [4] \<noteq> replicate 16 (5 :: byte)"
  proof
    assume "replicate 15 5 @ [4] = replicate 16 (5 :: byte)"
    then have "last (replicate 15 5 @ [4]) = last (replicate 16 (5 :: byte))" by metis
    then show False by (simp add: last_replicate)
  qed
  then have "Open fixed_aead n (3 # replicate 16 5 @ [4]) a = None" for n a by (simp add: fixed_aead_def tag_aead_def)
  then show ?thesis
    by (simp add: openChunk_def mpuChunkAAD_ok [OF fixed_scheme_ok] goOpen_def)
      (simp add: fixed_scheme_def range_scheme_def wrapErr_def)
qed

lemma fixed_part_copy:
  "decryptLoop sum_hkdf fixed_scheme part 2 0 ([1, 2] @ replicate 16 5 @ [3] @ replicate 16 5 @ [4]) = Inl (Err ''mpu: auth failure'')"
proof -
  have "openChunk sum_hkdf fixed_scheme part 0 ([1, 2] @ replicate 16 5) = Inr [1, 2]"
    using openChunk_record [OF sum_hkdf_laws fixed_scheme_ok, of part 0 "[1, 2]"] unfolding fixed_record .
  then show ?thesis
    by (subst decryptLoop.simps, subst decryptLoop.simps) (simp add: fixed_open_long word_le_nat_alt)
qed


end
