(* ===== verification/Go_Hex.thy ===== *)
theory Go_Hex
  imports Go_Strings
begin

text \<open>
  Lower-case hexadecimal texts: \<^verbatim>\<open>validLowerHex\<close> and \<^verbatim>\<open>indexByteString\<close> of
  \<^verbatim>\<open>internal/api/aws_chunked_reader.go\<close>, and the parts of packages encoding/hex and strconv
  that are applied to such texts.
\<close>

definition hexDigits :: string where
  "hexDigits = ''0123456789abcdef''"

definition is_lower_hex :: "char \<Rightarrow> bool" where
  "is_lower_hex c \<longleftrightarrow> 48 \<le> (of_char c :: nat) \<and> (of_char c :: nat) \<le> 57 \<or> 97 \<le> (of_char c :: nat) \<and> (of_char c :: nat) \<le> 102"

definition validLowerHex :: "string \<Rightarrow> nat \<Rightarrow> bool" where
  "validLowerHex s width \<longleftrightarrow> length s = width \<and> list_all is_lower_hex s"

definition hex_digit :: "nat \<Rightarrow> char" where
  "hex_digit n = (if n < 10 then char_of (48 + n) else char_of (87 + n))"

definition hex_digit_val :: "char \<Rightarrow> nat" where
  "hex_digit_val c = (if (of_char c :: nat) \<le> 57 then of_char c - 48 else of_char c - 87)"

text \<open>\<^verbatim>\<open>hex.EncodeToString\<close>, and \<^verbatim>\<open>hex.Decode\<close> on lower-case digits.\<close>

fun hex_encode :: "bytes \<Rightarrow> string" where
  "hex_encode [] = []"
| "hex_encode (b # bs) = hex_digit (unat b div 16) # hex_digit (unat b mod 16) # hex_encode bs"

fun hex_decode :: "string \<Rightarrow> bytes option" where
  "hex_decode [] = Some []"
| "hex_decode [c] = None"
| "hex_decode (c # d # s) =
     (if is_lower_hex c \<and> is_lower_hex d
      then map_option ((#) (of_nat (16 * hex_digit_val c + hex_digit_val d))) (hex_decode s) else None)"

text \<open>\<^verbatim>\<open>strconv.FormatUint(n, 16)\<close>, and the value of a text of hexadecimal digits.\<close>

function hex_nat :: "nat \<Rightarrow> string" where
  "hex_nat n = (if n < 16 then [hex_digit n] else hex_nat (n div 16) @ [hex_digit (n mod 16)])"
  by pat_completeness auto
termination
  by (relation "measure id") auto

declare hex_nat.simps [simp del]

definition hex_val :: "string \<Rightarrow> nat" where
  "hex_val s = foldl (\<lambda>a c. a * 16 + hex_digit_val c) 0 s"

fun indexByteString :: "string \<Rightarrow> string \<Rightarrow> nat option" where
  "indexByteString [] sub = (if sub = [] then Some 0 else None)"
| "indexByteString (c # s) sub =
     (if length sub \<le> Suc (length s) \<and> take (length sub) (c # s) = sub then Some 0 else map_option Suc (indexByteString s sub))"

section \<open>Facts\<close>

lemma hex_digit_props [simp]:
  assumes "n < 16"
  shows "is_lower_hex (hex_digit n)" "hex_digit_val (hex_digit n) = n"
proof -
  have "(of_char (char_of (48 + n) :: char) :: nat) = 48 + n" "(of_char (char_of (87 + n) :: char) :: nat) = 87 + n"
    using assms by simp_all
  then show "is_lower_hex (hex_digit n)" "hex_digit_val (hex_digit n) = n"
    using assms by (auto simp: is_lower_hex_def hex_digit_def hex_digit_val_def)
qed

lemma hex_digit_val_bound: "is_lower_hex c \<Longrightarrow> hex_digit_val c < 16"
  by (auto simp: is_lower_hex_def hex_digit_val_def)

lemma hex_digit_hex_digit_val [simp]: "is_lower_hex c \<Longrightarrow> hex_digit (hex_digit_val c) = c"
  by (auto simp: is_lower_hex_def hex_digit_val_def hex_digit_def)

lemma hex_digit_zero: "is_lower_hex c \<Longrightarrow> hex_digit_val c = 0 \<longleftrightarrow> c = CHR ''0''"
proof
  assume "is_lower_hex c" "hex_digit_val c = 0"
  then have "c = hex_digit 0" using hex_digit_hex_digit_val by metis
  also have "hex_digit 0 = CHR ''0''" by code_simp
  finally show "c = CHR ''0''" .
qed (simp add: hex_digit_val_def)

lemma hex_val_snoc [simp]: "hex_val (s @ [c]) = hex_val s * 16 + hex_digit_val c"
  by (simp add: hex_val_def)

lemma hex_val_Nil [simp]: "hex_val [] = 0"
  by (simp add: hex_val_def)

text \<open>The canonical texts are those of \<^const>\<open>hex_nat\<close>: digits without a leading zero.\<close>

definition canonical_hex :: "string \<Rightarrow> bool" where
  "canonical_hex s \<longleftrightarrow> s \<noteq> [] \<and> list_all is_lower_hex s \<and> (1 < length s \<longrightarrow> hd s \<noteq> CHR ''0'')"

lemma hex_val_bounds:
  "s \<noteq> [] \<Longrightarrow> list_all is_lower_hex s \<Longrightarrow>
     hex_val s < 16 ^ length s \<and> (hd s \<noteq> CHR ''0'' \<longrightarrow> 16 ^ (length s - 1) \<le> hex_val s)"
proof (induction s rule: rev_induct)
  case (snoc c t)
  have c: "hex_digit_val c < 16" "is_lower_hex c" using snoc.prems hex_digit_val_bound by auto
  show ?case
  proof (cases "t = []")
    case True
    then show ?thesis using c hex_digit_zero [of c] by (auto simp: hex_val_def)
  next
    case False
    then have "hex_val t < 16 ^ length t \<and> (hd t \<noteq> CHR ''0'' \<longrightarrow> 16 ^ (length t - 1) \<le> hex_val t)" using snoc by simp
    moreover have "(16 :: nat) ^ length t = 16 * 16 ^ (length t - 1)" using False by (cases t) auto
    ultimately show ?thesis using False c by auto
  qed
qed simp

lemma hex_nat_canonical: "canonical_hex (hex_nat n) \<and> hex_val (hex_nat n) = n \<and> (0 < n \<longrightarrow> hd (hex_nat n) \<noteq> CHR ''0'')"
proof (induction n rule: hex_nat.induct)
  case (1 n)
  show ?case
  proof (cases "n < 16")
    case True
    then show ?thesis using hex_digit_zero [of "hex_digit n"]
      by (auto simp: hex_nat.simps [of n] canonical_hex_def hex_val_def)
  next
    case False
    then have "0 < n div 16" by simp
    then show ?thesis using 1 False by (auto simp: hex_nat.simps [of n] canonical_hex_def)
  qed
qed

lemma canonical_hex_nat: "canonical_hex s \<Longrightarrow> hex_nat (hex_val s) = s"
proof (induction s rule: rev_induct)
  case (snoc c t)
  have c: "hex_digit_val c < 16" "is_lower_hex c" using snoc.prems hex_digit_val_bound by (auto simp: canonical_hex_def)
  show ?case
  proof (cases "t = []")
    case True
    then show ?thesis using c by (simp add: hex_nat.simps hex_val_def)
  next
    case False
    then have t: "canonical_hex t" "hd t \<noteq> CHR ''0''" using snoc.prems by (auto simp: canonical_hex_def)
    then have "16 ^ (length t - 1) \<le> hex_val t" using hex_val_bounds [of t] by (simp add: canonical_hex_def)
    moreover have "(1 :: nat) \<le> 16 ^ (length t - 1)" by simp
    ultimately have "1 \<le> hex_val t" by linarith
    then show ?thesis using snoc.IH [OF t(1)] c by (subst hex_nat.simps) simp
  qed
qed (simp add: canonical_hex_def)

lemma canonical_hex_length: "canonical_hex s \<Longrightarrow> length s \<le> 16 \<longleftrightarrow> hex_val s < 2 ^ 64"
proof (cases "length s \<le> 1")
  case True
  assume "canonical_hex s"
  then have "hex_val s < 16 ^ length s" using hex_val_bounds [of s] by (simp add: canonical_hex_def)
  moreover have "(16 :: nat) ^ length s \<le> 16 ^ 1" using True by (intro power_increasing) auto
  ultimately show ?thesis using True by simp
next
  case False
  assume s: "canonical_hex s"
  then have b: "hex_val s < 16 ^ length s" "16 ^ (length s - 1) \<le> hex_val s"
    using hex_val_bounds [of s] False by (auto simp: canonical_hex_def)
  have e: "(2 :: nat) ^ 64 = 16 ^ 16" by simp
  show ?thesis unfolding e
  proof
    assume "length s \<le> 16"
    then have "(16 :: nat) ^ length s \<le> 16 ^ 16" by (intro power_increasing) auto
    then show "hex_val s < 16 ^ 16" using b by linarith
  next
    assume "hex_val s < 16 ^ 16"
    show "length s \<le> 16"
    proof (rule ccontr)
      assume "\<not> length s \<le> 16"
      then have "(16 :: nat) ^ 16 \<le> 16 ^ (length s - 1)" by (intro power_increasing) auto
      then show False using b \<open>hex_val s < 16 ^ 16\<close> by linarith
    qed
  qed
qed

lemma hex_encode_props [simp]: "list_all is_lower_hex (hex_encode bs)" "length (hex_encode bs) = 2 * length bs"
proof (induction bs)
  case (Cons b bs)
  have "unat b < 256" using unsigned_less [of b] by simp
  then have "unat b div 16 < 16" by (simp add: less_mult_imp_div_less)
  case 1
  then show ?case using Cons \<open>unat b div 16 < 16\<close> by simp
next
  case (Cons b bs)
  case 2
  then show ?case using Cons by simp
qed simp_all

section \<open>Searching\<close>

lemma indexByteString_Some:
  "indexByteString s sub = Some k \<Longrightarrow> s = take k s @ sub @ drop (k + length sub) s"
proof (induction s arbitrary: k)
  case (Cons c s)
  show ?case
  proof (cases "length sub \<le> Suc (length s) \<and> take (length sub) (c # s) = sub")
    case True
    then have "k = 0" "take (length sub) (c # s) = sub" using Cons.prems by (auto split: if_splits)
    then show ?thesis using append_take_drop_id [of "length sub" "c # s"] by simp
  next
    case False
    then obtain j where "k = Suc j" "indexByteString s sub = Some j" using Cons.prems by (auto split: if_splits)
    then show ?thesis using Cons.IH [of j] by simp
  qed
qed (auto split: if_splits)

lemma indexByteString_first: "c \<notin> set t \<Longrightarrow> indexByteString (t @ (c # sub) @ u) (c # sub) = Some (length t)"
proof (induction t)
  case (Cons d t)
  then show ?case by (auto simp: take_Cons')
qed simp

lemma indexByteString_absent: "c \<notin> set s \<Longrightarrow> indexByteString s (c # sub) = None"
  by (induction s) auto

lemma indexByteString_char: "indexByteString s [c] = None \<longleftrightarrow> c \<notin> set s"
  by (induction s) auto

end
