(* ===== verification/Aws_Chunked.thy ===== *)
theory Aws_Chunked
  imports Go_Hex
begin

text \<open>
  The decoder of AWS-chunked request bodies, \<^verbatim>\<open>internal/api/aws_chunked_reader.go\<close>. Hashes and
  MACs are parameters. The buffered reader is the rest of the body with the error that follows
  it. The cancellation channel (it only adds an early \<open>ErrStreamingCanceled\<close>) and failures
  of the temporary files that stage a chunk are not part of the model.
\<close>

datatype streaming_err =
    ErrStreamingFraming
  | ErrStreamingLength
  | ErrStreamingTrailer
  | ErrStreamingTrailingData
  | ErrIncompleteBody
  | ErrStreamingCanceled
  | ErrStreamingSpool
  | ErrUnsupportedStreamingMode
  | ErrSignatureMismatch
  | ErrSpoolRequestLimit
  | ErrSpoolCapacity
  | ErrInvalidPayloadRequest

datatype streaming_mode = streamingNone | streamingSignedPayload | streamingSignedPayloadTrailer | streamingUnsignedPayloadTrailer

text \<open>Digests of the standard library: SHA-256, HMAC-SHA-256 (key, text), SHA-1, and the checksums.\<close>

record digests =
  dg_sha256 :: "bytes \<Rightarrow> bytes"
  dg_hmac :: "bytes \<Rightarrow> bytes \<Rightarrow> bytes"
  dg_sha1 :: "bytes \<Rightarrow> bytes"
  dg_crc32 :: "bytes \<Rightarrow> u32"
  dg_crc32c :: "bytes \<Rightarrow> u32"
  dg_crc64 :: "bytes \<Rightarrow> bytes"

record v4_signing =
  sg_timestamp :: string
  sg_scope :: string
  sg_key :: bytes
  sg_seed :: bytes
  sg_mode :: streaming_mode
  sg_expectedPayloadHash :: bytes
  sg_verifyPayload :: bool
  sg_closed :: bool

type_synonym wire = "bytes \<times> goerr"

definition maxAWSChunkHeaderBytes :: nat where "maxAWSChunkHeaderBytes = 8192"

definition maxAWSChunkBytes :: nat where "maxAWSChunkBytes = 67108864"

definition CRLF :: string where "CRLF = [char_of (13 :: nat), char_of (10 :: nat)]"

definition chunkMarker :: string where "chunkMarker = '';chunk-signature=''"

section \<open>Lines and signatures\<close>

definition readAWSLine :: "nat \<Rightarrow> wire \<Rightarrow> goerr + string \<times> wire" where
  "readAWSLine limit r =
     (case dropWhile (\<lambda>b. b \<noteq> 10) (fst r) of
        [] \<Rightarrow> Inl (if limit < length (fst r) then Err ''invalid AWS-chunked framing'' else snd r)
      | _ # rest \<Rightarrow>
          let line = takeWhile (\<lambda>b. b \<noteq> 10) (fst r) @ [10] in
          if limit < length line then Inl (Err ''invalid AWS-chunked framing'') else Inr (string_of line, (rest, snd r)))"

definition decodeSignature :: "string \<Rightarrow> bytes" where
  "decodeSignature s = (case hex_decode s of None \<Rightarrow> [] | Some b \<Rightarrow> b)"

definition chunkStringToSign :: "digests \<Rightarrow> v4_signing \<Rightarrow> bytes \<Rightarrow> bytes \<Rightarrow> string" where
  "chunkStringToSign D c previous dataHash =
     ''AWS4-HMAC-SHA256-PAYLOAD'' @ [char_of (10 :: nat)] @ sg_timestamp c @ [char_of (10 :: nat)] @ sg_scope c @ [char_of (10 :: nat)] @
     hex_encode previous @ [char_of (10 :: nat)] @ hex_encode (dg_sha256 D []) @ [char_of (10 :: nat)] @ hex_encode dataHash"

definition verifyChunkSignatureHash :: "digests \<Rightarrow> v4_signing \<Rightarrow> bytes \<Rightarrow> string \<Rightarrow> bytes \<Rightarrow> streaming_err + unit" where
  "verifyChunkSignatureHash D c previous supplied dataHash =
     (if \<not> validLowerHex supplied 64 then Inl ErrSignatureMismatch
      else if sg_closed c \<or> sg_key c = [] then Inl ErrSignatureMismatch
      else case hex_decode supplied of
          None \<Rightarrow> Inl ErrSignatureMismatch
        | Some provided \<Rightarrow>
            if dg_hmac D (sg_key c) (bytes_of (chunkStringToSign D c previous dataHash)) = provided then Inr ()
            else Inl ErrSignatureMismatch)"

definition verifyChunkSignature :: "digests \<Rightarrow> v4_signing \<Rightarrow> bytes \<Rightarrow> string \<Rightarrow> bytes \<Rightarrow> streaming_err + unit" where
  "verifyChunkSignature D c previous supplied data = verifyChunkSignatureHash D c previous supplied (dg_sha256 D data)"

section \<open>Chunk headers\<close>

text \<open>Size text and signature of a header line: signed chunks, signed framing without a signing context, plain chunks.\<close>

definition splitExtension :: "bool \<Rightarrow> bool \<Rightarrow> string \<Rightarrow> streaming_err + string \<times> string" where
  "splitExtension verify noctx line =
     (let i = indexByteString line chunkMarker;
          ext = (case i of None \<Rightarrow> [] | Some k \<Rightarrow> drop (k + length chunkMarker) line)
      in if verify then
           (case i of
              None \<Rightarrow> Inl ErrStreamingFraming
            | Some k \<Rightarrow>
                if k < 1 \<or> indexByteString ext '';'' \<noteq> None then Inl ErrStreamingFraming
                else if \<not> validLowerHex ext 64 then Inl ErrStreamingFraming
                else Inr (take k line, ext))
         else if noctx \<and> i \<noteq> None \<and> i \<noteq> Some 0 then
           (if indexByteString ext '';'' \<noteq> None \<or> \<not> validLowerHex ext 64 then Inl ErrStreamingFraming
            else Inr (take (case i of None \<Rightarrow> 0 | Some k \<Rightarrow> k) line, []))
         else if indexByteString line '';'' \<noteq> None then Inl ErrStreamingFraming
         else Inr (line, []))"

text \<open>A chunkSize text has at most 16 digits, so that \<^verbatim>\<open>ParseUint\<close> cannot fail.\<close>

definition awsHeader :: "bool \<Rightarrow> bool \<Rightarrow> string \<Rightarrow> streaming_err + nat \<times> string" where
  "awsHeader verify noctx line =
     (if length line < 3 \<or> drop (length line - 2) line \<noteq> CRLF then Inl ErrStreamingFraming
      else and_then (splitExtension verify noctx (take (length line - 2) line)) (\<lambda>(sizeText, supplied).
        if length sizeText = 0 \<or> length sizeText > 16 then Inl ErrStreamingFraming
        else if length sizeText > 1 \<and> hd sizeText = CHR ''0'' then Inl ErrStreamingFraming
        else if \<not> validLowerHex sizeText (length sizeText) then Inl ErrStreamingFraming
        else Inr (hex_val sizeText, supplied)))"

section \<open>Chunks\<close>

datatype aws_step =
    AwsDone bytes wire
  | AwsData bytes bytes wire

definition nextSignature :: "digests \<Rightarrow> v4_signing option \<Rightarrow> bytes \<Rightarrow> string \<Rightarrow> bytes \<Rightarrow> streaming_err + bytes" where
  "nextSignature D vsg previous supplied data =
     (case vsg of
        None \<Rightarrow> Inr previous
      | Some c \<Rightarrow> and_then (verifyChunkSignature D c previous supplied data) (\<lambda>_. Inr (decodeSignature supplied)))"

text \<open>The end of a body without trailers: nothing, or a last CRLF, and then the end of the stream.\<close>

definition finalTerminator :: "wire \<Rightarrow> streaming_err + wire" where
  "finalTerminator r =
     (case fst r of
        [] \<Rightarrow> if snd r = EOF then Inr r else Inl ErrStreamingTrailingData
      | trailing # behind \<Rightarrow>
          if trailing \<noteq> 13 then Inl ErrStreamingTrailingData
          else (case behind of
              [] \<Rightarrow> Inl ErrStreamingTrailingData
            | lineEnd # extra \<Rightarrow>
                if lineEnd \<noteq> 10 \<or> extra \<noteq> [] \<or> snd r \<noteq> EOF then Inl ErrStreamingTrailingData else Inr ([], snd r)))"

definition awsFinal ::
  "digests \<Rightarrow> v4_signing option \<Rightarrow> bool \<Rightarrow> int \<Rightarrow> int \<Rightarrow> bytes \<Rightarrow> string \<Rightarrow> wire \<Rightarrow> streaming_err + aws_step" where
  "awsFinal D vsg trailers decodedLength decoded previous supplied r =
     and_then (nextSignature D vsg previous supplied []) (\<lambda>previous.
       if decodedLength \<ge> 0 \<and> decoded \<noteq> decodedLength
       then Inl (if decoded < decodedLength then ErrIncompleteBody else ErrStreamingLength)
       else if trailers then Inr (AwsDone previous r)
       else and_then (finalTerminator r) (\<lambda>r. Inr (AwsDone previous r)))"

definition expectCRLF :: "wire \<Rightarrow> streaming_err + wire" where
  "expectCRLF r =
     (case fst r of
        a # b # rest \<Rightarrow> if a \<noteq> 13 \<or> b \<noteq> 10 then Inl ErrStreamingFraming else Inr (rest, snd r)
      | _ \<Rightarrow> Inl ErrStreamingFraming)"

definition copyChunk :: "nat \<Rightarrow> wire \<Rightarrow> streaming_err + bytes \<times> wire" where
  "copyChunk chunkSize r =
     (if chunkSize \<le> length (fst r) then Inr (take chunkSize (fst r), (drop chunkSize (fst r), snd r))
      else Inl (if snd r = CtxDone then ErrStreamingCanceled else ErrIncompleteBody))"

definition awsData ::
  "digests \<Rightarrow> v4_signing option \<Rightarrow> int \<Rightarrow> int \<Rightarrow> bytes \<Rightarrow> nat \<Rightarrow> string \<Rightarrow> wire \<Rightarrow> streaming_err + aws_step" where
  "awsData D vsg decodedLength decoded previous chunkSize supplied r =
     (if chunkSize > maxAWSChunkBytes then Inl ErrStreamingLength
      else if decodedLength \<ge> 0 \<and> (decodedLength - decoded < 0 \<or> int chunkSize > decodedLength - decoded) then Inl ErrStreamingLength
      else and_then (copyChunk chunkSize r) (\<lambda>(data, r). and_then (expectCRLF r) (\<lambda>r.
        and_then (nextSignature D vsg previous supplied data) (\<lambda>previous. Inr (AwsData data previous r)))))"

definition awsChunk ::
  "digests \<Rightarrow> v4_signing option \<Rightarrow> bool \<Rightarrow> bool \<Rightarrow> int \<Rightarrow> int \<Rightarrow> bytes \<Rightarrow> wire \<Rightarrow> streaming_err + aws_step" where
  "awsChunk D vsg noctx trailers decodedLength decoded previous r =
     (case readAWSLine maxAWSChunkHeaderBytes r of
        Inl e \<Rightarrow> Inl (if e = EOF then ErrIncompleteBody else ErrStreamingFraming)
      | Inr (line, r) \<Rightarrow>
          and_then (awsHeader (vsg \<noteq> None) noctx line) (\<lambda>(chunkSize, supplied).
            if chunkSize = 0 then awsFinal D vsg trailers decodedLength decoded previous supplied r
            else awsData D vsg decodedLength decoded previous chunkSize supplied r))"

lemma readAWSLine_Inr:
  assumes "readAWSLine limit r = Inr (line, r')"
  obtains pre where "fst r = pre @ 10 # fst r'" "10 \<notin> set pre" "line = string_of (pre @ [10])" "snd r' = snd r" "length pre < limit"
proof -
  obtain x where d: "dropWhile (\<lambda>b. b \<noteq> 10) (fst r) = x # fst r'" and l: "line = string_of (takeWhile (\<lambda>b. b \<noteq> 10) (fst r) @ [10])"
      and "snd r' = snd r" "length (takeWhile (\<lambda>b. b \<noteq> 10) (fst r)) < limit"
    using assms by (auto simp: readAWSLine_def Let_def split: list.splits if_splits)
  moreover have "x = 10" using hd_dropWhile [of "\<lambda>b. b \<noteq> 10" "fst r"] d by auto
  moreover have "fst r = takeWhile (\<lambda>b. b \<noteq> 10) (fst r) @ dropWhile (\<lambda>b. b \<noteq> 10) (fst r)" by simp
  ultimately show thesis using that [of "takeWhile (\<lambda>b. b \<noteq> 10) (fst r)"] set_takeWhileD by fastforce
qed

lemma readAWSLine_line:
  "10 \<notin> set pre \<Longrightarrow> length pre < limit \<Longrightarrow> readAWSLine limit (pre @ 10 # rest, fin) = Inr (string_of (pre @ [10]), (rest, fin))"
  by (simp add: readAWSLine_def takeWhile_append dropWhile_append takeWhile_tail)

lemma copyChunk_Inr: "copyChunk n r = Inr (d, r') \<longleftrightarrow> fst r = d @ fst r' \<and> length d = n \<and> snd r' = snd r"
  by (cases r; cases r') (auto simp: copyChunk_def)

lemma expectCRLF_Inr: "expectCRLF r = Inr r' \<longleftrightarrow> fst r = 13 # 10 # fst r' \<and> snd r' = snd r"
  by (cases r; cases r') (auto simp: expectCRLF_def split: list.splits)

lemma finalTerminator_Inr: "finalTerminator r = Inr r' \<longleftrightarrow> fst r \<in> {[], [13, 10]} \<and> snd r = EOF \<and> r' = ([], EOF)"
  by (cases r) (auto simp: finalTerminator_def split: list.splits)

lemma awsData_Inr:
  "awsData D vsg decodedLength decoded previous n supplied r = Inr x \<longleftrightarrow>
     (\<exists>d p r'. x = AwsData d p r' \<and> fst r = d @ 13 # 10 # fst r' \<and> snd r' = snd r \<and> length d = n \<and> n \<le> maxAWSChunkBytes \<and>
        (0 \<le> decodedLength \<longrightarrow> decoded \<le> decodedLength \<and> int n \<le> decodedLength - decoded) \<and>
        nextSignature D vsg previous supplied d = Inr p)"
proof -
  have "(\<exists>d r1. copyChunk n r = Inr (d, r1) \<and> expectCRLF r1 = Inr r') \<longleftrightarrow>
      (\<exists>d. fst r = d @ 13 # 10 # fst r' \<and> snd r' = snd r \<and> length d = n)" for r'
    unfolding copyChunk_Inr expectCRLF_Inr by (metis fst_conv snd_conv)
  then show ?thesis
    unfolding awsData_def by (auto simp: and_then_eq_Inr copyChunk_Inr expectCRLF_Inr split: if_splits)
qed

lemma awsFinal_Inr:
  "awsFinal D vsg trailers decodedLength decoded previous supplied r = Inr x \<longleftrightarrow>
     (\<exists>p r'. x = AwsDone p r' \<and> nextSignature D vsg previous supplied [] = Inr p \<and> (0 \<le> decodedLength \<longrightarrow> decoded = decodedLength) \<and>
        (if trailers then r' = r else finalTerminator r = Inr r'))"
  by (cases r) (auto simp: awsFinal_def and_then_eq_Inr split: if_splits)

lemma awsChunk_Inr:
  "awsChunk D vsg noctx trailers decodedLength decoded previous r = Inr x \<longleftrightarrow>
     (\<exists>line r1 n supplied. readAWSLine maxAWSChunkHeaderBytes r = Inr (line, r1) \<and> awsHeader (vsg \<noteq> None) noctx line = Inr (n, supplied) \<and>
        (if n = 0 then awsFinal D vsg trailers decodedLength decoded previous supplied r1
         else awsData D vsg decodedLength decoded previous n supplied r1) = Inr x)"
  by (auto simp: awsChunk_def and_then_eq_Inr split: sum.splits)

lemma awsChunk_shorter:
  assumes "awsChunk D vsg noctx trailers decodedLength decoded previous r = Inr (AwsData d p r')"
  shows "length (fst r') < length (fst r)"
proof -
  obtain line r1 n supplied where l: "readAWSLine maxAWSChunkHeaderBytes r = Inr (line, r1)"
      "(if n = 0 then awsFinal D vsg trailers decodedLength decoded previous supplied r1
        else awsData D vsg decodedLength decoded previous n supplied r1) = Inr (AwsData d p r')"
    using assms unfolding awsChunk_Inr by blast
  then have "length (fst r1) < length (fst r)" by (elim readAWSLine_Inr) simp
  moreover have "length (fst r') \<le> length (fst r1)" using l(2) by (auto simp: awsFinal_Inr awsData_Inr split: if_splits)
  ultimately show ?thesis by simp
qed

function awsLoop ::
  "digests \<Rightarrow> v4_signing option \<Rightarrow> bool \<Rightarrow> bool \<Rightarrow> int \<Rightarrow> int \<Rightarrow> bytes \<Rightarrow> bytes \<Rightarrow> wire \<Rightarrow> (streaming_err + int \<times> bytes \<times> wire) \<times> bytes" where
  "awsLoop D vsg noctx trailers decodedLength decoded previous out r =
     (case awsChunk D vsg noctx trailers decodedLength decoded previous r of
        Inl e \<Rightarrow> (Inl e, out)
      | Inr (AwsDone p r') \<Rightarrow> (Inr (decoded, p, r'), out)
      | Inr (AwsData d p r') \<Rightarrow> awsLoop D vsg noctx trailers decodedLength (wrap64 (decoded + int (length d))) p (out @ d) r')"
  by pat_completeness auto
termination
  by (relation "measure (\<lambda>(D, vsg, noctx, trailers, dl, decoded, p, out, r). length (fst r))") (auto dest: awsChunk_shorter)

declare awsLoop.simps [simp del]

text \<open>
  The result is the decoded and the last signature of the chain, with the rest of the input;
  the second component is what was written to \<^verbatim>\<open>dst\<close>.
\<close>

definition verifyAWSChunked ::
  "digests \<Rightarrow> v4_signing option \<Rightarrow> int \<Rightarrow> bool \<Rightarrow> wire \<Rightarrow> (streaming_err + int \<times> bytes \<times> wire) \<times> bytes" where
  "verifyAWSChunked D signing decodedLength trailers r =
     (case signing of
        None \<Rightarrow> awsLoop D None True trailers decodedLength 0 (replicate 32 0) [] r
      | Some c \<Rightarrow>
          if sg_mode c = streamingUnsignedPayloadTrailer
          then awsLoop D None False trailers decodedLength 0 (replicate 32 0) [] r
          else if sg_closed c \<or> sg_key c = [] then (Inl ErrSignatureMismatch, [])
          else awsLoop D (Some c) False trailers decodedLength 0 (sg_seed c) [] r)"

section \<open>The format\<close>

text \<open>
  A chunk is an optional signature text and its data. Sizes are in canonical hexadecimal, a
  signature is required when chunks are verified, allowed when there is no signing context,
  and forbidden otherwise.
\<close>

type_synonym aws_chunk = "string option \<times> bytes"

definition header_text :: "string option \<Rightarrow> nat \<Rightarrow> string" where
  "header_text ext n = hex_nat n @ (case ext of None \<Rightarrow> [] | Some s \<Rightarrow> chunkMarker @ s)"

definition header_ok :: "bool \<Rightarrow> bool \<Rightarrow> string option \<Rightarrow> bool" where
  "header_ok verify noctx ext \<longleftrightarrow> (case ext of None \<Rightarrow> \<not> verify | Some s \<Rightarrow> (verify \<or> noctx) \<and> validLowerHex s 64)"

definition supplied_sig :: "bool \<Rightarrow> string option \<Rightarrow> string" where
  "supplied_sig verify ext = (if verify then (case ext of None \<Rightarrow> [] | Some s \<Rightarrow> s) else [])"

lemma lower_hex_chars: "list_all is_lower_hex s \<Longrightarrow> CHR '';'' \<notin> set s \<and> char_of (10 :: nat) \<notin> set s"
  by (auto simp: list_all_iff is_lower_hex_def)

lemma splitExtension_Inr:
  assumes "list_all is_lower_hex t" "t \<noteq> []"
  shows "splitExtension verify noctx l = Inr (t, sg) \<longleftrightarrow>
    (\<exists>ext. header_ok verify noctx ext \<and> l = t @ (case ext of None \<Rightarrow> [] | Some s \<Rightarrow> chunkMarker @ s) \<and> sg = supplied_sig verify ext)"
proof
  assume split: "splitExtension verify noctx l = Inr (t, sg)"
  show "\<exists>ext. header_ok verify noctx ext \<and> l = t @ (case ext of None \<Rightarrow> [] | Some s \<Rightarrow> chunkMarker @ s) \<and> sg = supplied_sig verify ext"
  proof (cases "indexByteString l chunkMarker")
    case None
    then have "\<not> verify" "l = t" "sg = []" using split by (auto simp: splitExtension_def Let_def split: if_splits)
    then show ?thesis by (intro exI [of _ None]) (simp add: header_ok_def supplied_sig_def)
  next
    case (Some k)
    note l = indexByteString_Some [OF Some]
    show ?thesis
    proof (cases "verify \<or> noctx \<and> k \<noteq> 0")
      case True
      then have "validLowerHex (drop (k + length chunkMarker) l) 64" "t = take k l"
          "sg = (if verify then drop (k + length chunkMarker) l else [])"
        using split Some by (auto simp: splitExtension_def Let_def split: if_splits)
      then show ?thesis using l True by (intro exI [of _ "Some (drop (k + length chunkMarker) l)"])
          (auto simp: header_ok_def supplied_sig_def)
    next
      case False
      have "CHR '';'' \<in> set chunkMarker" by (simp add: chunkMarker_def)
      then have "CHR '';'' \<in> set l" using l by (metis Un_iff set_append)
      then have "indexByteString l '';'' \<noteq> None" by (simp add: indexByteString_char)
      then have False using split False Some by (auto simp: splitExtension_def Let_def split: if_splits)
      then show ?thesis ..
    qed
  qed
next
  assume "\<exists>ext. header_ok verify noctx ext \<and> l = t @ (case ext of None \<Rightarrow> [] | Some s \<Rightarrow> chunkMarker @ s) \<and> sg = supplied_sig verify ext"
  then obtain ext where e: "header_ok verify noctx ext" "l = t @ (case ext of None \<Rightarrow> [] | Some s \<Rightarrow> chunkMarker @ s)" "sg = supplied_sig verify ext"
    by blast
  have t: "CHR '';'' \<notin> set t" using lower_hex_chars [OF assms(1)] by simp
  show "splitExtension verify noctx l = Inr (t, sg)"
  proof (cases ext)
    case None
    then have "l = t" "\<not> verify" "sg = []" using e by (simp_all add: header_ok_def supplied_sig_def)
    moreover have "indexByteString t chunkMarker = None" using t indexByteString_absent by (simp add: chunkMarker_def)
    moreover have "indexByteString t '';'' = None" using t by (simp add: indexByteString_char)
    ultimately show ?thesis by (simp add: splitExtension_def Let_def)
  next
    case (Some s)
    then have l: "l = t @ chunkMarker @ s" "verify \<or> noctx" "validLowerHex s 64" "sg = (if verify then s else [])"
      using e by (auto simp: header_ok_def supplied_sig_def)
    have "indexByteString l chunkMarker = Some (length t)"
      using indexByteString_first [OF t, of "tl chunkMarker" s] by (simp add: l(1) chunkMarker_def)
    moreover have "indexByteString s '';'' = None"
      using lower_hex_chars [of s] l(3) by (simp add: indexByteString_char validLowerHex_def)
    moreover have "length t \<noteq> 0" using assms(2) by simp
    ultimately show ?thesis using l by (auto simp: splitExtension_def Let_def)
  qed
qed

lemma awsHeader_Inr:
  "awsHeader verify noctx line = Inr (n, sg) \<longleftrightarrow>
     (\<exists>ext. header_ok verify noctx ext \<and> line = header_text ext n @ CRLF \<and> n < 2 ^ 64 \<and> sg = supplied_sig verify ext)"
proof -
  have size: "\<not> (length t = 0 \<or> length t > 16) \<and> \<not> (length t > 1 \<and> hd t = CHR ''0'') \<and> validLowerHex t (length t) \<and> n = hex_val t \<longleftrightarrow>
      t = hex_nat n \<and> n < 2 ^ 64" for t
  proof
    assume a: "\<not> (length t = 0 \<or> length t > 16) \<and> \<not> (length t > 1 \<and> hd t = CHR ''0'') \<and> validLowerHex t (length t) \<and> n = hex_val t"
    then have "canonical_hex t" by (auto simp: canonical_hex_def validLowerHex_def)
    then show "t = hex_nat n \<and> n < 2 ^ 64" using a canonical_hex_nat canonical_hex_length by fastforce
  next
    assume a: "t = hex_nat n \<and> n < 2 ^ 64"
    then have "canonical_hex t" "hex_val t = n" using hex_nat_canonical by auto
    then show "\<not> (length t = 0 \<or> length t > 16) \<and> \<not> (length t > 1 \<and> hd t = CHR ''0'') \<and> validLowerHex t (length t) \<and> n = hex_val t"
      using a canonical_hex_length [of t] by (auto simp: canonical_hex_def validLowerHex_def)
  qed
  have hex: "list_all is_lower_hex (hex_nat n)" "hex_nat n \<noteq> []" using hex_nat_canonical [of n] by (auto simp: canonical_hex_def)
  define F where "F = (\<lambda>(t, u). if length t = 0 \<or> length t > 16 then Inl ErrStreamingFraming
      else if length t > 1 \<and> hd t = CHR ''0'' then Inl ErrStreamingFraming
      else if \<not> validLowerHex t (length t) then Inl ErrStreamingFraming else Inr (hex_val t, u :: string))"
  have F: "F (t, u) = Inr (n, sg) \<longleftrightarrow> t = hex_nat n \<and> n < 2 ^ 64 \<and> u = sg" for t u
    using size [of t] by (auto simp: F_def)
  show ?thesis
  proof (cases "length line < 3 \<or> drop (length line - 2) line \<noteq> CRLF")
    case True
    moreover have "line \<noteq> header_text ext n @ CRLF" for ext
    proof
      assume "line = header_text ext n @ CRLF"
      then have "drop (length line - 2) line = CRLF" "2 < length line" using hex(2) by (auto simp: CRLF_def header_text_def)
      then show False using True by simp
    qed
    ultimately show ?thesis by (simp add: awsHeader_def)
  next
    case False
    define l where "l = take (length line - 2) line"
    have line: "line = l @ CRLF" using False append_take_drop_id [of "length line - 2" line] by (simp add: l_def)
    have "awsHeader verify noctx line = and_then (splitExtension verify noctx l) F"
      using False unfolding awsHeader_def F_def l_def by simp
    then have "awsHeader verify noctx line = Inr (n, sg) \<longleftrightarrow> splitExtension verify noctx l = Inr (hex_nat n, sg) \<and> n < 2 ^ 64"
      by (auto simp: and_then_eq_Inr F)
    then show ?thesis unfolding splitExtension_Inr [OF hex] header_text_def line by auto
  qed
qed

definition header_bytes :: "string option \<Rightarrow> nat \<Rightarrow> bytes" where
  "header_bytes ext n = bytes_of (header_text ext n @ CRLF)"

definition chunk_bytes :: "aws_chunk \<Rightarrow> bytes" where
  "chunk_bytes c = header_bytes (fst c) (length (snd c)) @ snd c @ [13, 10]"

definition chunk_ok :: "bool \<Rightarrow> bool \<Rightarrow> aws_chunk \<Rightarrow> bool" where
  "chunk_ok verify noctx c \<longleftrightarrow> header_ok verify noctx (fst c) \<and> 0 < length (snd c) \<and> length (snd c) \<le> maxAWSChunkBytes"

text \<open>The chain of signatures over the chunks, from the seed signature on.\<close>

fun chainSignatures :: "digests \<Rightarrow> v4_signing option \<Rightarrow> bytes \<Rightarrow> aws_chunk list \<Rightarrow> streaming_err + bytes" where
  "chainSignatures D vsg previous [] = Inr previous"
| "chainSignatures D vsg previous (c # cs) =
     and_then (nextSignature D vsg previous (supplied_sig (vsg \<noteq> None) (fst c)) (snd c)) (\<lambda>p. chainSignatures D vsg p cs)"

definition aws_data :: "aws_chunk list \<Rightarrow> bytes" where
  "aws_data cs = concat (map snd cs)"

lemma aws_data_simps [simp]: "aws_data [] = []" "aws_data (c # cs) = snd c @ aws_data cs"
  by (simp_all add: aws_data_def)

lemma header_text_line:
  assumes "header_ok verify noctx ext" "n < 2 ^ 64"
  shows "char_of (10 :: nat) \<notin> set (header_text ext n)" "length (header_text ext n) < 100"
proof -
  have c: "canonical_hex (hex_nat n)" "hex_val (hex_nat n) = n" using hex_nat_canonical by auto
  then have hex: "list_all is_lower_hex (hex_nat n)" "length (hex_nat n) \<le> 16"
    using canonical_hex_length [of "hex_nat n"] assms(2) by (auto simp: canonical_hex_def)
  have "list_all is_lower_hex s \<and> length s = 64" if "ext = Some s" for s
    using assms(1) that by (simp add: header_ok_def validLowerHex_def)
  moreover have "char_of (10 :: nat) \<notin> set chunkMarker" "length chunkMarker = 17" by code_simp+
  ultimately show "char_of (10 :: nat) \<notin> set (header_text ext n)" "length (header_text ext n) < 100"
    using lower_hex_chars [OF hex(1)] lower_hex_chars hex(2) by (auto simp: header_text_def split: option.splits)
qed

lemma bytes_of_append [simp]: "bytes_of (s @ t) = bytes_of s @ bytes_of t"
  by (simp add: bytes_of_def)

lemma of_char_char_of: "n < 256 \<Longrightarrow> (of_char (char_of (n :: nat) :: char) :: byte) = of_nat n"
  by (subst of_nat_of_char [symmetric]) simp

lemma bytes_of_CRLF [simp]: "bytes_of CRLF = [13, 10]"
  by (simp add: bytes_of_def CRLF_def of_char_char_of)

lemma byte_in_bytes_of: "(10 :: byte) \<in> set (bytes_of s) \<longleftrightarrow> char_of (10 :: nat) \<in> set s"
proof -
  have "(10 :: byte) = of_char (char_of (10 :: nat))" by (simp add: of_char_char_of)
  then show ?thesis by (auto simp: bytes_of_def of_char_byte_inject)
qed

text \<open>Reading a header line is the inverse of writing it.\<close>

lemma read_header:
  "(\<exists>line. readAWSLine maxAWSChunkHeaderBytes r = Inr (line, r') \<and> awsHeader verify noctx line = Inr (n, sg)) \<longleftrightarrow>
     (\<exists>ext. header_ok verify noctx ext \<and> n < 2 ^ 64 \<and> sg = supplied_sig verify ext \<and> r = (header_bytes ext n @ fst r', snd r'))"
  (is "?L \<longleftrightarrow> ?R")
proof
  assume ?L
  then obtain line ext where l: "readAWSLine maxAWSChunkHeaderBytes r = Inr (line, r')" "header_ok verify noctx ext"
      "line = header_text ext n @ CRLF" "n < 2 ^ 64" "sg = supplied_sig verify ext"
    unfolding awsHeader_Inr by blast
  obtain pre where pre: "fst r = pre @ 10 # fst r'" "line = string_of (pre @ [10])" "snd r' = snd r"
    using l(1) by (rule readAWSLine_Inr)
  have "header_bytes ext n = pre @ [10]" unfolding header_bytes_def using arg_cong [OF pre(2), of bytes_of] l(3) by simp
  then have "r = (header_bytes ext n @ fst r', snd r')" using pre(1,3) by (cases r) simp
  then show ?R using l by blast
next
  assume ?R
  then obtain ext where e: "header_ok verify noctx ext" "n < 2 ^ 64" "sg = supplied_sig verify ext" "r = (header_bytes ext n @ fst r', snd r')"
    by blast
  define pre where "pre = bytes_of (header_text ext n) @ [13]"
  have pre: "header_bytes ext n = pre @ [10]" by (simp add: header_bytes_def pre_def)
  have "10 \<notin> set pre" "length pre < maxAWSChunkHeaderBytes"
    using header_text_line [OF e(1,2)] by (simp_all add: pre_def byte_in_bytes_of maxAWSChunkHeaderBytes_def)
  then have "readAWSLine maxAWSChunkHeaderBytes r = Inr (string_of (pre @ [10]), r')"
    using readAWSLine_line [of pre maxAWSChunkHeaderBytes "fst r'" "snd r'"] e(4) pre by (cases r') simp
  moreover have "string_of (pre @ [10]) = header_text ext n @ CRLF"
    unfolding pre [symmetric] header_bytes_def by (rule string_of_bytes_of)
  ultimately show ?L using awsHeader_Inr e by blast
qed

lemma awsChunk_iff:
  "awsChunk D vsg noctx trailers decodedLength decoded previous r = Inr x \<longleftrightarrow>
     (\<exists>ext n r1. header_ok (vsg \<noteq> None) noctx ext \<and> n < 2 ^ 64 \<and> r = (header_bytes ext n @ fst r1, snd r1) \<and>
        (if n = 0 then awsFinal D vsg trailers decodedLength decoded previous (supplied_sig (vsg \<noteq> None) ext) r1
         else awsData D vsg decodedLength decoded previous n (supplied_sig (vsg \<noteq> None) ext) r1) = Inr x)"
proof -
  have "awsChunk D vsg noctx trailers decodedLength decoded previous r = Inr x \<longleftrightarrow>
      (\<exists>r1 n sg. (\<exists>line. readAWSLine maxAWSChunkHeaderBytes r = Inr (line, r1) \<and> awsHeader (vsg \<noteq> None) noctx line = Inr (n, sg)) \<and>
        (if n = 0 then awsFinal D vsg trailers decodedLength decoded previous sg r1
         else awsData D vsg decodedLength decoded previous n sg r1) = Inr x)"
    unfolding awsChunk_Inr by blast
  then show ?thesis unfolding read_header by blast
qed

lemma awsChunk_Data:
  "awsChunk D vsg noctx trailers decodedLength decoded previous r = Inr (AwsData d p r') \<longleftrightarrow>
     (\<exists>ext. chunk_ok (vsg \<noteq> None) noctx (ext, d) \<and> r = (chunk_bytes (ext, d) @ fst r', snd r') \<and>
        (0 \<le> decodedLength \<longrightarrow> decoded \<le> decodedLength \<and> int (length d) \<le> decodedLength - decoded) \<and>
        nextSignature D vsg previous (supplied_sig (vsg \<noteq> None) ext) d = Inr p)" (is "?L \<longleftrightarrow> ?R")
proof
  assume ?L
  then obtain ext r1 where "header_ok (vsg \<noteq> None) noctx ext" "r = (header_bytes ext (length d) @ fst r1, snd r1)" "0 < length d"
      "fst r1 = d @ 13 # 10 # fst r'" "snd r' = snd r1" "length d \<le> maxAWSChunkBytes"
      "0 \<le> decodedLength \<longrightarrow> decoded \<le> decodedLength \<and> int (length d) \<le> decodedLength - decoded"
      "nextSignature D vsg previous (supplied_sig (vsg \<noteq> None) ext) d = Inr p"
    unfolding awsChunk_iff by (auto simp: awsFinal_Inr awsData_Inr split: if_splits)
  then show ?R by (intro exI [of _ ext]) (simp add: chunk_ok_def chunk_bytes_def)
next
  assume ?R
  then obtain ext where e: "chunk_ok (vsg \<noteq> None) noctx (ext, d)" "r = (chunk_bytes (ext, d) @ fst r', snd r')"
      "0 \<le> decodedLength \<longrightarrow> decoded \<le> decodedLength \<and> int (length d) \<le> decodedLength - decoded"
      "nextSignature D vsg previous (supplied_sig (vsg \<noteq> None) ext) d = Inr p" by blast
  have "awsData D vsg decodedLength decoded previous (length d) (supplied_sig (vsg \<noteq> None) ext) (d @ 13 # 10 # fst r', snd r') = Inr (AwsData d p r')"
    using e by (auto simp: awsData_Inr chunk_ok_def)
  moreover have "length d < 2 ^ 64" using e(1) by (simp add: chunk_ok_def maxAWSChunkBytes_def)
  ultimately show ?L unfolding awsChunk_iff using e(1,2)
    by (intro exI [of _ ext] exI [of _ "length d"] exI [of _ "(d @ 13 # 10 # fst r', snd r')"]) (simp add: chunk_ok_def chunk_bytes_def)
qed

definition aws_end :: "bool \<Rightarrow> wire \<Rightarrow> wire \<Rightarrow> bool" where
  "aws_end trailers r r' \<longleftrightarrow> (if trailers then r' = r else fst r \<in> {[], [13, 10]} \<and> snd r = EOF \<and> r' = ([], EOF))"

lemma awsChunk_Done:
  "awsChunk D vsg noctx trailers decodedLength decoded previous r = Inr (AwsDone p r') \<longleftrightarrow>
     (\<exists>ext r1. header_ok (vsg \<noteq> None) noctx ext \<and> r = (header_bytes ext 0 @ fst r1, snd r1) \<and> aws_end trailers r1 r' \<and>
        (0 \<le> decodedLength \<longrightarrow> decoded = decodedLength) \<and>
        nextSignature D vsg previous (supplied_sig (vsg \<noteq> None) ext) [] = Inr p)"
proof -
  have "(if trailers then r' = r1 else finalTerminator r1 = Inr r') \<longleftrightarrow> aws_end trailers r1 r'" for r1
    by (auto simp: aws_end_def finalTerminator_Inr)
  then show ?thesis unfolding awsChunk_iff awsFinal_Inr
    by (auto simp: awsFinal_Inr awsData_Inr split: if_splits)
qed

text \<open>A body: chunks, the final chunk, and what follows it.\<close>

definition aws_body :: "bool \<Rightarrow> bool \<Rightarrow> aws_chunk list \<Rightarrow> string option \<Rightarrow> bool" where
  "aws_body verify noctx cs ext \<longleftrightarrow> list_all (chunk_ok verify noctx) cs \<and> header_ok verify noctx ext"

lemma awsLoop_sound:
  "awsLoop D vsg noctx trailers decodedLength decoded previous out r = (Inr (n, p, r'), res) \<Longrightarrow> 0 \<le> decoded \<Longrightarrow>
     decoded + int (length (fst r)) \<le> maxInt64 \<Longrightarrow>
     \<exists>cs ext r1. aws_body (vsg \<noteq> None) noctx cs ext \<and> r = (concat (map chunk_bytes cs) @ header_bytes ext 0 @ fst r1, snd r1) \<and>
       aws_end trailers r1 r' \<and> chainSignatures D vsg previous (cs @ [(ext, [])]) = Inr p \<and> res = out @ aws_data cs \<and>
       n = decoded + int (length (aws_data cs)) \<and> (0 \<le> decodedLength \<longrightarrow> n = decodedLength)"
proof (induction D vsg noctx trailers decodedLength decoded previous out r rule: awsLoop.induct)
  case (1 D vsg noctx trailers decodedLength decoded previous out r)
  consider p1 r1 where "awsChunk D vsg noctx trailers decodedLength decoded previous r = Inr (AwsDone p1 r1)"
    | d p1 r1 where "awsChunk D vsg noctx trailers decodedLength decoded previous r = Inr (AwsData d p1 r1)"
    using 1(2) by (subst (asm) awsLoop.simps) (auto split: sum.splits aws_step.splits)
  then show ?case
  proof cases
    case (1 p1 r1)
    then have "n = decoded" "p1 = p" "r1 = r'" "res = out" using "1.prems" by (simp_all add: awsLoop.simps [of D])
    then show ?thesis using 1 unfolding awsChunk_Done
      by (intro exI [of _ "[]"]) (auto simp: aws_body_def)
  next
    case (2 d p1 r1)
    then obtain ext where e: "chunk_ok (vsg \<noteq> None) noctx (ext, d)" "r = (chunk_bytes (ext, d) @ fst r1, snd r1)"
        "nextSignature D vsg previous (supplied_sig (vsg \<noteq> None) ext) d = Inr p1"
      unfolding awsChunk_Data by blast
    have w: "wrap64 (decoded + int (length d)) = decoded + int (length d)"
      using "1.prems"(2,3) e(2) by (simp add: wrap64_id in_int64_def int_limits chunk_bytes_def)
    have "awsLoop D vsg noctx trailers decodedLength (decoded + int (length d)) p1 (out @ d) r1 = (Inr (n, p, r'), res)"
      using "1.prems"(1) 2 w by (simp add: awsLoop.simps [of D vsg noctx trailers decodedLength decoded])
    moreover have "decoded + int (length d) + int (length (fst r1)) \<le> maxInt64" using "1.prems"(3) e(2) by (simp add: chunk_bytes_def)
    moreover have "0 \<le> decoded + int (length d)" using "1.prems"(2) by simp
    ultimately obtain cs ext0 r2 where IH: "aws_body (vsg \<noteq> None) noctx cs ext0" "r1 = (concat (map chunk_bytes cs) @ header_bytes ext0 0 @ fst r2, snd r2)"
        "aws_end trailers r2 r'" "chainSignatures D vsg p1 (cs @ [(ext0, [])]) = Inr p" "res = (out @ d) @ aws_data cs"
        "n = decoded + int (length d) + int (length (aws_data cs))" "0 \<le> decodedLength \<longrightarrow> n = decodedLength"
      using "1.IH" [OF 2 refl, unfolded w] by blast
    then show ?thesis using e by (intro exI [of _ "(ext, d) # cs"] exI [of _ ext0] exI [of _ r2]) (auto simp: aws_body_def)
  qed
qed

lemma awsLoop_complete:
  "aws_body (vsg \<noteq> None) noctx cs ext \<Longrightarrow> aws_end trailers r1 r' \<Longrightarrow> chainSignatures D vsg previous (cs @ [(ext, [])]) = Inr p \<Longrightarrow>
     0 \<le> decoded \<Longrightarrow> decoded + int (length (aws_data cs)) \<le> maxInt64 \<Longrightarrow>
     (0 \<le> decodedLength \<longrightarrow> decoded + int (length (aws_data cs)) = decodedLength) \<Longrightarrow>
     awsLoop D vsg noctx trailers decodedLength decoded previous out (concat (map chunk_bytes cs) @ header_bytes ext 0 @ fst r1, snd r1) =
       (Inr (decoded + int (length (aws_data cs)), p, r'), out @ aws_data cs)"
proof (induction cs arbitrary: decoded previous out)
  case Nil
  then have "awsChunk D vsg noctx trailers decodedLength decoded previous (header_bytes ext 0 @ fst r1, snd r1) = Inr (AwsDone p r')"
    by (auto simp: awsChunk_Done aws_body_def and_then_eq_Inr)
  then show ?case by (simp add: awsLoop.simps [of D])
next
  case (Cons c cs)
  let ?rest = "concat (map chunk_bytes cs) @ header_bytes ext 0 @ fst r1"
  obtain p1 where p1: "nextSignature D vsg previous (supplied_sig (vsg \<noteq> None) (fst c)) (snd c) = Inr p1"
      "chainSignatures D vsg p1 (cs @ [(ext, [])]) = Inr p"
    using Cons.prems(3) by (auto simp: and_then_eq_Inr)
  have "awsChunk D vsg noctx trailers decodedLength decoded previous (chunk_bytes c @ ?rest, snd r1) = Inr (AwsData (snd c) p1 (?rest, snd r1))"
    unfolding awsChunk_Data using Cons.prems(1,6) p1 by (intro exI [of _ "fst c"]) (auto simp: aws_body_def)
  moreover have "wrap64 (decoded + int (length (snd c))) = decoded + int (length (snd c))"
    using Cons.prems(4,5) by (simp add: wrap64_id in_int64_def int_limits)
  moreover have "awsLoop D vsg noctx trailers decodedLength (decoded + int (length (snd c))) p1 (out @ snd c) (?rest, snd r1) =
      (Inr (decoded + int (length (snd c)) + int (length (aws_data cs)), p, r'), (out @ snd c) @ aws_data cs)"
    using Cons.prems p1 by (intro Cons.IH) (auto simp: aws_body_def)
  ultimately show ?case by (simp add: awsLoop.simps [of D vsg noctx trailers decodedLength decoded])
qed

text \<open>Which chunks are verified, and what precedes the first one, by the signing context.\<close>

definition chunkVerifier :: "v4_signing option \<Rightarrow> v4_signing option" where
  "chunkVerifier signing = (case signing of None \<Rightarrow> None
     | Some c \<Rightarrow> if sg_mode c = streamingUnsignedPayloadTrailer then None else Some c)"

definition seedSignature :: "v4_signing option \<Rightarrow> bytes" where
  "seedSignature signing = (case chunkVerifier signing of None \<Rightarrow> replicate 32 0 | Some c \<Rightarrow> sg_seed c)"

lemma chain_open:
  "chainSignatures D (Some c) previous (cs @ [x]) = Inr p \<Longrightarrow> \<not> sg_closed c \<and> sg_key c \<noteq> []"
  by (cases cs) (auto simp: and_then_eq_Inr nextSignature_def verifyChunkSignature_def verifyChunkSignatureHash_def split: if_splits)

lemma verifyAWSChunked_loop:
  "verifyAWSChunked D signing decodedLength trailers r = (Inr x, res) \<longleftrightarrow>
     (\<forall>c. chunkVerifier signing = Some c \<longrightarrow> \<not> sg_closed c \<and> sg_key c \<noteq> []) \<and>
     awsLoop D (chunkVerifier signing) (signing = None) trailers decodedLength 0 (seedSignature signing) [] r = (Inr x, res)"
  by (auto simp: verifyAWSChunked_def chunkVerifier_def seedSignature_def split: option.splits if_splits)

text \<open>
  C17. The decoder of AWS-chunked bodies accepts exactly the well-formed bodies and has one
  reading of each: it succeeds on a stream if and only if the stream is a sequence of chunks
  of 1 byte to 64 MiB, each with its size in canonical hexadecimal and the signature that the
  mode requires or allows, whose signatures form the HMAC chain from the seed signature to
  the final empty chunk, whose data has the announced length, and which is followed by the
  end of the stream (after at most one line break) or by the trailers. The decoded bytes are
  then the concatenated data. No arithmetic of the decoder wraps around.
\<close>

theorem aws_chunked_accepts_exactly:
  assumes "length (fst r) < 2 ^ 63"
  shows "verifyAWSChunked D signing decodedLength trailers r = (Inr (n, p, r'), res) \<longleftrightarrow>
    (\<exists>cs ext r1. aws_body (chunkVerifier signing \<noteq> None) (signing = None) cs ext \<and>
       r = (concat (map chunk_bytes cs) @ header_bytes ext 0 @ fst r1, snd r1) \<and> aws_end trailers r1 r' \<and>
       chainSignatures D (chunkVerifier signing) (seedSignature signing) (cs @ [(ext, [])]) = Inr p \<and>
       res = aws_data cs \<and> n = int (length res) \<and> (0 \<le> decodedLength \<longrightarrow> n = decodedLength))" (is "?L \<longleftrightarrow> ?R")
proof
  assume ?L
  then have "awsLoop D (chunkVerifier signing) (signing = None) trailers decodedLength 0 (seedSignature signing) [] r = (Inr (n, p, r'), res)"
    unfolding verifyAWSChunked_loop by blast
  then show ?R using awsLoop_sound [of D "chunkVerifier signing" "signing = None" trailers decodedLength 0 "seedSignature signing" "[]" r n p r' res]
      assms by (auto simp: int_limits)
next
  assume ?R
  then obtain cs ext r1 where b: "aws_body (chunkVerifier signing \<noteq> None) (signing = None) cs ext"
      "r = (concat (map chunk_bytes cs) @ header_bytes ext 0 @ fst r1, snd r1)" "aws_end trailers r1 r'"
      "chainSignatures D (chunkVerifier signing) (seedSignature signing) (cs @ [(ext, [])]) = Inr p"
      "res = aws_data cs" "n = int (length res)" "0 \<le> decodedLength \<longrightarrow> n = decodedLength" by blast
  have "length (aws_data cs) \<le> length (concat (map chunk_bytes cs))"
    by (induction cs) (auto simp: chunk_bytes_def intro: trans_le_add2 add_mono)
  then have "int (length (aws_data cs)) \<le> maxInt64" using assms b(2) by (simp add: int_limits)
  then have "awsLoop D (chunkVerifier signing) (signing = None) trailers decodedLength 0 (seedSignature signing) [] r = (Inr (n, p, r'), res)"
    using awsLoop_complete [OF b(1,3,4), of 0 decodedLength "[]"] b by simp
  then show ?L unfolding verifyAWSChunked_loop using chain_open b(4) by fastforce
qed

lemma awsLoop_verified:
  "awsLoop D vsg noctx trailers decodedLength decoded previous out r = (x, res) \<Longrightarrow>
     \<exists>cs rest p. list_all (chunk_ok (vsg \<noteq> None) noctx) cs \<and> fst r = concat (map chunk_bytes cs) @ rest \<and>
       chainSignatures D vsg previous cs = Inr p \<and> res = out @ aws_data cs"
proof (induction D vsg noctx trailers decodedLength decoded previous out r rule: awsLoop.induct)
  case (1 D vsg noctx trailers decodedLength decoded previous out r)
  show ?case
  proof (cases "\<exists>d p1 r1. awsChunk D vsg noctx trailers decodedLength decoded previous r = Inr (AwsData d p1 r1)")
    case True
    then obtain d p1 r1 where c: "awsChunk D vsg noctx trailers decodedLength decoded previous r = Inr (AwsData d p1 r1)" by blast
    then obtain ext where e: "chunk_ok (vsg \<noteq> None) noctx (ext, d)" "r = (chunk_bytes (ext, d) @ fst r1, snd r1)"
        "nextSignature D vsg previous (supplied_sig (vsg \<noteq> None) ext) d = Inr p1"
      unfolding awsChunk_Data by blast
    have "awsLoop D vsg noctx trailers decodedLength (wrap64 (decoded + int (length d))) p1 (out @ d) r1 = (x, res)"
      using 1(2) c by (simp add: awsLoop.simps [of D vsg noctx trailers decodedLength decoded])
    then obtain cs rest p where "list_all (chunk_ok (vsg \<noteq> None) noctx) cs" "fst r1 = concat (map chunk_bytes cs) @ rest"
        "chainSignatures D vsg p1 cs = Inr p" "res = (out @ d) @ aws_data cs"
      using 1(1) [OF c refl] by blast
    then show ?thesis using e by (intro exI [of _ "(ext, d) # cs"]) auto
  next
    case False
    then have "res = out"
      using 1(2) by (subst (asm) awsLoop.simps) (auto split: sum.splits aws_step.splits)
    then show ?thesis by - (rule exI [of _ "[]"], auto)
  qed
qed

text \<open>
  C18. Only verified data reaches the spool. Whatever the outcome, success or any error, the
  bytes that were written are the data of chunks at the front of the stream that are well
  formed and whose signatures were all verified, in order, from the seed signature on: a chunk
  is written only after its own signature was accepted.
\<close>

theorem aws_spool_verified_only:
  assumes "verifyAWSChunked D signing decodedLength trailers r = (x, res)"
  shows "\<exists>cs rest p. list_all (chunk_ok (chunkVerifier signing \<noteq> None) (signing = None)) cs \<and>
    fst r = concat (map chunk_bytes cs) @ rest \<and>
    chainSignatures D (chunkVerifier signing) (seedSignature signing) cs = Inr p \<and> res = aws_data cs"
proof -
  consider "res = []" | "awsLoop D (chunkVerifier signing) (signing = None) trailers decodedLength 0 (seedSignature signing) [] r = (x, res)"
    using assms by (auto simp: verifyAWSChunked_def chunkVerifier_def seedSignature_def split: option.splits if_splits)
  then show ?thesis
  proof cases
    case 1
    then show ?thesis by - (rule exI [of _ "[]"], simp)
  next
    case 2
    from awsLoop_verified [OF this] show ?thesis by simp
  qed
qed

section \<open>Witnesses\<close>

text \<open>A signed body of one chunk with three bytes, under digests that are constant.\<close>

definition ex_digests :: digests where
  "ex_digests = \<lparr>dg_sha256 = \<lambda>_. replicate 32 0, dg_hmac = \<lambda>_ _. replicate 32 0, dg_sha1 = \<lambda>_. replicate 20 0,
     dg_crc32 = \<lambda>_. 0, dg_crc32c = \<lambda>_. 0, dg_crc64 = \<lambda>_. replicate 8 0\<rparr>"

definition ex_signing :: v4_signing where
  "ex_signing = \<lparr>sg_timestamp = ''20260101T000000Z'', sg_scope = ''scope'', sg_key = [1], sg_seed = replicate 32 0,
     sg_mode = streamingSignedPayload, sg_expectedPayloadHash = replicate 32 0, sg_verifyPayload = False,
     sg_closed = False\<rparr>"

definition ex_aws :: "bytes \<Rightarrow> aws_chunk" where
  "ex_aws d = (Some (replicate 64 (CHR ''0'')), d)"

lemma ex_signature [simp]:
  "validLowerHex (replicate 64 (CHR ''0'')) 64" "hex_decode (replicate 64 (CHR ''0'')) = Some (replicate 32 0)"
  by code_simp+

lemma ex_chain: "chainSignatures ex_digests (Some ex_signing) (replicate 32 0) [ex_aws [1, 2, 3], ex_aws []] = Inr (replicate 32 0)"
  by (simp add: nextSignature_def verifyChunkSignature_def verifyChunkSignatureHash_def supplied_sig_def ex_aws_def ex_digests_def
      ex_signing_def decodeSignature_def)

theorem aws_chunked_accepts_exactly_witness:
  "verifyAWSChunked ex_digests (Some ex_signing) 3 False (chunk_bytes (ex_aws [1, 2, 3]) @ header_bytes (fst (ex_aws [])) 0, EOF) =
     (Inr (3, replicate 32 0, ([], EOF)), [1, 2, 3])"
proof -
  let ?r = "(chunk_bytes (ex_aws [1, 2, 3]) @ header_bytes (fst (ex_aws [])) 0, EOF)"
  have c: "chunkVerifier (Some ex_signing) = Some ex_signing" "seedSignature (Some ex_signing) = replicate 32 0"
    by (simp_all add: chunkVerifier_def seedSignature_def ex_signing_def)
  have ok: "header_ok True False (fst (ex_aws d))" for d by (simp add: header_ok_def ex_aws_def)
  have "length (fst ?r) < 2 ^ 63"
    using header_text_line(2) [OF ok, of 3] header_text_line(2) [OF ok, of 0]
    by (simp add: chunk_bytes_def header_bytes_def ex_aws_def CRLF_def numeral_3_eq_3)
  moreover have "aws_body True False [ex_aws [1, 2, 3]] (fst (ex_aws []))"
    using ok by (simp add: aws_body_def chunk_ok_def ex_aws_def maxAWSChunkBytes_def)
  moreover have "aws_end False ([], EOF) ([], EOF)" by (simp add: aws_end_def)
  moreover have "aws_data [ex_aws [1, 2, 3]] = [1, 2, 3]" "(fst (ex_aws []), []) = ex_aws []" by (simp_all add: ex_aws_def)
  ultimately have "\<exists>cs ext r1. aws_body (chunkVerifier (Some ex_signing) \<noteq> None) (Some ex_signing = None) cs ext \<and>
      ?r = (concat (map chunk_bytes cs) @ header_bytes ext 0 @ fst r1, snd r1) \<and> aws_end False r1 ([], EOF) \<and>
      chainSignatures ex_digests (chunkVerifier (Some ex_signing)) (seedSignature (Some ex_signing)) (cs @ [(ext, [])]) = Inr (replicate 32 0) \<and>
      [1, 2, 3] = aws_data cs \<and> 3 = int (length [1, 2, 3 :: byte]) \<and> (0 \<le> (3 :: int) \<longrightarrow> 3 = (3 :: int))"
    unfolding c using ex_chain
    by (intro exI [of _ "[ex_aws [1, 2, 3]]"] exI [of _ "fst (ex_aws [])"] exI [of _ "([], EOF)"]) simp
  then show ?thesis using aws_chunked_accepts_exactly [OF \<open>length (fst ?r) < 2 ^ 63\<close>] by blast
qed

theorem aws_spool_verified_only_witness:
  "verifyAWSChunked ex_digests (Some ex_signing) 3 False ([], EOF) = (Inl ErrIncompleteBody, []) \<and>
   (\<exists>cs rest p. list_all (chunk_ok True False) cs \<and> [] = concat (map chunk_bytes cs) @ rest \<and>
      chainSignatures ex_digests (Some ex_signing) (replicate 32 0) cs = Inr p \<and> [] = aws_data cs)"
proof -
  have "awsChunk ex_digests (Some ex_signing) False False 3 0 (replicate 32 0) ([], EOF) = Inl ErrIncompleteBody"
    by (simp add: awsChunk_def readAWSLine_def)
  then have v: "verifyAWSChunked ex_digests (Some ex_signing) 3 False ([], EOF) = (Inl ErrIncompleteBody, [])"
    by (simp add: verifyAWSChunked_def ex_signing_def awsLoop.simps)
  then show ?thesis using aws_spool_verified_only [OF v] by (simp add: chunkVerifier_def seedSignature_def ex_signing_def)
qed

end
