(* ===== verification/Aws_Trailer.thy ===== *)
theory Aws_Trailer
  imports Aws_Chunked Go_Base64 "HOL-Library.List_Lexorder" "HOL-Library.Char_ord"
begin

text \<open>
  Trailers of AWS-chunked bodies, \<^verbatim>\<open>internal/api/aws_chunked_trailer.go\<close>, and the verification of a
  streamed request body around them, \<^verbatim>\<open>internal/api/verified_aws_body.go\<close> with the classification of
  payload modes of \<^verbatim>\<open>internal/api/auth.go\<close>. The maps of the code are association lists in the order
  of insertion. Failures of the temporary file that holds the body are not part of the model.
\<close>

section \<open>White space\<close>

text \<open>The UTF-8 encodings of the characters that \<^verbatim>\<open>strings.TrimSpace\<close> removes.\<close>

definition go_spaces :: "string list" where
  "go_spaces = map string_of ([[9], [10], [11], [12], [13], [32], [0xC2, 0x85], [0xC2, 0xA0], [0xE1, 0x9A, 0x80]] @
     map (\<lambda>b. [0xE2, 0x80, b]) [0x80, 0x81, 0x82, 0x83, 0x84, 0x85, 0x86, 0x87, 0x88, 0x89, 0x8A, 0xA8, 0xA9, 0xAF] @
     [[0xE2, 0x81, 0x9F], [0xE3, 0x80, 0x80]])"

lemma go_spaces_nonempty: "p \<in> set go_spaces \<Longrightarrow> p \<noteq> []"
  by (auto simp: go_spaces_def string_of_def)

function trimLeft :: "string \<Rightarrow> string" where
  "trimLeft s = (case find (\<lambda>p. take (length p) s = p) go_spaces of None \<Rightarrow> s | Some p \<Rightarrow> trimLeft (drop (length p) s))"
  by pat_completeness auto
termination
proof (relation "measure length")
  fix s p assume "find (\<lambda>p. take (length p) s = p) go_spaces = Some p"
  then have "p \<in> set go_spaces" "take (length p) s = p" by (auto simp: find_Some_iff)
  then have "p \<noteq> []" using go_spaces_nonempty by blast
  moreover from this have "s \<noteq> []" using \<open>take (length p) s = p\<close> by auto
  ultimately show "(drop (length p) s, s) \<in> measure length" by simp
qed simp

function trimRight :: "string \<Rightarrow> string" where
  "trimRight s = (case find (\<lambda>p. length p \<le> length s \<and> drop (length s - length p) s = p) go_spaces of
     None \<Rightarrow> s | Some p \<Rightarrow> trimRight (take (length s - length p) s))"
  by pat_completeness auto
termination
proof (relation "measure length")
  fix s p assume "find (\<lambda>p. length p \<le> length s \<and> drop (length s - length p) s = p) go_spaces = Some p"
  then have "p \<in> set go_spaces" "length p \<le> length s" by (auto simp: find_Some_iff)
  then have "0 < length p" "0 < length s" using go_spaces_nonempty [of p] by (auto simp: length_greater_0_conv [symmetric] simp del: length_greater_0_conv)
  then show "(take (length s - length p) s, s) \<in> measure length" by simp
qed simp

declare trimLeft.simps [simp del] trimRight.simps [simp del]

definition TrimSpace :: "string \<Rightarrow> string" where
  "TrimSpace s = trimRight (trimLeft s)"

section \<open>Checksums\<close>

definition trailerDigest :: "digests \<Rightarrow> string \<Rightarrow> bytes \<Rightarrow> bytes" where
  "trailerDigest D name body =
     (if name = ''x-amz-checksum-sha256'' then dg_sha256 D body
      else if name = ''x-amz-checksum-sha1'' then dg_sha1 D body
      else if name = ''x-amz-checksum-crc32'' then be32 (dg_crc32 D body)
      else if name = ''x-amz-checksum-crc32c'' then be32 (dg_crc32c D body)
      else dg_crc64 D body)"

definition checksumNames :: "string list" where
  "checksumNames = [''x-amz-checksum-sha256'', ''x-amz-checksum-sha1'', ''x-amz-checksum-crc32'', ''x-amz-checksum-crc32c'',
     ''x-amz-checksum-crc64nvme'']"

text \<open>
  The comparison of a decoded value with the digest includes that of the lengths. Values of
  other names are not looked at.
\<close>

definition verifyTrailerChecksums :: "digests \<Rightarrow> bytes \<Rightarrow> (string \<times> string) list \<Rightarrow> streaming_err + unit" where
  "verifyTrailerChecksums D body values =
     (if values = [] then Inl ErrStreamingTrailer
      else if \<not> list_ex (\<lambda>(n, v). has_prefix n ''x-amz-checksum-'') values then Inl ErrStreamingTrailer
      else if list_ex (\<lambda>n. case map_of values n of
             None \<Rightarrow> False | Some v \<Rightarrow> decode64 stdAlphabet True v \<noteq> Some (trailerDigest D n body)) checksumNames
      then Inl ErrSignatureMismatch else Inr ())"

section \<open>Trailers\<close>

definition maxAWSTrailerBytes :: nat where "maxAWSTrailerBytes = 65536"

definition maxAWSTrailerCount :: nat where "maxAWSTrailerCount = 64"

definition trailerSignature :: string where "trailerSignature = ''x-amz-trailer-signature''"

definition validTrailerToken :: "string \<Rightarrow> bool" where
  "validTrailerToken s \<longleftrightarrow> s \<noteq> [] \<and> list_all (\<lambda>c. 97 \<le> (of_char c :: nat) \<and> (of_char c :: nat) \<le> 122 \<or>
     48 \<le> (of_char c :: nat) \<and> (of_char c :: nat) \<le> 57 \<or> c \<in> set ''!#$%&'' \<or> c = char_of (39 :: nat) \<or> c \<in> set ''*+-.^_`|~'') s"

text \<open>The declared names, each once.\<close>

fun declareTrailers :: "string list \<Rightarrow> string list \<Rightarrow> streaming_err + string list" where
  "declareTrailers names [] = Inr names"
| "declareTrailers names (name # rest) =
     (if name \<noteq> to_lower name \<or> name = [] \<or> name \<in> set names \<or>
         name \<in> set [''content-length'', ''transfer-encoding'', ''authorization'', ''x-amz-content-sha256'', ''x-amz-trailer''] \<or>
         name \<notin> set checksumNames \<or> \<not> validTrailerToken name
      then Inl ErrStreamingTrailer else declareTrailers (names @ [name]) rest)"

text \<open>One trailer line: name and value.\<close>

definition parseTrailer :: "bool \<Rightarrow> string list \<Rightarrow> (string \<times> string) list \<Rightarrow> string \<Rightarrow> streaming_err + string \<times> string" where
  "parseTrailer withSig names values line =
     (if length line < 3 \<or> drop (length line - 2) line \<noteq> CRLF then Inl ErrStreamingTrailer
      else
        let l = take (length line - 2) line;
            name = takeWhile (\<lambda>c. c \<noteq> CHR '':'') l;
            value = TrimSpace (drop (Suc (length name)) l)
        in if CHR '':'' \<notin> set l \<or> (name \<notin> set names \<and> \<not> (withSig \<and> name = trailerSignature)) \<or> name \<in> fst ` set values
           then Inl ErrStreamingTrailer
           else if name \<noteq> to_lower name \<or> \<not> validTrailerToken name then Inl ErrStreamingTrailer
           else if value = [] \<or> char_of (13 :: nat) \<in> set value \<or> char_of (10 :: nat) \<in> set value then Inl ErrStreamingTrailer
           else Inr (name, value))"

function readTrailers :: "bool \<Rightarrow> string list \<Rightarrow> nat \<Rightarrow> (string \<times> string) list \<Rightarrow> wire \<Rightarrow> streaming_err + (string \<times> string) list \<times> wire" where
  "readTrailers withSig names used values r =
     (case readAWSLine (maxAWSTrailerBytes - used) r of
        Inl e \<Rightarrow> Inl ErrStreamingTrailer
      | Inr (line, r') \<Rightarrow>
          if line = CRLF then Inr (values, r')
          else (case parseTrailer withSig names values line of
              Inl e \<Rightarrow> Inl e
            | Inr nv \<Rightarrow> readTrailers withSig names (used + length line) (values @ [nv]) r'))"
  by pat_completeness auto
termination
  by (relation "measure (\<lambda>(withSig, names, used, values, r). length (fst r))") (auto elim: readAWSLine_Inr)

declare readTrailers.simps [simp del]

definition canonicalTrailers :: "(string \<times> string) list \<Rightarrow> string" where
  "canonicalTrailers values = concat (map (\<lambda>n. n @ '':'' @ the (map_of values n) @ [char_of (10 :: nat)])
     (sort (filter (\<lambda>n. n \<noteq> trailerSignature) (map fst values))))"

definition trailerStringToSign :: "digests \<Rightarrow> v4_signing \<Rightarrow> bytes \<Rightarrow> (string \<times> string) list \<Rightarrow> string" where
  "trailerStringToSign D c final values =
     ''AWS4-HMAC-SHA256-TRAILER'' @ [char_of (10 :: nat)] @ sg_timestamp c @ [char_of (10 :: nat)] @ sg_scope c @ [char_of (10 :: nat)] @
     hex_encode final @ [char_of (10 :: nat)] @ hex_encode (dg_sha256 D (bytes_of (canonicalTrailers values)))"

definition verifyTrailerSignature :: "digests \<Rightarrow> v4_signing \<Rightarrow> bytes \<Rightarrow> (string \<times> string) list \<Rightarrow> streaming_err + unit" where
  "verifyTrailerSignature D c final values =
     (case map_of values trailerSignature of
        None \<Rightarrow> Inl ErrSignatureMismatch
      | Some sg \<Rightarrow>
          if \<not> validLowerHex sg 64 then Inl ErrSignatureMismatch
          else if hex_decode sg = Some (dg_hmac D (sg_key c) (bytes_of (trailerStringToSign D c final values))) then Inr ()
          else Inl ErrSignatureMismatch)"

definition trailersComplete :: "bool \<Rightarrow> string list \<Rightarrow> (string \<times> string) list \<Rightarrow> bool" where
  "trailersComplete withSig names values \<longleftrightarrow>
     length values = length names + (if withSig then 1 else 0) \<and> list_all (\<lambda>n. n \<in> fst ` set values) names"

definition verifyAWSTrailers ::
  "digests \<Rightarrow> bytes \<Rightarrow> string \<Rightarrow> v4_signing option \<Rightarrow> streaming_mode \<Rightarrow> bytes \<Rightarrow> wire \<Rightarrow> streaming_err + unit" where
  "verifyAWSTrailers D body declaration signing mode final r =
     (let withSig = (mode = streamingSignedPayloadTrailer) in
      if (withSig \<or> mode = streamingUnsignedPayloadTrailer) \<and> declaration = [] then Inl ErrStreamingTrailer
      else if withSig \<and> (case signing of None \<Rightarrow> True | Some c \<Rightarrow> sg_key c = []) then Inl ErrSignatureMismatch
      else
        let decl = split_on (CHR '','') declaration in
        if hd decl = [] \<or> length decl > maxAWSTrailerCount then Inl ErrStreamingTrailer
        else and_then (declareTrailers [] decl) (\<lambda>names. and_then (readTrailers withSig names 0 [] r) (\<lambda>(values, r').
          if \<not> trailersComplete withSig names values then Inl ErrStreamingTrailer
          else and_then (verifyTrailerChecksums D body values) (\<lambda>_.
            and_then (case signing of
                Some c \<Rightarrow> if withSig then verifyTrailerSignature D c final values else Inr ()
              | None \<Rightarrow> Inr ()) (\<lambda>_.
              if \<not> withSig \<and> trailerSignature \<in> fst ` set values then Inl ErrStreamingTrailer
              else if fst r' \<noteq> [] \<or> snd r' \<noteq> EOF then Inl ErrStreamingTrailingData else Inr ())))))"

section \<open>Verified request bodies\<close>

definition classifyStreamingPayloadMode :: "string \<Rightarrow> streaming_err + streaming_mode" where
  "classifyStreamingPayloadMode v =
     (if v = ''STREAMING-AWS4-HMAC-SHA256-PAYLOAD'' then Inr streamingSignedPayload
      else if v = ''STREAMING-AWS4-HMAC-SHA256-PAYLOAD-TRAILER'' then Inr streamingSignedPayloadTrailer
      else if v = ''STREAMING-UNSIGNED-PAYLOAD-TRAILER'' then Inr streamingUnsignedPayloadTrailer
      else if v = [] \<or> v = ''UNSIGNED-PAYLOAD'' then Inr streamingNone
      else if validLowerHex v 64 then Inr streamingNone
      else Inl ErrUnsupportedStreamingMode)"

text \<open>Closing a signing context wipes its secrets.\<close>

definition signing_Close :: "v4_signing \<Rightarrow> v4_signing" where
  "signing_Close c =
     (if sg_closed c then c
      else c\<lparr>sg_seed := map (\<lambda>_. 0) (sg_seed c), sg_expectedPayloadHash := map (\<lambda>_. 0) (sg_expectedPayloadHash c),
             sg_verifyPayload := False, sg_key := [], sg_closed := True\<rparr>)"

text \<open>The header fields of a request that matter here, each with all its values.\<close>

record streaming_request =
  rq_contentSha256 :: "string list"
  rq_contentEncoding :: "string list"
  rq_decodedLength :: "string list"
  rq_trailer :: "string list"

definition header_get :: "string list \<Rightarrow> string" where
  "header_get vs = (case vs of [] \<Rightarrow> [] | v # _ \<Rightarrow> v)"

definition validAWSContentEncoding :: "string \<Rightarrow> bool" where
  "validAWSContentEncoding v \<longleftrightarrow> (case split_on (CHR '','') v of [p] \<Rightarrow> TrimSpace p = ''aws-chunked'' | _ \<Rightarrow> False)"

text \<open>The error is the second of the two that the code wraps; the first is always \<^verbatim>\<open>ErrInvalidStreamingHeaders\<close>.\<close>

definition validateStreamingRequestHeaders :: "streaming_request \<Rightarrow> streaming_mode \<Rightarrow> streaming_err + unit" where
  "validateStreamingRequestHeaders rq mode =
     (if mode = streamingNone then Inr ()
      else if length (rq_contentSha256 rq) \<noteq> 1 \<or> length (rq_contentEncoding rq) \<noteq> 1 \<or> length (rq_decodedLength rq) \<noteq> 1
      then Inl ErrStreamingFraming
      else if CHR '','' \<in> set (header_get (rq_contentSha256 rq)) then Inl ErrStreamingFraming
      else if \<not> validAWSContentEncoding (header_get (rq_contentEncoding rq)) then Inl ErrStreamingFraming
      else if length (rq_trailer rq) > 1 \<or>
              header_get (rq_trailer rq) = [] \<and> (mode = streamingSignedPayloadTrailer \<or> mode = streamingUnsignedPayloadTrailer)
      then Inl ErrStreamingTrailer
      else Inr ())"

definition decodedLengthOf :: "streaming_request \<Rightarrow> streaming_err + int" where
  "decodedLengthOf rq =
     (let v = header_get (rq_decodedLength rq) in
      if v = [] then Inr (- 1)
      else case parse_int64 v of
          None \<Rightarrow> Inl ErrStreamingFraming
        | Some n \<Rightarrow> if n < 0 then Inl ErrStreamingFraming else Inr n)"

text \<open>
  \<^verbatim>\<open>acquired\<close> is the error of the spool reservation, if there is one. The result is the content of the
  temporary file that replaces the request body.
\<close>

definition verifyAndSpoolAWSBody ::
  "digests \<Rightarrow> v4_signing option \<Rightarrow> streaming_err option \<Rightarrow> streaming_request \<Rightarrow> wire \<Rightarrow> streaming_err + bytes" where
  "verifyAndSpoolAWSBody D signing acquired rq body =
     and_then (classifyStreamingPayloadMode (header_get (rq_contentSha256 rq))) (\<lambda>mode.
       if mode \<noteq> streamingNone \<and> (case signing of None \<Rightarrow> False | Some c \<Rightarrow> sg_mode c \<noteq> mode) then Inl ErrStreamingFraming
       else if mode \<noteq> streamingNone \<and> \<not> validAWSContentEncoding (header_get (rq_contentEncoding rq)) \<and>
               \<not> (signing = None \<and> header_get (rq_contentEncoding rq) = [])
       then Inl ErrStreamingFraming
       else if mode \<noteq> streamingNone \<and> length (rq_decodedLength rq) \<noteq> 1 then Inl ErrStreamingFraming
       else and_then (decodedLengthOf rq) (\<lambda>decodedLength.
         case acquired of
           Some e \<Rightarrow> Inl e
         | None \<Rightarrow>
             let trailers = (mode = streamingSignedPayloadTrailer \<or> mode = streamingUnsignedPayloadTrailer) in
             (case verifyAWSChunked D signing decodedLength trailers body of
                (Inl e, _) \<Rightarrow> Inl e
              | (Inr (_, final, r), spooled) \<Rightarrow>
                  if trailers
                  then and_then (verifyAWSTrailers D spooled (header_get (rq_trailer rq)) signing mode final r) (\<lambda>_. Inr spooled)
                  else Inr spooled)))"

section \<open>What accepted trailers say\<close>

lemma declareTrailers_Inr:
  "declareTrailers ns l = Inr names \<Longrightarrow> distinct ns \<Longrightarrow> names = ns @ l \<and> distinct (ns @ l) \<and> set l \<subseteq> set checksumNames"
proof (induction l arbitrary: ns)
  case (Cons a l)
  then have "declareTrailers (ns @ [a]) l = Inr names" "distinct (ns @ [a])" "a \<in> set checksumNames"
    by (simp_all split: if_splits)
  then show ?case using Cons.IH [of "ns @ [a]"] by auto
qed simp

lemma parseTrailer_Inr:
  "parseTrailer w names tvs line = Inr (n, v) \<Longrightarrow> (n \<in> set names \<or> w \<and> n = trailerSignature) \<and> n \<notin> fst ` set tvs"
  by (auto simp: parseTrailer_def Let_def split: if_splits)

lemma readTrailers_Inr:
  "readTrailers w names used tvs r = Inr (vs, r') \<Longrightarrow> distinct (map fst tvs) \<Longrightarrow>
     fst ` set tvs \<subseteq> set names \<union> (if w then {trailerSignature} else {}) \<Longrightarrow>
     distinct (map fst vs) \<and> fst ` set vs \<subseteq> set names \<union> (if w then {trailerSignature} else {})"
proof (induction w names used tvs r rule: readTrailers.induct)
  case (1 w names used tvs r)
  obtain line r1 where l: "readAWSLine (maxAWSTrailerBytes - used) r = Inr (line, r1)"
    using 1(2) by (subst (asm) readTrailers.simps) (auto split: sum.splits)
  show ?case
  proof (cases "line = CRLF")
    case True
    then show ?thesis using 1(2) 1(3) 1(4) l by (simp add: readTrailers.simps [of w names used tvs r])
  next
    case False
    then obtain n v where nv: "parseTrailer w names tvs line = Inr (n, v)"
        "readTrailers w names (used + length line) (tvs @ [(n, v)]) r1 = Inr (vs, r')"
      using 1(2) l by (subst (asm) readTrailers.simps) (auto split: sum.splits)
    note p = parseTrailer_Inr [OF nv(1)]
    have "distinct (map fst (tvs @ [(n, v)]))"
      "fst ` set (tvs @ [(n, v)]) \<subseteq> set names \<union> (if w then {trailerSignature} else {})"
      using p 1(3) 1(4) by auto
    then show ?thesis using 1(1) [OF l refl False nv(1) nv(2)] by blast
  qed
qed

text \<open>The statement of accepted trailers about a body.\<close>

definition trailers_bind :: "digests \<Rightarrow> bytes \<Rightarrow> string list \<Rightarrow> v4_signing option \<Rightarrow> bool \<Rightarrow> bytes \<Rightarrow> (string \<times> string) list \<Rightarrow> bool" where
  "trailers_bind D body names signing w final tvs \<longleftrightarrow>
     names \<noteq> [] \<and> distinct names \<and> set names \<subseteq> set checksumNames \<and> distinct (map fst tvs) \<and>
     fst ` set tvs = set names \<union> (if w then {trailerSignature} else {}) \<and>
     (\<forall>n \<in> set names. \<exists>v. map_of tvs n = Some v \<and> decode64 stdAlphabet True v = Some (trailerDigest D n body)) \<and>
     (w \<longrightarrow> (\<exists>c sg. signing = Some c \<and> sg_key c \<noteq> [] \<and> map_of tvs trailerSignature = Some sg \<and>
        hex_decode sg = Some (dg_hmac D (sg_key c) (bytes_of (trailerStringToSign D c final tvs)))))"

lemma map_of_key: "map_of xs k = Some v \<Longrightarrow> k \<in> fst ` set xs"
  by (metis map_of_eq_None_iff option.distinct(1))

lemma verifyTrailerSignature_Inr:
  "verifyTrailerSignature D c final tvs = Inr () \<Longrightarrow> \<exists>sg. map_of tvs trailerSignature = Some sg \<and>
     hex_decode sg = Some (dg_hmac D (sg_key c) (bytes_of (trailerStringToSign D c final tvs)))"
  by (auto simp: verifyTrailerSignature_def split: option.splits if_splits)

lemma verifyTrailerChecksums_Inr:
  assumes "verifyTrailerChecksums D body tvs = Inr ()" "n \<in> set checksumNames" "map_of tvs n = Some v"
  shows "decode64 stdAlphabet True v = Some (trailerDigest D n body)"
proof (rule ccontr)
  assume "decode64 stdAlphabet True v \<noteq> Some (trailerDigest D n body)"
  then have "list_ex (\<lambda>n. case map_of tvs n of None \<Rightarrow> False
      | Some v \<Rightarrow> decode64 stdAlphabet True v \<noteq> Some (trailerDigest D n body)) checksumNames"
    using assms(2,3) unfolding list_ex_iff by (intro bexI [of _ n]) simp
  then show False using assms(1) by (simp add: verifyTrailerChecksums_def split: if_splits)
qed

lemma verifyAWSTrailers_Inr:
  assumes "verifyAWSTrailers D body declaration signing mode final r = Inr ()"
  shows "\<exists>tvs. trailers_bind D body (split_on (CHR '','') declaration) signing (mode = streamingSignedPayloadTrailer) final tvs"
proof -
  let ?w = "mode = streamingSignedPayloadTrailer" and ?decl = "split_on (CHR '','') declaration"
  obtain names tvs r' where v: "declareTrailers [] ?decl = Inr names" "readTrailers ?w names 0 [] r = Inr (tvs, r')"
      "trailersComplete ?w names tvs" "verifyTrailerChecksums D body tvs = Inr ()"
      "?w \<Longrightarrow> \<exists>c. signing = Some c \<and> sg_key c \<noteq> [] \<and> verifyTrailerSignature D c final tvs = Inr ()"
    using assms by (auto simp: verifyAWSTrailers_def Let_def and_then_eq_Inr split: if_splits option.splits)
  have names: "names = ?decl" "distinct names" "set names \<subseteq> set checksumNames" using declareTrailers_Inr [OF v(1)] by auto
  have vals: "distinct (map fst tvs)" "fst ` set tvs \<subseteq> set names \<union> (if ?w then {trailerSignature} else {})"
    using readTrailers_Inr [OF v(2)] by simp_all
  have "set names \<subseteq> fst ` set tvs" using v(3) by (auto simp: trailersComplete_def list_all_iff)
  moreover have "trailerSignature \<in> fst ` set tvs" if "?w"
    using v(5) [OF that] verifyTrailerSignature_Inr map_of_key by metis
  ultimately have eq: "fst ` set tvs = set names \<union> (if ?w then {trailerSignature} else {})" using vals(2) by auto
  have "\<exists>v. map_of tvs n = Some v \<and> decode64 stdAlphabet True v = Some (trailerDigest D n body)" if "n \<in> set names" for n
  proof -
    have "n \<in> fst ` set tvs" using that eq by simp
    then obtain v where n: "map_of tvs n = Some v" by (cases "map_of tvs n") (simp_all add: map_of_eq_None_iff)
    moreover have "n \<in> set checksumNames" using that names(3) by blast
    ultimately show ?thesis using verifyTrailerChecksums_Inr [OF v(4)] by blast
  qed
  moreover have "\<exists>c sg. signing = Some c \<and> sg_key c \<noteq> [] \<and> map_of tvs trailerSignature = Some sg \<and>
        hex_decode sg = Some (dg_hmac D (sg_key c) (bytes_of (trailerStringToSign D c final tvs)))" if "?w"
    using v(5) [OF that] verifyTrailerSignature_Inr by blast
  ultimately show ?thesis using names vals(1) eq unfolding trailers_bind_def by (intro exI [of _ tvs]) auto
qed

lemma decodedLengthOf_Inr:
  "decodedLengthOf rq = Inr n \<Longrightarrow> 0 \<le> n \<Longrightarrow> parse_int64 (header_get (rq_decodedLength rq)) = Some n"
  by (auto simp: decodedLengthOf_def Let_def split: if_splits option.splits)

lemma signedBody_parts:
  assumes "verifyAndSpoolAWSBody D (Some c) acquired rq r = Inr body"
    "classifyStreamingPayloadMode (header_get (rq_contentSha256 rq)) = Inr mode"
    "mode \<in> {streamingSignedPayload, streamingSignedPayloadTrailer}"
  obtains n p m r' where "sg_mode c = mode" "acquired = None" "decodedLengthOf rq = Inr n"
    "validAWSContentEncoding (header_get (rq_contentEncoding rq))"
    "verifyAWSChunked D (Some c) n (mode = streamingSignedPayloadTrailer) r = (Inr (m, p, r'), body)"
    "mode = streamingSignedPayloadTrailer \<longrightarrow> verifyAWSTrailers D body (header_get (rq_trailer rq)) (Some c) mode p r' = Inr ()"
proof -
  have "mode \<noteq> streamingNone" "mode \<noteq> streamingUnsignedPayloadTrailer" using assms(3) by auto
  then show thesis using assms(1,2) that
    by (auto simp: verifyAndSpoolAWSBody_def and_then_eq_Inr Let_def split: if_splits option.splits prod.splits sum.splits)
qed

text \<open>
  C16. A body that the gateway accepts for a request with a signed streaming mode is authenticated as a
  whole: it is the concatenation of chunks whose signatures form an unbroken chain from the seed
  signature of the request, including that of the empty last chunk; its length is the declared
  decoded length; and in the mode with trailers every declared checksum is that of the body, all
  declared trailers and no others arrived, and their signature continues the chain.
\<close>

theorem signed_body_authentic:
  assumes "length (fst r) < 2 ^ 63" "verifyAndSpoolAWSBody D (Some c) acquired rq r = Inr body"
    "classifyStreamingPayloadMode (header_get (rq_contentSha256 rq)) = Inr mode"
    "mode \<in> {streamingSignedPayload, streamingSignedPayloadTrailer}"
  shows "\<exists>cs ext p. body = aws_data cs \<and> aws_body True False cs ext \<and>
    chainSignatures D (Some c) (sg_seed c) (cs @ [(ext, [])]) = Inr p \<and>
    decodedLengthOf rq \<in> {Inr (- 1), Inr (int (length body))} \<and>
    (mode = streamingSignedPayloadTrailer \<longrightarrow>
      (\<exists>tvs. trailers_bind D body (split_on (CHR '','') (header_get (rq_trailer rq))) (Some c) True p tvs))"
proof -
  from assms(2-4) obtain n p m r' where b: "sg_mode c = mode" "acquired = None" "decodedLengthOf rq = Inr n"
      "validAWSContentEncoding (header_get (rq_contentEncoding rq))"
      "verifyAWSChunked D (Some c) n (mode = streamingSignedPayloadTrailer) r = (Inr (m, p, r'), body)"
      "mode = streamingSignedPayloadTrailer \<longrightarrow> verifyAWSTrailers D body (header_get (rq_trailer rq)) (Some c) mode p r' = Inr ()"
    by (rule signedBody_parts)
  have c: "chunkVerifier (Some c) = Some c" using b(1) assms(4) by (auto simp: chunkVerifier_def)
  have "\<exists>cs ext. aws_body True False cs ext \<and> chainSignatures D (Some c) (sg_seed c) (cs @ [(ext, [])]) = Inr p \<and>
      body = aws_data cs \<and> m = int (length (aws_data cs)) \<and> (0 \<le> n \<longrightarrow> m = n)"
    using awsLoop_sound [of D "Some c" False "mode = streamingSignedPayloadTrailer" n 0 "sg_seed c" "[]" r m p r' body] b(5) assms(1)
    by (force simp: verifyAWSChunked_loop c seedSignature_def int_limits)
  moreover have "n = - 1 \<or> 0 \<le> n" using b(3) by (auto simp: decodedLengthOf_def Let_def split: if_splits option.splits)
  moreover have "\<exists>tvs. trailers_bind D body (split_on (CHR '','') (header_get (rq_trailer rq))) (Some c) True p tvs"
    if "mode = streamingSignedPayloadTrailer"
    using verifyAWSTrailers_Inr [OF b(6) [rule_format, OF that]] that by simp
  ultimately show ?thesis using b(3) by fastforce
qed

section \<open>Witnesses\<close>

definition ex_trailer_signing :: v4_signing where
  "ex_trailer_signing = ex_signing\<lparr>sg_mode := streamingSignedPayloadTrailer\<rparr>"

definition ex_trailers :: bytes where
  "ex_trailers = bytes_of ((''x-amz-checksum-crc32'' @ '':'' @ ''AAAAAA=='') @ CRLF) @
     bytes_of ((trailerSignature @ '':'' @ replicate 64 (CHR ''0'')) @ CRLF) @ bytes_of ([] @ CRLF)"

definition printable :: "char \<Rightarrow> bool" where
  "printable c \<longleftrightarrow> 33 \<le> (of_char c :: nat) \<and> (of_char c :: nat) \<le> 127"

lemma go_spaces_edges: "p \<in> set go_spaces \<Longrightarrow> \<not> printable (hd p) \<and> \<not> printable (last p)"
  unfolding go_spaces_def string_of_def printable_def by auto

lemma TrimSpace_id:
  assumes "s \<noteq> []" "list_all printable s"
  shows "TrimSpace s = s"
proof -
  have e: "printable (hd s)" "printable (last s)" using assms by (simp_all add: list_all_iff)
  have "take (length p) s \<noteq> p" if "p \<in> set go_spaces" for p
    using e(1) go_spaces_edges [OF that] go_spaces_nonempty [OF that] by (metis hd_append2 append_take_drop_id)
  then have "find (\<lambda>p. take (length p) s = p) go_spaces = None" by (auto simp: find_None_iff)
  moreover have "drop (length s - length p) s \<noteq> p" if "p \<in> set go_spaces" for p
    using e(2) go_spaces_edges [OF that] go_spaces_nonempty [OF that] by (metis last_appendR append_take_drop_id)
  then have "find (\<lambda>p. length p \<le> length s \<and> drop (length s - length p) s = p) go_spaces = None" by (auto simp: find_None_iff)
  ultimately show ?thesis by (simp add: TrimSpace_def trimLeft.simps trimRight.simps)
qed

lemma readAWSLine_text:
  assumes "char_of (10 :: nat) \<notin> set l" "length l + 1 < limit"
  shows "readAWSLine limit (bytes_of (l @ CRLF) @ rest, fin) = Inr (l @ CRLF, (rest, fin))"
proof -
  have "readAWSLine limit ((bytes_of l @ [13]) @ 10 # rest, fin) = Inr (string_of ((bytes_of l @ [13]) @ [10]), (rest, fin))"
    using assms by (intro readAWSLine_line) (auto simp: byte_in_bytes_of length_bytes_of)
  moreover have "string_of (bytes_of l @ [13, 10]) = l @ CRLF"
    using string_of_bytes_of [of "l @ CRLF"] by (simp del: string_of_bytes_of)
  ultimately show ?thesis by simp
qed

lemma parseTrailer_text:
  assumes "CHR '':'' \<notin> set n" "n \<in> set names \<or> w \<and> n = trailerSignature" "n \<notin> fst ` set tvs" "to_lower n = n" "validTrailerToken n"
    "v \<noteq> []" "list_all printable v"
  shows "parseTrailer w names tvs ((n @ '':'' @ v) @ CRLF) = Inr (n, v)"
proof -
  have h: "char_of (13 :: nat) \<notin> set v \<and> char_of (10 :: nat) \<notin> set v"
    using assms(7) by (auto simp: list_all_iff printable_def)
  have "TrimSpace v = v" using assms(6,7) by (rule TrimSpace_id)
  moreover have "takeWhile (\<lambda>c. c \<noteq> CHR '':'') (n @ '':'' @ v) = n" using assms(1) by (subst takeWhile_append2) auto
  moreover have "n \<noteq> []" using assms(5) by (simp add: validTrailerToken_def)
  moreover have "CHR '':'' \<in> set (n @ '':'' @ v)" by simp
  ultimately show ?thesis using assms h by (cases n) (simp_all add: parseTrailer_def Let_def CRLF_def)
qed

lemma ex_names:
  "validTrailerToken ''x-amz-checksum-crc32''" "validTrailerToken trailerSignature"
  "to_lower ''x-amz-checksum-crc32'' = ''x-amz-checksum-crc32''" "to_lower trailerSignature = trailerSignature"
  "CHR '':'' \<notin> set trailerSignature"
  by code_simp+

lemma readTrailers_line:
  "readAWSLine (maxAWSTrailerBytes - used) r = Inr (line, r') \<Longrightarrow> line \<noteq> CRLF \<Longrightarrow> parseTrailer w names tvs line = Inr nv \<Longrightarrow>
     readTrailers w names used tvs r = readTrailers w names (used + length line) (tvs @ [nv]) r'"
  by (subst readTrailers.simps) simp

lemma ex_readTrailers:
  "readTrailers True [''x-amz-checksum-crc32''] 0 [] (ex_trailers, EOF) =
     Inr ([(''x-amz-checksum-crc32'', ''AAAAAA==''), (trailerSignature, replicate 64 (CHR ''0''))], ([], EOF))"
proof -
  define l1 l2 where l: "l1 = ''x-amz-checksum-crc32'' @ '':'' @ ''AAAAAA==''" "l2 = trailerSignature @ '':'' @ replicate 64 (CHR ''0'')"
  have w: "ex_trailers = bytes_of (l1 @ CRLF) @ bytes_of (l2 @ CRLF) @ bytes_of ([] @ CRLF) @ []"
    by (simp only: ex_trailers_def l append_Nil2)
  have "list_all printable l1" "list_all printable l2" by (simp_all add: l trailerSignature_def printable_def list_all_iff)
  then have c: "char_of (10 :: nat) \<notin> set l1" "char_of (10 :: nat) \<notin> set l2" "length l1 = 29" "length l2 = 88"
    by (auto simp: list_all_iff printable_def) (simp_all add: l trailerSignature_def)
  have r: "readAWSLine (maxAWSTrailerBytes - k) (bytes_of (l1 @ CRLF) @ rest, EOF) = Inr (l1 @ CRLF, (rest, EOF))"
      "readAWSLine (maxAWSTrailerBytes - k) (bytes_of (l2 @ CRLF) @ rest, EOF) = Inr (l2 @ CRLF, (rest, EOF))"
      "readAWSLine (maxAWSTrailerBytes - k) (bytes_of ([] @ CRLF) @ rest, EOF) = Inr ([] @ CRLF, (rest, EOF))"
    if "k < 1000" for rest k
    using that c by (intro readAWSLine_text; simp add: maxAWSTrailerBytes_def)+
  have n: "l1 @ CRLF \<noteq> CRLF" "l2 @ CRLF \<noteq> CRLF" using c by auto
  have q: "parseTrailer True [''x-amz-checksum-crc32''] [] (l1 @ CRLF) = Inr (''x-amz-checksum-crc32'', ''AAAAAA=='')"
      "parseTrailer True [''x-amz-checksum-crc32''] [(''x-amz-checksum-crc32'', ''AAAAAA=='')] (l2 @ CRLF) =
         Inr (trailerSignature, replicate 64 (CHR ''0''))"
    unfolding l using ex_names by (intro parseTrailer_text; simp add: trailerSignature_def list_all_iff printable_def)+
  have "readTrailers True [''x-amz-checksum-crc32''] 0 [] (ex_trailers, EOF) =
      readTrailers True [''x-amz-checksum-crc32''] 31 [(''x-amz-checksum-crc32'', ''AAAAAA=='')]
        (bytes_of (l2 @ CRLF) @ bytes_of ([] @ CRLF) @ [], EOF)"
    using readTrailers_line [OF r(1) n(1) q(1)] c(3) unfolding w by (simp add: CRLF_def)
  also have "\<dots> = readTrailers True [''x-amz-checksum-crc32''] 121
      [(''x-amz-checksum-crc32'', ''AAAAAA==''), (trailerSignature, replicate 64 (CHR ''0''))] (bytes_of ([] @ CRLF) @ [], EOF)"
    using readTrailers_line [OF r(2) n(2) q(2), of 31] c(4) by (simp add: CRLF_def)
  also have "\<dots> = Inr ([(''x-amz-checksum-crc32'', ''AAAAAA==''), (trailerSignature, replicate 64 (CHR ''0''))], ([], EOF))"
    by (subst readTrailers.simps, subst r(3)) simp_all
  finally show ?thesis .
qed

lemma ex_checksums:
  "verifyTrailerChecksums ex_digests [1, 2, 3] [(''x-amz-checksum-crc32'', ''AAAAAA==''), (trailerSignature, replicate 64 (CHR ''0''))] = Inr ()"
  by code_simp

lemma ex_trailers_ok:
  "verifyAWSTrailers ex_digests [1, 2, 3] ''x-amz-checksum-crc32'' (Some ex_trailer_signing) streamingSignedPayloadTrailer (replicate 32 0)
     (ex_trailers, EOF) = Inr ()"
proof -
  have "split_on (CHR '','') ''x-amz-checksum-crc32'' = [''x-amz-checksum-crc32'']" by simp
  moreover have "declareTrailers [] [''x-amz-checksum-crc32''] = Inr [''x-amz-checksum-crc32'']"
    using ex_names by (simp add: checksumNames_def)
  moreover have "sg_key ex_trailer_signing \<noteq> []" by (simp add: ex_trailer_signing_def ex_signing_def)
  moreover have "verifyTrailerSignature ex_digests ex_trailer_signing f [(''x-amz-checksum-crc32'', ''AAAAAA==''),
      (trailerSignature, replicate 64 (CHR ''0''))] = Inr ()" for f
    unfolding verifyTrailerSignature_def by (simp add: trailerSignature_def ex_digests_def)
  ultimately show ?thesis using ex_checksums ex_readTrailers
    by (simp add: verifyAWSTrailers_def Let_def maxAWSTrailerCount_def trailersComplete_def)
qed

definition ex_request :: streaming_request where
  "ex_request = \<lparr>rq_contentSha256 = [''STREAMING-AWS4-HMAC-SHA256-PAYLOAD-TRAILER''], rq_contentEncoding = [''aws-chunked''],
     rq_decodedLength = [''3''], rq_trailer = [''x-amz-checksum-crc32'']\<rparr>"

definition ex_wire :: wire where
  "ex_wire = (chunk_bytes (ex_aws [1, 2, 3]) @ header_bytes (fst (ex_aws [])) 0 @ ex_trailers, EOF)"

lemma ex_wire_chunks:
  "verifyAWSChunked ex_digests (Some ex_trailer_signing) 3 True ex_wire = (Inr (3, replicate 32 0, (ex_trailers, EOF)), [1, 2, 3])"
proof -
  have ok: "header_ok True False (fst (ex_aws d))" for d by (simp add: header_ok_def ex_aws_def)
  have "chainSignatures ex_digests (Some ex_trailer_signing) (replicate 32 0) ([ex_aws [1, 2, 3]] @ [(fst (ex_aws []), [])]) = Inr (replicate 32 0)"
    by (simp add: nextSignature_def verifyChunkSignature_def verifyChunkSignatureHash_def supplied_sig_def ex_aws_def ex_digests_def
        ex_trailer_signing_def ex_signing_def decodeSignature_def)
  then have "awsLoop ex_digests (Some ex_trailer_signing) False True 3 0 (replicate 32 0) []
      (concat (map chunk_bytes [ex_aws [1, 2, 3]]) @ header_bytes (fst (ex_aws [])) 0 @ fst (ex_trailers, EOF), snd (ex_trailers, EOF)) =
      (Inr (0 + int (length (aws_data [ex_aws [1, 2, 3]])), replicate 32 0, (ex_trailers, EOF)), [] @ aws_data [ex_aws [1, 2, 3]])"
    using ok
    by (intro awsLoop_complete) (simp_all add: aws_body_def chunk_ok_def aws_end_def ex_aws_def maxAWSChunkBytes_def int_limits)
  then show ?thesis
    by (simp add: verifyAWSChunked_def ex_wire_def ex_trailer_signing_def ex_signing_def ex_aws_def)
qed

lemma ex_body_verified: "verifyAndSpoolAWSBody ex_digests (Some ex_trailer_signing) None ex_request ex_wire = Inr [1, 2, 3]"
proof -
  have "TrimSpace ''aws-chunked'' = ''aws-chunked''" by (rule TrimSpace_id) (simp_all add: printable_def)
  moreover have "parse_int64 (show_int 3) = Some 3" by (rule parse_int64_show) (simp add: in_int64_def int_limits)
  moreover have "show_int 3 = ''3''" by code_simp
  moreover have "sg_mode ex_trailer_signing = streamingSignedPayloadTrailer" by (simp add: ex_trailer_signing_def)
  ultimately show ?thesis using ex_wire_chunks ex_trailers_ok
    by (simp add: verifyAndSpoolAWSBody_def ex_request_def classifyStreamingPayloadMode_def header_get_def validAWSContentEncoding_def
        decodedLengthOf_def Let_def)
qed

theorem signed_body_authentic_witness:
  "\<exists>cs ext p. [1, 2, 3] = aws_data cs \<and> aws_body True False cs ext \<and>
    chainSignatures ex_digests (Some ex_trailer_signing) (sg_seed ex_trailer_signing) (cs @ [(ext, [])]) = Inr p \<and>
    decodedLengthOf ex_request \<in> {Inr (- 1), Inr 3} \<and>
    (\<exists>tvs. trailers_bind ex_digests [1, 2, 3] [''x-amz-checksum-crc32''] (Some ex_trailer_signing) True p tvs)"
proof -
  have ok: "header_ok True False (fst (ex_aws d))" for d by (simp add: header_ok_def ex_aws_def)
  have "length ex_trailers < 1000" by (simp add: ex_trailers_def CRLF_def trailerSignature_def)
  then have "length (fst ex_wire) < 2 ^ 63"
    using header_text_line(2) [OF ok, of 3] header_text_line(2) [OF ok, of 0]
    by (simp add: ex_wire_def chunk_bytes_def header_bytes_def ex_aws_def CRLF_def numeral_3_eq_3)
  moreover have "classifyStreamingPayloadMode (header_get (rq_contentSha256 ex_request)) = Inr streamingSignedPayloadTrailer"
    by (simp add: ex_request_def classifyStreamingPayloadMode_def header_get_def)
  ultimately show ?thesis using signed_body_authentic [OF _ ex_body_verified]
    by (simp add: ex_request_def header_get_def)
qed

end
