(* ===== verification/Spool_Manager.thy ===== *)
theory Spool_Manager
  imports Aws_Chunked
begin

text \<open>
  The budget for temporary files of verified request bodies, \<^verbatim>\<open>internal/api/spool_manager.go\<close>. The
  reservations that were handed out form a list, a pointer to one is its position. Every operation
  runs under the mutex of the manager, so that concurrent use is a sequence of operations. The
  observer, when there is one, is the list of the calls made to it, the last one first.
\<close>

datatype spool_event = SetSpoolBytes int | RecordSpoolRejection string

record spool_manager =
  sm_current :: int
  sm_capacity :: int
  sm_observer :: "spool_event list option"

record spool_reservation =
  sr_limit :: int
  sr_used :: int
  sr_released :: bool

record spool_limits =
  sl_Global :: int
  sl_Part :: int

section \<open>Limits\<close>

definition DefaultMaxPartBuffer :: int where "DefaultMaxPartBuffer = 67108864"

definition SpoolLimits_Set :: "spool_limits \<Rightarrow> spool_limits \<Rightarrow> spool_limits" where
  "SpoolLimits_Set s limits = (if sl_Global limits \<le> 0 \<or> sl_Part limits \<le> 0 then s else limits)"

definition NewSpoolLimitSource :: "spool_limits \<Rightarrow> spool_limits" where
  "NewSpoolLimitSource limits = SpoolLimits_Set \<lparr>sl_Global = 5368709120, sl_Part = DefaultMaxPartBuffer\<rparr> limits"

text \<open>\<^verbatim>\<open>cfg\<close> gives \<^verbatim>\<open>MaxVerifiedSpoolBytes\<close> and \<^verbatim>\<open>MaxPartBuffer\<close> of the server, if there is a configuration.\<close>

definition SpoolLimitsForConfig :: "(int \<times> int) option \<Rightarrow> spool_limits" where
  "SpoolLimitsForConfig cfg =
     (case cfg of
        None \<Rightarrow> \<lparr>sl_Global = 5368709120, sl_Part = DefaultMaxPartBuffer\<rparr>
      | Some (maxVerified, maxPart) \<Rightarrow>
          \<lparr>sl_Global = (if maxVerified > 0 then maxVerified else 5368709120), sl_Part = (if maxPart > 0 then maxPart else DefaultMaxPartBuffer)\<rparr>)"

definition minSpoolLimit :: "int \<Rightarrow> int \<Rightarrow> int" where
  "minSpoolLimit a b = (if a < b then a else b)"

type_synonym query = "(string \<times> string list) list"

definition query_values :: "query \<Rightarrow> string \<Rightarrow> string list" where
  "query_values q k = (case map_of q k of None \<Rightarrow> [] | Some vs \<Rightarrow> vs)"

definition operationQuery :: "query \<Rightarrow> query" where
  "operationQuery q = filter (\<lambda>(k, vs). \<not> (k = ''AWSAccessKeyId'' \<or> k = ''Signature'' \<or> k = ''Expires'' \<or> k = ''x-id'' \<or>
     has_prefix (to_lower k) ''x-amz-'')) q"

definition isUploadPartSpoolRequest :: "query \<Rightarrow> bool" where
  "isUploadPartSpoolRequest q \<longleftrightarrow>
     length q = 2 \<and> query_values q ''uploadId'' \<noteq> [] \<and> hd (query_values q ''uploadId'') \<noteq> [] \<and>
     query_values q ''partNumber'' \<noteq> [] \<and>
     (let n = hd (query_values q ''partNumber'') in n \<noteq> [] \<and> list_all is_digit n \<and> parse_uint 32 n \<noteq> None)"

text \<open>
  The fields of a request that select its limit. Whether the request is a form upload depends on the
  media type parser of the standard library and is given as \<^verbatim>\<open>rs_isPost\<close>.
\<close>

record spool_request =
  rs_method :: string
  rs_path :: string
  rs_query :: query
  rs_copySource :: string
  rs_isPost :: bool

definition isObjectRoute :: "string \<Rightarrow> bool" where
  "isObjectRoute path \<longleftrightarrow> (let p = (if has_prefix path ''/'' then tl path else path) in CHR ''/'' \<in> set p \<and> \<not> (p \<noteq> [] \<and> last p = CHR ''/''))"

definition spoolLimitForRequest :: "spool_request option \<Rightarrow> int \<Rightarrow> int \<Rightarrow> int" where
  "spoolLimitForRequest r glob0 part =
     (let glob = (if glob0 \<le> 0 then 5368709120 else glob0) in
      case r of
        None \<Rightarrow> minSpoolLimit glob 1048576
      | Some r \<Rightarrow>
          let q = operationQuery (rs_query r) in
          if rs_method r = ''PUT'' \<and> isUploadPartSpoolRequest q then minSpoolLimit glob part
          else if rs_method r = ''PUT'' \<and> isObjectRoute (rs_path r) \<and> rs_copySource r = [] \<and>
                  (q = [] \<or> length q = 1 \<and> query_values q ''versionId'' \<noteq> []) then glob
          else if rs_isPost r then glob
          else minSpoolLimit glob 1048576)"

section \<open>The manager\<close>

definition rejectSpool :: "string \<Rightarrow> spool_manager \<Rightarrow> spool_manager" where
  "rejectSpool reason m = m\<lparr>sm_observer := map_option (\<lambda>t. RecordSpoolRejection reason # t) (sm_observer m)\<rparr>"

definition observeLocked :: "spool_manager \<Rightarrow> spool_manager" where
  "observeLocked m = m\<lparr>sm_observer := map_option (\<lambda>t. SetSpoolBytes (sm_current m) # t) (sm_observer m)\<rparr>"

definition NewSpoolManager :: "int \<Rightarrow> bool \<Rightarrow> spool_manager" where
  "NewSpoolManager capacity observed = \<lparr>sm_current = 0, sm_capacity = capacity, sm_observer = (if observed then Some [] else None)\<rparr>"

definition ReconfigureCapacity :: "int \<Rightarrow> spool_manager \<Rightarrow> (streaming_err + unit) \<times> spool_manager" where
  "ReconfigureCapacity capacity m =
     (if capacity \<le> 0 then (Inl ErrSpoolCapacity, m)
      else if sm_current m > capacity then (Inl ErrSpoolCapacity, m)
      else (Inr (), observeLocked (m\<lparr>sm_capacity := capacity\<rparr>)))"

definition sp_Acquire :: "bool \<Rightarrow> int \<Rightarrow> int \<Rightarrow> spool_manager \<Rightarrow> (streaming_err + spool_reservation) \<times> spool_manager" where
  "sp_Acquire ctxDone n limit m =
     (if n < 0 \<or> limit < 0 \<or> n > limit then (Inl ErrSpoolRequestLimit, rejectSpool ''request_limit'' m)
      else if ctxDone then (Inl ErrStreamingCanceled, m)
      else if sm_current m < 0 \<or> n > sm_capacity m \<or> sm_current m > wrap64 (sm_capacity m - n)
      then (Inl ErrSpoolCapacity, rejectSpool ''aggregate_limit'' m)
      else (Inr \<lparr>sr_limit = limit, sr_used = n, sr_released = False\<rparr>,
            observeLocked (m\<lparr>sm_current := wrap64 (sm_current m + n)\<rparr>)))"

definition sp_Grow :: "int \<Rightarrow> spool_reservation \<Rightarrow> spool_manager \<Rightarrow> (streaming_err + spool_reservation) \<times> spool_manager" where
  "sp_Grow delta r m =
     (if delta < 0 then (Inl ErrSpoolRequestLimit, rejectSpool ''request_limit'' m)
      else if sr_released r then (Inl ErrSpoolRequestLimit, m)
      else if delta > wrap64 (sr_limit r - sr_used r) then (Inl ErrSpoolRequestLimit, rejectSpool ''request_limit'' m)
      else if sr_used r > wrap64 (sr_limit r - delta) \<or> sm_current m > wrap64 (sm_capacity m - delta) then
        (if sm_current m \<le> wrap64 (sm_capacity m - delta)
         then (Inl ErrSpoolRequestLimit, rejectSpool ''request_limit'' m)
         else (Inl ErrSpoolCapacity, rejectSpool ''aggregate_limit'' m))
      else (Inr (r\<lparr>sr_used := wrap64 (sr_used r + delta)\<rparr>), observeLocked (m\<lparr>sm_current := wrap64 (sm_current m + delta)\<rparr>)))"

definition sp_Release :: "spool_reservation \<Rightarrow> spool_manager \<Rightarrow> spool_reservation \<times> spool_manager" where
  "sp_Release r m =
     (if sr_released r then (r, m)
      else (r\<lparr>sr_released := True\<rparr>, observeLocked (m\<lparr>sm_current := wrap64 (sm_current m - sr_used r)\<rparr>)))"

definition isSpoolQuotaError :: "streaming_err \<Rightarrow> bool" where
  "isSpoolQuotaError e \<longleftrightarrow> e = ErrSpoolRequestLimit \<or> e = ErrSpoolCapacity"

definition spoolReason :: "streaming_err \<Rightarrow> string" where
  "spoolReason e = (if e = ErrSpoolCapacity then ''aggregate_limit'' else ''request_limit'')"

section \<open>All uses of one manager\<close>

datatype spool_op = AcquireOp bool int int | GrowOp nat int | ReleaseOp nat | ReconfigureOp int

type_synonym spool_state = "spool_manager \<times> spool_reservation list"

fun spool_step :: "spool_op \<Rightarrow> spool_state \<Rightarrow> spool_state" where
  "spool_step (AcquireOp ctxDone n limit) (m, rs) =
     (case sp_Acquire ctxDone n limit m of (Inr r, m') \<Rightarrow> (m', rs @ [r]) | (Inl e, m') \<Rightarrow> (m', rs))"
| "spool_step (GrowOp i delta) (m, rs) =
     (if i < length rs
      then (case sp_Grow delta (rs ! i) m of (Inr r, m') \<Rightarrow> (m', rs[i := r]) | (Inl e, m') \<Rightarrow> (m', rs))
      else (m, rs))"
| "spool_step (ReleaseOp i) (m, rs) =
     (if i < length rs then (case sp_Release (rs ! i) m of (r, m') \<Rightarrow> (m', rs[i := r])) else (m, rs))"
| "spool_step (ReconfigureOp capacity) (m, rs) = (snd (ReconfigureCapacity capacity m), rs)"

fun spool_op_ok :: "spool_op \<Rightarrow> bool" where
  "spool_op_ok (AcquireOp ctxDone n limit) \<longleftrightarrow> in_int64 n \<and> in_int64 limit"
| "spool_op_ok (GrowOp i delta) \<longleftrightarrow> in_int64 delta"
| "spool_op_ok (ReleaseOp i) \<longleftrightarrow> True"
| "spool_op_ok (ReconfigureOp capacity) \<longleftrightarrow> in_int64 capacity"

definition spool_run :: "int \<Rightarrow> bool \<Rightarrow> spool_op list \<Rightarrow> spool_state" where
  "spool_run capacity observed ops = fold spool_step ops (NewSpoolManager capacity observed, [])"

definition reservation_ok :: "spool_reservation \<Rightarrow> bool" where
  "reservation_ok r \<longleftrightarrow> 0 \<le> sr_used r \<and> sr_used r \<le> sr_limit r \<and> sr_limit r \<le> maxInt64"

definition charge :: "spool_reservation \<Rightarrow> int" where
  "charge r = (if sr_released r then 0 else sr_used r)"

definition reserved :: "spool_reservation list \<Rightarrow> int" where
  "reserved rs = sum_list (map charge rs)"

definition gauge :: "spool_event list \<Rightarrow> int" where
  "gauge t = (case filter (\<lambda>e. case e of SetSpoolBytes n \<Rightarrow> True | RecordSpoolRejection r \<Rightarrow> False) t of SetSpoolBytes n # _ \<Rightarrow> n | _ \<Rightarrow> 0)"

definition spool_ok :: "spool_state \<Rightarrow> bool" where
  "spool_ok s \<longleftrightarrow> (case s of (m, rs) \<Rightarrow>
     in_int64 (sm_capacity m) \<and> sm_current m = reserved rs \<and> (rs \<noteq> [] \<longrightarrow> sm_current m \<le> sm_capacity m) \<and>
     list_all reservation_ok rs \<and> (\<forall>t. sm_observer m = Some t \<longrightarrow> gauge t = sm_current m))"

lemma gauge_simps [simp]: "gauge (SetSpoolBytes n # t) = n" "gauge (RecordSpoolRejection r # t) = gauge t" "gauge [] = 0"
  by (simp_all add: gauge_def)

lemma charge_bounds: "reservation_ok r \<Longrightarrow> 0 \<le> charge r \<and> charge r \<le> sr_used r"
  by (simp add: charge_def reservation_ok_def)

lemma reserved_simps [simp]: "reserved [] = 0" "reserved (rs @ [r]) = reserved rs + charge r"
  by (simp_all add: reserved_def)

lemma reserved_nonneg: "list_all reservation_ok rs \<Longrightarrow> 0 \<le> reserved rs"
  unfolding reserved_def by (intro sum_list_nonneg) (auto simp: list_all_iff charge_bounds)

lemma reserved_update: "i < length rs \<Longrightarrow> reserved (rs[i := r]) = reserved rs - charge (rs ! i) + charge r"
  by (induction rs arbitrary: i) (auto simp: reserved_def split: nat.splits)

lemma reserved_ge: "list_all reservation_ok rs \<Longrightarrow> i < length rs \<Longrightarrow> charge (rs ! i) \<le> reserved rs"
  unfolding reserved_def by (intro member_le_sum_list) (auto simp: list_all_iff charge_bounds)

lemma rejectSpool_ok [simp]: "spool_ok (rejectSpool reason m, rs) \<longleftrightarrow> spool_ok (m, rs)"
  by (auto simp: spool_ok_def rejectSpool_def)

lemma rejectSpool_current [simp]: "sm_current (rejectSpool reason m) = sm_current m"
  by (simp add: rejectSpool_def)

lemma observed_ok:
  "in_int64 (sm_capacity m) \<Longrightarrow> sm_current m = reserved rs \<Longrightarrow> sm_current m \<le> sm_capacity m \<Longrightarrow> list_all reservation_ok rs \<Longrightarrow>
     spool_ok (observeLocked m, rs)"
  by (auto simp: spool_ok_def observeLocked_def)

lemma list_all_update: "list_all P xs \<Longrightarrow> P y \<Longrightarrow> list_all P (xs[i := y])"
  using set_update_subset_insert [of xs i y] by (auto simp: list_all_iff)

lemma spool_okD:
  assumes "spool_ok (m, rs)"
  shows "in_int64 (sm_capacity m)" "sm_current m = reserved rs" "rs \<noteq> [] \<Longrightarrow> sm_current m \<le> sm_capacity m"
    "list_all reservation_ok rs" "0 \<le> reserved rs"
  using assms reserved_nonneg by (auto simp: spool_ok_def)

lemma Acquire_ok:
  assumes ok: "spool_ok (m, rs)" and "in_int64 limit" and A: "sp_Acquire ctxDone n limit m = (x, m')"
  shows "case x of Inr r \<Rightarrow> spool_ok (m', rs @ [r]) \<and> r = \<lparr>sr_limit = limit, sr_used = n, sr_released = False\<rparr> \<and> 0 \<le> n \<and> n \<le> limit
    | Inl e \<Rightarrow> spool_ok (m', rs) \<and> sm_current m' = sm_current m"
proof (cases x)
  case (Inr r)
  note inv = spool_okD [OF ok]
  have g: "0 \<le> n" "n \<le> limit" "n \<le> sm_capacity m" "sm_current m \<le> wrap64 (sm_capacity m - n)"
      "r = \<lparr>sr_limit = limit, sr_used = n, sr_released = False\<rparr>" "m' = observeLocked (m\<lparr>sm_current := wrap64 (sm_current m + n)\<rparr>)"
    using A Inr by (auto simp: sp_Acquire_def split: if_splits)
  have "wrap64 (sm_capacity m - n) = sm_capacity m - n" using inv(1) g by (intro wrap64_id) (simp add: in_int64_def int_limits)
  moreover from this have "wrap64 (sm_current m + n) = sm_current m + n"
    using inv(1,2,5) g(1,4) by (intro wrap64_id) (simp add: in_int64_def int_limits)
  ultimately show ?thesis using inv g assms(2) Inr
    by (auto intro!: observed_ok simp: charge_def reservation_ok_def in_int64_def)
qed (use assms in \<open>auto simp: sp_Acquire_def split: if_splits\<close>)

lemma Grow_ok:
  assumes ok: "spool_ok (m, rs)" and i: "i < length rs" and "in_int64 delta" and G: "sp_Grow delta (rs ! i) m = (x, m')"
  shows "case x of Inr r \<Rightarrow> spool_ok (m', rs[i := r]) \<and> \<not> sr_released (rs ! i) \<and> r = (rs ! i)\<lparr>sr_used := sr_used (rs ! i) + delta\<rparr> \<and> 0 \<le> delta
    | Inl e \<Rightarrow> spool_ok (m', rs)"
proof (cases x)
  case (Inr r)
  note inv = spool_okD [OF ok]
  have g: "0 \<le> delta" "\<not> sr_released (rs ! i)" "delta \<le> wrap64 (sr_limit (rs ! i) - sr_used (rs ! i))"
      "sm_current m \<le> wrap64 (sm_capacity m - delta)" "r = (rs ! i)\<lparr>sr_used := wrap64 (sr_used (rs ! i) + delta)\<rparr>"
      "m' = observeLocked (m\<lparr>sm_current := wrap64 (sm_current m + delta)\<rparr>)"
    using G Inr by (auto simp: sp_Grow_def split: if_splits)
  have r: "reservation_ok (rs ! i)" using inv(4) i by (simp add: list_all_length)
  then have l: "wrap64 (sr_limit (rs ! i) - sr_used (rs ! i)) = sr_limit (rs ! i) - sr_used (rs ! i)"
    by (intro wrap64_id) (auto simp: reservation_ok_def in_int64_def int_limits)
  have "rs \<noteq> []" using i by auto
  then have c: "wrap64 (sm_capacity m - delta) = sm_capacity m - delta"
    using inv(1,2,5) inv(3) g(1) assms(3) by (intro wrap64_id) (auto simp: in_int64_def int_limits)
  have "wrap64 (sm_current m + delta) = sm_current m + delta" "wrap64 (sr_used (rs ! i) + delta) = sr_used (rs ! i) + delta"
    using inv(1,2,5) g r c l by (auto intro!: wrap64_id simp: in_int64_def int_limits reservation_ok_def)
  then show ?thesis using inv(1,2,4) g r c l i Inr
    by (auto intro!: observed_ok list_all_update simp: reserved_update charge_def reservation_ok_def)
qed (use assms in \<open>auto simp: sp_Grow_def split: if_splits\<close>)

lemma Release_ok:
  assumes ok: "spool_ok (m, rs)" and i: "i < length rs" and R: "sp_Release (rs ! i) m = (r, m')"
  shows "spool_ok (m', rs[i := r]) \<and> r = (rs ! i)\<lparr>sr_released := True\<rparr>"
proof (cases "sr_released (rs ! i)")
  case True
  then show ?thesis using assms by (auto simp: sp_Release_def)
next
  case False
  note inv = spool_okD [OF ok]
  have r: "reservation_ok (rs ! i)" using inv(4) i by (simp add: list_all_length)
  have le: "sr_used (rs ! i) \<le> reserved rs" using reserved_ge [OF inv(4) i] False by (simp add: charge_def)
  have "rs \<noteq> []" using i by auto
  note cap = inv(3) [OF this]
  then have "wrap64 (sm_current m - sr_used (rs ! i)) = sm_current m - sr_used (rs ! i)"
    using inv(1,2) r le by (intro wrap64_id) (auto simp: in_int64_def int_limits reservation_ok_def)
  then show ?thesis using inv(1,2,4) cap i r le R False
    by (auto intro!: observed_ok list_all_update simp: sp_Release_def reserved_update charge_def reservation_ok_def)
qed

lemma Reconfigure_ok:
  "spool_ok (m, rs) \<Longrightarrow> in_int64 capacity \<Longrightarrow> spool_ok (snd (ReconfigureCapacity capacity m), rs)"
  using spool_okD [of m rs] by (auto intro!: observed_ok simp: ReconfigureCapacity_def)

lemma spool_step_ok: "spool_ok s \<Longrightarrow> spool_op_ok op \<Longrightarrow> spool_ok (spool_step op s)"
proof (induction op s rule: spool_step.induct)
  case (1 ctxDone n limit m rs)
  then show ?case using Acquire_ok [of m rs limit ctxDone n]
    by (cases "sp_Acquire ctxDone n limit m") (auto split: sum.splits)
next
  case (2 i delta m rs)
  then show ?case using Grow_ok [of m rs i delta]
    by (cases "sp_Grow delta (rs ! i) m") (auto split: sum.splits)
next
  case (3 i m rs)
  then show ?case using Release_ok [of m rs i] by (auto split: prod.splits)
next
  case (4 capacity m rs)
  then show ?case using Reconfigure_ok by simp
qed

lemma spool_run_ok: "in_int64 capacity \<Longrightarrow> list_all spool_op_ok ops \<Longrightarrow> spool_ok (spool_run capacity observed ops)"
proof -
  have "spool_ok s \<Longrightarrow> list_all spool_op_ok ops \<Longrightarrow> spool_ok (fold spool_step ops s)" for s
    by (induction ops arbitrary: s) (auto simp: spool_step_ok)
  then show "in_int64 capacity \<Longrightarrow> list_all spool_op_ok ops \<Longrightarrow> ?thesis"
    by (simp add: spool_run_def spool_ok_def NewSpoolManager_def)
qed

text \<open>
  C20. The state of the spool manager stays well-formed under every sequence of reservations, growth,
  releases (repeated ones included) and changes of the capacity: the bytes in use are the sum of the
  reservations that are not released, they stay within the capacity, no reservation exceeds the limit
  of its request, no counter wraps, and the metric shows the bytes in use.
\<close>

theorem spool_accounting:
  assumes "in_int64 capacity" "list_all spool_op_ok ops" "spool_run capacity observed ops = (m, rs)"
  shows "sm_current m = (\<Sum>r\<leftarrow>rs. if sr_released r then 0 else sr_used r) \<and> 0 \<le> sm_current m \<and>
    (rs \<noteq> [] \<longrightarrow> sm_current m \<le> sm_capacity m) \<and> list_all (\<lambda>r. 0 \<le> sr_used r \<and> sr_used r \<le> sr_limit r) rs \<and>
    (\<forall>t. sm_observer m = Some t \<longrightarrow> gauge t = sm_current m)"
proof -
  have ok: "spool_ok (m, rs)" using spool_run_ok [OF assms(1,2)] assms(3) by metis
  note inv = spool_okD [OF ok]
  have "sm_current m = (\<Sum>r\<leftarrow>rs. if sr_released r then 0 else sr_used r)" using inv(2) unfolding reserved_def charge_def by simp
  moreover have "list_all (\<lambda>r. 0 \<le> sr_used r \<and> sr_used r \<le> sr_limit r) rs" using inv(4) by (auto simp: list_all_iff reservation_ok_def)
  ultimately show ?thesis using ok inv(2,3,5) by (simp add: spool_ok_def)
qed

theorem spool_accounting_witness:
  "spool_run 100 True [AcquireOp False 40 60, GrowOp 0 30, GrowOp 0 15, AcquireOp False 50 50, ReleaseOp 0, ReleaseOp 0] =
     (\<lparr>sm_current = 0, sm_capacity = 100, sm_observer = Some [SetSpoolBytes 0, RecordSpoolRejection ''aggregate_limit'', SetSpoolBytes 55,
        RecordSpoolRejection ''request_limit'', SetSpoolBytes 40]\<rparr>, [\<lparr>sr_limit = 60, sr_used = 55, sr_released = True\<rparr>]) \<and>
   gauge [SetSpoolBytes 0, RecordSpoolRejection ''aggregate_limit'', SetSpoolBytes 55, RecordSpoolRejection ''request_limit'', SetSpoolBytes 40] = 0"
proof -
  let ?ops = "[AcquireOp False 40 60, GrowOp 0 30, GrowOp 0 15, AcquireOp False 50 50, ReleaseOp 0, ReleaseOp 0]"
  let ?t = "[SetSpoolBytes 0, RecordSpoolRejection ''aggregate_limit'', SetSpoolBytes 55, RecordSpoolRejection ''request_limit'', SetSpoolBytes 40]"
  have run: "spool_run 100 True ?ops =
      (\<lparr>sm_current = 0, sm_capacity = 100, sm_observer = Some ?t\<rparr>, [\<lparr>sr_limit = 60, sr_used = 55, sr_released = True\<rparr>])"
    by (simp add: spool_run_def NewSpoolManager_def sp_Acquire_def sp_Grow_def sp_Release_def rejectSpool_def observeLocked_def
        wrap64_def)
  moreover have "gauge ?t = 0"
    using spool_accounting [OF _ _ run] by (simp add: in_int64_def int_limits)
  ultimately show ?thesis by blast
qed

end
