(* ===== verification/Verified_Body.thy ===== *)
theory Verified_Body
  imports Aws_Trailer Spool_Manager
begin

text \<open>
  Spooling of request bodies whose hash was signed, \<^verbatim>\<open>verifyAndSpoolV4Payload\<close> of
  \<^verbatim>\<open>internal/api/verified_aws_body.go\<close>, and the writer that charges what it writes to a reservation,
  \<^verbatim>\<open>reservingWriter\<close> of \<^verbatim>\<open>internal/api/spool_manager.go\<close>. A request body is the list of the portions its
  reads return and what ends it: \<^verbatim>\<open>EOF\<close>, a cancelled context, or another error.
\<close>

section \<open>Growth of a reservation\<close>

lemma sm_capacity_simps [simp]:
  "sm_capacity (rejectSpool reason m) = sm_capacity m" "sm_capacity (observeLocked m) = sm_capacity m"
  "sm_current (observeLocked m) = sm_current m"
  by (simp_all add: rejectSpool_def observeLocked_def)

lemma Grow_iff:
  assumes ok: "spool_ok (m, rs)" and i: "i < length rs" and d: "0 \<le> delta" "in_int64 delta" and r: "\<not> sr_released (rs ! i)"
  shows "sp_Grow delta (rs ! i) m =
    (if sr_used (rs ! i) + delta \<le> sr_limit (rs ! i) \<and> sm_current m + delta \<le> sm_capacity m
     then (Inr ((rs ! i)\<lparr>sr_used := sr_used (rs ! i) + delta\<rparr>), observeLocked (m\<lparr>sm_current := sm_current m + delta\<rparr>))
     else if sr_used (rs ! i) + delta \<le> sr_limit (rs ! i) then (Inl ErrSpoolCapacity, rejectSpool ''aggregate_limit'' m)
     else (Inl ErrSpoolRequestLimit, rejectSpool ''request_limit'' m))"
proof -
  note inv = spool_okD [OF ok]
  have "rs \<noteq> []" using i by auto
  note cap = inv(3) [OF this]
  have u: "0 \<le> sr_used (rs ! i)" "sr_used (rs ! i) \<le> sr_limit (rs ! i)" "sr_limit (rs ! i) \<le> maxInt64"
    using inv(4) i by (simp_all add: list_all_length reservation_ok_def)
  have w: "wrap64 (sr_limit (rs ! i) - sr_used (rs ! i)) = sr_limit (rs ! i) - sr_used (rs ! i)"
      "wrap64 (sr_limit (rs ! i) - delta) = sr_limit (rs ! i) - delta" "wrap64 (sm_capacity m - delta) = sm_capacity m - delta"
    using u d inv(1,2,5) cap by (auto intro!: wrap64_id simp: in_int64_def int_limits)
  moreover have "sr_used (rs ! i) + delta \<le> sr_limit (rs ! i) \<Longrightarrow> wrap64 (sr_used (rs ! i) + delta) = sr_used (rs ! i) + delta"
    using u d by (intro wrap64_id) (simp add: in_int64_def int_limits)
  moreover have "sm_current m + delta \<le> sm_capacity m \<Longrightarrow> wrap64 (sm_current m + delta) = sm_current m + delta"
    using d inv(1,2,5) by (intro wrap64_id) (simp add: in_int64_def int_limits)
  ultimately show ?thesis using d(1) r by (auto simp: sp_Grow_def)
qed

section \<open>Bodies with a signed hash\<close>

fun v4Loop :: "int \<Rightarrow> spool_reservation \<Rightarrow> spool_manager \<Rightarrow> bytes \<Rightarrow> bytes list \<Rightarrow> goerr \<Rightarrow> (streaming_err + bytes) \<times> spool_reservation \<times> spool_manager" where
  "v4Loop declared r m spooled [] fin =
     ((if fin = EOF then Inr spooled else Inl (if fin = CtxDone then ErrStreamingCanceled else ErrStreamingSpool)), r, m)"
| "v4Loop declared r m spooled (p # ps) fin =
     (if p = [] then v4Loop declared r m spooled ps fin
      else
        let n = int (length p); extra = n - declared in
        (case (if extra > 0 then sp_Grow extra r m else (Inr r, m)) of
           (Inl e, m') \<Rightarrow> (Inl e, r, m')
         | (Inr r', m') \<Rightarrow> v4Loop (if declared > n then declared - n else 0) r' m' (spooled @ p) ps fin))"

definition verifyAndSpoolV4Payload ::
  "digests \<Rightarrow> v4_signing option \<Rightarrow> int \<Rightarrow> int \<Rightarrow> bool \<Rightarrow> bytes list \<times> goerr \<Rightarrow> spool_manager \<Rightarrow>
     (streaming_err + bytes \<times> spool_reservation) \<times> spool_manager" where
  "verifyAndSpoolV4Payload D signing contentLength limit ctxDone body m =
     (case signing of
        None \<Rightarrow> (Inl ErrInvalidPayloadRequest, m)
      | Some c \<Rightarrow>
          if \<not> sg_verifyPayload c then (Inl ErrInvalidPayloadRequest, m)
          else
            let declared = (if contentLength < 0 then 0 else contentLength) in
            (case sp_Acquire ctxDone declared limit m of
               (Inl e, m) \<Rightarrow> (Inl e, m)
             | (Inr r, m) \<Rightarrow>
                 (case v4Loop declared r m [] (fst body) (snd body) of
                    (Inl e, r, m) \<Rightarrow> (Inl e, snd (sp_Release r m))
                  | (Inr spooled, r, m) \<Rightarrow>
                      if dg_sha256 D spooled \<noteq> sg_expectedPayloadHash c then (Inl ErrSignatureMismatch, snd (sp_Release r m))
                      else (Inr (spooled, r), m))))"

text \<open>
  What the loop does when \<^verbatim>\<open>d\<close> bytes were declared and the whole body is \<^verbatim>\<open>d'\<close>: the reservation
  covers the larger of both, or one of the limits is in the way.
\<close>

definition v4_outcome ::
  "spool_reservation list \<Rightarrow> int \<Rightarrow> int \<Rightarrow> int \<Rightarrow> int \<Rightarrow> bytes \<Rightarrow> goerr \<Rightarrow> (streaming_err + bytes) \<times> spool_reservation \<times> spool_manager \<Rightarrow> bool" where
  "v4_outcome rs d limit base cap data fin res \<longleftrightarrow> (case res of (x, r, m) \<Rightarrow>
     spool_ok (m, rs @ [r]) \<and> \<not> sr_released r \<and> sr_limit r = limit \<and> sm_current m = base + sr_used r \<and> sm_capacity m = cap \<and>
     (if max d (int (length data)) \<le> limit \<and> base + max d (int (length data)) \<le> cap
      then sr_used r = max d (int (length data)) \<and>
        x = (if fin = EOF then Inr data else Inl (if fin = CtxDone then ErrStreamingCanceled else ErrStreamingSpool))
      else x \<in> {Inl ErrSpoolRequestLimit, Inl ErrSpoolCapacity}))"

lemma v4Loop_outcome:
  assumes "spool_ok (m, rs @ [r])" "\<not> sr_released r" "0 \<le> d" "declared = max 0 (d - int (length acc))"
    "sr_used r = max d (int (length acc))" "int (length (acc @ concat ps)) \<le> maxInt64"
  shows "v4_outcome rs d (sr_limit r) (sm_current m - sr_used r) (sm_capacity m) (acc @ concat ps) fin (v4Loop declared r m acc ps fin)"
  using assms
proof (induction ps arbitrary: declared r m acc)
  case Nil
  have "reservation_ok r" "sm_current m \<le> sm_capacity m" using Nil(1) by (auto simp: spool_ok_def)
  then show ?case using Nil by (simp add: reservation_ok_def v4_outcome_def)
next
  case (Cons p ps)
  let ?n = "int (length p)"
  define extra where "extra = ?n - declared"
  define declared' where "declared' = (if declared > ?n then declared - ?n else 0)"
  have d': "declared' = max 0 (d - int (length (acc @ p)))" using Cons.prems(4) by (simp add: declared'_def)
  have need: "sr_used r + (if extra > 0 then extra else 0) = max d (int (length (acc @ p)))"
    using Cons.prems(3-5) by (simp add: extra_def max_def)
  have len: "int (length ((acc @ p) @ concat ps)) \<le> maxInt64" using Cons.prems(6) by simp
  consider "p = []" | "p \<noteq> []" "extra \<le> 0" | "p \<noteq> []" "extra > 0" by linarith
  then show ?case
  proof cases
    case 1
    then show ?thesis using Cons.IH [OF Cons.prems(1-5)] Cons.prems(6) by simp
  next
    case 2
    then have "v4Loop declared r m acc (p # ps) fin = v4Loop declared' r m (acc @ p) ps fin"
      by (simp add: extra_def declared'_def Let_def)
    then show ?thesis using Cons.IH [OF Cons.prems(1-3) d' _ len] need 2 by simp
  next
    case 3
    have "extra \<le> int (length (acc @ concat (p # ps)))" using Cons.prems(4) by (simp add: extra_def)
    then have x: "in_int64 extra" using 3 Cons.prems(6) by (simp add: in_int64_def int_limits)
    note G = Grow_iff [OF Cons.prems(1), of "length rs" extra]
    show ?thesis
    proof (cases "sr_used r + extra \<le> sr_limit r \<and> sm_current m + extra \<le> sm_capacity m")
      case True
      let ?r = "r\<lparr>sr_used := sr_used r + extra\<rparr>" and ?m = "observeLocked (m\<lparr>sm_current := sm_current m + extra\<rparr>)"
      have g: "sp_Grow extra r m = (Inr ?r, ?m)" using G 3 x True Cons.prems(2) by simp
      then have "v4Loop declared r m acc (p # ps) fin = v4Loop declared' ?r ?m (acc @ p) ps fin"
        using 3 by (simp add: extra_def declared'_def Let_def)
      moreover have "spool_ok (?m, rs @ [?r])" using Grow_ok [OF Cons.prems(1) _ x, of "length rs" "Inr ?r" ?m] g by simp
      from Cons.IH [OF this _ Cons.prems(3) d' _ len]
      have "v4_outcome rs d (sr_limit ?r) (sm_current ?m - sr_used ?r) (sm_capacity ?m) ((acc @ p) @ concat ps) fin (v4Loop declared' ?r ?m (acc @ p) ps fin)"
        using need 3 Cons.prems(2) by simp
      moreover have "sm_current ?m - sr_used ?r = sm_current m - sr_used r" "sr_limit ?r = sr_limit r" "sm_capacity ?m = sm_capacity m" by simp_all
      ultimately show ?thesis by (simp only: append_assoc concat.simps)
    next
      case False
      let ?e = "if sr_used r + extra \<le> sr_limit r then ErrSpoolCapacity else ErrSpoolRequestLimit"
      let ?m = "rejectSpool (if sr_used r + extra \<le> sr_limit r then ''aggregate_limit'' else ''request_limit'') m"
      have "sp_Grow extra r m = (Inl ?e, ?m)" using G 3 x False Cons.prems(2) by simp
      then have "v4Loop declared r m acc (p # ps) fin = (Inl ?e, r, ?m)" using 3 by (simp add: extra_def Let_def)
      moreover have "sr_used r + extra \<le> max d (int (length (acc @ concat (p # ps))))" using need 3 by simp
      then have "\<not> (max d (int (length (acc @ concat (p # ps)))) \<le> sr_limit r \<and>
          sm_current m - sr_used r + max d (int (length (acc @ concat (p # ps)))) \<le> sm_capacity m)" using False by linarith
      ultimately show ?thesis using Cons.prems(1,2) by (simp add: v4_outcome_def)
    qed
  qed
qed

text \<open>
  C19. A body whose hash was signed is accepted exactly when it ends properly, has that hash, and the larger
  of its length and the declared length fits the limit of the request and what is left of the shared
  capacity. The result is then the whole body, with a reservation that covers it. In every other case
  the outcome is an error and the bytes in use are what they were before: a rejected, cancelled or
  broken upload leaks nothing.
\<close>

theorem v4_payload_exact:
  assumes "spool_ok (m, rs)" "int (length (concat ps)) \<le> maxInt64" "in_int64 contentLength" "in_int64 limit"
    "verifyAndSpoolV4Payload D (Some c) contentLength limit False (ps, fin) m = (x, m')" "sg_verifyPayload c"
  shows "let need = max (max 0 contentLength) (int (length (concat ps))) in
    if fin = EOF \<and> dg_sha256 D (concat ps) = sg_expectedPayloadHash c \<and> need \<le> limit \<and> sm_current m + need \<le> sm_capacity m
    then x = Inr (concat ps, \<lparr>sr_limit = limit, sr_used = need, sr_released = False\<rparr>) \<and> sm_current m' = sm_current m + need
    else (\<exists>e. x = Inl e) \<and> sm_current m' = sm_current m"
proof -
  define d where "d = (if contentLength < 0 then 0 else contentLength)"
  have d: "0 \<le> d" "max 0 contentLength = d" by (auto simp: d_def)
  obtain a m1 where A: "sp_Acquire False d limit m = (a, m1)" by fastforce
  note aq = Acquire_ok [OF assms(1,4) A]
  have room: "(\<exists>r. a = Inr r) \<longleftrightarrow> d \<le> limit \<and> sm_current m + d \<le> sm_capacity m"
  proof -
    note inv = spool_okD [OF assms(1)]
    have "d \<le> sm_capacity m \<Longrightarrow> wrap64 (sm_capacity m - d) = sm_capacity m - d"
      using inv(1) d(1) by (intro wrap64_id) (simp add: in_int64_def int_limits)
    then show ?thesis using A inv(2,5) d(1) by (auto simp: sp_Acquire_def split: if_splits)
  qed
  show ?thesis
  proof (cases a)
    case (Inl e)
    then have "x = Inl e" "m' = m1" using assms(5,6) A by (simp_all add: verifyAndSpoolV4Payload_def d_def)
    then show ?thesis using aq room Inl d by (auto simp: Let_def)
  next
    case (Inr r)
    have r: "spool_ok (m1, rs @ [r])" "r = \<lparr>sr_limit = limit, sr_used = d, sr_released = False\<rparr>" using aq Inr by auto
    have cur: "sm_current m1 = sm_current m + d" "sm_capacity m1 = sm_capacity m"
      using r spool_okD(2) [OF r(1)] spool_okD(2) [OF assms(1)] A Inr by (auto simp: charge_def sp_Acquire_def split: if_splits)
    obtain y r2 m2 where L: "v4Loop d r m1 [] ps fin = (y, r2, m2)" by (metis prod_cases3)
    have out: "v4_outcome rs d limit (sm_current m) (sm_capacity m) (concat ps) fin (y, r2, m2)"
      using v4Loop_outcome [OF r(1), of d d "[]" ps fin] L r(2) d(1) assms(2) cur by simp
    have rel: "sm_current (snd (sp_Release r2 m2)) = sm_current m"
      using out Release_ok [of m2 "rs @ [r2]" "length rs"] spool_okD(2) [of m2 "rs @ [r2]"] spool_okD(2) [OF assms(1)]
      by (cases "sp_Release r2 m2") (auto simp: v4_outcome_def charge_def dest!: spool_okD(2))
    show ?thesis using assms(5,6) A Inr L out rel d room
      by (auto simp: verifyAndSpoolV4Payload_def d_def [symmetric] v4_outcome_def Let_def split: if_splits sum.splits)
  qed
qed

theorem v4_payload_exact_witness:
  "verifyAndSpoolV4Payload ex_digests (Some (ex_signing\<lparr>sg_verifyPayload := True\<rparr>)) 2 10 False ([[1, 2], [3]], EOF) (NewSpoolManager 100 False) =
     (Inr ([1, 2, 3], \<lparr>sr_limit = 10, sr_used = 3, sr_released = False\<rparr>), \<lparr>sm_current = 3, sm_capacity = 100, sm_observer = None\<rparr>)"
proof -
  let ?c = "ex_signing\<lparr>sg_verifyPayload := True\<rparr>" and ?m = "NewSpoolManager 100 False"
  obtain x m' where v: "verifyAndSpoolV4Payload ex_digests (Some ?c) 2 10 False ([[1, 2], [3]], EOF) ?m = (x, m')" by fastforce
  have ok: "spool_ok (?m, [])" by (simp add: spool_ok_def NewSpoolManager_def in_int64_def int_limits)
  have "x = Inr ([1, 2, 3], \<lparr>sr_limit = 10, sr_used = 3, sr_released = False\<rparr>)" "sm_current m' = 3"
    using v4_payload_exact [OF ok _ _ _ v]
    by (simp_all add: in_int64_def int_limits ex_digests_def ex_signing_def NewSpoolManager_def)
  moreover have "sm_capacity m' = 100" "sm_observer m' = None"
    using v by (auto simp: verifyAndSpoolV4Payload_def sp_Acquire_def sp_Grow_def NewSpoolManager_def ex_digests_def ex_signing_def
        observeLocked_def wrap64_def)
  ultimately show ?thesis using v by (cases m') simp
qed

section \<open>The writer of streamed bodies\<close>

record reserving_writer =
  rw_file :: bytes
  rw_reservation :: spool_reservation
  rw_remaining :: int

definition rw_Write :: "bytes \<Rightarrow> reserving_writer \<Rightarrow> spool_manager \<Rightarrow> (streaming_err + nat) \<times> reserving_writer \<times> spool_manager" where
  "rw_Write p w m =
     (let n = int (length p);
          extra = (if rw_remaining w \<ge> n then 0 else wrap64 (n - rw_remaining w))
      in if extra > maxInt64 \<or> extra < 0 then (Inl ErrSpoolRequestLimit, w, m)
         else case sp_Grow extra (rw_reservation w) m of
             (Inl e, m') \<Rightarrow> (Inl e, w, m')
           | (Inr r, m') \<Rightarrow>
               (Inr (length p),
                w\<lparr>rw_file := rw_file w @ p, rw_reservation := r,
                  rw_remaining := (if rw_remaining w \<ge> n then rw_remaining w - n else 0)\<rparr>, m'))"

text \<open>A file never outgrows the reservation that pays for it.\<close>

definition writer_ok :: "int \<Rightarrow> reserving_writer \<Rightarrow> bool" where
  "writer_ok d w \<longleftrightarrow> rw_remaining w = max 0 (d - int (length (rw_file w))) \<and> sr_used (rw_reservation w) = max d (int (length (rw_file w)))"

lemma rw_Write_ok:
  assumes "spool_ok (m, rs @ [rw_reservation w])" "writer_ok d w" "0 \<le> d" "int (length (rw_file w @ p)) \<le> maxInt64" "rw_Write p w m = (x, w', m')"
  shows "spool_ok (m', rs @ [rw_reservation w']) \<and> writer_ok d w' \<and> rw_file w' = (case x of Inr n \<Rightarrow> rw_file w @ p | Inl e \<Rightarrow> rw_file w)"
proof -
  let ?n = "int (length p)" and ?r = "rw_reservation w"
  define extra where "extra = (if rw_remaining w \<ge> ?n then 0 else ?n - rw_remaining w)"
  have b: "0 \<le> extra" "extra \<le> int (length (rw_file w @ p))" "in_int64 extra"
    using assms(2-4) by (auto simp: extra_def writer_ok_def in_int64_def int_limits)
  then have e: "(if rw_remaining w \<ge> ?n then 0 else wrap64 (?n - rw_remaining w)) = extra"
    by (auto simp: extra_def wrap64_id)
  obtain g m1 where G: "sp_Grow extra ?r m = (g, m1)" by fastforce
  note grow = Grow_ok [OF assms(1) _ b(3), of "length rs" g m1]
  show ?thesis
  proof (cases g)
    case (Inl e')
    then have "x = Inl e'" "w' = w" "m' = m1" using assms(5) e G b(1,3) by (auto simp: rw_Write_def Let_def in_int64_def)
    then show ?thesis using grow G Inl assms(2) by simp
  next
    case (Inr r)
    then have x: "x = Inr (length p)" "m' = m1" "w' = w\<lparr>rw_file := rw_file w @ p, rw_reservation := r,
        rw_remaining := (if rw_remaining w \<ge> ?n then rw_remaining w - ?n else 0)\<rparr>"
      using assms(5) e G b(1,3) by (auto simp: rw_Write_def Let_def in_int64_def)
    have "r = ?r\<lparr>sr_used := sr_used ?r + extra\<rparr>" "spool_ok (m1, rs @ [r])" using grow G Inr by auto
    then show ?thesis using x assms(2,3) by (auto simp: writer_ok_def extra_def max_def)
  qed
qed

end
