(* ===== verification/Metadata_Keys.thy ===== *)
theory Metadata_Keys
  imports Go_Strings "HOL-Library.AList"
begin

text \<open>
  Object metadata: the registry of gateway-owned keys (\<^verbatim>\<open>internal/crypto/metakeys.go\<close>, with the
  constants of \<^verbatim>\<open>engine.go\<close>, \<^verbatim>\<open>chunked.go\<close>, \<^verbatim>\<open>keymanager.go\<close> and \<^verbatim>\<open>mpu_iv.go\<close>), the standard headers
  (\<^verbatim>\<open>internal/objectmeta/standard.go\<close>), the provider profiles and the compaction of metadata for storage.
  A Go map from strings to strings is an association list without repeated keys, in the order in which
  the runtime iterates over it. Keys are HTTP header names: case folding is that of ASCII.
\<close>

section \<open>Keys\<close>

definition MetaEncrypted :: string where "MetaEncrypted = ''x-amz-meta-encrypted''"
definition MetaAlgorithm :: string where "MetaAlgorithm = ''x-amz-meta-encryption-algorithm''"
definition MetaKeySalt :: string where "MetaKeySalt = ''x-amz-meta-encryption-key-salt''"
definition MetaIV :: string where "MetaIV = ''x-amz-meta-encryption-iv''"
definition MetaAuthTag :: string where "MetaAuthTag = ''x-amz-meta-encryption-auth-tag''"
definition MetaOriginalSize :: string where "MetaOriginalSize = ''x-amz-meta-encryption-original-size''"
definition MetaOriginalETag :: string where "MetaOriginalETag = ''x-amz-meta-encryption-original-etag''"
definition MetaWrappedKeyCiphertext :: string where "MetaWrappedKeyCiphertext = ''x-amz-meta-encryption-wrapped-key''"
definition MetaKMSKeyID :: string where "MetaKMSKeyID = ''x-amz-meta-encryption-kms-id''"
definition MetaKMSProvider :: string where "MetaKMSProvider = ''x-amz-meta-encryption-kms-provider''"
definition MetaContentType :: string where "MetaContentType = ''x-amz-meta-encryption-content-type''"
definition MetaCacheControl :: string where "MetaCacheControl = ''x-amz-meta-encryption-cache-control''"
definition MetaContentDisposition :: string where "MetaContentDisposition = ''x-amz-meta-encryption-content-disposition''"
definition MetaContentEncoding :: string where "MetaContentEncoding = ''x-amz-meta-encryption-content-encoding''"
definition MetaContentLanguage :: string where "MetaContentLanguage = ''x-amz-meta-encryption-content-language''"
definition MetaExpires :: string where "MetaExpires = ''x-amz-meta-encryption-expires''"
definition MetaKDFParams :: string where "MetaKDFParams = ''x-amz-meta-encryption-kdf-params''"
definition MetaEncryptedMetadata :: string where "MetaEncryptedMetadata = ''x-amz-meta-enc-metadata''"
definition MetaFallbackMode :: string where "MetaFallbackMode = ''x-amz-meta-encryption-fallback''"
definition MetaFallbackPointer :: string where "MetaFallbackPointer = ''x-amz-meta-encryption-fallback-ptr''"
definition MetaFallbackVersion :: string where "MetaFallbackVersion = ''x-amz-meta-encryption-fallback-version''"
definition MetaLegacyNoAAD :: string where "MetaLegacyNoAAD = ''x-amz-meta-enc-legacy-no-aad''"
definition MetaObjectFormatVersion :: string where "MetaObjectFormatVersion = ''x-amz-meta-encryption-format-version''"
definition MetaObjectBindingID :: string where "MetaObjectBindingID = ''x-amz-meta-encryption-binding-id''"
definition MetaMPUManifestVersion :: string where "MetaMPUManifestVersion = ''x-amz-meta-encryption-mpu-manifest-version''"
definition MetaChunkedFormat :: string where "MetaChunkedFormat = ''x-amz-meta-encryption-chunked''"
definition MetaChunkSize :: string where "MetaChunkSize = ''x-amz-meta-encryption-chunk-size''"
definition MetaChunkCount :: string where "MetaChunkCount = ''x-amz-meta-encryption-chunk-count''"
definition MetaManifest :: string where "MetaManifest = ''x-amz-meta-encryption-manifest''"
definition MetaIVDerivation :: string where "MetaIVDerivation = ''x-amz-meta-enc-iv-deriv''"
definition MetaKeyVersion :: string where "MetaKeyVersion = ''x-amz-meta-encryption-key-version''"
definition MetaMPUEncrypted :: string where "MetaMPUEncrypted = ''x-amz-meta-encrypted-mpu''"

definition MetaEncryptedMetadataCompact :: string where "MetaEncryptedMetadataCompact = ''x-amz-meta-em''"

definition MetaOriginalContentLength :: string where "MetaOriginalContentLength = ''x-amz-meta-original-content-length''"

lemmas meta_defs =
  MetaEncrypted_def MetaAlgorithm_def MetaKeySalt_def MetaIV_def
  MetaAuthTag_def MetaOriginalSize_def MetaOriginalETag_def MetaWrappedKeyCiphertext_def
  MetaKMSKeyID_def MetaKMSProvider_def MetaContentType_def MetaCacheControl_def
  MetaContentDisposition_def MetaContentEncoding_def MetaContentLanguage_def MetaExpires_def
  MetaKDFParams_def MetaEncryptedMetadata_def MetaFallbackMode_def MetaFallbackPointer_def
  MetaFallbackVersion_def MetaLegacyNoAAD_def MetaObjectFormatVersion_def MetaObjectBindingID_def
  MetaMPUManifestVersion_def MetaChunkedFormat_def MetaChunkSize_def MetaChunkCount_def
  MetaManifest_def MetaIVDerivation_def MetaKeyVersion_def MetaMPUEncrypted_def
  MetaEncryptedMetadataCompact_def MetaOriginalContentLength_def

datatype meta_key_class = MetaClassControl | MetaClassProtectedStandard | MetaClassStructural

record meta_key_spec =
  ms_Canonical :: string
  ms_Compact :: string
  ms_Legacy :: "string list"
  ms_Class :: meta_key_class
  ms_Header :: string
  ms_LegacyEncryptionPredicate :: bool

definition spec_of :: "string \<Rightarrow> string \<Rightarrow> string list \<Rightarrow> meta_key_class \<Rightarrow> string \<Rightarrow> bool \<Rightarrow> meta_key_spec" where
  "spec_of canonical compact legacy cls header pred =
     \<lparr>ms_Canonical = canonical, ms_Compact = compact, ms_Legacy = legacy, ms_Class = cls, ms_Header = header,
      ms_LegacyEncryptionPredicate = pred\<rparr>"

definition metaKeyRegistry :: "meta_key_spec list" where
  "metaKeyRegistry =
    [spec_of MetaEncrypted ''x-amz-meta-e'' [] MetaClassControl [] True,
     spec_of MetaAlgorithm ''x-amz-meta-a'' [] MetaClassControl [] True,
     spec_of MetaKeySalt ''x-amz-meta-s'' [] MetaClassControl [] True,
     spec_of MetaIV ''x-amz-meta-i'' [] MetaClassControl [] True,
     spec_of MetaAuthTag [] [] MetaClassControl [] True,
     spec_of MetaOriginalSize ''x-amz-meta-os'' [] MetaClassControl [] True,
     spec_of MetaOriginalETag ''x-amz-meta-oe'' [] MetaClassControl [] True,
     spec_of MetaContentType ''x-amz-meta-ct'' [''encryption-content-type''] MetaClassProtectedStandard ''Content-Type'' True,
     spec_of MetaCacheControl ''x-amz-meta-ccache'' [''encryption-cache-control''] MetaClassProtectedStandard ''Cache-Control'' True,
     spec_of MetaContentDisposition ''x-amz-meta-cdisp'' [''encryption-content-disposition''] MetaClassProtectedStandard ''Content-Disposition'' True,
     spec_of MetaContentEncoding ''x-amz-meta-cenc'' [] MetaClassProtectedStandard ''Content-Encoding'' False,
     spec_of MetaContentLanguage ''x-amz-meta-clang'' [] MetaClassProtectedStandard ''Content-Language'' False,
     spec_of MetaExpires ''x-amz-meta-cexp'' [] MetaClassProtectedStandard ''Expires'' False,
     spec_of MetaChunkedFormat ''x-amz-meta-c'' [] MetaClassControl [] True,
     spec_of MetaChunkSize ''x-amz-meta-cs'' [] MetaClassControl [] True,
     spec_of MetaChunkCount ''x-amz-meta-cc'' [] MetaClassControl [] True,
     spec_of MetaManifest ''x-amz-meta-m'' [] MetaClassControl [] True,
     spec_of MetaKeyVersion ''x-amz-meta-kv'' [] MetaClassControl [] True,
     spec_of MetaWrappedKeyCiphertext ''x-amz-meta-wk'' [] MetaClassControl [] True,
     spec_of MetaKMSKeyID ''x-amz-meta-kid'' [] MetaClassControl [] True,
     spec_of MetaKMSProvider ''x-amz-meta-kp'' [] MetaClassControl [] True,
     spec_of MetaKDFParams ''x-amz-meta-kdf'' [] MetaClassControl [] True,
     spec_of MetaFallbackMode ''x-amz-meta-fb'' [] MetaClassStructural [] True,
     spec_of MetaFallbackPointer [] [] MetaClassStructural [] True,
     spec_of MetaFallbackVersion ''x-amz-meta-fbv'' [] MetaClassStructural [] True,
     spec_of MetaIVDerivation [] [] MetaClassControl [] True,
     spec_of MetaLegacyNoAAD [] [] MetaClassControl [] True,
     spec_of MetaObjectFormatVersion ''x-amz-meta-fmt'' [] MetaClassStructural [] True,
     spec_of MetaObjectBindingID ''x-amz-meta-bid'' [] MetaClassStructural [] True,
     spec_of MetaMPUManifestVersion [] [] MetaClassStructural [] True,
     spec_of MetaMPUEncrypted [] [] MetaClassStructural [] False,
     spec_of MetaEncryptedMetadata ''x-amz-meta-em'' [] MetaClassStructural [] False]"

text \<open>All names, as the start-up check of the package goes over them.\<close>

definition spec_names :: "meta_key_spec \<Rightarrow> string list" where
  "spec_names s = filter (\<lambda>n. n \<noteq> []) (ms_Canonical s # ms_Compact s # ms_Legacy s)"

definition metaKeyNames :: "string list" where
  "metaKeyNames = concat (map spec_names metaKeyRegistry)"

definition LookupMetaKey :: "string \<Rightarrow> meta_key_spec option" where
  "LookupMetaKey key =
     find (\<lambda>s. to_lower (ms_Canonical s) = to_lower key \<or> to_lower (ms_Compact s) = to_lower key \<or>
       list_ex (\<lambda>l. to_lower l = to_lower key) (ms_Legacy s)) metaKeyRegistry"

definition IsEncryptionMetadata :: "string \<Rightarrow> bool" where
  "IsEncryptionMetadata key \<longleftrightarrow>
     equal_fold key MetaOriginalContentLength \<or>
     (case LookupMetaKey key of None \<Rightarrow> False | Some s \<Rightarrow> ms_LegacyEncryptionPredicate s \<and> \<not> equal_fold key MetaEncrypted)"

definition isEncryptionPayloadMetadata :: "string \<Rightarrow> bool" where
  "isEncryptionPayloadMetadata key \<longleftrightarrow> IsEncryptionMetadata key \<and> \<not> equal_fold key MetaEncrypted"

definition isEncryptionCleanupMetadata :: "string \<Rightarrow> bool" where
  "isEncryptionCleanupMetadata key \<longleftrightarrow> IsEncryptionMetadata key \<or> equal_fold key MetaEncrypted"

definition IsGatewayReservedKey :: "string \<Rightarrow> bool" where
  "IsGatewayReservedKey key \<longleftrightarrow> equal_fold key MetaOriginalContentLength \<or> LookupMetaKey key \<noteq> None"

section \<open>Standard headers\<close>

definition standardNames :: "string list" where
  "standardNames = [''Content-Type'', ''Cache-Control'', ''Content-Disposition'', ''Content-Encoding'', ''Content-Language'', ''Expires'']"

definition IsStandard :: "string \<Rightarrow> bool" where
  "IsStandard name \<longleftrightarrow> list_ex (\<lambda>n. equal_fold name n) standardNames"

definition ProtectedStandardKeys :: "meta_key_spec list" where
  "ProtectedStandardKeys =
     concat (map (\<lambda>n. filter (\<lambda>s. ms_Class s = MetaClassProtectedStandard \<and> ms_Header s = n) metaKeyRegistry) standardNames)"

record standard =
  st_ContentType :: string
  st_CacheControl :: string
  st_ContentDisposition :: string
  st_ContentEncoding :: string
  st_ContentLanguage :: string
  st_Expires :: string

definition noStandard :: standard where
  "noStandard = \<lparr>st_ContentType = [], st_CacheControl = [], st_ContentDisposition = [], st_ContentEncoding = [],
     st_ContentLanguage = [], st_Expires = []\<rparr>"

definition standard_Get :: "standard \<Rightarrow> string \<Rightarrow> string" where
  "standard_Get s name =
     (let n = to_lower name in
      if n = ''content-type'' then st_ContentType s
      else if n = ''cache-control'' then st_CacheControl s
      else if n = ''content-disposition'' then st_ContentDisposition s
      else if n = ''content-encoding'' then st_ContentEncoding s
      else if n = ''content-language'' then st_ContentLanguage s
      else if n = ''expires'' then st_Expires s
      else [])"

definition standard_Set :: "standard \<Rightarrow> string \<Rightarrow> string \<Rightarrow> standard" where
  "standard_Set s name v =
     (let n = to_lower name in
      if n = ''content-type'' then s\<lparr>st_ContentType := v\<rparr>
      else if n = ''cache-control'' then s\<lparr>st_CacheControl := v\<rparr>
      else if n = ''content-disposition'' then s\<lparr>st_ContentDisposition := v\<rparr>
      else if n = ''content-encoding'' then s\<lparr>st_ContentEncoding := v\<rparr>
      else if n = ''content-language'' then s\<lparr>st_ContentLanguage := v\<rparr>
      else if n = ''expires'' then s\<lparr>st_Expires := v\<rparr>
      else s)"

section \<open>Maps\<close>

type_synonym meta = "(string \<times> string) list"

text \<open>Indexing a Go map gives the empty string for an absent key.\<close>

definition mget :: "meta \<Rightarrow> string \<Rightarrow> string" where
  "mget m k = (case map_of m k of None \<Rightarrow> [] | Some v \<Rightarrow> v)"

definition meta_merge :: "meta \<Rightarrow> meta \<Rightarrow> meta" where
  "meta_merge a b = fold (\<lambda>(k, v) m. AList.update k v m) b a"

definition metadataValue :: "meta \<Rightarrow> string \<Rightarrow> string option" where
  "metadataValue m name = map_option snd (find (\<lambda>(k, v). equal_fold k name) m)"

definition metadataValueFold :: "meta \<Rightarrow> string \<Rightarrow> string" where
  "metadataValueFold m name = (case metadataValue m name of None \<Rightarrow> [] | Some v \<Rightarrow> v)"

definition standard_Split :: "meta \<Rightarrow> standard \<times> meta" where
  "standard_Split m = (fold (\<lambda>(k, v) s. if IsStandard k then standard_Set s k v else s) m noStandard, filter (\<lambda>(k, v). \<not> IsStandard k) m)"

definition stampProtectedStandard :: "meta \<Rightarrow> meta \<Rightarrow> meta" where
  "stampProtectedStandard dst caller =
     fold (\<lambda>s m. let v = standard_Get (fst (standard_Split caller)) (ms_Header s) in if v \<noteq> [] then AList.update (ms_Canonical s) v m else m)
       ProtectedStandardKeys dst"

definition dropGatewayReserved :: "meta \<Rightarrow> meta" where
  "dropGatewayReserved m = filter (\<lambda>(k, v). \<not> IsGatewayReservedKey k) m"

definition HasCompactAlias :: "meta \<Rightarrow> bool" where
  "HasCompactAlias m \<longleftrightarrow> list_ex (\<lambda>s. ms_Compact s \<noteq> [] \<and> list_ex (\<lambda>(k, v). equal_fold k (ms_Compact s)) m) metaKeyRegistry"

definition IsEncryptedMetadata :: "meta \<Rightarrow> bool" where
  "IsEncryptedMetadata m \<longleftrightarrow>
     list_ex (\<lambda>(k, v). v = ''true'' \<and> (case LookupMetaKey k of None \<Rightarrow> False | Some s \<Rightarrow> equal_fold (ms_Canonical s) MetaEncrypted)) m"

definition EstimateMetadataSize :: "meta \<Rightarrow> nat" where
  "EstimateMetadataSize m = (\<Sum>(k, v)\<leftarrow>m. length k + 2 + length v + 2)"

text \<open>
  What a client sees. Of two spellings of a standard header the one that comes later in the
  iteration wins; \<^verbatim>\<open>http.CanonicalHeaderKey\<close> of a standard header is its entry in the list.
\<close>

definition canonicalStandard :: "string \<Rightarrow> string" where
  "canonicalStandard k = (case find (\<lambda>n. equal_fold k n) standardNames of None \<Rightarrow> k | Some n \<Rightarrow> n)"

definition protectedValue :: "meta \<Rightarrow> meta_key_spec \<Rightarrow> string" where
  "protectedValue m s =
     (case filter (\<lambda>v. v \<noteq> []) (metadataValueFold m (ms_Canonical s) #
        (if ms_Compact s \<noteq> [] then [metadataValueFold m (ms_Compact s)] else []) @ map (metadataValueFold m) (ms_Legacy s) @
        [metadataValueFold m (ms_Header s)]) of
      [] \<Rightarrow> [] | v # _ \<Rightarrow> v)"

definition plaintextMetadataView :: "meta \<Rightarrow> int \<Rightarrow> string \<Rightarrow> meta" where
  "plaintextMetadataView expanded plainLen originalETag =
     (let out = fold (\<lambda>(k, v) m. if IsGatewayReservedKey k \<or> equal_fold k ''Content-Length'' \<or> equal_fold k ''ETag'' then m
                 else AList.update (if IsStandard k then canonicalStandard k else k) v m) expanded [];
          out = fold (\<lambda>s m. if protectedValue expanded s \<noteq> [] then AList.update (ms_Header s) (protectedValue expanded s) m else m)
                 ProtectedStandardKeys out;
          out = (if plainLen \<ge> 0 then AList.update ''Content-Length'' (show_int plainLen) out else out)
      in if originalETag \<noteq> [] then AList.update ''ETag'' originalETag out else out)"

section \<open>The registry\<close>

lemma metaKeyNames_eq:
  "metaKeyNames =
    [MetaEncrypted, ''x-amz-meta-e'', MetaAlgorithm, ''x-amz-meta-a'', MetaKeySalt, ''x-amz-meta-s'', MetaIV, ''x-amz-meta-i'',
     MetaAuthTag, MetaOriginalSize, ''x-amz-meta-os'', MetaOriginalETag, ''x-amz-meta-oe'', MetaContentType, ''x-amz-meta-ct'',
     ''encryption-content-type'', MetaCacheControl, ''x-amz-meta-ccache'', ''encryption-cache-control'', MetaContentDisposition,
     ''x-amz-meta-cdisp'', ''encryption-content-disposition'', MetaContentEncoding, ''x-amz-meta-cenc'', MetaContentLanguage,
     ''x-amz-meta-clang'', MetaExpires, ''x-amz-meta-cexp'', MetaChunkedFormat, ''x-amz-meta-c'', MetaChunkSize, ''x-amz-meta-cs'',
     MetaChunkCount, ''x-amz-meta-cc'', MetaManifest, ''x-amz-meta-m'', MetaKeyVersion, ''x-amz-meta-kv'',
     MetaWrappedKeyCiphertext, ''x-amz-meta-wk'', MetaKMSKeyID, ''x-amz-meta-kid'', MetaKMSProvider, ''x-amz-meta-kp'',
     MetaKDFParams, ''x-amz-meta-kdf'', MetaFallbackMode, ''x-amz-meta-fb'', MetaFallbackPointer, MetaFallbackVersion,
     ''x-amz-meta-fbv'', MetaIVDerivation, MetaLegacyNoAAD, MetaObjectFormatVersion, ''x-amz-meta-fmt'', MetaObjectBindingID,
     ''x-amz-meta-bid'', MetaMPUManifestVersion, MetaMPUEncrypted, MetaEncryptedMetadata, ''x-amz-meta-em'']"
  by (simp add: metaKeyNames_def metaKeyRegistry_def spec_of_def spec_names_def meta_defs)

text \<open>The check of the package's \<^verbatim>\<open>init\<close> function passes, and every name is its own lower-case form.\<close>

lemma to_lower_name: "set s \<subseteq> set ''abcdefghijklmnopqrstuvwxyz-'' \<Longrightarrow> to_lower s = s"
  unfolding to_lower_def by (rule map_idI) (auto simp: to_lower_char_def)

lemma registry_distinct: "distinct metaKeyNames"
  unfolding metaKeyNames_eq by (simp add: meta_defs)

lemma registry_chars: "list_all (\<lambda>n. set n \<subseteq> set ''abcdefghijklmnopqrstuvwxyz-'') metaKeyNames"
  unfolding metaKeyNames_eq by (simp add: meta_defs)

lemma registry_lower: "n \<in> set metaKeyNames \<Longrightarrow> to_lower n = n"
  using registry_chars to_lower_name by (auto simp: list_all_iff)

lemma spec_names_sub: "s \<in> set metaKeyRegistry \<Longrightarrow> n \<in> set (spec_names s) \<Longrightarrow> n \<in> set metaKeyNames"
  by (auto simp: metaKeyNames_def)

text \<open>Inequations between the constants, in both directions, for the simplifier.\<close>

lemma canonical_distinct:
  "distinct
    [MetaEncrypted, MetaAlgorithm, MetaKeySalt, MetaIV, MetaAuthTag, MetaOriginalSize, MetaOriginalETag, MetaContentType,
     MetaCacheControl, MetaContentDisposition, MetaContentEncoding, MetaContentLanguage, MetaExpires, MetaChunkedFormat,
     MetaChunkSize, MetaChunkCount, MetaManifest, MetaKeyVersion, MetaWrappedKeyCiphertext, MetaKMSKeyID, MetaKMSProvider,
     MetaKDFParams, MetaFallbackMode, MetaFallbackPointer, MetaFallbackVersion, MetaIVDerivation, MetaLegacyNoAAD,
     MetaObjectFormatVersion, MetaObjectBindingID, MetaMPUManifestVersion, MetaMPUEncrypted, MetaEncryptedMetadata]"
  by (simp add: meta_defs)

lemma canonical_distinct_rev:
  "distinct
    [MetaEncryptedMetadata, MetaMPUEncrypted, MetaMPUManifestVersion, MetaObjectBindingID, MetaObjectFormatVersion, MetaLegacyNoAAD,
     MetaIVDerivation, MetaFallbackVersion, MetaFallbackPointer, MetaFallbackMode, MetaKDFParams, MetaKMSProvider, MetaKMSKeyID,
     MetaWrappedKeyCiphertext, MetaKeyVersion, MetaManifest, MetaChunkCount, MetaChunkSize, MetaChunkedFormat, MetaExpires,
     MetaContentLanguage, MetaContentEncoding, MetaContentDisposition, MetaCacheControl, MetaContentType, MetaOriginalETag,
     MetaOriginalSize, MetaAuthTag, MetaIV, MetaKeySalt, MetaAlgorithm, MetaEncrypted]"
  by (simp add: meta_defs)

lemmas meta_neq [simp] = canonical_distinct [simplified] canonical_distinct_rev [simplified]

end
