(* ===== verification/Metadata_Compaction.thy ===== *)
theory Metadata_Compaction
  imports Metadata_Keys
begin

text \<open>
  Provider profiles (\<^verbatim>\<open>internal/crypto/provider_profiles.go\<close>) and the compaction of metadata for storage
  (\<^verbatim>\<open>internal/crypto/metadata_compaction.go\<close>), with what survives a round trip through it.
\<close>

section \<open>Profiles\<close>

record provider_profile =
  pp_Name :: string
  pp_UserMetadataLimit :: nat
  pp_SystemMetadataLimit :: nat
  pp_TotalHeaderLimit :: nat
  pp_SupportsLongKeys :: bool
  pp_CompactionStrategy :: string

definition profile_of :: "string \<Rightarrow> string \<Rightarrow> provider_profile" where
  "profile_of name strategy = \<lparr>pp_Name = name, pp_UserMetadataLimit = 2048, pp_SystemMetadataLimit = 0, pp_TotalHeaderLimit = 8192,
     pp_SupportsLongKeys = True, pp_CompactionStrategy = strategy\<rparr>"

definition ProviderAWS :: provider_profile where "ProviderAWS = profile_of ''aws'' ''base64url''"
definition ProviderMinIO :: provider_profile where "ProviderMinIO = profile_of ''minio'' ''base64url''"
definition ProviderWasabi :: provider_profile where "ProviderWasabi = profile_of ''wasabi'' ''base64url''"
definition ProviderHetzner :: provider_profile where "ProviderHetzner = profile_of ''hetzner'' ''base64url''"
definition ProviderBackblaze :: provider_profile where "ProviderBackblaze = profile_of ''backblaze'' ''base64url''"
definition ProviderDefault :: provider_profile where "ProviderDefault = profile_of ''default'' ''none''"

definition GetProviderProfile :: "string \<Rightarrow> provider_profile" where
  "GetProviderProfile provider =
     (let p = to_lower provider in
      if p \<in> {''aws'', ''amazon'', ''s3''} then ProviderAWS
      else if p \<in> {''minio'', ''min.io''} then ProviderMinIO
      else if p = ''wasabi'' then ProviderWasabi
      else if p = ''hetzner'' then ProviderHetzner
      else if p \<in> {''backblaze'', ''b2''} then ProviderBackblaze
      else ProviderDefault)"

definition ResolveMetadataProfile :: "string \<Rightarrow> string \<Rightarrow> goerr + provider_profile" where
  "ResolveMetadataProfile provider mode =
     (if mode = [] \<or> mode = ''auto'' then Inr (GetProviderProfile provider)
      else if mode = ''compact'' then Inr ((GetProviderProfile provider)\<lparr>pp_CompactionStrategy := ''base64url''\<rparr>)
      else Inl (Err ''invalid backend.metadata_profile''))"

definition ValidateMetadataSize :: "provider_profile \<Rightarrow> meta \<Rightarrow> goerr + unit" where
  "ValidateMetadataSize p m =
     (if pp_TotalHeaderLimit p > 0 \<and> EstimateMetadataSize m > pp_TotalHeaderLimit p then Inl (Err ''metadata exceeds provider limits'')
      else if pp_UserMetadataLimit p > 0 \<and>
              EstimateMetadataSize (filter (\<lambda>(k, v). has_prefix (to_lower k) ''x-amz-meta-'') m) > pp_UserMetadataLimit p
      then Inl (Err ''metadata exceeds provider limits'')
      else Inr ())"

definition ShouldCompact :: "provider_profile \<Rightarrow> bool" where
  "ShouldCompact p \<longleftrightarrow> pp_CompactionStrategy p \<noteq> ''none''"

section \<open>Compaction\<close>

text \<open>The entries that the loops add have different keys, as the names of the registry are distinct.\<close>

definition compactValue :: "meta \<Rightarrow> meta_key_spec \<Rightarrow> string option" where
  "compactValue m s =
     (if ms_Compact s = [] \<or> ms_Canonical s = MetaEncrypted then None
      else case (case metadataValue m (ms_Canonical s) of Some v \<Rightarrow> Some v | None \<Rightarrow> metadataValue m (ms_Compact s)) of
          Some v \<Rightarrow> if v \<noteq> [] then Some v else None
        | None \<Rightarrow> None)"

definition compactEncryptionMetadata :: "provider_profile \<Rightarrow> meta \<Rightarrow> meta" where
  "compactEncryptionMetadata p m =
     (if pp_CompactionStrategy p = ''base64url''
      then List.map_filter (\<lambda>s. map_option (Pair (ms_Compact s)) (compactValue m s)) metaKeyRegistry
      else filter (\<lambda>(k, v). IsEncryptionMetadata k) m)"

definition CompactMetadata :: "provider_profile \<Rightarrow> meta \<Rightarrow> meta" where
  "CompactMetadata p m =
     (if \<not> ShouldCompact p then m
      else
        let compacted = filter (\<lambda>(k, v). \<not> (case LookupMetaKey k of None \<Rightarrow> False | Some s \<Rightarrow> ms_Compact s \<noteq> []) \<and> \<not> IsEncryptionMetadata k) m;
            marker = (case metadataValue m MetaEncrypted of
                Some v \<Rightarrow> Some v
              | None \<Rightarrow> metadataValue m (case LookupMetaKey MetaEncrypted of Some s \<Rightarrow> ms_Compact s | None \<Rightarrow> []));
            compacted = (case marker of Some v \<Rightarrow> AList.update MetaEncrypted v compacted | None \<Rightarrow> compacted)
        in meta_merge compacted (compactEncryptionMetadata p m))"

definition isCompactedKey :: "provider_profile \<Rightarrow> string \<Rightarrow> bool" where
  "isCompactedKey p key \<longleftrightarrow> pp_CompactionStrategy p = ''base64url'' \<and>
     list_ex (\<lambda>s. ms_Compact s \<noteq> [] \<and> equal_fold key (ms_Compact s)) metaKeyRegistry"

definition expandValue :: "meta \<Rightarrow> meta_key_spec \<Rightarrow> string option" where
  "expandValue m s =
     (if ms_Compact s = [] \<or> metadataValue m (ms_Canonical s) \<noteq> None then None
      else case metadataValue m (ms_Compact s) of Some v \<Rightarrow> if v \<noteq> [] then Some v else None | None \<Rightarrow> None)"

definition expandEncryptionMetadata :: "provider_profile \<Rightarrow> meta \<Rightarrow> meta" where
  "expandEncryptionMetadata p m =
     (if pp_CompactionStrategy p = ''base64url''
      then List.map_filter (\<lambda>s. map_option (Pair (ms_Canonical s)) (expandValue m s)) metaKeyRegistry
      else filter (\<lambda>(k, v). IsEncryptionMetadata k) m)"

definition ExpandMetadata :: "provider_profile \<Rightarrow> meta \<Rightarrow> meta" where
  "ExpandMetadata p m =
     (let expanded = filter (\<lambda>(k, v). \<not> isCompactedKey p k) m;
          expanded = (case metadataValue m MetaEncrypted of Some v \<Rightarrow> AList.update MetaEncrypted v expanded | None \<Rightarrow> expanded)
      in meta_merge expanded (expandEncryptionMetadata p m))"

definition ExpandMetadataForAPI :: "meta \<Rightarrow> meta" where
  "ExpandMetadataForAPI m = (if HasCompactAlias m then ExpandMetadata ProviderAWS m else m)"

definition expandMetadataForCrypto :: "meta \<Rightarrow> meta" where
  "expandMetadataForCrypto m = ExpandMetadata ProviderAWS m"

text \<open>Metadata as it is stored: without the headers that travel on their own.\<close>

definition persistedMetadataEnvelope :: "meta \<Rightarrow> meta" where
  "persistedMetadataEnvelope m =
     fold (\<lambda>(k, v) out.
       if IsStandard k \<or> equal_fold k ''content-length'' \<or> equal_fold k ''etag'' \<or> equal_fold k ''last-modified'' then out
       else AList.update (if has_prefix (to_lower k) ''x-amz-meta-'' then k else ''x-amz-meta-'' @ k) v out) m []"

section \<open>Lookups in tidy maps\<close>

text \<open>
  In a tidy map every gateway-owned key is spelled as in the registry, in a clean one by its
  canonical name. What the gateway writes is clean before compaction, since caller keys that fold to a
  registered name are dropped.
\<close>

definition tidy :: "meta \<Rightarrow> bool" where
  "tidy m \<longleftrightarrow> distinct (map fst m) \<and> (\<forall>k \<in> fst ` set m. IsGatewayReservedKey k \<longrightarrow> k \<in> set metaKeyNames)"

definition canonicalNames :: "string list" where
  "canonicalNames = map ms_Canonical metaKeyRegistry"

definition clean :: "meta \<Rightarrow> bool" where
  "clean m \<longleftrightarrow> distinct (map fst m) \<and> (\<forall>k \<in> fst ` set m. IsGatewayReservedKey k \<longrightarrow> k \<in> set canonicalNames)"

lemma registry_names:
  "s \<in> set metaKeyRegistry \<Longrightarrow> ms_Canonical s \<in> set metaKeyNames"
  "s \<in> set metaKeyRegistry \<Longrightarrow> ms_Compact s \<noteq> [] \<Longrightarrow> ms_Compact s \<in> set metaKeyNames"
proof -
  have "list_all (\<lambda>s. ms_Canonical s \<noteq> []) metaKeyRegistry" by (simp add: metaKeyRegistry_def spec_of_def meta_defs)
  then show "s \<in> set metaKeyRegistry \<Longrightarrow> ms_Canonical s \<in> set metaKeyNames"
    using spec_names_sub [of s "ms_Canonical s"] by (auto simp: spec_names_def list_all_iff)
  show "s \<in> set metaKeyRegistry \<Longrightarrow> ms_Compact s \<noteq> [] \<Longrightarrow> ms_Compact s \<in> set metaKeyNames"
    using spec_names_sub [of s "ms_Compact s"] by (auto simp: spec_names_def)
qed

lemma clean_tidy: "clean m \<Longrightarrow> tidy m"
  by (auto simp: clean_def tidy_def canonicalNames_def registry_names)

lemma reserved_name: "n \<in> set metaKeyNames \<Longrightarrow> to_lower k = n \<Longrightarrow> LookupMetaKey k \<noteq> None"
proof -
  assume n: "n \<in> set metaKeyNames" and k: "to_lower k = n"
  then obtain s where s: "s \<in> set metaKeyRegistry" "n \<in> set (spec_names s)" by (auto simp: metaKeyNames_def)
  then have "to_lower (ms_Canonical s) = to_lower k \<or> to_lower (ms_Compact s) = to_lower k \<or> list_ex (\<lambda>l. to_lower l = to_lower k) (ms_Legacy s)"
    using registry_lower [OF n] k by (auto simp: spec_names_def list_ex_iff split: if_splits)
  then show ?thesis using s(1) unfolding LookupMetaKey_def find_None_iff by blast
qed

lemma metadataValue_tidy:
  assumes "tidy m" "n \<in> set metaKeyNames"
  shows "metadataValue m n = map_of m n"
proof -
  have eq: "equal_fold k n \<longleftrightarrow> k = n" if "k \<in> fst ` set m" for k
  proof
    assume "equal_fold k n"
    then have "to_lower k = n" using registry_lower [OF assms(2)] by (simp add: equal_fold_def)
    moreover from this have "k \<in> set metaKeyNames"
      using that assms reserved_name [of n k] by (auto simp: tidy_def IsGatewayReservedKey_def)
    ultimately show "k = n" using registry_lower by simp
  qed simp
  have "map_option snd (find (\<lambda>(k, v). equal_fold k n) m) = map_of m n" using eq
    by (induction m) auto
  then show ?thesis by (simp add: metadataValue_def)
qed

section \<open>Compaction and expansion as functions\<close>

lemma fst_map_filter: "fst ` set (List.map_filter (\<lambda>s. map_option (Pair (g s)) (h s)) xs) = g ` {s \<in> set xs. h s \<noteq> None}"
  by (induction xs) (auto simp: List.map_filter_simps split: option.splits)

lemma map_filter_None: "k \<notin> g ` {s \<in> set xs. h s \<noteq> None} \<Longrightarrow> map_of (List.map_filter (\<lambda>s. map_option (Pair (g s)) (h s)) xs) k = None"
  by (simp only: map_of_eq_None_iff fst_map_filter) simp

lemma map_filter_Some:
  "s \<in> set xs \<Longrightarrow> (\<And>t. t \<in> set xs \<Longrightarrow> h t \<noteq> None \<Longrightarrow> g t = g s \<Longrightarrow> t = s) \<Longrightarrow>
     map_of (List.map_filter (\<lambda>s. map_option (Pair (g s)) (h s)) xs) (g s) = h s"
proof (induction xs)
  case (Cons x xs)
  show ?case
  proof (cases "x = s")
    case True
    moreover have "h s = None \<Longrightarrow> g s \<notin> g ` {t \<in> set xs. h t \<noteq> None}" using Cons.prems(2) by fastforce
    ultimately show ?thesis using map_filter_None [of "g s" g xs h] by (cases "h s") (auto simp: List.map_filter_simps)
  next
    case False
    then show ?thesis using Cons by (cases "h x") (auto simp: List.map_filter_simps)
  qed
qed simp

lemma distinct_map_filter:
  "distinct (map g (filter (\<lambda>s. h s \<noteq> None) xs)) \<Longrightarrow> distinct (map fst (List.map_filter (\<lambda>s. map_option (Pair (g s)) (h s)) xs))"
proof (induction xs)
  case (Cons x xs)
  then show ?case using fst_map_filter [of g h xs] by (auto simp: List.map_filter_simps split: option.splits if_splits)
qed (simp add: List.map_filter_simps)

lemma map_of_filter_key: "map_of (filter (\<lambda>(k, v). P k) m) k = (if P k then map_of m k else None)"
  by (induction m) auto

lemma distinct_filter_keys: "distinct (map fst m) \<Longrightarrow> distinct (map fst (filter P m))"
  by (induction m) (auto dest: filter_is_subset [THEN subsetD])

lemma map_of_merge: "distinct (map fst b) \<Longrightarrow> map_of (meta_merge a b) = map_of a ++ map_of b"
proof (induction b arbitrary: a)
  case (Cons x b)
  then have "map_of (meta_merge (AList.update (fst x) (snd x) a) b) = (map_of a)(fst x \<mapsto> snd x) ++ map_of b"
    by (simp add: update_conv')
  moreover have "map_of b (fst x) = None" using Cons.prems by (simp add: map_of_eq_None_iff)
  ultimately show ?case by (auto simp: meta_merge_def case_prod_unfold map_add_def fun_eq_iff split: option.splits)
qed (simp add: meta_merge_def)

lemma merge_keys:
  "fst ` set (meta_merge a b) = fst ` set a \<union> fst ` set b" "distinct (map fst a) \<Longrightarrow> distinct (map fst (meta_merge a b))"
  by (induction b arbitrary: a) (auto simp: meta_merge_def case_prod_unfold dom_update distinct_update)

lemma distinct_concat_unique:
  "distinct (concat (map f xs)) \<Longrightarrow> x \<in> set xs \<Longrightarrow> y \<in> set xs \<Longrightarrow> n \<in> set (f x) \<Longrightarrow> n \<in> set (f y) \<Longrightarrow> x = y"
  by (induction xs) auto

lemma spec_unique: "s \<in> set metaKeyRegistry \<Longrightarrow> t \<in> set metaKeyRegistry \<Longrightarrow> n \<in> set (spec_names s) \<Longrightarrow> n \<in> set (spec_names t) \<Longrightarrow> s = t"
  using registry_distinct distinct_concat_unique unfolding metaKeyNames_def by metis

lemma Lookup_name:
  assumes "s \<in> set metaKeyRegistry" "n \<in> set (spec_names s)"
  shows "LookupMetaKey n = Some s"
proof -
  have n: "to_lower n = n" "n \<noteq> []" using registry_lower [OF spec_names_sub [OF assms]] assms(2) unfolding spec_names_def by (auto simp only: set_filter)
  obtain t where t: "LookupMetaKey n = Some t" using reserved_name [OF spec_names_sub [OF assms] n(1)] by blast
  then have tt: "t \<in> set metaKeyRegistry" "to_lower (ms_Canonical t) = n \<or> to_lower (ms_Compact t) = n \<or> list_ex (\<lambda>l. to_lower l = n) (ms_Legacy t)"
    using n(1) by (auto simp: LookupMetaKey_def find_Some_iff in_set_conv_nth)
  have low: "x \<in> set (spec_names t) \<Longrightarrow> to_lower x = x" for x using registry_lower spec_names_sub [OF tt(1)] by blast
  have "n \<in> set (spec_names t)"
    using tt(2) low n(2) by (fastforce simp: spec_names_def list_ex_iff to_lower_def)
  then show ?thesis using t spec_unique [OF tt(1) assms(1) _ assms(2)] by blast
qed

lemma registry_set_distinct: "distinct metaKeyRegistry"
proof -
  have "distinct (map ms_Canonical metaKeyRegistry)" using canonical_distinct by (simp add: metaKeyRegistry_def spec_of_def)
  then show ?thesis by (simp add: distinct_map)
qed

lemma canonical_in: "s \<in> set metaKeyRegistry \<Longrightarrow> ms_Canonical s \<in> set (spec_names s)"
proof -
  have "list_all (\<lambda>s. ms_Canonical s \<noteq> []) metaKeyRegistry" by (simp add: metaKeyRegistry_def spec_of_def meta_defs)
  then show "s \<in> set metaKeyRegistry \<Longrightarrow> ?thesis" by (auto simp: spec_names_def list_all_iff)
qed

lemma compact_in: "ms_Compact s \<noteq> [] \<Longrightarrow> ms_Compact s \<in> set (spec_names s)"
  by (auto simp: spec_names_def)

lemma spec_inj:
  "s \<in> set metaKeyRegistry \<Longrightarrow> t \<in> set metaKeyRegistry \<Longrightarrow> ms_Compact s = ms_Compact t \<Longrightarrow> ms_Compact s \<noteq> [] \<Longrightarrow> s = t"
  "s \<in> set metaKeyRegistry \<Longrightarrow> t \<in> set metaKeyRegistry \<Longrightarrow> ms_Canonical s = ms_Canonical t \<Longrightarrow> s = t"
  using spec_unique compact_in canonical_in by metis+

lemma compact_not_canonical:
  assumes "s \<in> set metaKeyRegistry" "t \<in> set metaKeyRegistry" "ms_Compact s \<noteq> []"
  shows "ms_Compact s \<noteq> ms_Canonical t"
proof
  assume eq: "ms_Compact s = ms_Canonical t"
  then have st: "s = t" using spec_unique [OF assms(1,2), of "ms_Compact s"] compact_in [OF assms(3)] canonical_in [OF assms(2)] by simp
  have "distinct (spec_names s)"
    using registry_distinct assms(1) unfolding metaKeyNames_def by (auto simp: distinct_concat_iff)
  then show False using eq st assms(3) canonical_in [OF assms(1)] by (auto simp: spec_names_def split: if_splits)
qed

text \<open>Empty values do not survive compaction; a lookup does not tell them from absent ones.\<close>

definition nonempty :: "string option \<Rightarrow> string option" where
  "nonempty x = (case x of Some v \<Rightarrow> if v \<noteq> [] then Some v else None | None \<Rightarrow> None)"

definition aliased :: "meta_key_spec \<Rightarrow> bool" where
  "aliased s \<longleftrightarrow> s \<in> set metaKeyRegistry \<and> ms_Compact s \<noteq> [] \<and> ms_Canonical s \<noteq> MetaEncrypted"

lemma clean_compact_None: "clean m \<Longrightarrow> s \<in> set metaKeyRegistry \<Longrightarrow> ms_Compact s \<noteq> [] \<Longrightarrow> map_of m (ms_Compact s) = None"
proof -
  assume m: "clean m" and s: "s \<in> set metaKeyRegistry" "ms_Compact s \<noteq> []"
  have "IsGatewayReservedKey (ms_Compact s)" using Lookup_name [OF s(1) compact_in [OF s(2)]] by (simp add: IsGatewayReservedKey_def)
  then have "ms_Compact s \<in> fst ` set m \<Longrightarrow> ms_Compact s \<in> set canonicalNames" using m unfolding clean_def by blast
  then show ?thesis using compact_not_canonical [OF s(1) _ s(2)] by (auto simp: map_of_eq_None_iff canonicalNames_def)
qed

lemma compactValue_clean: "clean m \<Longrightarrow> s \<in> set metaKeyRegistry \<Longrightarrow> compactValue m s = (if aliased s then nonempty (map_of m (ms_Canonical s)) else None)"
  using metadataValue_tidy [OF clean_tidy] registry_names clean_compact_None [of m s]
  by (auto simp: compactValue_def aliased_def nonempty_def split: option.splits)

lemma map_of_compactEnc:
  assumes "clean m" "pp_CompactionStrategy p = ''base64url''"
  shows "aliased s \<Longrightarrow> map_of (compactEncryptionMetadata p m) (ms_Compact s) = nonempty (map_of m (ms_Canonical s))"
    "k \<notin> ms_Compact ` Collect aliased \<Longrightarrow> map_of (compactEncryptionMetadata p m) k = None"
    "distinct (map fst (compactEncryptionMetadata p m))"
proof -
  have e: "compactEncryptionMetadata p m = List.map_filter (\<lambda>s. map_option (Pair (ms_Compact s)) (compactValue m s)) metaKeyRegistry"
    using assms(2) by (simp add: compactEncryptionMetadata_def)
  have al: "aliased t" if "t \<in> set metaKeyRegistry" "compactValue m t \<noteq> None" for t
    using that compactValue_clean [OF assms(1)] by (auto split: if_splits)
  have inj: "t = u" if "aliased t" "aliased u" "ms_Compact t = ms_Compact u" for t u
    using that spec_unique [of t u "ms_Compact t"] compact_in [of t] compact_in [of u] by (auto simp: aliased_def)
  show "aliased s \<Longrightarrow> map_of (compactEncryptionMetadata p m) (ms_Compact s) = nonempty (map_of m (ms_Canonical s))"
    unfolding e using map_filter_Some [of s metaKeyRegistry "compactValue m" ms_Compact] al inj compactValue_clean [OF assms(1), of s]
    by (auto simp: aliased_def)
  show "k \<notin> ms_Compact ` Collect aliased \<Longrightarrow> map_of (compactEncryptionMetadata p m) k = None"
    unfolding e using al by (intro map_filter_None) auto
  show "distinct (map fst (compactEncryptionMetadata p m))"
    unfolding e using al inj registry_set_distinct
    by (intro distinct_map_filter) (auto simp: distinct_map inj_on_def)
qed

lemma Lookup_canonical: "s \<in> set metaKeyRegistry \<Longrightarrow> LookupMetaKey (ms_Canonical s) = Some s"
  by (rule Lookup_name [OF _ canonical_in])

lemma MetaEncrypted_spec: "spec_of MetaEncrypted ''x-amz-meta-e'' [] MetaClassControl [] True \<in> set metaKeyRegistry"
  by (simp add: metaKeyRegistry_def)

lemma MetaEncrypted_name: "MetaEncrypted \<in> set metaKeyNames" "LookupMetaKey MetaEncrypted = Some (spec_of MetaEncrypted ''x-amz-meta-e'' [] MetaClassControl [] True)"
  using registry_names(1) [OF MetaEncrypted_spec] Lookup_canonical [OF MetaEncrypted_spec] by (simp_all add: spec_of_def)

lemma equal_fold_name: "n \<in> set metaKeyNames \<Longrightarrow> k \<in> set metaKeyNames \<Longrightarrow> equal_fold k n \<longleftrightarrow> k = n"
  by (simp add: equal_fold_def registry_lower)

lemma contentLength_not_name: "n \<in> set metaKeyNames \<Longrightarrow> \<not> equal_fold n MetaOriginalContentLength"
proof -
  have "MetaOriginalContentLength \<notin> set metaKeyNames" unfolding metaKeyNames_eq by (simp add: meta_defs)
  moreover have "to_lower MetaOriginalContentLength = MetaOriginalContentLength"
    by (rule to_lower_name) (simp add: MetaOriginalContentLength_def)
  ultimately show "n \<in> set metaKeyNames \<Longrightarrow> ?thesis" by (metis equal_fold_def registry_lower)
qed

text \<open>The keys that the first loop of \<^verbatim>\<open>CompactMetadata\<close> keeps.\<close>

definition compactKeeps :: "string \<Rightarrow> bool" where
  "compactKeeps k \<longleftrightarrow> \<not> (case LookupMetaKey k of None \<Rightarrow> False | Some s \<Rightarrow> ms_Compact s \<noteq> []) \<and> \<not> IsEncryptionMetadata k"

lemma compactKeeps_simps:
  "\<not> IsGatewayReservedKey k \<Longrightarrow> compactKeeps k"
  "aliased s \<Longrightarrow> n \<in> set (spec_names s) \<Longrightarrow> \<not> compactKeeps n"
  "s \<in> set metaKeyRegistry \<Longrightarrow> ms_Compact s = [] \<Longrightarrow> compactKeeps (ms_Canonical s) \<longleftrightarrow> \<not> ms_LegacyEncryptionPredicate s"
  "compactKeeps k \<Longrightarrow> IsGatewayReservedKey k \<Longrightarrow> tidy m \<Longrightarrow> k \<in> fst ` set m \<Longrightarrow> k \<in> set metaKeyNames"
proof -
  show "\<not> IsGatewayReservedKey k \<Longrightarrow> compactKeeps k"
    by (auto simp: IsGatewayReservedKey_def compactKeeps_def IsEncryptionMetadata_def)
  show "aliased s \<Longrightarrow> n \<in> set (spec_names s) \<Longrightarrow> \<not> compactKeeps n"
    using Lookup_name [of s n] by (simp add: aliased_def compactKeeps_def)
  show "s \<in> set metaKeyRegistry \<Longrightarrow> ms_Compact s = [] \<Longrightarrow> compactKeeps (ms_Canonical s) \<longleftrightarrow> \<not> ms_LegacyEncryptionPredicate s"
  proof -
    assume s: "s \<in> set metaKeyRegistry" "ms_Compact s = []"
    then have "ms_Canonical s \<noteq> MetaEncrypted"
      using MetaEncrypted_name(2) Lookup_canonical [OF s(1)] by (auto simp: spec_of_def)
    then show ?thesis
      using s Lookup_canonical [OF s(1)] contentLength_not_name registry_names(1) [OF s(1)] equal_fold_name [OF MetaEncrypted_name(1)]
      by (auto simp: compactKeeps_def IsEncryptionMetadata_def)
  qed
  show "compactKeeps k \<Longrightarrow> IsGatewayReservedKey k \<Longrightarrow> tidy m \<Longrightarrow> k \<in> fst ` set m \<Longrightarrow> k \<in> set metaKeyNames"
    unfolding tidy_def by blast
qed

lemma CompactMetadata_eq:
  assumes "clean m" "pp_CompactionStrategy p = ''base64url''"
  shows "CompactMetadata p m = meta_merge (case map_of m MetaEncrypted of Some v \<Rightarrow> AList.update MetaEncrypted v (filter (\<lambda>(k, v). compactKeeps k) m)
    | None \<Rightarrow> filter (\<lambda>(k, v). compactKeeps k) m) (compactEncryptionMetadata p m)"
proof -
  have "metadataValue m MetaEncrypted = map_of m MetaEncrypted" "metadataValue m ''x-amz-meta-e'' = None"
    using metadataValue_tidy [OF clean_tidy [OF assms(1)]] MetaEncrypted_name(1) registry_names(2) [OF MetaEncrypted_spec]
      clean_compact_None [OF assms(1) MetaEncrypted_spec] by (simp_all add: spec_of_def)
  then show ?thesis using assms(2) MetaEncrypted_name(2)
    by (simp add: CompactMetadata_def ShouldCompact_def Let_def compactKeeps_def [abs_def] spec_of_def split: option.splits)
qed

lemma map_of_CompactMetadata:
  assumes "clean m" "pp_CompactionStrategy p = ''base64url''"
  shows "aliased s \<Longrightarrow> map_of (CompactMetadata p m) (ms_Compact s) = nonempty (map_of m (ms_Canonical s))"
    "k \<notin> ms_Compact ` Collect aliased \<Longrightarrow> map_of (CompactMetadata p m) k = (if compactKeeps k \<or> k = MetaEncrypted then map_of m k else None)"
    "tidy (CompactMetadata p m)"
proof -
  note enc = map_of_compactEnc [OF assms]
  define base where "base = (case map_of m MetaEncrypted of Some v \<Rightarrow> AList.update MetaEncrypted v (filter (\<lambda>(k, v). compactKeeps k) m)
    | None \<Rightarrow> filter (\<lambda>(k, v). compactKeeps k) m)"
  have base: "map_of base k = (if compactKeeps k \<or> k = MetaEncrypted then map_of m k else None)" for k
    by (auto simp: base_def update_conv' map_of_filter_key split: option.splits)
  have eq: "CompactMetadata p m = meta_merge base (compactEncryptionMetadata p m)"
    using CompactMetadata_eq [OF assms] by (simp add: base_def)
  have mo: "map_of (CompactMetadata p m) = map_of base ++ map_of (compactEncryptionMetadata p m)"
    unfolding eq by (rule map_of_merge) (rule enc(3))
  have not_enc: "ms_Compact s \<noteq> MetaEncrypted" if "aliased s" for s
    using compact_not_canonical [of s, OF _ MetaEncrypted_spec] that by (auto simp: aliased_def spec_of_def)
  show "aliased s \<Longrightarrow> map_of (CompactMetadata p m) (ms_Compact s) = nonempty (map_of m (ms_Canonical s))"
    using enc(1) base not_enc compactKeeps_simps(2) [of s "ms_Compact s"] compact_in [of s]
    by (auto simp: mo map_add_def aliased_def split: option.splits)
  show "k \<notin> ms_Compact ` Collect aliased \<Longrightarrow> map_of (CompactMetadata p m) k = (if compactKeeps k \<or> k = MetaEncrypted then map_of m k else None)"
    using enc(2) base by (simp add: mo map_add_def)
  have "distinct (map fst base)" using assms(1)
    by (auto simp: base_def clean_def distinct_update distinct_filter_keys split: option.splits)
  then have "distinct (map fst (CompactMetadata p m))" unfolding eq by (rule merge_keys(2))
  moreover have "k \<in> set metaKeyNames" if k: "k \<in> fst ` set (CompactMetadata p m)" "IsGatewayReservedKey k" for k
  proof (cases "k \<in> ms_Compact ` Collect aliased")
    case True
    then show ?thesis using registry_names(2) by (auto simp: aliased_def)
  next
    case False
    then have "map_of (compactEncryptionMetadata p m) k = None" by (rule enc(2))
    then have "k \<in> fst ` set base" using k(1) by (auto simp: eq merge_keys map_of_eq_None_iff)
    then have "map_of base k \<noteq> None" by (simp add: map_of_eq_None_iff)
    then have "k = MetaEncrypted \<or> k \<in> fst ` set m" using base [of k] by (metis map_of_eq_None_iff)
    then show ?thesis using k(2) clean_tidy [OF assms(1)] MetaEncrypted_name(1) by (auto simp: tidy_def)
  qed
  ultimately show "tidy (CompactMetadata p m)" by (simp add: tidy_def)
qed

section \<open>Round trip\<close>

definition hasAlias :: "meta_key_spec \<Rightarrow> bool" where
  "hasAlias s \<longleftrightarrow> s \<in> set metaKeyRegistry \<and> ms_Compact s \<noteq> []"

lemma AWS_strategy [simp]: "pp_CompactionStrategy ProviderAWS = ''base64url''"
  by (simp add: ProviderAWS_def profile_of_def)

lemma expandValue_tidy:
  "tidy n \<Longrightarrow> s \<in> set metaKeyRegistry \<Longrightarrow> expandValue n s = (if hasAlias s \<and> map_of n (ms_Canonical s) = None then nonempty (map_of n (ms_Compact s)) else None)"
  using metadataValue_tidy [of n] registry_names [of s]
  by (auto simp: expandValue_def hasAlias_def nonempty_def split: option.splits)

lemma map_of_expandEnc:
  assumes "tidy n"
  shows "hasAlias s \<Longrightarrow> map_of (expandEncryptionMetadata ProviderAWS n) (ms_Canonical s) =
      (if map_of n (ms_Canonical s) = None then nonempty (map_of n (ms_Compact s)) else None)"
    "k \<notin> ms_Canonical ` Collect hasAlias \<Longrightarrow> map_of (expandEncryptionMetadata ProviderAWS n) k = None"
    "distinct (map fst (expandEncryptionMetadata ProviderAWS n))"
proof -
  have e: "expandEncryptionMetadata ProviderAWS n = List.map_filter (\<lambda>s. map_option (Pair (ms_Canonical s)) (expandValue n s)) metaKeyRegistry"
    by (simp add: expandEncryptionMetadata_def)
  have al: "hasAlias t" if "t \<in> set metaKeyRegistry" "expandValue n t \<noteq> None" for t
    using that expandValue_tidy [OF assms] by (auto split: if_splits)
  have inj: "t = u" if "t \<in> set metaKeyRegistry" "u \<in> set metaKeyRegistry" "ms_Canonical t = ms_Canonical u" for t u
    using that spec_unique [of t u "ms_Canonical t"] canonical_in [of t] canonical_in [of u] by simp
  show "hasAlias s \<Longrightarrow> map_of (expandEncryptionMetadata ProviderAWS n) (ms_Canonical s) =
      (if map_of n (ms_Canonical s) = None then nonempty (map_of n (ms_Compact s)) else None)"
    unfolding e using map_filter_Some [of s metaKeyRegistry "expandValue n" ms_Canonical] inj expandValue_tidy [OF assms, of s]
    by (auto simp: hasAlias_def)
  show "k \<notin> ms_Canonical ` Collect hasAlias \<Longrightarrow> map_of (expandEncryptionMetadata ProviderAWS n) k = None"
    unfolding e using al by (intro map_filter_None) auto
  show "distinct (map fst (expandEncryptionMetadata ProviderAWS n))"
    unfolding e using inj registry_set_distinct
    by (intro distinct_map_filter) (auto simp: distinct_map inj_on_def)
qed

lemma canonical_not_compacted:
  assumes "s \<in> set metaKeyRegistry"
  shows "\<not> isCompactedKey ProviderAWS (ms_Canonical s)"
proof
  assume "isCompactedKey ProviderAWS (ms_Canonical s)"
  then obtain t where t: "t \<in> set metaKeyRegistry" "ms_Compact t \<noteq> []" "equal_fold (ms_Canonical s) (ms_Compact t)"
    by (auto simp: isCompactedKey_def list_ex_iff)
  then show False
    using compact_not_canonical [OF t(1) assms t(2)] equal_fold_name [OF registry_names(2) [OF t(1,2)] registry_names(1) [OF assms]] by simp
qed

lemma map_of_expand:
  assumes "tidy n"
  shows "hasAlias s \<Longrightarrow> map_of (expandMetadataForCrypto n) (ms_Canonical s) =
      (case map_of n (ms_Canonical s) of Some v \<Rightarrow> Some v | None \<Rightarrow> nonempty (map_of n (ms_Compact s)))"
    "k \<notin> ms_Canonical ` Collect hasAlias \<Longrightarrow> map_of (expandMetadataForCrypto n) k = (if isCompactedKey ProviderAWS k then None else map_of n k)"
proof -
  note enc = map_of_expandEnc [OF assms]
  have "metadataValue n MetaEncrypted = map_of n MetaEncrypted" by (rule metadataValue_tidy [OF assms MetaEncrypted_name(1)])
  moreover have "\<not> isCompactedKey ProviderAWS MetaEncrypted" using canonical_not_compacted [OF MetaEncrypted_spec] by (simp add: spec_of_def)
  ultimately have mo: "map_of (expandMetadataForCrypto n) k =
      ((\<lambda>k. if isCompactedKey ProviderAWS k then None else map_of n k) ++ map_of (expandEncryptionMetadata ProviderAWS n)) k" for k
    by (auto simp: expandMetadataForCrypto_def ExpandMetadata_def Let_def map_of_merge enc(3) update_conv' map_of_filter_key map_add_def
        split: option.splits)
  show "hasAlias s \<Longrightarrow> map_of (expandMetadataForCrypto n) (ms_Canonical s) =
      (case map_of n (ms_Canonical s) of Some v \<Rightarrow> Some v | None \<Rightarrow> nonempty (map_of n (ms_Compact s)))"
    using enc(1) canonical_not_compacted by (auto simp: mo map_add_def hasAlias_def split: option.splits)
  show "k \<notin> ms_Canonical ` Collect hasAlias \<Longrightarrow> map_of (expandMetadataForCrypto n) k = (if isCompactedKey ProviderAWS k then None else map_of n k)"
    using enc(2) by (simp add: mo map_add_def)
qed

text \<open>The gateway-owned keys without an alias that compaction drops.\<close>

definition droppedKeys :: "string list" where
  "droppedKeys = [MetaAuthTag, MetaFallbackPointer, MetaIVDerivation, MetaLegacyNoAAD, MetaMPUManifestVersion]"

lemma droppedKeys_spec:
  "s \<in> set metaKeyRegistry \<Longrightarrow> ms_Canonical s \<in> set droppedKeys \<longleftrightarrow> ms_Compact s = [] \<and> ms_LegacyEncryptionPredicate s"
proof -
  have "list_all (\<lambda>s. ms_Canonical s \<in> set droppedKeys \<longleftrightarrow> ms_Compact s = [] \<and> ms_LegacyEncryptionPredicate s) metaKeyRegistry"
    by (simp add: metaKeyRegistry_def spec_of_def droppedKeys_def)
  then show "s \<in> set metaKeyRegistry \<Longrightarrow> ?thesis" by (simp add: list_all_iff)
qed

lemma clean_other: "clean m \<Longrightarrow> IsGatewayReservedKey k \<Longrightarrow> k \<notin> set canonicalNames \<Longrightarrow> map_of m k = None"
  by (auto simp: clean_def map_of_eq_None_iff)

lemma compacted_reserved: "isCompactedKey p k \<Longrightarrow> IsGatewayReservedKey k \<and> k \<notin> set canonicalNames"
proof -
  assume "isCompactedKey p k"
  then obtain s where s: "s \<in> set metaKeyRegistry" "ms_Compact s \<noteq> []" "equal_fold k (ms_Compact s)"
    by (auto simp: isCompactedKey_def list_ex_iff)
  have l: "to_lower k = ms_Compact s" using s(3) registry_lower [OF registry_names(2) [OF s(1,2)]] by (simp add: equal_fold_def)
  have "LookupMetaKey k \<noteq> None" by (rule reserved_name [OF registry_names(2) [OF s(1,2)] l])
  moreover have "k \<noteq> ms_Canonical t" if "t \<in> set metaKeyRegistry" for t
    using l registry_lower [OF registry_names(1) [OF that]] compact_not_canonical [OF s(1) that s(2)] by auto
  ultimately show ?thesis by (auto simp: IsGatewayReservedKey_def canonicalNames_def)
qed

lemma canonical_not_alias: "s \<in> set metaKeyRegistry \<Longrightarrow> ms_Canonical s \<notin> ms_Compact ` Collect aliased"
  using compact_not_canonical [OF _ _, of _ s] by (auto simp: aliased_def) metis

lemma expand_compact_aliased:
  assumes "clean m" "pp_CompactionStrategy p = ''base64url''" "hasAlias s"
  shows "mget (expandMetadataForCrypto (CompactMetadata p m)) (ms_Canonical s) = mget m (ms_Canonical s)"
proof -
  note C = map_of_CompactMetadata [OF assms(1,2)] and E = map_of_expand [OF C(3)]
  have s: "s \<in> set metaKeyRegistry" "ms_Compact s \<noteq> []" using assms(3) by (simp_all add: hasAlias_def)
  note c2 = C(2) [OF canonical_not_alias [OF s(1)]]
  show ?thesis
  proof (cases "ms_Canonical s = MetaEncrypted")
    case True
    have "ms_Compact s \<notin> ms_Compact ` Collect aliased"
    proof
      assume "ms_Compact s \<in> ms_Compact ` Collect aliased"
      then obtain t where t: "aliased t" "ms_Compact t = ms_Compact s" by auto
      have "s = t" by (rule spec_inj(1) [OF s(1) _ t(2) [symmetric] s(2)]) (use t(1) in \<open>simp add: aliased_def\<close>)
      then show False using t(1) True by (simp add: aliased_def)
    qed
    moreover have "\<not> compactKeeps (ms_Compact s)" using Lookup_name [OF s(1) compact_in [OF s(2)]] s(2) by (simp add: compactKeeps_def)
    moreover have "ms_Compact s \<noteq> MetaEncrypted" using compact_not_canonical [OF s(1) s(1) s(2)] True by simp
    ultimately have "map_of (CompactMetadata p m) (ms_Compact s) = None" using C(2) by simp
    then show ?thesis using E(1) [OF assms(3)] c2 True by (simp add: mget_def nonempty_def split: option.splits)
  next
    case False
    then have "aliased s" using s by (simp add: aliased_def)
    moreover from this have "\<not> compactKeeps (ms_Canonical s)" using compactKeeps_simps(2) canonical_in [OF s(1)] by blast
    ultimately show ?thesis using E(1) [OF assms(3)] C(1) [of s] c2 False by (simp add: mget_def nonempty_def split: option.splits)
  qed
qed

lemma expand_compact_unaliased:
  assumes "clean m" "pp_CompactionStrategy p = ''base64url''" "s \<in> set metaKeyRegistry" "\<not> hasAlias s"
  shows "mget (expandMetadataForCrypto (CompactMetadata p m)) (ms_Canonical s) = (if ms_Canonical s \<in> set droppedKeys then [] else mget m (ms_Canonical s))"
proof -
  note C = map_of_CompactMetadata [OF assms(1,2)] and E = map_of_expand [OF C(3)]
  have c: "ms_Compact s = []" using assms(3,4) by (simp add: hasAlias_def)
  have "ms_Canonical s \<notin> ms_Canonical ` Collect hasAlias"
  proof
    assume "ms_Canonical s \<in> ms_Canonical ` Collect hasAlias"
    then obtain t where t: "hasAlias t" "ms_Canonical t = ms_Canonical s" by auto
    have "s = t" by (rule spec_inj(2) [OF assms(3) _ t(2) [symmetric]]) (use t(1) in \<open>simp add: hasAlias_def\<close>)
    then show False using t(1) assms(4) by simp
  qed
  moreover have "ms_Canonical s \<noteq> MetaEncrypted" using c Lookup_canonical [OF assms(3)] MetaEncrypted_name(2) by (auto simp: spec_of_def)
  ultimately show ?thesis
    using E(2) C(2) [OF canonical_not_alias [OF assms(3)]] compactKeeps_simps(3) [OF assms(3) c] droppedKeys_spec [OF assms(3)]
      canonical_not_compacted [OF assms(3)] c by (simp add: mget_def)
qed

lemma expand_compact_other:
  assumes "clean m" "pp_CompactionStrategy p = ''base64url''" "k \<notin> set canonicalNames"
  shows "mget (expandMetadataForCrypto (CompactMetadata p m)) k = mget m k"
proof -
  note C = map_of_CompactMetadata [OF assms(1,2)] and E = map_of_expand [OF C(3)]
  have na: "k \<notin> ms_Canonical ` Collect hasAlias" using assms(3) by (auto simp: canonicalNames_def hasAlias_def)
  show ?thesis
  proof (cases "IsGatewayReservedKey k")
    case True
    have m: "map_of m k = None" by (rule clean_other [OF assms(1) True assms(3)])
    have "map_of (CompactMetadata p m) k = None \<or> isCompactedKey ProviderAWS k"
      using C(2) [of k] m by (cases "k \<in> ms_Compact ` Collect aliased") (auto simp: isCompactedKey_def aliased_def list_ex_iff)
    then show ?thesis using E(2) [OF na] m by (auto simp: mget_def)
  next
    case False
    have "k \<noteq> ms_Compact s" if "aliased s" for s
      using False Lookup_name [of s "ms_Compact s"] compact_in [of s] that by (auto simp: aliased_def IsGatewayReservedKey_def)
    then have "k \<notin> ms_Compact ` Collect aliased" by auto
    then show ?thesis using E(2) [OF na] C(2) compactKeeps_simps(1) [OF False] compacted_reserved [of _ k] False by (auto simp: mget_def)
  qed
qed

lemma expand_clean:
  assumes "clean m"
  shows "mget (expandMetadataForCrypto m) k = mget m k"
proof (cases "k \<in> ms_Canonical ` Collect hasAlias")
  case True
  then obtain s where "hasAlias s" "k = ms_Canonical s" by auto
  then show ?thesis using map_of_expand(1) [OF clean_tidy [OF assms], of s] clean_compact_None [OF assms, of s]
    by (auto simp: mget_def nonempty_def hasAlias_def split: option.splits)
next
  case False
  then show ?thesis using map_of_expand(2) [OF clean_tidy [OF assms] False] clean_other [OF assms] compacted_reserved [of ProviderAWS k]
    by (auto simp: mget_def)
qed

lemma expand_compact:
  assumes "clean m" "pp_CompactionStrategy p \<in> {''none'', ''base64url''}"
  shows "mget (expandMetadataForCrypto (CompactMetadata p m)) k = (if ShouldCompact p \<and> k \<in> set droppedKeys then [] else mget m k)"
proof (cases "ShouldCompact p")
  case True
  then have p: "pp_CompactionStrategy p = ''base64url''" using assms(2) by (simp add: ShouldCompact_def)
  have d: "k \<in> set droppedKeys \<Longrightarrow> k \<in> set canonicalNames"
    by (auto simp: droppedKeys_def canonicalNames_def metaKeyRegistry_def spec_of_def)
  consider s where "hasAlias s" "k = ms_Canonical s" | s where "s \<in> set metaKeyRegistry" "\<not> hasAlias s" "k = ms_Canonical s" | "k \<notin> set canonicalNames"
    by (auto simp: canonicalNames_def)
  then show ?thesis
  proof cases
    case 1
    then show ?thesis using expand_compact_aliased [OF assms(1) p 1(1)] droppedKeys_spec [of s] by (simp add: hasAlias_def)
  qed (use expand_compact_unaliased [OF assms(1) p] expand_compact_other [OF assms(1) p] True d in auto)
next
  case False
  then show ?thesis using expand_clean [OF assms(1)] by (simp add: CompactMetadata_def)
qed


lemma not_reserved:
  assumes "k \<noteq> []" "to_lower k \<notin> set metaKeyNames" "\<not> equal_fold k MetaOriginalContentLength"
  shows "\<not> IsGatewayReservedKey k"
proof
  assume "IsGatewayReservedKey k"
  then obtain s where "LookupMetaKey k = Some s" using assms(3) by (auto simp: IsGatewayReservedKey_def)
  then have s: "s \<in> set metaKeyRegistry"
      "to_lower (ms_Canonical s) = to_lower k \<or> to_lower (ms_Compact s) = to_lower k \<or> list_ex (\<lambda>l. to_lower l = to_lower k) (ms_Legacy s)"
    by (auto simp: LookupMetaKey_def find_Some_iff in_set_conv_nth)
  then obtain n where n: "n \<in> {ms_Canonical s, ms_Compact s} \<union> set (ms_Legacy s)" "to_lower n = to_lower k"
    by (auto simp: list_ex_iff)
  then have "n \<noteq> []" using assms(1) by (auto simp: to_lower_def)
  then have "n \<in> set metaKeyNames" using n(1) spec_names_sub [OF s(1), of n] by (auto simp: spec_names_def)
  then show False using assms(2) n(2) registry_lower by metis
qed


end
