(* ===== verification/Go_Json.thy ===== *)
theory Go_Json
  imports Go_Hex Metadata_Keys "HOL-Library.List_Lexorder" "HOL-Library.Char_ord"
begin

text \<open>
  Package encoding/json on maps from strings to strings, the only values the metadata code passes to
  it: \<^verbatim>\<open>Marshal\<close> with its escapes and sorted keys, and \<^verbatim>\<open>Unmarshal\<close> with all escapes, surrogate pairs,
  replacement of malformed UTF-8 and white space. A text whose values are neither strings nor
  \<^verbatim>\<open>null\<close> is an error, whether it is valid JSON or not.
\<close>

section \<open>UTF-8\<close>

definition code :: "char \<Rightarrow> nat" where "code c = of_char c"

definition runeError :: nat where "runeError = 65533"

definition is_cont :: "nat \<Rightarrow> bool" where "is_cont b \<longleftrightarrow> 128 \<le> b \<and> b \<le> 191"

text \<open>\<^verbatim>\<open>utf8.DecodeRune\<close> and \<^verbatim>\<open>utf8.EncodeRune\<close>.\<close>

definition decodeRune :: "string \<Rightarrow> nat \<times> nat" where
  "decodeRune s =
     (case map code (take 4 s) of
        [] \<Rightarrow> (runeError, 0)
      | a # r \<Rightarrow>
          if a < 128 then (a, 1)
          else if 194 \<le> a \<and> a \<le> 223 then
            (case r of b # _ \<Rightarrow> if is_cont b then ((a - 192) * 64 + (b - 128), 2) else (runeError, 1) | _ \<Rightarrow> (runeError, 1))
          else if 224 \<le> a \<and> a \<le> 239 then
            (case r of b # c # _ \<Rightarrow>
               if (if a = 224 then 160 else 128) \<le> b \<and> b \<le> (if a = 237 then 159 else 191) \<and> is_cont c
               then ((a - 224) * 4096 + (b - 128) * 64 + (c - 128), 3) else (runeError, 1)
             | _ \<Rightarrow> (runeError, 1))
          else if 240 \<le> a \<and> a \<le> 244 then
            (case r of b # c # d # _ \<Rightarrow>
               if (if a = 240 then 144 else 128) \<le> b \<and> b \<le> (if a = 244 then 143 else 191) \<and> is_cont c \<and> is_cont d
               then ((a - 240) * 262144 + (b - 128) * 4096 + (c - 128) * 64 + (d - 128), 4) else (runeError, 1)
             | _ \<Rightarrow> (runeError, 1))
          else (runeError, 1))"

definition is_surrogate :: "nat \<Rightarrow> bool" where "is_surrogate r \<longleftrightarrow> 55296 \<le> r \<and> r \<le> 57343"

definition encodeRune :: "nat \<Rightarrow> string" where
  "encodeRune r0 =
     (let r = (if is_surrogate r0 \<or> 1114111 < r0 then runeError else r0) in
      map char_of
        (if r < 128 then [r]
         else if r < 2048 then [192 + r div 64, 128 + r mod 64]
         else if r < 65536 then [224 + r div 4096, 128 + r div 64 mod 64, 128 + r mod 64]
         else [240 + r div 262144, 128 + r div 4096 mod 64, 128 + r div 64 mod 64, 128 + r mod 64]))"

section \<open>Writing\<close>

definition quote :: char where "quote = CHR 0x22"
definition backslash :: char where "backslash = CHR 0x5C"

definition jsonAscii :: "char \<Rightarrow> string" where
  "jsonAscii c =
     (if c = quote \<or> c = backslash then [backslash, c]
      else if code c = 8 then [backslash, CHR ''b'']
      else if code c = 12 then [backslash, CHR ''f'']
      else if code c = 10 then [backslash, CHR ''n'']
      else if code c = 13 then [backslash, CHR ''r'']
      else if code c = 9 then [backslash, CHR ''t'']
      else if code c < 32 \<or> c = CHR ''<'' \<or> c = CHR ''>'' \<or> c = CHR ''&''
      then backslash # ''u00'' @ [hex_digit (code c div 16), hex_digit (code c mod 16)]
      else [c])"

function jsonString :: "string \<Rightarrow> string" where
  "jsonString [] = []"
| "jsonString (c # s) =
     (if code c < 128 then jsonAscii c @ jsonString s
      else case decodeRune (c # s) of (r, n) \<Rightarrow>
        (if r = runeError \<and> n = 1 then backslash # ''ufffd''
         else if r = 8232 \<or> r = 8233 then backslash # ''u202'' @ [hex_digit (r mod 16)]
         else take n (c # s)) @ jsonString (drop (n - 1) s))"
  by pat_completeness auto
termination
  by (relation "measure length") auto

definition jsonEntry :: "string \<times> string \<Rightarrow> string" where
  "jsonEntry e = [quote] @ jsonString (fst e) @ [quote, CHR '':'', quote] @ jsonString (snd e) @ [quote]"

fun jsonEntries :: "meta \<Rightarrow> string" where
  "jsonEntries [] = []"
| "jsonEntries [e] = jsonEntry e"
| "jsonEntries (e # f # es) = jsonEntry e @ '','' @ jsonEntries (f # es)"

definition jsonMarshal :: "meta \<Rightarrow> bytes" where
  "jsonMarshal m = bytes_of (''{'' @ jsonEntries (sort_key fst m) @ ''}'')"

section \<open>Reading\<close>

definition hexAny :: "char \<Rightarrow> nat option" where
  "hexAny c =
     (if is_lower_hex c then Some (hex_digit_val c)
      else if 65 \<le> code c \<and> code c \<le> 70 then Some (code c - 55) else None)"

definition hex4 :: "string \<Rightarrow> (nat \<times> string) option" where
  "hex4 s =
     (case s of a # b # c # d # t \<Rightarrow>
        (case (hexAny a, hexAny b, hexAny c, hexAny d) of
           (Some a, Some b, Some c, Some d) \<Rightarrow> Some (a * 4096 + b * 256 + c * 16 + d, t)
         | _ \<Rightarrow> None)
      | _ \<Rightarrow> None)"

definition unescape :: "char \<Rightarrow> char option" where
  "unescape e =
     (if e = quote \<or> e = backslash \<or> e = CHR ''/'' then Some e
      else if e = CHR ''b'' then Some (char_of (8 :: nat))
      else if e = CHR ''f'' then Some (char_of (12 :: nat))
      else if e = CHR ''n'' then Some (char_of (10 :: nat))
      else if e = CHR ''r'' then Some (char_of (13 :: nat))
      else if e = CHR ''t'' then Some (char_of (9 :: nat))
      else None)"

text \<open>A pair of surrogates; the rest follows the second escape.\<close>

definition surrogatePair :: "nat \<Rightarrow> string \<Rightarrow> (nat \<times> string) option" where
  "surrogatePair r s =
     (case s of b # u # t \<Rightarrow>
        if b = backslash \<and> u = CHR ''u'' then
          (case hex4 t of
             Some (r', t') \<Rightarrow>
               if 55296 \<le> r \<and> r < 56320 \<and> 56320 \<le> r' \<and> r' < 57344
               then Some ((r - 55296) * 1024 + (r' - 56320) + 65536, t') else None
           | None \<Rightarrow> None)
        else None
      | _ \<Rightarrow> None)"

lemma hex4_length: "hex4 s = Some (r, t) \<Longrightarrow> length t < length s"
  by (auto simp: hex4_def split: list.splits option.splits)

lemma surrogatePair_length: "surrogatePair r s = Some (r', t) \<Longrightarrow> length t < length s"
  by (auto simp: surrogatePair_def dest!: hex4_length split: list.splits option.splits if_splits)

text \<open>One escape, after its backslash: the text it stands for and the rest.\<close>

definition scanEscape :: "string \<Rightarrow> (string \<times> string) option" where
  "scanEscape s =
     (case s of
        [] \<Rightarrow> None
      | e # t \<Rightarrow>
          if e = CHR ''u'' then
            (case hex4 t of
               None \<Rightarrow> None
             | Some (r, u) \<Rightarrow>
                 if is_surrogate r then
                   (case surrogatePair r u of
                      Some (r', v) \<Rightarrow> Some (encodeRune r', v)
                    | None \<Rightarrow> Some (encodeRune runeError, u))
                 else Some (encodeRune r, u))
          else map_option (\<lambda>x. ([x], t)) (unescape e))"

text \<open>One character or escape of a string literal.\<close>

definition scanUnit :: "char \<Rightarrow> string \<Rightarrow> (string \<times> string) option" where
  "scanUnit c s =
     (if c = backslash then scanEscape s
      else if code c < 32 then None
      else if code c < 128 then Some ([c], s)
      else case decodeRune (c # s) of (r, n) \<Rightarrow> Some (encodeRune r, drop (n - 1) s))"

lemma scanEscape_length: "scanEscape s = Some (x, t) \<Longrightarrow> length t < length s"
  by (auto simp: scanEscape_def dest!: hex4_length surrogatePair_length split: if_splits list.splits option.splits)

lemma scanUnit_length: "scanUnit c s = Some (x, t) \<Longrightarrow> length t \<le> length s"
  by (auto simp: scanUnit_def dest!: scanEscape_length split: if_splits prod.splits)

text \<open>The text of a string literal after its opening quote: its value and what follows the closing one.\<close>

function scanString :: "string \<Rightarrow> (string \<times> string) option" where
  "scanString [] = None"
| "scanString (c # s) =
     (if c = quote then Some ([], s)
      else case scanUnit c s of
          None \<Rightarrow> None
        | Some (x, t) \<Rightarrow> (case scanString t of None \<Rightarrow> None | Some (y, u) \<Rightarrow> Some (x @ y, u)))"
  by pat_completeness auto
termination
  by (relation "measure length") (auto dest: scanUnit_length)

lemma scanString_length: "scanString s = Some (x, t) \<Longrightarrow> length t < length s"
proof (induction s arbitrary: x t rule: scanString.induct)
  case (2 c s)
  show ?case
  proof (cases "c = quote")
    case True
    then show ?thesis using "2.prems" by simp
  next
    case False
    then obtain y u z where "scanUnit c s = Some (y, u)" "scanString u = Some (z, t)"
      using "2.prems" by (auto split: option.splits prod.splits)
    then show ?thesis using "2.IH" [OF False] scanUnit_length [of c s y u] by fastforce
  qed
qed simp

definition ws :: "string \<Rightarrow> string" where
  "ws s = dropWhile (\<lambda>c. code c = 32 \<or> code c = 9 \<or> code c = 10 \<or> code c = 13) s"

text \<open>What follows the given character, after white space.\<close>

definition tok :: "char \<Rightarrow> string \<Rightarrow> string option" where
  "tok c s = (case ws s of [] \<Rightarrow> None | d # t \<Rightarrow> if d = c then Some t else None)"

definition scanValue :: "string \<Rightarrow> (string \<times> string) option" where
  "scanValue s =
     (case tok quote s of
        Some t \<Rightarrow> scanString t
      | None \<Rightarrow> if take 4 (ws s) = ''null'' then Some ([], drop 4 (ws s)) else None)"

definition scanMember :: "string \<Rightarrow> ((string \<times> string) \<times> string) option" where
  "scanMember s =
     (case tok quote s of
        None \<Rightarrow> None
      | Some t \<Rightarrow>
          (case scanString t of
             None \<Rightarrow> None
           | Some (k, u) \<Rightarrow>
               (case tok (CHR '':'') u of
                  None \<Rightarrow> None
                | Some v \<Rightarrow> map_option (\<lambda>(x, w). ((k, x), w)) (scanValue v))))"

lemma ws_length: "length (ws s) \<le> length s"
  by (simp add: ws_def length_dropWhile_le)

lemma tok_length: "tok c s = Some t \<Longrightarrow> length t < length s"
  using ws_length [of s] by (auto simp: tok_def split: list.splits if_splits)

lemma scanValue_length: "scanValue s = Some (x, t) \<Longrightarrow> length t \<le> length s"
  using ws_length [of s] by (auto simp: scanValue_def dest!: tok_length scanString_length split: option.splits if_splits)

lemma scanMember_length: "scanMember s = Some (e, t) \<Longrightarrow> length t < length s"
  by (auto simp: scanMember_def dest!: tok_length scanString_length scanValue_length split: option.splits)

function scanMembers :: "meta \<Rightarrow> string \<Rightarrow> (meta \<times> string) option" where
  "scanMembers acc s =
     (case scanMember s of
        None \<Rightarrow> None
      | Some ((k, x), t) \<Rightarrow>
          let acc = AList.update k x acc in
          (case tok (CHR '','') t of
             Some u \<Rightarrow> scanMembers acc u
           | None \<Rightarrow> map_option (Pair acc) (tok (CHR ''}'') t)))"
  by pat_completeness auto
termination
  by (relation "measure (\<lambda>(acc, s). length s)") (auto dest!: scanMember_length tok_length)

declare scanMembers.simps [simp del]

text \<open>\<^verbatim>\<open>Unmarshal\<close> into an empty map variable; \<^verbatim>\<open>null\<close> leaves it nil.\<close>

definition jsonUnmarshal :: "bytes \<Rightarrow> goerr + meta option" where
  "jsonUnmarshal data =
     (let s = string_of data; bad = Inl (Err ''json'') in
      case tok (CHR ''{'') s of
        None \<Rightarrow> if take 4 (ws s) = ''null'' \<and> ws (drop 4 (ws s)) = [] then Inr None else bad
      | Some t \<Rightarrow>
          (case (case tok (CHR ''}'') t of Some u \<Rightarrow> Some ([], u) | None \<Rightarrow> scanMembers [] t) of
             Some (m, u) \<Rightarrow> if ws u = [] then Inr (Some m) else bad
           | None \<Rightarrow> bad))"

section \<open>Round trip\<close>

definition ascii :: "string \<Rightarrow> bool" where
  "ascii s \<longleftrightarrow> list_all (\<lambda>c. code c < 128) s"

lemma code_eq_iff: "n < 256 \<Longrightarrow> code c = n \<longleftrightarrow> c = char_of n"
  by (auto simp: code_def)

lemma code_char_of [simp]: "n < 256 \<Longrightarrow> code (char_of n) = n"
  by (simp add: code_def)

lemma quote_backslash [simp]: "quote \<noteq> backslash" "backslash \<noteq> quote" "code quote = 34" "code backslash = 92"
  by (simp_all add: quote_def backslash_def code_def)

lemma hexAny_digit [simp]: "n < 16 \<Longrightarrow> hexAny (hex_digit n) = Some n"
  by (simp add: hexAny_def)

lemma hexAny_zero [simp]: "hexAny (CHR ''0'') = Some 0"
  by (simp add: hexAny_def is_lower_hex_def hex_digit_val_def)

lemma encodeRune_ascii: "code c < 128 \<Longrightarrow> encodeRune (code c) = [c]"
  by (simp add: encodeRune_def is_surrogate_def code_def)

lemma scanUnit_unicode:
  assumes "code c < 128"
  shows "scanUnit backslash (''u00'' @ [hex_digit (code c div 16), hex_digit (code c mod 16)] @ r) = Some ([c], r)"
proof -
  have "code c div 16 < 16" "code c mod 16 < 16" using assms by auto
  then have "hex4 (''00'' @ [hex_digit (code c div 16), hex_digit (code c mod 16)] @ r) = Some (code c, r)"
    by (simp add: hex4_def)
  moreover have "\<not> is_surrogate (code c)" using assms by (simp add: is_surrogate_def)
  ultimately show ?thesis using encodeRune_ascii [OF assms] by (simp add: scanUnit_def scanEscape_def)
qed

lemma scanUnit_escape: "unescape e = Some c \<Longrightarrow> e \<noteq> CHR ''u'' \<Longrightarrow> scanUnit backslash (e # r) = Some ([c], r)"
  by (simp add: scanUnit_def scanEscape_def)

lemma scanUnit_jsonAscii:
  assumes "code c < 128"
  obtains d w where "jsonAscii c = d # w" "d \<noteq> quote" "\<And>r. scanUnit d (w @ r) = Some ([c], r)"
proof -
  have "\<exists>d w. jsonAscii c = d # w \<and> d \<noteq> quote \<and> (\<forall>r. scanUnit d (w @ r) = Some ([c], r))"
  proof (cases "\<exists>e. jsonAscii c = [backslash, e] \<and> e \<noteq> CHR ''u'' \<and> unescape e = Some c")
    case True
    then show ?thesis using scanUnit_escape by fastforce
  next
    case False
    have "c = quote \<or> c = backslash \<Longrightarrow> c \<noteq> CHR ''u''" by (auto simp: quote_def backslash_def)
    then have n: "c \<noteq> quote" "c \<noteq> backslash" using False by (auto simp: jsonAscii_def unescape_def)
    have m: "code c \<notin> {8, 9, 10, 12, 13}"
      using False n by (auto simp: jsonAscii_def unescape_def code_eq_iff quote_def backslash_def)
    show ?thesis
    proof (cases "code c < 32 \<or> c = CHR ''<'' \<or> c = CHR ''>'' \<or> c = CHR ''&''")
      case True
      then have "jsonAscii c = backslash # ''u00'' @ [hex_digit (code c div 16), hex_digit (code c mod 16)]"
        using n m by (simp add: jsonAscii_def)
      then show ?thesis using scanUnit_unicode [OF assms] by fastforce
    next
      case False
      then have "jsonAscii c = [c]" using n m by (simp add: jsonAscii_def)
      then show ?thesis using n False assms by (simp add: scanUnit_def)
    qed
  qed
  then show ?thesis using that by blast
qed

lemma scanString_jsonString: "ascii s \<Longrightarrow> scanString (jsonString s @ quote # r) = Some (s, r)"
proof (induction s)
  case (Cons c s)
  then obtain d w where d: "jsonAscii c = d # w" "d \<noteq> quote" "\<And>r. scanUnit d (w @ r) = Some ([c], r)"
    using scanUnit_jsonAscii [of c] by (auto simp: ascii_def)
  have "jsonString (c # s) = d # w @ jsonString s" using Cons.prems d(1) by (simp add: ascii_def)
  then show ?case using Cons d by (simp add: ascii_def)
qed simp

lemma ws_simps [simp]:
  "ws (quote # s) = quote # s" "ws (CHR '':'' # s) = CHR '':'' # s" "ws (CHR '','' # s) = CHR '','' # s"
  "ws (CHR ''}'' # s) = CHR ''}'' # s" "ws (CHR ''{'' # s) = CHR ''{'' # s" "ws [] = []"
  by (simp_all add: ws_def code_def quote_def)

lemma tok_same [simp]: "tok quote (quote # s) = Some s" "tok (CHR '':'') (CHR '':'' # s) = Some s" "tok (CHR '','') (CHR '','' # s) = Some s"
  "tok (CHR ''}'') (CHR ''}'' # s) = Some s" "tok (CHR ''{'') (CHR ''{'' # s) = Some s"
  "tok (CHR '','') (CHR ''}'' # s) = None" "tok (CHR ''}'') (quote # s) = None"
  by (simp_all add: tok_def) (simp add: quote_def)

lemma scanMember_entry:
  assumes "ascii k" "ascii v"
  shows "scanMember (jsonEntry (k, v) @ r) = Some ((k, v), r)"
proof -
  have "jsonEntry (k, v) @ r = quote # jsonString k @ quote # CHR '':'' # quote # jsonString v @ quote # r"
    by (simp add: jsonEntry_def)
  then show ?thesis using assms by (simp add: scanMember_def scanValue_def scanString_jsonString)
qed

lemma update_fresh: "k \<notin> fst ` set m \<Longrightarrow> AList.update k v m = m @ [(k, v)]"
  by (induction m) auto

lemma scanMembers_entries:
  assumes "m \<noteq> []" "list_all (\<lambda>(k, v). ascii k \<and> ascii v) m" "distinct (map fst (acc @ m))"
  shows "scanMembers acc (jsonEntries m @ CHR ''}'' # r) = Some (acc @ m, r)"
  using assms
proof (induction m arbitrary: acc rule: jsonEntries.induct)
  case (2 e)
  then show ?case using scanMember_entry [of "fst e" "snd e" "CHR ''}'' # r"]
    by (subst scanMembers.simps) (auto simp: update_fresh)
next
  case (3 e f es)
  have "scanMember (jsonEntries (e # f # es) @ CHR ''}'' # r) = Some (e, CHR '','' # jsonEntries (f # es) @ CHR ''}'' # r)"
    using scanMember_entry [of "fst e" "snd e"] "3.prems" by auto
  moreover have "AList.update (fst e) (snd e) acc = acc @ [e]" using "3.prems"(3) by (auto simp: update_fresh)
  moreover have "scanMembers (acc @ [e]) (jsonEntries (f # es) @ CHR ''}'' # r) = Some ((acc @ [e]) @ f # es, r)"
    using "3.prems" by (intro "3.IH") auto
  ultimately show ?case by (subst scanMembers.simps) (simp add: case_prod_unfold)
qed simp

definition ascii_meta :: "meta \<Rightarrow> bool" where
  "ascii_meta m \<longleftrightarrow> list_all (\<lambda>(k, v). ascii k \<and> ascii v) m"

lemma jsonUnmarshal_jsonMarshal:
  assumes "ascii_meta m" "distinct (map fst m)"
  shows "jsonUnmarshal (jsonMarshal m) = Inr (Some (sort_key fst m))"
proof (cases "m = []")
  case True
  then show ?thesis by (simp add: jsonUnmarshal_def jsonMarshal_def)
next
  case False
  let ?m = "sort_key fst m"
  have ne: "?m \<noteq> []" using False by (metis set_empty set_sort)
  then obtain w where "jsonEntries ?m = quote # w" by (cases ?m rule: jsonEntries.cases) (auto simp: jsonEntry_def)
  then have "tok (CHR ''}'') (jsonEntries ?m @ ''}'') = None" by simp
  moreover have "distinct (map fst ?m)"
    using assms(2) by (metis distinct_map distinct_sort set_sort)
  then have "scanMembers [] (jsonEntries ?m @ ''}'') = Some (?m, [])"
    using scanMembers_entries [OF ne, of "[]" "[]"] assms(1) by (simp add: ascii_meta_def list_all_iff)
  ultimately show ?thesis by (simp add: jsonUnmarshal_def jsonMarshal_def)
qed

lemma map_of_sort_key: "distinct (map fst m) \<Longrightarrow> map_of (sort_key fst m) = map_of m"
proof -
  assume m: "distinct (map fst m)"
  then have "distinct (map fst (sort_key fst m))" by (metis distinct_map distinct_sort set_sort)
  then show ?thesis using m by (intro map_of_eqI) (auto dest: map_of_SomeD intro!: map_of_is_SomeI)
qed

end
