(* ===== verification/Engine_Metadata.thy ===== *)
theory Engine_Metadata
  imports Metadata_Compaction Go_Json Object_AAD Chunk_Size Algorithms Password_Key_Manager
begin

text \<open>
  The encryption engine of \<^verbatim>\<open>internal/crypto/engine.go\<close>, first part: its state and construction
  (\<^verbatim>\<open>engine_options.go\<close>), the derivation of keys, and the sealing of object metadata
  (\<^verbatim>\<open>metadata_encrypt.go\<close>, \<^verbatim>\<open>metadata_view.go\<close>). Cryptographic packages are the fields of
  \<open>crypto_env\<close>: the ciphers, the password hashes, HKDF and the digest behind entity tags. Random
  bytes are given by the number of the read within an operation; a nil map of metadata is the empty
  one. Tracing, logging and metrics are left out.
\<close>

section \<open>State\<close>

record argon2id_config =
  a2_Time :: nat
  a2_Memory :: nat
  a2_Threads :: nat

record engine =
  en_password :: bytes
  en_pbkdf2Iterations :: int
  en_kdfAlgorithm :: string
  en_argon2idParams :: argon2id_config
  en_preferredAlgorithm :: string
  en_supportedAlgorithms :: "string list"
  en_chunkedMode :: bool
  en_chunkSize :: int
  en_profile :: provider_profile
  en_metadataKey :: "bytes option"
  en_allowUnmarkedNoAAD :: bool
  en_kdfLimits :: kdf_limits
  en_optionErr :: "goerr option"

record crypto_env =
  ce_suite :: cipher_suite
  ce_kdf :: kdf_funs
  ce_hkdf :: hkdf
  ce_digest :: "bytes \<Rightarrow> bytes"

type_synonym random = "nat \<Rightarrow> (nat \<Rightarrow> byte) option"

definition rand_bytes :: "random \<Rightarrow> nat \<Rightarrow> nat \<Rightarrow> goerr + bytes" where
  "rand_bytes rnd i n = (case rnd i of None \<Rightarrow> Inl (Err ''rand'') | Some f \<Rightarrow> Inr (map f [0..<n]))"

lemma rand_bytes_length: "rand_bytes rnd i n = Inr b \<Longrightarrow> length b = n"
  by (auto simp: rand_bytes_def split: option.splits)

section \<open>Construction\<close>

definition clampEngineChunkSize :: "int \<Rightarrow> int" where
  "clampEngineChunkSize n =
     (let n = (if n = 0 then DefaultChunkSize else n); n = (if n < MinChunkSize then MinChunkSize else n)
      in if n > MaxChunkSize then MaxChunkSize else n)"

definition NewEngineWithChunkingAndMetadataProfile ::
  "bytes \<Rightarrow> string \<Rightarrow> string list \<Rightarrow> bool \<Rightarrow> int \<Rightarrow> string \<Rightarrow> string \<Rightarrow> int \<Rightarrow> goerr + engine" where
  "NewEngineWithChunkingAndMetadataProfile password preferred supported chunked chunkSize provider profileMode iterations =
     (if password = [] then Inl (Err ''encryption password cannot be empty'')
      else if length password < 12 then Inl (Err ''encryption password must be at least 12 characters'')
      else
        let preferred = (if preferred = [] then AlgorithmAES256GCM else preferred);
            supported = (if supported = [] then [AlgorithmAES256GCM, AlgorithmChaCha20Poly1305] else supported)
        in if \<not> isAlgorithmSupported preferred supported then Inl (Err ''preferred algorithm is not in supported algorithms list'')
           else and_then (ResolveMetadataProfile provider profileMode) (\<lambda>profile.
             Inr \<lparr>en_password = password, en_pbkdf2Iterations = iterations, en_kdfAlgorithm = KDFAlgPBKDF2SHA256,
               en_argon2idParams = \<lparr>a2_Time = 2, a2_Memory = 19456, a2_Threads = 1\<rparr>,
               en_preferredAlgorithm = preferred, en_supportedAlgorithms = supported, en_chunkedMode = chunked,
               en_chunkSize = clampEngineChunkSize chunkSize, en_profile = profile, en_metadataKey = None,
               en_allowUnmarkedNoAAD = False, en_kdfLimits = DefaultKDFLimits, en_optionErr = None\<rparr>))"

text \<open>The options; that for the key manager sets a separate argument of the operations.\<close>

datatype engine_option =
    WithPBKDF2Iterations int
  | WithKDFLimits kdf_limits
  | WithKDFAlgorithm string
  | WithArgon2idParams nat nat nat
  | WithPreferredAlgorithm string
  | WithSupportedAlgorithms "string list"
  | WithChunking bool
  | WithChunkSize int
  | WithProvider string
  | WithMetadataProfile string string
  | WithMetadataKey bytes
  | WithAllowUnmarkedNoAADFallback bool

fun applyEngineOption :: "engine_option \<Rightarrow> engine \<Rightarrow> engine" where
  "applyEngineOption (WithPBKDF2Iterations n) e =
     (if n < MinPBKDF2Iterations \<or> n > MaxPBKDF2Iterations
      then e\<lparr>en_optionErr := Some (Err (kdf_Error (ErrInvalidKDFParams KDFAlgPBKDF2SHA256 ''iterations'' (nat n) ''outside hard bounds'')))\<rparr>
      else e\<lparr>en_pbkdf2Iterations := n\<rparr>)"
| "applyEngineOption (WithKDFLimits lim) e = e\<lparr>en_kdfLimits := lim\<rparr>"
| "applyEngineOption (WithKDFAlgorithm alg) e = (if alg \<noteq> [] then e\<lparr>en_kdfAlgorithm := alg\<rparr> else e)"
| "applyEngineOption (WithArgon2idParams t m th) e =
     (if t = 0 \<and> m = 0 \<and> th = 0 then e
      else case ValidateKDFParams (argon2idParams t m th) DefaultKDFLimits of
          Inl err \<Rightarrow> e\<lparr>en_optionErr := Some (Err (kdf_Error err))\<rparr>
        | Inr _ \<Rightarrow> e\<lparr>en_argon2idParams := \<lparr>a2_Time = t, a2_Memory = m, a2_Threads = th\<rparr>\<rparr>)"
| "applyEngineOption (WithPreferredAlgorithm alg) e = (if alg \<noteq> [] then e\<lparr>en_preferredAlgorithm := alg\<rparr> else e)"
| "applyEngineOption (WithSupportedAlgorithms algs) e = (if algs \<noteq> [] then e\<lparr>en_supportedAlgorithms := algs\<rparr> else e)"
| "applyEngineOption (WithChunking enabled) e = e\<lparr>en_chunkedMode := enabled\<rparr>"
| "applyEngineOption (WithChunkSize n) e = (if n > 0 then e\<lparr>en_chunkSize := n\<rparr> else e)"
| "applyEngineOption (WithProvider provider) e = (if provider \<noteq> [] then e\<lparr>en_profile := GetProviderProfile provider\<rparr> else e)"
| "applyEngineOption (WithMetadataProfile provider mode) e =
     (case ResolveMetadataProfile provider mode of
        Inl err \<Rightarrow> e\<lparr>en_optionErr := Some err\<rparr>
      | Inr profile \<Rightarrow> e\<lparr>en_profile := profile\<rparr>)"
| "applyEngineOption (WithMetadataKey key) e = (if length key = 32 then e\<lparr>en_metadataKey := Some key\<rparr> else e)"
| "applyEngineOption (WithAllowUnmarkedNoAADFallback b) e = e\<lparr>en_allowUnmarkedNoAAD := b\<rparr>"

definition kdf_goerr :: "kdferr + 'a \<Rightarrow> goerr + 'a" where
  "kdf_goerr r = (case r of Inl e \<Rightarrow> Inl (Err (kdf_Error e)) | Inr x \<Rightarrow> Inr x)"

lemma kdf_goerr_Inr [simp]: "kdf_goerr r = Inr x \<longleftrightarrow> r = Inr x"
  by (cases r) (auto simp: kdf_goerr_def)

definition engineArgon2id :: "engine \<Rightarrow> kdf_params" where
  "engineArgon2id e = argon2idParams (a2_Time (en_argon2idParams e)) (a2_Memory (en_argon2idParams e)) (a2_Threads (en_argon2idParams e))"

definition NewEngineWithOpts :: "bytes \<Rightarrow> engine_option list \<Rightarrow> goerr + engine" where
  "NewEngineWithOpts password opts =
     and_then (NewEngineWithChunkingAndMetadataProfile password [] [] False DefaultChunkSize ''default'' [] DefaultPBKDF2Iterations) (\<lambda>e.
       let e = fold applyEngineOption opts e in
       case en_optionErr e of
         Some err \<Rightarrow> Inl err
       | None \<Rightarrow>
           and_then (kdf_goerr (ValidateKDFParams (pbkdf2Params (en_pbkdf2Iterations e)) (en_kdfLimits e))) (\<lambda>_.
             if en_kdfAlgorithm e = KDFAlgArgon2id
             then and_then (kdf_goerr (ValidateKDFParams (engineArgon2id e) (en_kdfLimits e))) (\<lambda>_. Inr e)
             else Inr e))"

section \<open>Key derivation\<close>

definition km_goerr :: "string \<Rightarrow> kmerr + 'a \<Rightarrow> goerr + 'a" where
  "km_goerr msg r = (case r of Inl e \<Rightarrow> Inl (Err msg) | Inr x \<Rightarrow> Inr x)"

lemma km_goerr_Inr [simp]: "km_goerr msg r = Inr x \<longleftrightarrow> r = Inr x"
  by (cases r) (auto simp: km_goerr_def)

definition en_deriveKeyWithParams :: "kdf_funs \<Rightarrow> engine \<Rightarrow> bytes \<Rightarrow> kdf_params \<Rightarrow> goerr + bytes" where
  "en_deriveKeyWithParams K e salt p =
     (if length salt \<noteq> saltSize then Inl (Err ''invalid salt size'')
      else and_then (kdf_goerr (ValidateKDFParams p (en_kdfLimits e))) (\<lambda>_.
        if kp_Algorithm p = KDFAlgArgon2id then km_goerr ''argon2id'' (deriveKeyArgon2id K (en_password e) salt p)
        else km_goerr ''failed to derive key with PBKDF2'' (PBKDF2 K (en_password e) salt (kp_Iterations p))))"

definition en_defaultKDFParams :: "engine \<Rightarrow> kdf_params" where
  "en_defaultKDFParams e = (if en_kdfAlgorithm e = KDFAlgArgon2id then engineArgon2id e else pbkdf2Params (en_pbkdf2Iterations e))"

definition en_deriveKey :: "kdf_funs \<Rightarrow> engine \<Rightarrow> bytes \<Rightarrow> goerr + bytes" where
  "en_deriveKey K e salt =
     (if en_kdfAlgorithm e = KDFAlgArgon2id then en_deriveKeyWithParams K e salt (engineArgon2id e)
      else en_deriveKeyWithParams K e salt (pbkdf2Params (en_pbkdf2Iterations e)))"

definition generateNonceForAlgorithm :: "random \<Rightarrow> nat \<Rightarrow> string \<Rightarrow> goerr + bytes" where
  "generateNonceForAlgorithm rnd i alg = and_then (getNonceSize alg) (\<lambda>n. rand_bytes rnd i n)"

definition keySizeOf :: "string \<Rightarrow> nat" where
  "keySizeOf alg = (if alg = AlgorithmChaCha20Poly1305 then chacha20KeySize else aesKeySize)"

section \<open>Sealed metadata\<close>

definition isProtectedKey :: "string \<Rightarrow> bool" where
  "isProtectedKey k \<longleftrightarrow> (case LookupMetaKey k of None \<Rightarrow> False | Some s \<Rightarrow> ms_Class s = MetaClassProtectedStandard)"

definition sealedSubset :: "meta \<Rightarrow> meta" where
  "sealedSubset m = filter (\<lambda>(k, v). isEncryptionPayloadMetadata k \<or> isProtectedKey k) m"

definition metadataAEAD :: "cipher_suite \<Rightarrow> engine \<Rightarrow> goerr + aead" where
  "metadataAEAD S e =
     (case en_metadataKey e of
        None \<Rightarrow> Inl (Err ''metadata key not configured'')
      | Some mk \<Rightarrow> if length mk \<notin> {16, 24, 32} then Inl (Err ''aes new cipher'') else Inr (aes_gcm S mk))"

definition encryptMetadata :: "cipher_suite \<Rightarrow> engine \<Rightarrow> random \<Rightarrow> meta \<Rightarrow> goerr + string" where
  "encryptMetadata S e rnd m =
     and_then (metadataAEAD S e) (\<lambda>A.
     and_then (rand_bytes rnd 4 nonceSize) (\<lambda>nonce.
     and_then (goSeal A nonce (jsonMarshal (sealedSubset m)) []) (\<lambda>ct.
       Inr (encodeBase64 (nonce @ ct)))))"

definition decryptMetadata :: "cipher_suite \<Rightarrow> engine \<Rightarrow> string \<Rightarrow> goerr + meta" where
  "decryptMetadata S e blob =
     and_then (if en_metadataKey e = None then Inl (Err ''metadata key not configured'') else Inr ()) (\<lambda>_.
     and_then (decodeBase64 blob) (\<lambda>ct.
     and_then (metadataAEAD S e) (\<lambda>A.
       if length ct < nonceSize then Inl (Err ''ciphertext too short'')
       else and_then (goOpen A (take nonceSize ct) (drop nonceSize ct) []) (\<lambda>plain.
            and_then (jsonUnmarshal plain) (\<lambda>m.
              case m of None \<Rightarrow> Inl Panic | Some m \<Rightarrow> Inr (AList.update MetaEncrypted ''true'' m))))))"

definition protectedEntries :: "meta \<Rightarrow> meta" where
  "protectedEntries m =
     List.map_filter (\<lambda>s. let v = metadataValueFold m (ms_Canonical s) in if v \<noteq> [] then Some (ms_Canonical s, v) else None)
       ProtectedStandardKeys"

definition sealMetadataBlob :: "cipher_suite \<Rightarrow> engine \<Rightarrow> random \<Rightarrow> meta \<Rightarrow> goerr + meta" where
  "sealMetadataBlob S e rnd m =
     and_then (encryptMetadata S e rnd m) (\<lambda>blob.
       let m' = filter (\<lambda>(k, v). \<not> isEncryptionPayloadMetadata k) m;
           m' = AList.update MetaEncrypted ''true'' m';
           m' = AList.update MetaEncryptedMetadata blob m'
       in Inr (meta_merge m' (protectedEntries m)))"

text \<open>
  Opening the blob of expanded metadata, as \<^verbatim>\<open>Decrypt\<close>, \<^verbatim>\<open>decryptChunked\<close> and \<^verbatim>\<open>APIExpandedMetadata\<close>
  do: the entries of the blob replace those of the headers. The opened entries are returned as well.
\<close>

definition unsealMetadata :: "cipher_suite \<Rightarrow> engine \<Rightarrow> meta \<Rightarrow> goerr + meta \<times> meta option" where
  "unsealMetadata S e m =
     (if en_metadataKey e = None then Inr (m, None)
      else
        let blobKey = (if map_of m MetaEncryptedMetadataCompact \<noteq> None then MetaEncryptedMetadataCompact else MetaEncryptedMetadata) in
        if mget m blobKey = [] then Inr (m, None)
        else and_then (decryptMetadata S e (mget m blobKey)) (\<lambda>d. Inr (AList.delete blobKey (meta_merge m d), Some d)))"

section \<open>Clean maps\<close>

lemma mget_Some: "map_of m k = Some v \<Longrightarrow> mget m k = v"
  by (simp add: mget_def)

lemma mget_None: "map_of m k = None \<Longrightarrow> mget m k = []"
  by (simp add: mget_def)

lemma mget_update: "mget (AList.update k v m) k' = (if k' = k then v else mget m k')"
  by (simp add: mget_def update_conv')

lemma mget_merge: "distinct (map fst b) \<Longrightarrow> mget (meta_merge a b) k = (case map_of b k of Some v \<Rightarrow> v | None \<Rightarrow> mget a k)"
  by (simp add: mget_def map_of_merge map_add_def split: option.splits)

lemma mget_filter: "mget (filter (\<lambda>(k, v). P k) m) k = (if P k then mget m k else [])"
  by (simp add: mget_def map_of_filter_key)

lemma mget_delete: "mget (AList.delete k m) k' = (if k' = k then [] else mget m k')"
  by (simp add: mget_def delete_conv')

lemma canonical_name: "s \<in> set metaKeyRegistry \<Longrightarrow> ms_Canonical s \<in> set canonicalNames"
  by (simp add: canonicalNames_def)

lemma canonical_names [simp]:
  "MetaEncrypted \<in> set canonicalNames" "MetaAlgorithm \<in> set canonicalNames" "MetaKeySalt \<in> set canonicalNames" "MetaIV \<in> set canonicalNames"
  "MetaOriginalSize \<in> set canonicalNames" "MetaOriginalETag \<in> set canonicalNames" "MetaContentType \<in> set canonicalNames"
  "MetaChunkedFormat \<in> set canonicalNames" "MetaChunkSize \<in> set canonicalNames" "MetaManifest \<in> set canonicalNames"
  "MetaKeyVersion \<in> set canonicalNames" "MetaWrappedKeyCiphertext \<in> set canonicalNames" "MetaKMSKeyID \<in> set canonicalNames"
  "MetaKMSProvider \<in> set canonicalNames" "MetaKDFParams \<in> set canonicalNames" "MetaFallbackMode \<in> set canonicalNames"
  "MetaFallbackVersion \<in> set canonicalNames" "MetaIVDerivation \<in> set canonicalNames" "MetaObjectFormatVersion \<in> set canonicalNames"
  "MetaObjectBindingID \<in> set canonicalNames" "MetaEncryptedMetadata \<in> set canonicalNames" "MetaMPUManifestVersion \<in> set canonicalNames"
  by (simp_all add: canonicalNames_def metaKeyRegistry_def spec_of_def)

lemma canonical_reserved: "k \<in> set canonicalNames \<Longrightarrow> IsGatewayReservedKey k"
  using Lookup_canonical by (auto simp: canonicalNames_def IsGatewayReservedKey_def)

lemma clean_update: "clean m \<Longrightarrow> k \<in> set canonicalNames \<Longrightarrow> clean (AList.update k v m)"
  by (auto simp: clean_def distinct_update dom_update)

lemma clean_filter: "clean m \<Longrightarrow> clean (filter P m)"
  by (auto simp: clean_def distinct_filter_keys)

lemma clean_merge: "clean a \<Longrightarrow> fst ` set b \<subseteq> set canonicalNames \<Longrightarrow> clean (meta_merge a b)"
  by (auto simp: clean_def merge_keys)

lemma clean_drop: "distinct (map fst m) \<Longrightarrow> clean (dropGatewayReserved m)"
  by (auto simp: clean_def dropGatewayReserved_def distinct_filter_keys)

section \<open>Protected headers\<close>

definition protectedNames :: "string list" where
  "protectedNames = [MetaContentType, MetaCacheControl, MetaContentDisposition, MetaContentEncoding, MetaContentLanguage, MetaExpires]"

lemma ProtectedStandardKeys_eq:
  "ProtectedStandardKeys =
    [spec_of MetaContentType ''x-amz-meta-ct'' [''encryption-content-type''] MetaClassProtectedStandard ''Content-Type'' True,
     spec_of MetaCacheControl ''x-amz-meta-ccache'' [''encryption-cache-control''] MetaClassProtectedStandard ''Cache-Control'' True,
     spec_of MetaContentDisposition ''x-amz-meta-cdisp'' [''encryption-content-disposition''] MetaClassProtectedStandard ''Content-Disposition'' True,
     spec_of MetaContentEncoding ''x-amz-meta-cenc'' [] MetaClassProtectedStandard ''Content-Encoding'' False,
     spec_of MetaContentLanguage ''x-amz-meta-clang'' [] MetaClassProtectedStandard ''Content-Language'' False,
     spec_of MetaExpires ''x-amz-meta-cexp'' [] MetaClassProtectedStandard ''Expires'' False]"
  by (simp add: ProtectedStandardKeys_def standardNames_def metaKeyRegistry_def spec_of_def)

lemma protected_canonical: "map ms_Canonical ProtectedStandardKeys = protectedNames"
  by (simp add: ProtectedStandardKeys_eq spec_of_def protectedNames_def)

lemma protected_registry: "s \<in> set ProtectedStandardKeys \<Longrightarrow> s \<in> set metaKeyRegistry"
  by (auto simp: ProtectedStandardKeys_def)

lemma protected_sub: "set protectedNames \<subseteq> set canonicalNames"
  by (simp add: protectedNames_def canonicalNames_def metaKeyRegistry_def spec_of_def)

lemma protected_distinct: "distinct protectedNames"
  by (simp add: protectedNames_def)

lemma payload_spec:
  assumes "s \<in> set metaKeyRegistry"
  shows "isEncryptionPayloadMetadata (ms_Canonical s) \<longleftrightarrow> ms_LegacyEncryptionPredicate s \<and> ms_Canonical s \<noteq> MetaEncrypted"
  using Lookup_canonical [OF assms] contentLength_not_name [OF registry_names(1) [OF assms]]
    equal_fold_name [OF MetaEncrypted_name(1) registry_names(1) [OF assms]]
  by (auto simp: isEncryptionPayloadMetadata_def IsEncryptionMetadata_def)

lemma protected_spec: "s \<in> set metaKeyRegistry \<Longrightarrow> isProtectedKey (ms_Canonical s) \<longleftrightarrow> ms_Canonical s \<in> set protectedNames"
proof -
  have "list_all (\<lambda>s. ms_Class s = MetaClassProtectedStandard \<longleftrightarrow> ms_Canonical s \<in> set protectedNames) metaKeyRegistry"
    by (simp add: metaKeyRegistry_def spec_of_def protectedNames_def)
  then show "s \<in> set metaKeyRegistry \<Longrightarrow> ?thesis" using Lookup_canonical [of s] by (simp add: isProtectedKey_def list_all_iff)
qed

text \<open>In a clean map what is sealed has canonical names, and the client's own entries stay outside.\<close>

lemma not_reserved_sealed: "\<not> IsGatewayReservedKey k \<Longrightarrow> \<not> isEncryptionPayloadMetadata k \<and> \<not> isProtectedKey k"
  by (auto simp: IsGatewayReservedKey_def isEncryptionPayloadMetadata_def IsEncryptionMetadata_def isProtectedKey_def)

lemma sealed_keys: "clean m \<Longrightarrow> fst ` set (sealedSubset m) \<subseteq> set canonicalNames"
  using not_reserved_sealed by (fastforce simp: clean_def sealedSubset_def)

lemma protectedEntries_map:
  assumes "clean m"
  shows "map_of (protectedEntries m) k = (if k \<in> set protectedNames then nonempty (map_of m k) else None)"
    "distinct (map fst (protectedEntries m))" "fst ` set (protectedEntries m) \<subseteq> set canonicalNames"
proof -
  define h where "h = (\<lambda>s :: meta_key_spec. nonempty (map_of m (ms_Canonical s)))"
  have v: "metadataValueFold m (ms_Canonical s) = mget m (ms_Canonical s)" if "s \<in> set metaKeyRegistry" for s
    using metadataValue_tidy [OF clean_tidy [OF assms] registry_names(1) [OF that]] by (simp add: metadataValueFold_def mget_def)
  have e: "protectedEntries m = List.map_filter (\<lambda>s. map_option (Pair (ms_Canonical s)) (h s)) ProtectedStandardKeys"
    unfolding protectedEntries_def List.map_filter_def
    by (intro arg_cong2 [where f = map] filter_cong refl map_cong) (auto simp: v protected_registry h_def nonempty_def mget_def Let_def split: option.splits)
  have inj: "t = u" if "t \<in> set ProtectedStandardKeys" "u \<in> set ProtectedStandardKeys" "ms_Canonical t = ms_Canonical u" for t u
    using spec_inj(2) protected_registry that by blast
  have n: "k \<in> set protectedNames \<longleftrightarrow> (\<exists>s \<in> set ProtectedStandardKeys. k = ms_Canonical s)" for k
    using arg_cong [OF protected_canonical, of set] by auto
  show "map_of (protectedEntries m) k = (if k \<in> set protectedNames then nonempty (map_of m k) else None)"
  proof (cases "k \<in> set protectedNames")
    case True
    then obtain s where "s \<in> set ProtectedStandardKeys" "k = ms_Canonical s" using n by blast
    then show ?thesis unfolding e using map_filter_Some [of s ProtectedStandardKeys h ms_Canonical] inj True by (simp add: h_def)
  next
    case False
    then show ?thesis unfolding e using n by (simp add: map_filter_None image_iff)
  qed
  show "fst ` set (protectedEntries m) \<subseteq> set canonicalNames"
    unfolding e fst_map_filter using protected_registry canonical_name by blast
  have "distinct (map ms_Canonical ProtectedStandardKeys)" using protected_distinct protected_canonical by simp
  then have "distinct (map ms_Canonical (filter (\<lambda>s. h s \<noteq> None) ProtectedStandardKeys))" 
    by (auto simp: distinct_map intro: inj_on_subset)
  then show "distinct (map fst (protectedEntries m))" unfolding e by (rule distinct_map_filter)
qed

section \<open>Sealing and opening\<close>

lemma expand_tidy:
  assumes "tidy n"
  shows "tidy (expandMetadataForCrypto n)" "map_of (expandMetadataForCrypto n) MetaEncryptedMetadataCompact = None"
proof -
  define x where "x = filter (\<lambda>(k, v). \<not> isCompactedKey ProviderAWS k) n"
  define y where "y = (case metadataValue n MetaEncrypted of Some v \<Rightarrow> AList.update MetaEncrypted v x | None \<Rightarrow> x)"
  have e: "expandMetadataForCrypto n = meta_merge y (expandEncryptionMetadata ProviderAWS n)"
    unfolding expandMetadataForCrypto_def ExpandMetadata_def y_def x_def Let_def ..
  have "distinct (map fst x)" using assms by (simp add: x_def tidy_def distinct_filter_keys)
  then have d: "distinct (map fst y)" by (simp add: y_def distinct_update split: option.splits)
  have k: "fst ` set y \<subseteq> insert MetaEncrypted (fst ` set n)"
    by (auto simp: y_def x_def dom_update split: option.splits)
  have k': "fst ` set (expandEncryptionMetadata ProviderAWS n) \<subseteq> set metaKeyNames"
    using registry_names(1) by (auto simp: expandEncryptionMetadata_def fst_map_filter)
  show "tidy (expandMetadataForCrypto n)"
    unfolding e tidy_def merge_keys(1)
  proof (intro conjI ballI impI)
    show "distinct (map fst (meta_merge y (expandEncryptionMetadata ProviderAWS n)))" by (rule merge_keys(2) [OF d])
    show "j \<in> set metaKeyNames" if "j \<in> fst ` set y \<union> fst ` set (expandEncryptionMetadata ProviderAWS n)" "IsGatewayReservedKey j" for j
    proof (cases "j \<in> fst ` set n")
      case True
      then show ?thesis using assms that(2) unfolding tidy_def by blast
    next
      case False
      then have "j = MetaEncrypted \<or> j \<in> set metaKeyNames" using that(1) subsetD [OF k, of j] subsetD [OF k', of j] by auto
      then show ?thesis using MetaEncrypted_name(1) by auto
    qed
  qed
  have s: "spec_of MetaEncryptedMetadata ''x-amz-meta-em'' [] MetaClassStructural [] False \<in> set metaKeyRegistry"
    by (simp add: metaKeyRegistry_def)
  have c: "isCompactedKey ProviderAWS MetaEncryptedMetadataCompact"
    using s by (force simp: isCompactedKey_def list_ex_iff spec_of_def MetaEncryptedMetadataCompact_def)
  have "MetaEncryptedMetadataCompact \<notin> ms_Canonical ` Collect hasAlias"
    using compacted_reserved [OF c] by (auto simp: hasAlias_def canonicalNames_def)
  then show "map_of (expandMetadataForCrypto n) MetaEncryptedMetadataCompact = None"
    using map_of_expand(2) [OF assms] c by simp
qed

lemma compact_tidy: "clean m \<Longrightarrow> pp_CompactionStrategy p \<in> {''none'', ''base64url''} \<Longrightarrow> tidy (CompactMetadata p m)"
  using map_of_CompactMetadata(3) [of m p] clean_tidy by (auto simp: CompactMetadata_def ShouldCompact_def)

lemma ascii_append [simp]: "ascii (a @ b) \<longleftrightarrow> ascii a \<and> ascii b"
  by (simp add: ascii_def)

lemma ascii_meta_filter: "ascii_meta m \<Longrightarrow> ascii_meta (filter P m)"
  by (auto simp: ascii_meta_def list_all_iff)

lemma nonempty_case: "(case nonempty (map_of m k) of Some v \<Rightarrow> v | None \<Rightarrow> z) = (if mget m k = [] then z else mget m k)"
  by (simp add: nonempty_def mget_def split: option.splits)

lemma sealMetadataBlob_Inr:
  assumes "sealMetadataBlob S e rnd m = Inr m'" "clean m" "suite_laws S" "ascii_meta m"
  shows "clean m' \<and> (\<exists>blob mk. blob \<noteq> [] \<and> en_metadataKey e = Some mk \<and>
    (\<forall>k. mget m' k = (if k = MetaEncrypted then ''true'' else if k = MetaEncryptedMetadata then blob
       else if isEncryptionPayloadMetadata k \<and> k \<notin> set protectedNames then [] else mget m k)) \<and>
    decryptMetadata S e blob = Inr (AList.update MetaEncrypted ''true'' (sort_key fst (sealedSubset m))))"
proof -
  obtain mk nonce where n: "en_metadataKey e = Some mk" "length mk \<in> {16, 24, 32}" "rand_bytes rnd 4 nonceSize = Inr nonce"
      "length nonce = nonceSize"
    and e: "encryptMetadata S e rnd m = Inr (encodeBase64 (nonce @ Seal (aes_gcm S mk) nonce (jsonMarshal (sealedSubset m)) []))"
    using assms(1) rand_bytes_length
    by (fastforce simp: sealMetadataBlob_def encryptMetadata_def metadataAEAD_def and_then_eq_Inr goSeal_def split: option.splits if_splits)
  define blob where "blob = encodeBase64 (nonce @ Seal (aes_gcm S mk) nonce (jsonMarshal (sealedSubset m)) [])"
  note P = protectedEntries_map [OF assms(2)]
  define x where "x = AList.update MetaEncryptedMetadata blob (AList.update MetaEncrypted ''true'' (filter (\<lambda>(k, v). \<not> isEncryptionPayloadMetadata k) m))"
  have m': "m' = meta_merge x (protectedEntries m)"
    using assms(1) e by (simp add: sealMetadataBlob_def x_def blob_def)
  have x: "clean x" using assms(2) by (simp add: x_def clean_update clean_filter)
  have c: "clean m'" unfolding m' by (rule clean_merge [OF x P(3)])
  have np: "MetaEncrypted \<notin> set protectedNames" "MetaEncryptedMetadata \<notin> set protectedNames" by (simp_all add: protectedNames_def)
  have g: "mget m' k = (if k = MetaEncrypted then ''true'' else if k = MetaEncryptedMetadata then blob
       else if isEncryptionPayloadMetadata k \<and> k \<notin> set protectedNames then [] else mget m k)" for k
  proof -
    have "mget x k = (if k = MetaEncryptedMetadata then blob else if k = MetaEncrypted then ''true''
        else if isEncryptionPayloadMetadata k then [] else mget m k)"
      by (simp add: x_def mget_update mget_filter)
    moreover have "mget m' k = (if k \<in> set protectedNames \<and> mget m k \<noteq> [] then mget m k else mget x k)"
      unfolding m' mget_merge [OF P(2)] P(1) by (simp add: nonempty_case)
    ultimately show ?thesis using np by auto
  qed
  have "aead_laws (aes_gcm S mk)" using assms(3) by (simp add: suite_laws_def)
  moreover have "jsonUnmarshal (jsonMarshal (sealedSubset m)) = Inr (Some (sort_key fst (sealedSubset m)))"
    using assms(2,4) by (intro jsonUnmarshal_jsonMarshal) (simp_all add: sealedSubset_def ascii_meta_filter clean_def distinct_filter_keys)
  ultimately have "decryptMetadata S e blob = Inr (AList.update MetaEncrypted ''true'' (sort_key fst (sealedSubset m)))"
    using n by (simp add: decryptMetadata_def metadataAEAD_def blob_def)
  moreover have "blob \<noteq> []"
    unfolding blob_def using n(4) encodeBase64_inject [of "nonce @ Seal (aes_gcm S mk) nonce (jsonMarshal (sealedSubset m)) []" "[]"]
    by (auto simp: nonceSize_def encodeBase64_def)
  ultimately show ?thesis using n(1) c g by blast
qed

text \<open>
  What a reader sees of the map \<open>m\<close> an operation built, after storage, expansion to \<open>x\<close> and opening of the
  blob: the entries of the gateway are those of \<open>m\<close>, apart from those compaction drops, and the
  others are as they were stored.
\<close>

definition stored_view :: "meta \<Rightarrow> meta \<Rightarrow> meta \<Rightarrow> bool" where
  "stored_view m x y \<longleftrightarrow> tidy y \<and>
     (\<forall>k. k \<notin> set droppedKeys \<longrightarrow> mget y k = (if IsGatewayReservedKey k then mget m k else mget x k))"

lemma stored_viewD:
  "stored_view m x y \<Longrightarrow> IsGatewayReservedKey k \<Longrightarrow> k \<notin> set droppedKeys \<Longrightarrow> mget y k = mget m k"
  "stored_view m x y \<Longrightarrow> \<not> IsGatewayReservedKey k \<Longrightarrow> k \<notin> set droppedKeys \<Longrightarrow> mget y k = mget x k"
  "stored_view m x y \<Longrightarrow> tidy y"
  by (auto simp: stored_view_def)

lemma merge_tidy: "tidy a \<Longrightarrow> fst ` set b \<subseteq> set metaKeyNames \<Longrightarrow> tidy (meta_merge a b)"
  by (auto simp: tidy_def merge_keys)

lemma delete_tidy: "tidy a \<Longrightarrow> tidy (AList.delete k a)"
  by (auto simp: tidy_def AList.delete_eq distinct_filter_keys)

lemma dropped_payload: "k \<in> set droppedKeys \<Longrightarrow> isEncryptionPayloadMetadata k \<and> k \<notin> set protectedNames \<and> k \<noteq> MetaEncrypted \<and> k \<noteq> MetaEncryptedMetadata"
proof -
  assume k: "k \<in> set droppedKeys"
  have "list_all (\<lambda>k. k \<in> ms_Canonical ` set (filter ms_LegacyEncryptionPredicate metaKeyRegistry) \<and> k \<notin> set protectedNames \<and>
      k \<noteq> MetaEncrypted \<and> k \<noteq> MetaEncryptedMetadata) droppedKeys"
    by (simp add: droppedKeys_def metaKeyRegistry_def spec_of_def protectedNames_def)
  then show ?thesis using k payload_spec by (auto simp: list_all_iff)
qed

lemma unseal_sealed:
  assumes "sealMetadataBlob S e rnd m = Inr m'" "clean m" "suite_laws S" "ascii_meta m"
    "tidy x" "map_of x MetaEncryptedMetadataCompact = None" "mget x MetaEncryptedMetadata = mget m' MetaEncryptedMetadata"
  shows "\<exists>y d. unsealMetadata S e x = Inr (y, Some d) \<and> tidy y \<and>
    (\<forall>k. mget y k = (if k = MetaEncryptedMetadata then [] else if k = MetaEncrypted then ''true''
       else case (if isEncryptionPayloadMetadata k \<or> isProtectedKey k then map_of m k else None) of Some v \<Rightarrow> v | None \<Rightarrow> mget x k)) \<and>
    (\<forall>k. isEncryptionPayloadMetadata k \<longrightarrow> mget d k = mget m k)"
proof -
  obtain blob mk where n: "blob \<noteq> []" "en_metadataKey e = Some mk" "mget m' MetaEncryptedMetadata = blob"
    and d: "decryptMetadata S e blob = Inr (AList.update MetaEncrypted ''true'' (sort_key fst (sealedSubset m)))"
    using sealMetadataBlob_Inr [OF assms(1-4)] by auto
  define d where "d = AList.update MetaEncrypted ''true'' (sort_key fst (sealedSubset m))"
  have sd: "distinct (map fst (sealedSubset m))" using assms(2) by (simp add: sealedSubset_def clean_def distinct_filter_keys)
  have md: "map_of d k = (if k = MetaEncrypted then Some ''true'' else if isEncryptionPayloadMetadata k \<or> isProtectedKey k then map_of m k else None)" for k
    by (simp add: d_def update_conv' map_of_sort_key [OF sd]) (simp add: sealedSubset_def map_of_filter_key)
  have dd: "distinct (map fst d)" using sd unfolding d_def by (intro distinct_update) (metis distinct_map distinct_sort set_sort)
  have dk: "fst ` set d \<subseteq> set metaKeyNames"
    using sealed_keys [OF assms(2)] MetaEncrypted_name(1) registry_names(1) by (auto simp: d_def dom_update canonicalNames_def)
  have u: "unsealMetadata S e x = Inr (AList.delete MetaEncryptedMetadata (meta_merge x d), Some d)"
    using n assms(6,7) d by (simp add: unsealMetadata_def d_def)
  have "mget (AList.delete MetaEncryptedMetadata (meta_merge x d)) k =
      (if k = MetaEncryptedMetadata then [] else if k = MetaEncrypted then ''true''
       else case (if isEncryptionPayloadMetadata k \<or> isProtectedKey k then map_of m k else None) of Some v \<Rightarrow> v | None \<Rightarrow> mget x k)" for k
    by (simp add: mget_delete mget_merge [OF dd] md)
  moreover have "tidy (AList.delete MetaEncryptedMetadata (meta_merge x d))"
    using delete_tidy merge_tidy assms(5) dk by simp
  moreover have "isEncryptionPayloadMetadata k \<Longrightarrow> mget d k = mget m k" for k
    using md [of k] MetaEncrypted_name payload_spec [OF MetaEncrypted_spec] by (auto simp: mget_def spec_of_def)
  ultimately show ?thesis using u by blast
qed

text \<open>The usual case: the headers hold what was sealed nowhere else.\<close>

lemma unseal_view:
  assumes "sealMetadataBlob S e rnd m = Inr m'" "clean m" "suite_laws S" "ascii_meta m" "mget m MetaEncrypted = ''true''"
    "mget m MetaEncryptedMetadata = []" "tidy x" "map_of x MetaEncryptedMetadataCompact = None"
    "mget x MetaEncryptedMetadata = mget m' MetaEncryptedMetadata"
    "\<And>k. IsGatewayReservedKey k \<Longrightarrow> k \<notin> set droppedKeys \<Longrightarrow> k \<noteq> MetaEncryptedMetadata \<Longrightarrow> mget x k = mget m' k \<or> mget x k = mget m k"
  shows "\<exists>y d. unsealMetadata S e x = Inr (y, Some d) \<and> stored_view m x y \<and> mget y MetaEncryptedMetadata = []"
proof -
  obtain y d where y: "unsealMetadata S e x = Inr (y, Some d)" "tidy y"
    and g: "\<And>k. mget y k = (if k = MetaEncryptedMetadata then [] else if k = MetaEncrypted then ''true''
       else case (if isEncryptionPayloadMetadata k \<or> isProtectedKey k then map_of m k else None) of Some v \<Rightarrow> v | None \<Rightarrow> mget x k)"
    using unseal_sealed [OF assms(1-4,7-9)] by blast
  obtain blob where m': "\<And>k. mget m' k = (if k = MetaEncrypted then ''true'' else if k = MetaEncryptedMetadata then blob
       else if isEncryptionPayloadMetadata k \<and> k \<notin> set protectedNames then [] else mget m k)"
    using sealMetadataBlob_Inr [OF assms(1-4)] by blast
  have "mget y k = (if IsGatewayReservedKey k then mget m k else mget x k)" if k: "k \<notin> set droppedKeys" for k
  proof (cases "k = MetaEncryptedMetadata \<or> k = MetaEncrypted")
    case True
    then have "IsGatewayReservedKey k" using canonical_reserved [of k] by auto
    then show ?thesis using True g [of k] assms(5,6) by auto
  next
    case False
    show ?thesis
    proof (cases "IsGatewayReservedKey k")
      case True
      then have "mget x k = mget m' k \<or> mget x k = mget m k" using assms(10) k False by blast
      then show ?thesis using g [of k] m' [of k] True False by (cases "map_of m k") (auto simp: mget_None mget_Some)
    next
      case False
      then show ?thesis using g [of k] not_reserved_sealed [OF False] \<open>\<not> (k = MetaEncryptedMetadata \<or> k = MetaEncrypted)\<close> by simp
    qed
  qed
  then show ?thesis using y g [of MetaEncryptedMetadata] by (auto simp: stored_view_def)
qed

section \<open>The view of the client\<close>

text \<open>Keys that no part of the gateway interprets.\<close>

definition ordinaryKey :: "string \<Rightarrow> bool" where
  "ordinaryKey k \<longleftrightarrow> \<not> IsGatewayReservedKey k \<and> \<not> IsStandard k \<and> \<not> equal_fold k ''Content-Length'' \<and> \<not> equal_fold k ''ETag''"

definition viewStep :: "string \<times> string \<Rightarrow> meta \<Rightarrow> meta" where
  "viewStep = (\<lambda>(k, v) m. if IsGatewayReservedKey k \<or> equal_fold k ''Content-Length'' \<or> equal_fold k ''ETag'' then m
     else AList.update (if IsStandard k then canonicalStandard k else k) v m)"

definition viewProtect :: "meta \<Rightarrow> meta_key_spec \<Rightarrow> meta \<Rightarrow> meta" where
  "viewProtect expanded s m = (if protectedValue expanded s \<noteq> [] then AList.update (ms_Header s) (protectedValue expanded s) m else m)"

lemma plaintextMetadataView_eq:
  "plaintextMetadataView m n etag =
     (let out = fold (viewProtect m) ProtectedStandardKeys (fold viewStep m []);
          out = (if n \<ge> 0 then AList.update ''Content-Length'' (show_int n) out else out)
      in if etag \<noteq> [] then AList.update ''ETag'' etag out else out)"
  by (simp add: plaintextMetadataView_def viewStep_def [abs_def] viewProtect_def [abs_def] Let_def)

lemma IsStandard_canonical: "IsStandard k \<Longrightarrow> canonicalStandard k \<in> set standardNames"
  by (auto simp: IsStandard_def canonicalStandard_def list_ex_iff find_None_iff find_Some_iff split: option.splits)

lemma standard_IsStandard: "k \<in> set standardNames \<Longrightarrow> IsStandard k"
  by (force simp: IsStandard_def list_ex_iff equal_fold_def)

lemma protected_headers: "map ms_Header ProtectedStandardKeys = standardNames"
  by (simp add: ProtectedStandardKeys_eq spec_of_def standardNames_def)

lemma viewStep_other:
  assumes "ordinaryKey k" "k \<notin> fst ` set m"
  shows "map_of (fold viewStep m acc) k = map_of acc k"
  using assms(2)
proof (induction m arbitrary: acc)
  case (Cons e m)
  obtain k' v where e: "e = (k', v)" by fastforce
  have "k \<noteq> (if IsStandard k' then canonicalStandard k' else k')"
    using Cons.prems assms(1) IsStandard_canonical [of k'] standard_IsStandard [of k] e by (auto simp: ordinaryKey_def)
  then have "map_of (viewStep e acc) k = map_of acc k" by (simp add: viewStep_def e update_conv')
  then show ?case using Cons by simp
qed simp

lemma viewStep_ordinary:
  assumes "ordinaryKey k" "distinct (map fst m)"
  shows "map_of (fold viewStep m acc) k = (case map_of m k of Some v \<Rightarrow> Some v | None \<Rightarrow> map_of acc k)"
  using assms(2)
proof (induction m arbitrary: acc)
  case (Cons e m)
  obtain k' v where e: "e = (k', v)" by fastforce
  show ?case
  proof (cases "k' = k")
    case True
    have "map_of (viewStep e acc) k = Some v" using assms(1) True by (simp add: viewStep_def e update_conv' ordinaryKey_def)
    then show ?thesis using viewStep_other [OF assms(1), of m] Cons.prems True e by simp
  next
    case False
    then have "map_of (fold viewStep m (viewStep e acc)) k = (case map_of m k of Some v \<Rightarrow> Some v | None \<Rightarrow> map_of (viewStep e acc) k)"
      using Cons by simp
    moreover have "map_of (viewStep e acc) k = map_of acc k" using viewStep_other [OF assms(1), of "[e]" acc] False e by simp
    ultimately show ?thesis using False e by (simp split: option.splits)
  qed
qed simp

lemma viewProtect_other: "k \<notin> ms_Header ` set ss \<Longrightarrow> map_of (fold (viewProtect x) ss m) k = map_of m k"
  by (induction ss arbitrary: m) (auto simp: viewProtect_def update_conv')

lemma view_ordinary:
  assumes "ordinaryKey k" "distinct (map fst m)"
  shows "mget (plaintextMetadataView m n etag) k = mget m k"
proof -
  have k: "k \<noteq> ''Content-Length''" "k \<noteq> ''ETag''" using assms(1) by (auto simp: ordinaryKey_def)
  have "k \<notin> ms_Header ` set ProtectedStandardKeys"
    using protected_headers standard_IsStandard [of k] assms(1) by (metis image_set ordinaryKey_def)
  then have "map_of (fold (viewProtect m) ProtectedStandardKeys (fold viewStep m [])) k = map_of m k"
    using viewStep_ordinary [OF assms, of "[]"] by (simp add: viewProtect_other split: option.splits)
  then have "mget (fold (viewProtect m) ProtectedStandardKeys (fold viewStep m [])) k = mget m k" by (simp add: mget_def)
  then show ?thesis using k by (simp add: plaintextMetadataView_eq Let_def mget_update)
qed

lemma viewProtect_same:
  "distinct (map ms_Header ss) \<Longrightarrow> s \<in> set ss \<Longrightarrow> protectedValue x s \<noteq> [] \<Longrightarrow>
     map_of (fold (viewProtect x) ss m) (ms_Header s) = Some (protectedValue x s)"
proof (induction ss arbitrary: m)
  case (Cons t ss)
  show ?case
  proof (cases "t = s")
    case True
    then have "ms_Header s \<notin> ms_Header ` set ss" using Cons.prems(1) by auto
    then have "map_of (fold (viewProtect x) ss (viewProtect x s m)) (ms_Header s) = map_of (viewProtect x s m) (ms_Header s)"
      by (rule viewProtect_other)
    then show ?thesis using True Cons.prems(3) by (simp add: viewProtect_def [of x s] update_conv')
  qed (use Cons in auto)
qed simp

lemma protectedValue_canonical: "tidy m \<Longrightarrow> s \<in> set metaKeyRegistry \<Longrightarrow> mget m (ms_Canonical s) \<noteq> [] \<Longrightarrow> protectedValue m s = mget m (ms_Canonical s)"
  using metadataValue_tidy [OF _ registry_names(1), of m s] by (simp add: protectedValue_def metadataValueFold_def mget_def)

lemma view_standard:
  assumes "tidy m" "s \<in> set ProtectedStandardKeys" "mget m (ms_Canonical s) \<noteq> []"
  shows "mget (plaintextMetadataView m n etag) (ms_Header s) = mget m (ms_Canonical s)"
proof -
  have v: "protectedValue m s = mget m (ms_Canonical s)" by (rule protectedValue_canonical [OF assms(1) protected_registry [OF assms(2)] assms(3)])
  have "distinct (map ms_Header ProtectedStandardKeys)" by (simp add: protected_headers standardNames_def)
  then have "map_of (fold (viewProtect m) ProtectedStandardKeys (fold viewStep m [])) (ms_Header s) = Some (mget m (ms_Canonical s))"
    using viewProtect_same [OF _ assms(2)] v assms(3) by simp
  moreover have "ms_Header s \<in> set standardNames" using assms(2) protected_headers by (metis image_eqI image_set)
  then have "ms_Header s \<noteq> ''Content-Length''" "ms_Header s \<noteq> ''ETag''" by (auto simp: standardNames_def)
  ultimately show ?thesis by (simp add: plaintextMetadataView_eq Let_def mget_update mget_def update_conv')
qed

lemma view_etag: "mget (plaintextMetadataView m n etag) ''ETag'' = etag" if "etag \<noteq> []"
  using that by (simp add: plaintextMetadataView_eq Let_def mget_update)

end
