(* ===== verification/Engine_Buffered.thy ===== *)
theory Engine_Buffered
  imports Engine_Metadata
begin

text \<open>
  The encryption engine, second part: objects that are sealed as a whole (\<^verbatim>\<open>Encrypt\<close>, \<^verbatim>\<open>Decrypt\<close> and
  the metadata fallback of \<^verbatim>\<open>internal/crypto/engine.go\<close>) and the manifest of a multipart upload. An
  error that wraps another with \<^verbatim>\<open>%w\<close> is identified with the wrapped one. \<^verbatim>\<open>Encrypt\<close> writes the key
  version into the map of its caller, so that map is part of the result. The count of wraps in flight,
  which the rotation waits for, is the subject of theory \<open>Rotation_System\<close>.
\<close>

section \<open>Helpers\<close>

fun readAll :: "source \<Rightarrow> goerr + bytes" where
  "readAll [] = Inr []"
| "readAll (SData d # s) = and_then (readAll s) (\<lambda>b. Inr (d @ b))"
| "readAll (SFail e # s) = (if e = EOF then Inr [] else Inl e)"

definition computeETag :: "crypto_env \<Rightarrow> bytes \<Rightarrow> string" where
  "computeETag E data = hex_encode (ce_digest E data)"

definition parseKeyVersion :: "string \<Rightarrow> int" where
  "parseKeyVersion v = (if v = [] then 0 else case parse_int64 v of None \<Rightarrow> 0 | Some n \<Rightarrow> n)"

text \<open>The envelope that was stored with an object; the time of creation is not stored.\<close>

definition storedEnvelope :: "meta \<Rightarrow> bytes \<Rightarrow> key_envelope" where
  "storedEnvelope m wrapped =
     \<lparr>KeyID = mget m MetaKMSKeyID, KeyVersion = parseKeyVersion (mget m MetaKeyVersion), env_Provider = mget m MetaKMSProvider,
      Ciphertext = wrapped, CreatedAt = 0\<rparr>"

section \<open>Keys of new objects\<close>

definition newDataKey ::
  "crypto_env \<Rightarrow> engine \<Rightarrow> 's key_manager option \<Rightarrow> random \<Rightarrow> km_call \<Rightarrow> bytes \<Rightarrow> meta \<Rightarrow> 's \<Rightarrow>
     (goerr + bytes \<times> key_envelope option) \<times> meta \<times> 's" where
  "newDataKey E e M rnd c salt metadata s =
     (let keySize = keySizeOf (en_preferredAlgorithm e) in
      case M of
        Some M \<Rightarrow>
          (case rand_bytes rnd 2 keySize of
             Inl err \<Rightarrow> (Inl err, metadata, s)
           | Inr key \<Rightarrow>
               (case km_WrapKey M c key (map_of metadata) s of
                  (Inl err, s') \<Rightarrow> (Inl (Err ''failed to wrap data key''), metadata, s')
                | (Inr env, s') \<Rightarrow> (Inr (key, Some env), AList.update MetaKeyVersion (show_int (KeyVersion env)) metadata, s')))
      | None \<Rightarrow>
          (and_then (en_deriveKey (ce_kdf E) e salt) (\<lambda>key.
             if length key \<noteq> keySize then Inl (Err ''internal: PBKDF2 returned unexpected key size'') else Inr (key, None)),
           metadata, s))"

section \<open>Metadata of new objects\<close>

definition putNonempty :: "string \<Rightarrow> string \<Rightarrow> meta \<Rightarrow> meta" where
  "putNonempty k v m = (if v \<noteq> [] then AList.update k v m else m)"

definition stampCanonical :: "meta \<Rightarrow> meta \<Rightarrow> meta" where
  "stampCanonical dst caller = fold (\<lambda>s. putNonempty (ms_Canonical s) (metadataValueFold caller (ms_Canonical s))) ProtectedStandardKeys dst"

definition stampEnvelope :: "key_envelope option \<Rightarrow> meta \<Rightarrow> meta \<Rightarrow> meta" where
  "stampEnvelope envelope caller m =
     (case envelope of
        Some env \<Rightarrow>
          AList.update MetaWrappedKeyCiphertext (encodeBase64 (Ciphertext env))
            (putNonempty MetaKMSProvider (env_Provider env)
              (putNonempty MetaKMSKeyID (KeyID env)
                (AList.update MetaKeyVersion (show_int (KeyVersion env)) m)))
      | None \<Rightarrow> putNonempty MetaKeyVersion (mget caller MetaKeyVersion) m)"

definition bufferedMetadata ::
  "crypto_env \<Rightarrow> engine \<Rightarrow> bytes \<Rightarrow> bytes \<Rightarrow> bytes \<Rightarrow> bytes \<Rightarrow> key_envelope option \<Rightarrow> meta \<Rightarrow> meta" where
  "bufferedMetadata E e plaintext salt nonce bindingID envelope metadata =
     (let m = dropGatewayReserved metadata;
          m = AList.update MetaEncrypted ''true'' m;
          m = AList.update MetaObjectFormatVersion ''buffered-v2'' m;
          m = AList.update MetaObjectBindingID (encodeBase64URL bindingID) m;
          m = AList.update MetaAlgorithm (en_preferredAlgorithm e) m;
          m = AList.update MetaKeySalt (encodeBase64 salt) m;
          m = AList.update MetaIV (encodeBase64 nonce) m;
          m = AList.update MetaOriginalSize (show_int (int (length plaintext))) m;
          m = AList.update MetaOriginalETag (computeETag E plaintext) m;
          m = AList.update MetaKDFParams (FormatKDFParams (en_defaultKDFParams e)) m;
          m = putNonempty MetaContentType (mget metadata ''Content-Type'') m;
          m = stampProtectedStandard m metadata;
          m = stampCanonical m metadata
      in stampEnvelope envelope metadata m)"

definition sealIfConfigured :: "cipher_suite \<Rightarrow> engine \<Rightarrow> random \<Rightarrow> meta \<Rightarrow> goerr + meta" where
  "sealIfConfigured S e rnd m = (if en_metadataKey e \<noteq> None then sealMetadataBlob S e rnd m else Inr m)"

definition needsMetadataFallback :: "engine \<Rightarrow> meta \<Rightarrow> bool" where
  "needsMetadataFallback e m \<longleftrightarrow> ValidateMetadataSize (en_profile e) (persistedMetadataEnvelope (CompactMetadata (en_profile e) m)) \<noteq> Inr ()"

section \<open>Encryption\<close>

definition fallbackHeaders ::
  "engine \<Rightarrow> bytes \<Rightarrow> string \<Rightarrow> bytes \<Rightarrow> bytes \<Rightarrow> bytes \<Rightarrow> key_envelope option \<Rightarrow> meta \<Rightarrow> meta" where
  "fallbackHeaders e plaintext etag salt nonce bindingID envelope full =
     (let m = [(MetaEncrypted, ''true''), (MetaFallbackMode, ''true''), (MetaFallbackVersion, ''3''),
            (MetaObjectFormatVersion, ''buffered-fallback-v2''), (MetaObjectBindingID, encodeBase64URL bindingID),
            (MetaAlgorithm, en_preferredAlgorithm e), (MetaKeySalt, encodeBase64 salt), (MetaIV, encodeBase64 nonce),
            (MetaOriginalSize, show_int (int (length plaintext))), (MetaOriginalETag, etag),
            (MetaKDFParams, FormatKDFParams (en_defaultKDFParams e))];
          m = (case envelope of None \<Rightarrow> m | Some env \<Rightarrow> stampEnvelope envelope [] m);
          m = fold (\<lambda>s. putNonempty (ms_Canonical s) (mget full (ms_Canonical s))) ProtectedStandardKeys m
      in putNonempty MetaEncryptedMetadata (mget full MetaEncryptedMetadata) m)"

definition encryptWithMetadataFallback ::
  "crypto_env \<Rightarrow> engine \<Rightarrow> object_context \<Rightarrow> bytes \<Rightarrow> meta \<Rightarrow> string \<Rightarrow> bytes \<Rightarrow> bytes \<Rightarrow> bytes \<Rightarrow> key_envelope option \<Rightarrow> bytes \<Rightarrow>
     goerr + bytes \<times> meta" where
  "encryptWithMetadataFallback E e object plaintext full etag salt nonce key envelope bindingID =
     (let algorithm = en_preferredAlgorithm e; json = jsonMarshal full in
      if length bindingID \<noteq> 16 then Inl (Err ''fallback-v2: invalid binding ID'')
      else if length key \<noteq> keySizeOf algorithm then Inl (Err ''fallback-v2: invalid data key size'')
      else and_then (createAEADCipher (ce_suite E) algorithm key) (\<lambda>A.
           and_then (checkedLengthPrefix (length json)) (\<lambda>prefix.
             if int (length json) > maxInt64 - 4 \<or> int (length plaintext) > maxInt64 - 4 - int (length json)
             then Inl (Err ''fallback-v2: plaintext size exceeds int'')
             else and_then (buildObjectAAD aadBufferedV2 object bindingID []) (\<lambda>aad.
                  and_then (goSeal A nonce (prefix @ json @ plaintext) aad) (\<lambda>ciphertext.
                  let stored = CompactMetadata (en_profile e) (fallbackHeaders e plaintext etag salt nonce bindingID envelope full) in
                  and_then (ValidateMetadataSize (en_profile e) (persistedMetadataEnvelope stored)) (\<lambda>_. Inr (ciphertext, stored)))))))"

definition sealBuffered ::
  "crypto_env \<Rightarrow> engine \<Rightarrow> random \<Rightarrow> object_context \<Rightarrow> bytes \<Rightarrow> bytes \<Rightarrow> bytes \<Rightarrow> bytes \<Rightarrow> key_envelope option \<Rightarrow> meta \<Rightarrow>
     goerr + bytes \<times> meta" where
  "sealBuffered E e rnd object plaintext salt nonce key envelope metadata =
     and_then (rand_bytes rnd 3 16) (\<lambda>bindingID.
     and_then (sealIfConfigured (ce_suite E) e rnd (bufferedMetadata E e plaintext salt nonce bindingID envelope metadata)) (\<lambda>m.
       if needsMetadataFallback e m
       then encryptWithMetadataFallback E e object plaintext m (computeETag E plaintext) salt nonce key envelope bindingID
       else and_then (createAEADCipher (ce_suite E) (en_preferredAlgorithm e) key) (\<lambda>A.
            and_then (buildObjectAAD aadBufferedV2 object bindingID []) (\<lambda>aad.
            and_then (goSeal A nonce plaintext aad) (\<lambda>ciphertext.
              Inr (ciphertext, CompactMetadata (en_profile e) m))))))"

definition encryptBuffered ::
  "crypto_env \<Rightarrow> engine \<Rightarrow> 's key_manager option \<Rightarrow> random \<Rightarrow> km_call \<Rightarrow> object_context \<Rightarrow> source \<Rightarrow> meta \<Rightarrow> 's \<Rightarrow>
     (goerr + bytes \<times> meta) \<times> meta \<times> 's" where
  "encryptBuffered E e M rnd c object reader metadata s =
     (case and_then (readAll reader) (\<lambda>plaintext.
           and_then (rand_bytes rnd 0 saltSize) (\<lambda>salt.
           and_then (generateNonceForAlgorithm rnd 1 (en_preferredAlgorithm e)) (\<lambda>nonce. Inr (plaintext, salt, nonce)))) of
        Inl err \<Rightarrow> (Inl err, metadata, s)
      | Inr (plaintext, salt, nonce) \<Rightarrow>
          (case newDataKey E e M rnd c salt metadata s of
             (Inl err, metadata, s) \<Rightarrow> (Inl err, metadata, s)
           | (Inr (key, envelope), metadata, s) \<Rightarrow>
               (sealBuffered E e rnd object plaintext salt nonce key envelope metadata, metadata, s)))"

section \<open>Decryption\<close>

definition bufferedKey ::
  "crypto_env \<Rightarrow> engine \<Rightarrow> 's key_manager option \<Rightarrow> km_call \<Rightarrow> meta \<Rightarrow> bytes \<Rightarrow> nat \<Rightarrow> 's \<Rightarrow> (goerr + bytes) \<times> 's" where
  "bufferedKey E e M c x salt keySize s =
     (case (M, mget x MetaWrappedKeyCiphertext) of
        (Some M, _ # _) \<Rightarrow>
          (case decodeBase64 (mget x MetaWrappedKeyCiphertext) of
             Inl err \<Rightarrow> (Inl err, s)
           | Inr wrapped \<Rightarrow>
               if mget x MetaKMSKeyID = [] then (Inl (Err ''failed to unwrap data key: KMS key ID is missing from metadata''), s)
               else if wrapped = [] then (Inl (Err ''failed to unwrap data key: wrapped key ciphertext is empty''), s)
               else if length wrapped < 32 \<or> length wrapped > 1024
               then (Inl (Err ''failed to unwrap data key: wrapped key ciphertext has unexpected size''), s)
               else (case km_UnwrapKey M c (Some (storedEnvelope x wrapped)) (map_of x) s of
                       (Inl err, s') \<Rightarrow> (Inl (Err ''failed to unwrap data key''), s')
                     | (Inr key, s') \<Rightarrow>
                         (if length key \<noteq> keySize then Inl (Err ''failed to unwrap data key: unexpected size'') else Inr key, s')))
      | _ \<Rightarrow>
          (and_then (kdf_goerr (ParseKDFParams (mget x MetaKDFParams))) (\<lambda>params.
           and_then (en_deriveKeyWithParams (ce_kdf E) e salt params) (\<lambda>key.
             if length key \<noteq> keySize then Inl (Err ''internal: PBKDF2 returned unexpected key size'') else Inr key)), s))"

text \<open>Opening with the authenticated data of the format; only unbound objects try the older forms.\<close>

definition openBuffered :: "engine \<Rightarrow> aead \<Rightarrow> object_context \<Rightarrow> meta \<Rightarrow> string \<Rightarrow> bytes \<Rightarrow> bytes \<Rightarrow> bytes \<Rightarrow> goerr + bytes" where
  "openBuffered e A object x algorithm salt iv ciphertext =
     (let v2 = (mget x MetaObjectFormatVersion = ''buffered-v2'');
          kv = mget x MetaKeyVersion; ct = mget x MetaContentType; osz = mget x MetaOriginalSize
      in and_then (if v2 then and_then (parseObjectBindingID (mget x MetaObjectBindingID)) (\<lambda>b. buildObjectAAD aadBufferedV2 object b [])
                   else buildAAD algorithm salt iv kv ct osz) (\<lambda>aad.
         case goOpen A iv ciphertext aad of
           Inr p \<Rightarrow> Inr p
         | Inl err \<Rightarrow>
             if err = Panic \<or> v2 then Inl err
             else (case goOpen A iv ciphertext (buildAADLegacy algorithm salt iv kv ct osz) of
                     Inr p \<Rightarrow> Inr p
                   | Inl _ \<Rightarrow>
                       if mget x MetaLegacyNoAAD = ''true'' \<or> en_allowUnmarkedNoAAD e
                       then (case goOpen A iv ciphertext [] of Inr p \<Rightarrow> Inr p | Inl _ \<Rightarrow> Inl err)
                       else Inl err)))"

definition bufferedView :: "meta \<Rightarrow> bytes \<Rightarrow> meta" where
  "bufferedView x ciphertext =
     (let d = plaintextMetadataView x (- 1) (mget x MetaOriginalETag);
          d = (if length ciphertext > 16 then AList.update ''Content-Length'' (show_int (int (length ciphertext) - 16)) d
               else case map_of x MetaOriginalSize of Some v \<Rightarrow> AList.update ''Content-Length'' v d | None \<Rightarrow> d)
      in case map_of x MetaOriginalETag of Some v \<Rightarrow> AList.update ''ETag'' v d | None \<Rightarrow> d)"

definition decryptBuffered ::
  "crypto_env \<Rightarrow> engine \<Rightarrow> 's key_manager option \<Rightarrow> km_call \<Rightarrow> object_context \<Rightarrow> source \<Rightarrow> meta \<Rightarrow> 's \<Rightarrow> (goerr + bytes \<times> meta) \<times> 's" where
  "decryptBuffered E e M c object reader x s =
     (case and_then (decodeBase64 (mget x MetaKeySalt)) (\<lambda>salt.
           and_then (decodeBase64 (mget x MetaIV)) (\<lambda>iv.
           let algorithm = (if mget x MetaAlgorithm = [] then AlgorithmAES256GCM else mget x MetaAlgorithm) in
           if \<not> isAlgorithmSupported algorithm (en_supportedAlgorithms e) then Inl (Err ''unsupported algorithm'')
           else Inr (salt, iv, algorithm))) of
        Inl err \<Rightarrow> (Inl err, s)
      | Inr (salt, iv, algorithm) \<Rightarrow>
          (case bufferedKey E e M c x salt (keySizeOf algorithm) s of
             (Inl err, s) \<Rightarrow> (Inl err, s)
           | (Inr key, s) \<Rightarrow>
               (and_then (createAEADCipher (ce_suite E) algorithm key) (\<lambda>A.
                and_then (readAll reader) (\<lambda>ciphertext.
                and_then (openBuffered e A object x algorithm salt iv ciphertext) (\<lambda>plaintext.
                  Inr (plaintext, bufferedView x ciphertext)))), s)))"

section \<open>Objects with their metadata in the body\<close>

text \<open>\<^verbatim>\<open>[4-byte length][metadata][data]\<close>.\<close>

definition splitFallback :: "bytes \<Rightarrow> goerr + meta \<times> bytes" where
  "splitFallback plaintext =
     (if length plaintext < 4 then Inl (Err ''fallback-v2: encrypted data too short'')
      else and_then (checkedMetadataEnd (of_be32 (take 4 plaintext)) (of_nat (length plaintext))) (\<lambda>metaEnd.
           and_then (jsonUnmarshal (take (unat metaEnd - 4) (drop 4 plaintext))) (\<lambda>full.
             Inr (case full of None \<Rightarrow> [] | Some m \<Rightarrow> m, drop (unat metaEnd) plaintext))))"

definition fallbackKey ::
  "crypto_env \<Rightarrow> engine \<Rightarrow> 's key_manager option \<Rightarrow> km_call \<Rightarrow> meta \<Rightarrow> bytes \<Rightarrow> 's \<Rightarrow> (goerr + bytes) \<times> 's" where
  "fallbackKey E e M c x salt s =
     (case M of
        Some M \<Rightarrow>
          if mget x MetaWrappedKeyCiphertext = [] \<or> mget x MetaKMSKeyID = [] \<or> mget x MetaKMSProvider = [] \<or>
             parseKeyVersion (mget x MetaKeyVersion) \<le> 0
          then (Inl (Err ''fallback-v2: incomplete wrapped key metadata''), s)
          else (case decodeBase64 (mget x MetaWrappedKeyCiphertext) of
                  Inl err \<Rightarrow> (Inl err, s)
                | Inr wrapped \<Rightarrow>
                    if wrapped = [] then (Inl (Err ''fallback-v2: incomplete wrapped key metadata''), s)
                    else (case km_UnwrapKey M c (Some (storedEnvelope x wrapped)) (map_of x) s of
                            (Inl err, s') \<Rightarrow> (Inl (Err ''fallback-v2: failed to unwrap data key''), s')
                          | (Inr key, s') \<Rightarrow> (Inr key, s')))
      | None \<Rightarrow>
          (and_then (kdf_goerr (ParseKDFParams (mget x MetaKDFParams))) (en_deriveKeyWithParams (ce_kdf E) e salt), s))"

definition fallbackView :: "meta \<Rightarrow> meta" where
  "fallbackView full =
     (let d = plaintextMetadataView full (- 1) (mget full MetaOriginalETag);
          d = putNonempty ''Content-Length'' (mget full MetaOriginalSize) d
      in putNonempty ''ETag'' (mget full MetaOriginalETag) d)"

definition openFallback :: "crypto_env \<Rightarrow> object_context \<Rightarrow> meta \<Rightarrow> bytes \<Rightarrow> bytes \<Rightarrow> bytes \<Rightarrow> source \<Rightarrow> goerr + bytes \<times> meta" where
  "openFallback E object x bindingID iv key reader =
     (if length key \<noteq> keySizeOf (mget x MetaAlgorithm) then Inl (Err ''fallback-v2: invalid data key size'')
      else and_then (createAEADCipher (ce_suite E) (mget x MetaAlgorithm) key) (\<lambda>A.
           and_then (readAll reader) (\<lambda>ciphertext.
           and_then (buildObjectAAD aadBufferedV2 object bindingID []) (\<lambda>aad.
           and_then (goOpen A iv ciphertext aad) (\<lambda>plaintext.
           and_then (splitFallback plaintext) (\<lambda>(full, data). Inr (data, fallbackView full)))))))"

definition decryptFallbackBound ::
  "crypto_env \<Rightarrow> engine \<Rightarrow> 's key_manager option \<Rightarrow> km_call \<Rightarrow> object_context \<Rightarrow> source \<Rightarrow> meta \<Rightarrow> 's \<Rightarrow> (goerr + bytes \<times> meta) \<times> 's" where
  "decryptFallbackBound E e M c object reader x s =
     (case and_then (parseObjectBindingID (mget x MetaObjectBindingID)) (\<lambda>b.
           and_then (decodeBase64 (mget x MetaKeySalt)) (\<lambda>salt.
           and_then (decodeBase64 (mget x MetaIV)) (\<lambda>iv. Inr (b, salt, iv)))) of
        Inl err \<Rightarrow> (Inl err, s)
      | Inr (b, salt, iv) \<Rightarrow>
          (case fallbackKey E e M c x salt s of
             (Inl err, s) \<Rightarrow> (Inl err, s)
           | (Inr key, s) \<Rightarrow> (openFallback E object x b iv key reader, s)))"

text \<open>The older form, whose key is always derived from the password; it is only read.\<close>

definition restoreProtected :: "meta \<Rightarrow> meta" where
  "restoreProtected full =
     fold (\<lambda>s m.
       if mget m (ms_Canonical s) \<noteq> [] then m
       else if mget m (ms_Header s) \<noteq> [] then AList.update (ms_Canonical s) (mget m (ms_Header s)) m
       else (case filter (\<lambda>v. v \<noteq> []) (map (mget m) (ms_Legacy s)) of [] \<Rightarrow> m | v # _ \<Rightarrow> AList.update (ms_Canonical s) v m))
     ProtectedStandardKeys full"

definition decryptFallbackV1 :: "crypto_env \<Rightarrow> engine \<Rightarrow> source \<Rightarrow> meta \<Rightarrow> goerr + bytes \<times> meta" where
  "decryptFallbackV1 E e reader x =
     and_then (decodeBase64 (mget x MetaKeySalt)) (\<lambda>salt.
     and_then (decodeBase64 (mget x MetaIV)) (\<lambda>iv.
     let algorithm = (if mget x MetaAlgorithm = [] then AlgorithmAES256GCM else mget x MetaAlgorithm);
         contentType = (if mget x MetaContentType = [] then mget x ''Content-Type'' else mget x MetaContentType) in
     if \<not> isAlgorithmSupported algorithm (en_supportedAlgorithms e) then Inl (Err ''unsupported algorithm'')
     else
       and_then (kdf_goerr (ParseKDFParams (mget x MetaKDFParams))) (\<lambda>params.
       and_then (en_deriveKeyWithParams (ce_kdf E) e salt params) (\<lambda>key.
       if length key \<noteq> keySizeOf algorithm then Inl (Err ''internal: PBKDF2 returned unexpected key size'')
       else
         and_then (createAEADCipher (ce_suite E) algorithm key) (\<lambda>A.
         and_then (readAll reader) (\<lambda>ciphertext.
         and_then (buildAAD algorithm salt iv [] contentType (mget x MetaOriginalSize)) (\<lambda>aad.
         and_then (case goOpen A iv ciphertext aad of
                     Inr p \<Rightarrow> Inr p
                   | Inl err \<Rightarrow>
                       if err = Panic then Inl err
                       else goOpen A iv ciphertext (buildAADLegacy algorithm salt iv [] contentType (mget x MetaOriginalSize))) (\<lambda>plaintext.
         and_then (splitFallback plaintext) (\<lambda>(full, data).
           let full = restoreProtected full in
           Inr (data, putNonempty ''Content-Length'' (mget full MetaOriginalSize)
             (plaintextMetadataView full (- 1) (mget full MetaOriginalETag))))))))))))"

section \<open>Manifests of multipart uploads\<close>

definition EncryptMPUManifest ::
  "crypto_env \<Rightarrow> engine \<Rightarrow> random \<Rightarrow> object_context \<Rightarrow> bytes \<Rightarrow> bytes \<Rightarrow> goerr + bytes \<times> meta" where
  "EncryptMPUManifest E e rnd object bindingID plaintext =
     and_then (Validate object) (\<lambda>_.
     if bindingID = replicate 16 0 then Inl (Err ''mpu manifest: binding ID is required'')
     else
       and_then (rand_bytes rnd 0 saltSize) (\<lambda>salt.
       and_then (generateNonceForAlgorithm rnd 1 (en_preferredAlgorithm e)) (\<lambda>nonce.
       and_then (en_deriveKey (ce_kdf E) e salt) (\<lambda>key.
       and_then (createAEADCipher (ce_suite E) (en_preferredAlgorithm e) key) (\<lambda>A.
       and_then (buildObjectAAD aadMPUV2Manifest object bindingID []) (\<lambda>aad.
       and_then (goSeal A nonce plaintext aad) (\<lambda>ciphertext.
         Inr (ciphertext,
           [(MetaEncrypted, ''true''), (MetaMPUManifestVersion, ''2''), (MetaObjectFormatVersion, ''mpu-manifest-v2''),
            (MetaObjectBindingID, encodeBase64URL bindingID), (MetaAlgorithm, en_preferredAlgorithm e),
            (MetaKeySalt, encodeBase64 salt), (MetaIV, encodeBase64 nonce),
            (MetaKDFParams, FormatKDFParams (en_defaultKDFParams e))]))))))))"

definition DecryptMPUManifest ::
  "crypto_env \<Rightarrow> engine \<Rightarrow> object_context \<Rightarrow> bytes \<Rightarrow> bytes \<Rightarrow> meta \<Rightarrow> goerr + bytes" where
  "DecryptMPUManifest E e object bindingID ciphertext metadata =
     and_then (Validate object) (\<lambda>_.
     if bindingID = replicate 16 0 then Inl (Err ''mpu manifest: binding ID is required'')
     else
       let x = expandMetadataForCrypto metadata in
       if mget x MetaObjectFormatVersion \<noteq> ''mpu-manifest-v2'' \<or> mget x MetaMPUManifestVersion \<noteq> ''2''
       then Inl (Err ''mpu manifest: missing v2 marker'')
       else if parseObjectBindingID (mget x MetaObjectBindingID) \<noteq> Inr bindingID then Inl (Err ''mpu manifest: binding mismatch'')
       else
         and_then (decodeBase64 (mget x MetaKeySalt)) (\<lambda>salt.
         and_then (decodeBase64 (mget x MetaIV)) (\<lambda>nonce.
         and_then (kdf_goerr (ParseKDFParams (mget x MetaKDFParams))) (\<lambda>params.
         and_then (en_deriveKeyWithParams (ce_kdf E) e salt params) (\<lambda>key.
         and_then (createAEADCipher (ce_suite E) (mget x MetaAlgorithm) key) (\<lambda>A.
         and_then (buildObjectAAD aadMPUV2Manifest object bindingID []) (\<lambda>aad.
           goOpen A nonce ciphertext aad)))))))"

end
