(* ===== verification/Object_Format.thy ===== *)
theory Object_Format
  imports Go_Json Chunked_Wire
begin

text \<open>
  How a stored object is recognised: the chunk manifest in its JSON form (\<^verbatim>\<open>internal/crypto/chunked.go\<close>),
  the classification of \<^verbatim>\<open>object_format.go\<close> and the size conversions of \<^verbatim>\<open>chunked_size.go\<close>. Reading a
  manifest needs all of JSON, since unknown members of any shape are skipped; the limit on
  the nesting depth is left out.
\<close>

section \<open>JSON values\<close>

datatype jval = JNull | JBool bool | JNum string | JStr string | JArr "jval list" | JObj "(string \<times> jval) list"

definition scanFraction :: "string \<Rightarrow> string" where
  "scanFraction s =
     (case s of
        c # t \<Rightarrow> if c = CHR ''.'' \<and> takeWhile is_digit t \<noteq> [] then c # takeWhile is_digit t else []
      | [] \<Rightarrow> [])"

definition scanExponent :: "string \<Rightarrow> string" where
  "scanExponent s =
     (case s of
        c # t \<Rightarrow>
          if c = CHR ''e'' \<or> c = CHR ''E'' then
            (let sign = (case t of d # _ \<Rightarrow> if d = CHR ''+'' \<or> d = CHR ''-'' then [d] else [] | [] \<Rightarrow> []);
                 digits = takeWhile is_digit (drop (length sign) t)
             in if digits \<noteq> [] then c # sign @ digits else [])
          else []
      | [] \<Rightarrow> [])"

definition scanNumber :: "string \<Rightarrow> (string \<times> string) option" where
  "scanNumber s =
     (let sign = (case s of c # _ \<Rightarrow> if c = CHR ''-'' then [c] else [] | [] \<Rightarrow> []);
          s1 = drop (length sign) s;
          whole = (case s1 of c # _ \<Rightarrow> if c = CHR ''0'' then [c] else takeWhile is_digit s1 | [] \<Rightarrow> []);
          s2 = drop (length whole) s1;
          s3 = drop (length (scanFraction s2)) s2
      in if whole = [] then None
         else Some (sign @ whole @ scanFraction s2 @ scanExponent s3, drop (length (scanExponent s3)) s3))"

text \<open>The fuel bounds the nesting and the number of members; the length of the text is enough.\<close>

fun parseVal :: "nat \<Rightarrow> string \<Rightarrow> (jval \<times> string) option"
  and parseArr :: "nat \<Rightarrow> string \<Rightarrow> (jval list \<times> string) option"
  and parseObj :: "nat \<Rightarrow> string \<Rightarrow> ((string \<times> jval) list \<times> string) option" where
  "parseVal 0 s = None"
| "parseVal (Suc n) s =
     (case ws s of
        [] \<Rightarrow> None
      | c # t \<Rightarrow>
          if c = quote then map_option (map_prod JStr id) (scanString t)
          else if c = CHR ''{'' then
            (case tok (CHR ''}'') t of Some u \<Rightarrow> Some (JObj [], u) | None \<Rightarrow> map_option (map_prod JObj id) (parseObj n t))
          else if c = CHR ''['' then
            (case tok (CHR '']'') t of Some u \<Rightarrow> Some (JArr [], u) | None \<Rightarrow> map_option (map_prod JArr id) (parseArr n t))
          else if take 4 (c # t) = ''null'' then Some (JNull, drop 3 t)
          else if take 4 (c # t) = ''true'' then Some (JBool True, drop 3 t)
          else if take 5 (c # t) = ''false'' then Some (JBool False, drop 4 t)
          else map_option (map_prod JNum id) (scanNumber (c # t)))"
| "parseArr 0 s = None"
| "parseArr (Suc n) s =
     (case parseVal n s of
        None \<Rightarrow> None
      | Some (v, t) \<Rightarrow>
          (case tok (CHR '','') t of
             Some u \<Rightarrow> map_option (map_prod (Cons v) id) (parseArr n u)
           | None \<Rightarrow> map_option (Pair [v]) (tok (CHR '']'') t)))"
| "parseObj 0 s = None"
| "parseObj (Suc n) s =
     (case Option.bind (Option.bind (tok quote s) scanString) (\<lambda>(k, t). map_option (Pair k) (tok (CHR '':'') t)) of
        None \<Rightarrow> None
      | Some (k, t) \<Rightarrow>
          (case parseVal n t of
             None \<Rightarrow> None
           | Some (v, u) \<Rightarrow>
               (case tok (CHR '','') u of
                  Some w \<Rightarrow> map_option (map_prod (Cons (k, v)) id) (parseObj n w)
                | None \<Rightarrow> map_option (Pair [(k, v)]) (tok (CHR ''}'') u))))"

definition jsonParse :: "bytes \<Rightarrow> jval option" where
  "jsonParse data =
     (let s = string_of data in
      case parseVal (Suc (Suc (length s))) s of Some (v, t) \<Rightarrow> if ws t = [] then Some v else None | None \<Rightarrow> None)"

section \<open>The chunk manifest\<close>

definition jsonName :: "string \<Rightarrow> string" where
  "jsonName n = [quote] @ n @ [quote, CHR '':'']"

definition jsonText :: "string \<Rightarrow> string" where
  "jsonText s = [quote] @ jsonString s @ [quote]"

fun jsonTexts :: "string list \<Rightarrow> string" where
  "jsonTexts [] = []"
| "jsonTexts [x] = jsonText x"
| "jsonTexts (x # y # xs) = jsonText x @ '','' @ jsonTexts (y # xs)"

definition manifestJSON :: "chunk_manifest \<Rightarrow> string" where
  "manifestJSON m =
     ''{'' @ jsonName ''v'' @ show_int (cm_Version m) @ '','' @ jsonName ''cs'' @ show_int (cm_ChunkSize m) @
     '','' @ jsonName ''cc'' @ show_nat (unat (cm_ChunkCount m)) @ '','' @ jsonName ''iv'' @ jsonText (cm_BaseIV m) @
     (if cm_IVs m \<noteq> [] then '','' @ jsonName ''ivs'' @ ''['' @ jsonTexts (cm_IVs m) @ '']'' else []) @
     (if cm_IVDerivation m \<noteq> [] then '','' @ jsonName ''ivd'' @ jsonText (cm_IVDerivation m) else []) @ ''}''"

definition encodeManifest :: "chunk_manifest \<Rightarrow> string" where
  "encodeManifest m = encodeBase64 (bytes_of (manifestJSON m))"

definition jsonInt :: "jval \<Rightarrow> int \<Rightarrow> int option" where
  "jsonInt v old = (case v of JNum s \<Rightarrow> parse_int64 s | JNull \<Rightarrow> Some old | _ \<Rightarrow> None)"

definition jsonUint64 :: "jval \<Rightarrow> u64 \<Rightarrow> u64 option" where
  "jsonUint64 v old = (case v of JNum s \<Rightarrow> map_option of_nat (parse_uint 64 s) | JNull \<Rightarrow> Some old | _ \<Rightarrow> None)"

definition jsonStr :: "jval \<Rightarrow> string \<Rightarrow> string option" where
  "jsonStr v old = (case v of JStr s \<Rightarrow> Some s | JNull \<Rightarrow> Some old | _ \<Rightarrow> None)"

definition jsonStrs :: "jval \<Rightarrow> string list \<Rightarrow> string list option" where
  "jsonStrs v old =
     (case v of
        JArr vs \<Rightarrow> if list_all (\<lambda>x. jsonStr x [] \<noteq> None) vs then Some (map (\<lambda>x. the (jsonStr x [])) vs) else None
      | JNull \<Rightarrow> Some []
      | _ \<Rightarrow> None)"

definition manifestField :: "string \<times> jval \<Rightarrow> chunk_manifest \<Rightarrow> chunk_manifest option" where
  "manifestField f m =
     (case f of (k, v) \<Rightarrow>
        let n = to_lower k in
        if n = ''v'' then map_option (\<lambda>x. m\<lparr>cm_Version := x\<rparr>) (jsonInt v (cm_Version m))
        else if n = ''cs'' then map_option (\<lambda>x. m\<lparr>cm_ChunkSize := x\<rparr>) (jsonInt v (cm_ChunkSize m))
        else if n = ''cc'' then map_option (\<lambda>x. m\<lparr>cm_ChunkCount := x\<rparr>) (jsonUint64 v (cm_ChunkCount m))
        else if n = ''iv'' then map_option (\<lambda>x. m\<lparr>cm_BaseIV := x\<rparr>) (jsonStr v (cm_BaseIV m))
        else if n = ''ivs'' then map_option (\<lambda>x. m\<lparr>cm_IVs := x\<rparr>) (jsonStrs v (cm_IVs m))
        else if n = ''ivd'' then map_option (\<lambda>x. m\<lparr>cm_IVDerivation := x\<rparr>) (jsonStr v (cm_IVDerivation m))
        else Some m)"

fun manifestFields :: "(string \<times> jval) list \<Rightarrow> chunk_manifest \<Rightarrow> chunk_manifest option" where
  "manifestFields [] m = Some m"
| "manifestFields (f # fs) m = Option.bind (manifestField f m) (manifestFields fs)"

definition zeroManifest :: chunk_manifest where
  "zeroManifest = \<lparr>cm_Version = 0, cm_ChunkSize = 0, cm_ChunkCount = 0, cm_BaseIV = [], cm_IVs = [], cm_IVDerivation = []\<rparr>"

definition decodeManifest :: "string \<Rightarrow> goerr + chunk_manifest" where
  "decodeManifest encoded =
     and_then (decodeBase64 encoded) (\<lambda>data.
       case jsonParse data of
         Some JNull \<Rightarrow> Inr zeroManifest
       | Some (JObj fs) \<Rightarrow> (case manifestFields fs zeroManifest of Some m \<Rightarrow> Inr m | None \<Rightarrow> Inl (Err ''failed to parse manifest''))
       | _ \<Rightarrow> Inl (Err ''failed to parse manifest''))"

definition isChunkedFormat :: "meta \<Rightarrow> bool" where
  "isChunkedFormat m \<longleftrightarrow> mget m MetaChunkedFormat = ''true''"

definition loadManifestFromMetadata :: "meta \<Rightarrow> goerr + chunk_manifest" where
  "loadManifestFromMetadata m =
     (case map_of m MetaManifest of None \<Rightarrow> Inl (Err ''manifest not found in metadata'') | Some v \<Rightarrow> decodeManifest v)"

definition ChunkedFormatVersion :: "meta \<Rightarrow> goerr + int" where
  "ChunkedFormatVersion m =
     and_then (loadManifestFromMetadata m) (\<lambda>man.
       if cm_Version man = ChunkedFormatV1 \<or> cm_Version man = ChunkedFormatV2 then Inr (cm_Version man)
       else Inl ErrUnsupportedChunkedVersion)"

definition chunkedVersionForMetadata :: "meta \<Rightarrow> goerr + int" where
  "chunkedVersionForMetadata m = (if mget m MetaManifest = [] then Inr ChunkedFormatV1 else ChunkedFormatVersion m)"

definition parseChunkSize :: "meta \<Rightarrow> int" where
  "parseChunkSize m =
     (if mget m MetaChunkSize = [] then DefaultChunkSize
      else case sscanf_d (mget m MetaChunkSize) of Some n \<Rightarrow> if n > 0 then n else DefaultChunkSize | None \<Rightarrow> DefaultChunkSize)"

definition CiphertextSizeForPlaintext :: "meta \<Rightarrow> int \<Rightarrow> goerr + int" where
  "CiphertextSizeForPlaintext m plain =
     and_then (chunkedVersionForMetadata m) (\<lambda>version. ChunkedCiphertextSize plain (parseChunkSize m) version)"

definition PlaintextSizeForCiphertext :: "meta \<Rightarrow> int \<Rightarrow> goerr + int \<times> int" where
  "PlaintextSizeForCiphertext m ciphertext =
     and_then (chunkedVersionForMetadata m) (\<lambda>version.
       if ciphertext < 0 then Inl (Err ''ciphertext size must not be negative'')
       else ChunkedPlaintextSize ciphertext (parseChunkSize m) version)"

section \<open>Classification\<close>

datatype object_format =
    FormatPlaintext
  | FormatBufferedLegacy
  | FormatBufferedV2
  | FormatBufferedFallback
  | FormatChunkedV1
  | FormatChunkedV2
  | FormatMPUV1
  | FormatMPUV2

record object_class =
  cl_Format :: object_format
  cl_Encrypted :: bool
  cl_ChunkSize :: int
  cl_BindingID :: bytes
  cl_ManifestKey :: string

definition class_of :: "object_format \<Rightarrow> bool \<Rightarrow> object_class" where
  "class_of f enc = \<lparr>cl_Format = f, cl_Encrypted = enc, cl_ChunkSize = 0, cl_BindingID = replicate 16 0, cl_ManifestKey = []\<rparr>"

definition MPUManifestSuffix :: string where "MPUManifestSuffix = ''.mpu-manifest''"

definition classifyMPU :: "string \<Rightarrow> meta \<Rightarrow> goerr + object_class" where
  "classifyMPU parentKey m =
     and_then (if mget m MetaMPUEncrypted = ''true'' then Inr FormatMPUV1
               else if mget m MetaMPUEncrypted = ''v2'' then Inr FormatMPUV2
               else Inl (ErrUnsupportedObjectFormat ''mpu marker'')) (\<lambda>f.
     let manifest = parentKey @ MPUManifestSuffix in
     if mget m MetaFallbackPointer \<noteq> [] \<and> mget m MetaFallbackPointer \<noteq> manifest
     then Inl (ErrUnsupportedObjectFormat ''manifest pointer mismatch'')
     else if f = FormatMPUV2 then
       (case parseObjectBindingID (mget m MetaObjectBindingID) of
          Inl _ \<Rightarrow> Inl (ErrUnsupportedObjectFormat ''binding'')
        | Inr b \<Rightarrow> Inr ((class_of f True)\<lparr>cl_BindingID := b, cl_ManifestKey := manifest\<rparr>))
     else Inr ((class_of f True)\<lparr>cl_ManifestKey := manifest\<rparr>))"

definition classifyChunked :: "meta \<Rightarrow> goerr + object_class" where
  "classifyChunked m =
     (if parseChunkSize m \<le> 0 \<or> parseChunkSize m > MaxChunkSize then Inl (ErrChunkedObjectIncomplete ''invalid chunk size'')
      else case chunkedVersionForMetadata m of
          Inl _ \<Rightarrow> Inl (ErrUnsupportedObjectFormat ''chunked version'')
        | Inr v \<Rightarrow>
            Inr ((class_of (if v = ChunkedFormatV2 then FormatChunkedV2 else FormatChunkedV1) True)\<lparr>cl_ChunkSize := parseChunkSize m\<rparr>))"

definition ClassifyObject :: "string \<Rightarrow> meta \<Rightarrow> goerr + object_class" where
  "ClassifyObject parentKey m =
     (if mget m MetaMPUEncrypted \<noteq> [] then classifyMPU parentKey m
      else if mget m MetaFallbackPointer \<noteq> [] then
        (if mget m MetaFallbackPointer \<noteq> parentKey @ MPUManifestSuffix
         then Inl (ErrUnsupportedObjectFormat ''manifest pointer mismatch'')
         else Inr ((class_of FormatMPUV1 True)\<lparr>cl_ManifestKey := parentKey @ MPUManifestSuffix\<rparr>))
      else if mget m MetaFallbackMode \<noteq> [] then
        (if mget m MetaFallbackMode \<notin> {''true'', ''v1'', ''v2'', ''v3''} then Inl (ErrUnsupportedObjectFormat ''fallback marker'')
         else Inr (class_of FormatBufferedFallback True))
      else if mget m MetaChunkedFormat \<noteq> [] then classifyChunked m
      else if mget m MetaEncrypted \<noteq> [] then
        (if mget m MetaObjectFormatVersion = [] then Inr (class_of FormatBufferedLegacy True)
         else if mget m MetaObjectFormatVersion \<noteq> ''buffered-v2'' then Inl (ErrUnsupportedObjectFormat ''format marker'')
         else Inr (class_of FormatBufferedV2 True))
      else Inr (class_of FormatPlaintext False))"

section \<open>Round trip of the manifest\<close>

definition endsNumber :: "char \<Rightarrow> bool" where
  "endsNumber c \<longleftrightarrow> \<not> is_digit c \<and> c \<noteq> CHR ''.'' \<and> c \<noteq> CHR ''e'' \<and> c \<noteq> CHR ''E''"

lemma endsNumber_simps [simp]: "endsNumber (CHR '','')" "endsNumber (CHR ''}'')"
  by (simp_all add: endsNumber_def is_digit_def)

lemma hd_show_nat_zero: "hd (show_nat n) = CHR ''0'' \<Longrightarrow> n = 0"
proof (induction n rule: show_nat.induct)
  case (1 n)
  show ?case
  proof (cases "n < 10")
    case True
    then have "digit_val (hd (show_nat n)) = n" by (simp add: show_nat.simps)
    then show ?thesis using 1(2) by (simp add: digit_val_def)
  next
    case False
    then have "hd (show_nat (n div 10)) = CHR ''0''" using 1(2) by (simp add: show_nat.simps [of n])
    then show ?thesis using 1(1) [OF False] False by simp
  qed
qed

lemma show_nat_zero: "show_nat 0 = ''0''"
  by code_simp

lemma scanNumber_show_nat:
  assumes "endsNumber c"
  shows "scanNumber (show_nat n @ c # r) = Some (show_nat n, c # r)"
proof -
  obtain d ds where d: "show_nat n = d # ds" by (cases "show_nat n") auto
  have dig: "list_all is_digit (d # ds)" using show_nat_digits [of n] d by simp
  have nd: "\<not> is_digit c" using assms by (simp add: endsNumber_def)
  have tw: "takeWhile is_digit (d # ds @ c # r) = d # ds"
    using dig nd by (simp add: takeWhile_append2 list_all_iff)
  have z: "d = CHR ''0'' \<Longrightarrow> ds = []" using hd_show_nat_zero [of n] d show_nat_zero by auto
  have "d \<noteq> CHR ''-''" using dig by (auto simp: is_digit_def)
  moreover have "scanFraction (c # r) = []" "scanExponent (c # r) = []"
    using assms by (simp_all add: endsNumber_def scanFraction_def scanExponent_def)
  ultimately show ?thesis using tw z d by (cases "d = CHR ''0''") (simp_all add: scanNumber_def Let_def)
qed

lemma digit_not:
  assumes "is_digit d"
  shows "d \<noteq> quote" "d \<noteq> CHR ''{''" "d \<noteq> CHR ''[''" "d \<noteq> CHR ''n''" "d \<noteq> CHR ''t''" "d \<noteq> CHR ''f''" "ws (d # s) = d # s"
  using assms by (auto simp: is_digit_def quote_def ws_def code_def)

lemma parseVal_show_nat: "endsNumber c \<Longrightarrow> parseVal (Suc f) (show_nat n @ c # r) = Some (JNum (show_nat n), c # r)"
proof -
  assume c: "endsNumber c"
  obtain d ds where d: "show_nat n = d # ds" by (cases "show_nat n") auto
  have "is_digit d" using show_nat_digits [of n] d by simp
  then show ?thesis using scanNumber_show_nat [OF c, of n r] digit_not [of d] d by simp
qed

lemma parseVal_text: "ascii s \<Longrightarrow> parseVal (Suc f) (jsonText s @ r) = Some (JStr s, r)"
  by (simp add: jsonText_def scanString_jsonString)

definition plainChar :: "char \<Rightarrow> bool" where
  "plainChar c \<longleftrightarrow> c \<noteq> quote \<and> c \<noteq> backslash \<and> 32 \<le> code c \<and> code c < 128"

lemma scanName: "list_all plainChar k \<Longrightarrow> scanString (k @ quote # r) = Some (k, r)"
  by (induction k) (auto simp: plainChar_def scanUnit_def)

lemma parseObj_name:
  assumes "list_all plainChar k"
  shows "parseObj (Suc n) (jsonName k @ t) =
    (case parseVal n t of
       None \<Rightarrow> None
     | Some (v, u) \<Rightarrow>
         (case tok (CHR '','') u of
            Some w \<Rightarrow> map_option (map_prod (Cons (k, v)) id) (parseObj n w)
          | None \<Rightarrow> map_option (Pair [(k, v)]) (tok (CHR ''}'') u)))"
  using scanName [OF assms] by (simp add: jsonName_def)

lemma plain_names [simp]: "plainChar (CHR ''v'')" "plainChar (CHR ''c'')" "plainChar (CHR ''s'')" "plainChar (CHR ''i'')" "plainChar (CHR ''d'')"
  by (simp_all add: plainChar_def quote_def backslash_def code_def)

lemma to_lower_fields [simp]: "to_lower ''v'' = ''v''" "to_lower ''cs'' = ''cs''" "to_lower ''cc'' = ''cc''" "to_lower ''iv'' = ''iv''" "to_lower ''ivd'' = ''ivd''"
  by (simp_all add: to_lower_def to_lower_char_def)

lemma show_int_nonneg: "0 \<le> i \<Longrightarrow> show_int i = show_nat (nat i)"
  by (simp add: show_int_def)

lemma decode_encode_manifest:
  assumes "cm_IVs m = []" "cm_IVDerivation m \<noteq> []" "ascii (cm_BaseIV m)" "ascii (cm_IVDerivation m)"
    "0 \<le> cm_Version m" "in_int64 (cm_Version m)" "0 \<le> cm_ChunkSize m" "in_int64 (cm_ChunkSize m)"
  shows "decodeManifest (encodeManifest m) = Inr m"
proof -
  let ?fs = "[(''v'', JNum (show_int (cm_Version m))), (''cs'', JNum (show_int (cm_ChunkSize m))),
    (''cc'', JNum (show_nat (unat (cm_ChunkCount m)))), (''iv'', JStr (cm_BaseIV m)), (''ivd'', JStr (cm_IVDerivation m))]"
  have o: "parseObj (Suc (Suc (Suc (Suc (Suc (Suc n)))))) (jsonName ''v'' @ show_int (cm_Version m) @ '','' @ jsonName ''cs'' @ show_int (cm_ChunkSize m) @
     '','' @ jsonName ''cc'' @ show_nat (unat (cm_ChunkCount m)) @ '','' @ jsonName ''iv'' @ jsonText (cm_BaseIV m) @
     '','' @ jsonName ''ivd'' @ jsonText (cm_IVDerivation m) @ ''}'') = Some (?fs, [])" for n
    using assms by (simp add: parseObj_name show_int_nonneg parseVal_show_nat parseVal_text del: parseObj.simps parseVal.simps)
  have "6 \<le> length (manifestJSON m)" by (simp add: manifestJSON_def jsonName_def)
  then obtain n where n: "length (manifestJSON m) = n + 6" using le_Suc_ex by (metis add.commute)
  have "tok (CHR ''}'') (jsonName ''v'' @ t) = None" for t by (simp add: jsonName_def)
  then have "parseVal (Suc (Suc (length (manifestJSON m)))) (manifestJSON m) = Some (JObj ?fs, [])"
    using o [of "Suc n"] assms(1,2) unfolding n by (simp add: manifestJSON_def quote_def numeral_eq_Suc)
  then have "jsonParse (bytes_of (manifestJSON m)) = Some (JObj ?fs)" by (simp add: jsonParse_def)
  moreover have "parse_uint 64 (show_nat (unat (cm_ChunkCount m))) = Some (unat (cm_ChunkCount m))"
    using unsigned_less [of "cm_ChunkCount m", where 'a = nat] by (intro parse_uint_show) simp
  then have "manifestFields ?fs zeroManifest = Some m"
    using assms(1,6,8) by (simp add: manifestField_def zeroManifest_def jsonInt_def jsonUint64_def jsonStr_def)
  ultimately show ?thesis by (simp add: decodeManifest_def encodeManifest_def)
qed

end
