(* ===== verification/Engine_Chunked.thy ===== *)
theory Engine_Chunked
  imports Engine_Buffered Object_Format Chunked_Integrity
begin

text \<open>
  The encryption engine, third part: streamed objects (\<^verbatim>\<open>encryptChunked\<close>, \<^verbatim>\<open>decryptChunked\<close> and the
  fallback that prepends metadata to the stream, \<^verbatim>\<open>chunkedFallbackFromFinal\<close> and
  \<^verbatim>\<open>internal/crypto/fallback_prefix.go\<close>), and the dispatch of \<^verbatim>\<open>Encrypt\<close> and \<^verbatim>\<open>Decrypt\<close>. A stream is
  what is sent before the chunked reader and the reader itself. A context that is cancelled
  while the prefix is read is an error of the source.
\<close>

section \<open>Encryption\<close>

definition callerSize :: "meta \<Rightarrow> int" where
  "callerSize metadata =
     (let cl = (if mget metadata ''Content-Length'' \<noteq> [] then mget metadata ''Content-Length'' else mget metadata MetaOriginalContentLength)
      in if cl = [] then 0 else case parse_int64 cl of Some v \<Rightarrow> v | None \<Rightarrow> 0)"

definition putSize :: "int \<Rightarrow> meta \<Rightarrow> meta" where
  "putSize n m = (if n > 0 then AList.update MetaOriginalSize (show_int n) m else m)"

definition chunkedMetadataBase :: "engine \<Rightarrow> bytes \<Rightarrow> meta \<Rightarrow> meta" where
  "chunkedMetadataBase e bindingID metadata =
     (let m = dropGatewayReserved metadata;
          m = AList.update MetaEncrypted ''true'' m;
          m = AList.update MetaAlgorithm (en_preferredAlgorithm e) m;
          m = putSize (callerSize metadata) m;
          m = putNonempty MetaOriginalETag (mget metadata ''ETag'') m;
          m = putNonempty MetaContentType (mget metadata ''Content-Type'') m;
          m = stampProtectedStandard m metadata;
          m = stampCanonical m metadata;
          m = AList.update MetaChunkedFormat ''true'' m;
          m = AList.update MetaObjectFormatVersion ''chunked-v2'' m;
          m = AList.update MetaObjectBindingID (encodeBase64URL bindingID) m
      in AList.update MetaChunkSize (show_int (en_chunkSize e)) m)"

definition chunkedMetadata ::
  "engine \<Rightarrow> bytes \<Rightarrow> bytes \<Rightarrow> string \<Rightarrow> key_envelope option \<Rightarrow> meta \<Rightarrow> meta \<Rightarrow> meta" where
  "chunkedMetadata e salt baseIV manifest envelope metadata base =
     (let m = meta_merge base (dropGatewayReserved metadata);
          m = AList.update MetaEncrypted ''true'' m;
          m = AList.update MetaChunkedFormat ''true'' m;
          m = AList.update MetaAlgorithm (en_preferredAlgorithm e) m;
          m = AList.update MetaKeySalt (encodeBase64 salt) m;
          m = AList.update MetaIV (encodeBase64 baseIV) m;
          m = AList.update MetaChunkSize (show_int (en_chunkSize e)) m;
          m = AList.update MetaManifest manifest m;
          m = AList.update MetaIVDerivation ''hkdf-sha256'' m;
          m = AList.update MetaKDFParams (FormatKDFParams (en_defaultKDFParams e)) m;
          m = putNonempty MetaOriginalETag (mget metadata ''ETag'') m;
          m = putSize (callerSize metadata) m
      in stampEnvelope envelope metadata m)"

definition structuralKeys :: "string list" where
  "structuralKeys = [MetaChunkedFormat, MetaObjectFormatVersion, MetaObjectBindingID, MetaChunkSize, MetaManifest]"

definition sealChunkedMetadata :: "cipher_suite \<Rightarrow> engine \<Rightarrow> random \<Rightarrow> meta \<Rightarrow> goerr + meta" where
  "sealChunkedMetadata S e rnd m =
     (if en_metadataKey e = None then Inr m
      else and_then (sealMetadataBlob S e rnd m) (\<lambda>m'. Inr (fold (\<lambda>k. putNonempty k (mget m k)) structuralKeys m')))"

text \<open>The loop of \<^verbatim>\<open>chunkedFallbackFromFinal\<close> drops client metadata, the longest first, until the headers fit.\<close>

fun shrinkHeaders :: "engine \<Rightarrow> meta \<Rightarrow> string list \<Rightarrow> goerr + meta" where
  "shrinkHeaders e headers ordinary =
     (let stored = CompactMetadata (en_profile e) headers in
      case ValidateMetadataSize (en_profile e) (persistedMetadataEnvelope stored) of
        Inr _ \<Rightarrow> Inr stored
      | Inl err \<Rightarrow> (case ordinary of [] \<Rightarrow> Inl err | k # ks \<Rightarrow> shrinkHeaders e (AList.delete k headers) ks))"

definition MaxFallbackPrefixBytes :: nat where "MaxFallbackPrefixBytes = 1048580"

definition droppable :: "meta \<Rightarrow> string list" where
  "droppable headers =
     sort_key (\<lambda>k. - int (length k + length (mget headers k)))
       (sort (filter (\<lambda>k. has_prefix (to_lower k) ''x-amz-meta-'' \<and> \<not> IsGatewayReservedKey k) (map fst headers)))"

definition chunkedFallbackFromFinal :: "engine \<Rightarrow> meta \<Rightarrow> goerr + bytes \<times> meta" where
  "chunkedFallbackFromFinal e full =
     (let encoded = jsonMarshal full in
      if length encoded > MaxFallbackPrefixBytes - 4 then Inl (Err ''metadata exceeds provider limits'')
      else and_then (checkedLengthPrefix (length encoded)) (\<lambda>framing.
           let headers = AList.update MetaFallbackVersion ''2'' (AList.update MetaFallbackMode ''true'' full) in
           and_then (shrinkHeaders e headers (droppable headers)) (\<lambda>stored. Inr (framing @ encoded, stored))))"

definition terminalAEAD :: "cipher_suite \<Rightarrow> bytes \<Rightarrow> goerr + aead" where
  "terminalAEAD S key = (if length key \<notin> {16, 24, 32} then Inl (Err ''failed to create terminal cipher'') else Inr (aes_gcm S key))"

definition sealChunked ::
  "crypto_env \<Rightarrow> engine \<Rightarrow> random \<Rightarrow> ctx \<Rightarrow> object_context \<Rightarrow> source \<Rightarrow> bytes \<Rightarrow> bytes \<Rightarrow> bytes \<Rightarrow> bytes \<Rightarrow> key_envelope option \<Rightarrow> meta \<Rightarrow> meta \<Rightarrow>
     goerr + (bytes \<times> chunked_encrypt_reader) \<times> meta" where
  "sealChunked E e rnd ctx object reader bindingID salt baseIV key envelope metadata base =
     and_then (createAEADCipher (ce_suite E) (en_preferredAlgorithm e) key) (\<lambda>A.
     and_then (terminalAEAD (ce_suite E) key) (\<lambda>T.
     and_then (newChunkedEncryptReaderV2Bound ctx reader A baseIV (en_chunkSize e) (Some T) object bindingID) (\<lambda>(r, manifest).
     and_then (sealChunkedMetadata (ce_suite E) e rnd (chunkedMetadata e salt baseIV (encodeManifest manifest) envelope metadata base)) (\<lambda>m.
       if needsMetadataFallback e m
       then and_then (chunkedFallbackFromFinal e m) (\<lambda>(prefix, stored). Inr ((prefix, r), stored))
       else Inr (([], r), CompactMetadata (en_profile e) m)))))"

definition encryptChunked ::
  "crypto_env \<Rightarrow> engine \<Rightarrow> 's key_manager option \<Rightarrow> random \<Rightarrow> km_call \<Rightarrow> ctx \<Rightarrow> object_context \<Rightarrow> source \<Rightarrow> meta \<Rightarrow> 's \<Rightarrow>
     (goerr + (bytes \<times> chunked_encrypt_reader) \<times> meta) \<times> meta \<times> 's" where
  "encryptChunked E e M rnd c ctx object reader metadata s =
     (case and_then (rand_bytes rnd 3 16) (\<lambda>bindingID.
           and_then (rand_bytes rnd 0 saltSize) (\<lambda>salt.
           and_then (generateNonceForAlgorithm rnd 1 (en_preferredAlgorithm e)) (\<lambda>baseIV. Inr (bindingID, salt, baseIV)))) of
        Inl err \<Rightarrow> (Inl err, metadata, s)
      | Inr (bindingID, salt, baseIV) \<Rightarrow>
          let base = chunkedMetadataBase e bindingID metadata in
          (case newDataKey E e M rnd c salt metadata s of
             (Inl err, metadata, s) \<Rightarrow> (Inl err, metadata, s)
           | (Inr (key, envelope), metadata, s) \<Rightarrow>
               (sealChunked E e rnd ctx object reader bindingID salt baseIV key envelope metadata base, metadata, s)))"

datatype cipher_reader = CipherBytes bytes | CipherStream bytes chunked_encrypt_reader

definition Encrypt ::
  "crypto_env \<Rightarrow> engine \<Rightarrow> 's key_manager option \<Rightarrow> random \<Rightarrow> km_call \<Rightarrow> ctx \<Rightarrow> object_context \<Rightarrow> source \<Rightarrow> meta \<Rightarrow> 's \<Rightarrow>
     (goerr + cipher_reader \<times> meta) \<times> meta \<times> 's" where
  "Encrypt E e M rnd c ctx object reader metadata s =
     (case Validate object of
        Inl err \<Rightarrow> (Inl err, metadata, s)
      | Inr _ \<Rightarrow>
          if en_chunkedMode e
          then map_prod (map_sum id (\<lambda>((prefix, r), stored). (CipherStream prefix r, stored))) id
                 (encryptChunked E e M rnd c ctx object reader metadata s)
          else map_prod (map_sum id (\<lambda>(ciphertext, stored). (CipherBytes ciphertext, stored))) id
                 (encryptBuffered E e M rnd c object reader metadata s))"

section \<open>Decryption\<close>

definition chunkedKey ::
  "crypto_env \<Rightarrow> engine \<Rightarrow> 's key_manager option \<Rightarrow> km_call \<Rightarrow> meta \<Rightarrow> bytes \<Rightarrow> nat \<Rightarrow> 's \<Rightarrow> (goerr + bytes) \<times> 's" where
  "chunkedKey E e M c x salt keySize s =
     (case (M, mget x MetaWrappedKeyCiphertext) of
        (Some M, _ # _) \<Rightarrow>
          (case decodeBase64 (mget x MetaWrappedKeyCiphertext) of
             Inl err \<Rightarrow> (Inl err, s)
           | Inr wrapped \<Rightarrow>
               (case km_UnwrapKey M c (Some (storedEnvelope x wrapped)) (map_of x) s of
                  (Inl err, s') \<Rightarrow> (Inl (Err ''failed to unwrap data key''), s')
                | (Inr key, s') \<Rightarrow>
                    (if length key \<noteq> keySize then Inl (Err ''failed to unwrap data key: unexpected size'') else Inr key, s')))
      | _ \<Rightarrow>
          (and_then (kdf_goerr (ParseKDFParams (mget x MetaKDFParams))) (\<lambda>params.
           and_then (en_deriveKeyWithParams (ce_kdf E) e salt params) (\<lambda>key.
             if length key \<noteq> keySize then Inl (Err ''internal: PBKDF2 returned unexpected key size'') else Inr key)), s))"

definition chunkedView :: "meta \<Rightarrow> meta" where
  "chunkedView x =
     (let d = plaintextMetadataView x (- 1) (mget x MetaOriginalETag);
          d = putNonempty ''Cache-Control'' (mget x ''encryption-cache-control'') d;
          d = putNonempty ''Content-Disposition'' (mget x ''encryption-content-disposition'') d;
          d = (case Option.bind (map_of x ''Content-Length'') parse_int64 of
                 None \<Rightarrow> d
               | Some ct \<Rightarrow>
                   if ct > 0 then
                     (case PlaintextSizeForCiphertext x ct of
                        Inr (n, _) \<Rightarrow> if n > 0 then AList.update ''Content-Length'' (show_int n) d else d
                      | Inl _ \<Rightarrow> d)
                   else d);
          d = (if map_of d ''Content-Length'' = None
               then (case map_of x MetaOriginalSize of Some v \<Rightarrow> AList.update ''Content-Length'' v d | None \<Rightarrow> d) else d)
      in putNonempty ''ETag'' (mget x MetaOriginalETag) d)"

definition chunkedReader ::
  "crypto_env \<Rightarrow> ctx \<Rightarrow> object_context \<Rightarrow> source \<Rightarrow> chunk_manifest \<Rightarrow> bytes option \<Rightarrow> string \<Rightarrow> bytes \<Rightarrow> goerr + chunked_decrypt_reader" where
  "chunkedReader E ctx object reader manifest binding algorithm key =
     and_then (createAEADCipher (ce_suite E) algorithm key) (\<lambda>A.
       if cm_Version manifest = ChunkedFormatV2 then
         and_then (terminalAEAD (ce_suite E) key) (\<lambda>T.
           case binding of
             Some b \<Rightarrow> newChunkedDecryptReaderV2Bound ctx reader A (Some manifest) (Some T) object b
           | None \<Rightarrow> newLegacyChunkedDecryptReaderV2 ctx reader A (Some manifest) (Some T))
       else newChunkedDecryptReaderV1 ctx reader A (Some manifest))"

definition chunkedBinding :: "meta \<Rightarrow> chunk_manifest \<Rightarrow> goerr + bytes option" where
  "chunkedBinding x manifest =
     (if mget x MetaObjectFormatVersion \<noteq> ''chunked-v2'' then Inr None
      else if cm_Version manifest \<noteq> ChunkedFormatV2 then Inl (Err ''chunked-v2 format marker requires a v2 manifest'')
      else and_then (parseObjectBindingID (mget x MetaObjectBindingID)) (\<lambda>b. Inr (Some b)))"

definition decryptChunked ::
  "crypto_env \<Rightarrow> engine \<Rightarrow> 's key_manager option \<Rightarrow> km_call \<Rightarrow> ctx \<Rightarrow> object_context \<Rightarrow> source \<Rightarrow> meta \<Rightarrow> 's \<Rightarrow>
     (goerr + chunked_decrypt_reader \<times> meta) \<times> 's" where
  "decryptChunked E e M c ctx object reader metadata s =
     (case and_then (unsealMetadata (ce_suite E) e metadata) (\<lambda>(x, _).
           and_then (loadManifestFromMetadata x) (\<lambda>manifest.
           and_then (chunkedBinding x manifest) (\<lambda>binding.
           and_then (decodeBase64 (mget x MetaKeySalt)) (\<lambda>salt.
           let algorithm = (if mget x MetaAlgorithm = [] then AlgorithmAES256GCM else mget x MetaAlgorithm) in
           if \<not> isAlgorithmSupported algorithm (en_supportedAlgorithms e) then Inl (Err ''unsupported algorithm'')
           else Inr (x, manifest, binding, salt, algorithm))))) of
        Inl err \<Rightarrow> (Inl err, s)
      | Inr (x, manifest, binding, salt, algorithm) \<Rightarrow>
          (case chunkedKey E e M c x salt (keySizeOf algorithm) s of
             (Inl err, s) \<Rightarrow> (Inl err, s)
           | (Inr key, s) \<Rightarrow>
               (and_then (chunkedReader E ctx object reader manifest binding algorithm key) (\<lambda>r. Inr (r, chunkedView x)), s)))"

section \<open>Metadata before the stream\<close>

definition ReadFallbackV2Prefix :: "km_call \<Rightarrow> source \<Rightarrow> goerr + meta \<times> source" where
  "ReadFallbackV2Prefix c reader =
     (if ctxErr c \<noteq> None then Inl CtxDone
      else case read_full reader 4 of
          (_, Some err, _) \<Rightarrow> Inl err
        | (framing, None, rest) \<Rightarrow>
            let n = unat (of_be32 framing) in
            if n > MaxFallbackPrefixBytes - 4 then Inl (Err ''fallback-v2: metadata length exceeds sanity limit'')
            else (case read_full rest n of
                    (_, Some err, _) \<Rightarrow> Inl err
                  | (data, None, rest) \<Rightarrow>
                      (case jsonUnmarshal data of
                         Inr (Some m) \<Rightarrow> Inr (m, rest)
                       | _ \<Rightarrow> Inl (Err ''fallback-v2: invalid metadata JSON''))))"

definition MergeFallbackV2Metadata :: "meta \<Rightarrow> meta \<Rightarrow> meta" where
  "MergeFallbackV2Metadata header prefix =
     fold (\<lambda>(k, v) out.
       if \<not> has_prefix (to_lower k) ''x-amz-meta-'' \<or> IsGatewayReservedKey k \<or> list_ex (\<lambda>(k', _). to_lower k' = to_lower k) out then out
       else AList.update k v out) prefix header"

definition legacyControls :: "string list" where
  "legacyControls = [MetaKDFParams, MetaChunkedFormat, MetaChunkSize, MetaChunkCount, MetaManifest, MetaIVDerivation, MetaKeyVersion,
     MetaWrappedKeyCiphertext, MetaKMSKeyID, MetaKMSProvider]"

definition mergeLegacyFallbackControls :: "meta \<Rightarrow> meta \<Rightarrow> meta" where
  "mergeLegacyFallbackControls header prefix =
     fold (\<lambda>name out.
       case LookupMetaKey name of
         None \<Rightarrow> out
       | Some spec \<Rightarrow>
           if list_ex (\<lambda>(k, _). case LookupMetaKey k of Some s \<Rightarrow> ms_Canonical s = ms_Canonical spec | None \<Rightarrow> False) header then out
           else (case metadataValue prefix (ms_Canonical spec) of
                   Some v \<Rightarrow> AList.update name v out
                 | None \<Rightarrow>
                     if ms_Compact spec = [] then out
                     else (case metadataValue prefix (ms_Compact spec) of Some v \<Rightarrow> AList.update name v out | None \<Rightarrow> out)))
       legacyControls (MergeFallbackV2Metadata header prefix)"

definition decryptFallbackV2WithProvenance ::
  "crypto_env \<Rightarrow> engine \<Rightarrow> 's key_manager option \<Rightarrow> km_call \<Rightarrow> ctx \<Rightarrow> object_context \<Rightarrow> source \<Rightarrow> meta \<Rightarrow> bool \<Rightarrow> 's \<Rightarrow>
     (goerr + chunked_decrypt_reader \<times> meta) \<times> 's" where
  "decryptFallbackV2WithProvenance E e M c ctx object reader header blobPresent s =
     (case ReadFallbackV2Prefix c reader of
        Inl err \<Rightarrow> (Inl err, s)
      | Inr (prefix, rest) \<Rightarrow>
          decryptChunked E e M c ctx object rest
            (if blobPresent then MergeFallbackV2Metadata header prefix else mergeLegacyFallbackControls header prefix) s)"

definition headerBlobPresent :: "meta \<Rightarrow> bool" where
  "headerBlobPresent x \<longleftrightarrow> metadataValue x MetaEncryptedMetadata \<noteq> None \<or> metadataValue x MetaEncryptedMetadataCompact \<noteq> None"

definition decryptFallbackV2 ::
  "crypto_env \<Rightarrow> engine \<Rightarrow> 's key_manager option \<Rightarrow> km_call \<Rightarrow> ctx \<Rightarrow> object_context \<Rightarrow> source \<Rightarrow> meta \<Rightarrow> 's \<Rightarrow>
     (goerr + chunked_decrypt_reader \<times> meta) \<times> 's" where
  "decryptFallbackV2 E e M c ctx object reader header s =
     decryptFallbackV2WithProvenance E e M c ctx object reader header (headerBlobPresent header) s"

section \<open>Dispatch of \<^verbatim>\<open>Decrypt\<close>\<close>

datatype plain_reader = PlainSource source | PlainBytes bytes | PlainStream chunked_decrypt_reader

definition as_bytes :: "(goerr + bytes \<times> meta) \<times> 's \<Rightarrow> (goerr + plain_reader \<times> meta) \<times> 's" where
  "as_bytes = map_prod (map_sum id (map_prod PlainBytes id)) id"

definition as_stream :: "(goerr + chunked_decrypt_reader \<times> meta) \<times> 's \<Rightarrow> (goerr + plain_reader \<times> meta) \<times> 's" where
  "as_stream = map_prod (map_sum id (map_prod PlainStream id)) id"

definition isFallbackMode :: "meta \<Rightarrow> bool" where
  "isFallbackMode m \<longleftrightarrow> mget m MetaFallbackMode = ''true''"

definition decryptWithMetadataFallback ::
  "crypto_env \<Rightarrow> engine \<Rightarrow> 's key_manager option \<Rightarrow> km_call \<Rightarrow> ctx \<Rightarrow> object_context \<Rightarrow> source \<Rightarrow> meta \<Rightarrow> 's \<Rightarrow>
     (goerr + plain_reader \<times> meta) \<times> 's" where
  "decryptWithMetadataFallback E e M c ctx object reader x s =
     (let version = mget x MetaFallbackVersion in
      if version = ''3'' then
        (if mget x MetaObjectFormatVersion \<noteq> ''buffered-fallback-v2''
         then (Inl (Err ''fallback-v2: unsupported or missing bound format marker''), s)
         else as_bytes (decryptFallbackBound E e M c object reader x s))
      else if version = ''2'' then as_stream (decryptFallbackV2 E e M c ctx object reader x s)
      else if version \<noteq> [] \<and> version \<noteq> ''1'' then (Inl (Err ''fallback: unsupported format version''), s)
      else as_bytes (decryptFallbackV1 E e reader x, s))"

text \<open>
  The headers of an object with their blob opened. The blob of a buffered object with its metadata
  in the body names the format of the object it was sealed for; the headers name the other one.
\<close>

definition openHeaders :: "crypto_env \<Rightarrow> engine \<Rightarrow> meta \<Rightarrow> goerr + meta" where
  "openHeaders E e x =
     and_then (unsealMetadata (ce_suite E) e x) (\<lambda>(y, d).
     and_then (case d of
         None \<Rightarrow> Inr y
       | Some d \<Rightarrow>
           if mget x MetaFallbackVersion \<noteq> ''3'' then Inr y
           else if mget d MetaObjectFormatVersion \<noteq> ''buffered-v2'' \<or> mget d MetaObjectBindingID \<noteq> mget x MetaObjectBindingID \<or>
               mget x MetaObjectFormatVersion \<noteq> ''buffered-fallback-v2''
           then Inl (Err ''fallback-v2: sealed header identity mismatch'')
           else Inr (AList.update MetaObjectFormatVersion (mget x MetaObjectFormatVersion) y)) (\<lambda>y.
       Inr (if en_metadataKey e \<noteq> None \<and> IsEncryptedMetadata y then AList.update MetaEncrypted ''true'' y else y)))"

definition checkFormat :: "meta \<Rightarrow> goerr + unit" where
  "checkFormat x =
     (let marker = mget x MetaObjectFormatVersion in
      if marker \<noteq> [] \<and> marker \<noteq> ''buffered-v2'' \<and> marker \<noteq> ''chunked-v2'' then Inl (Err ''unsupported encryption format version'')
      else if marker = ''buffered-v2'' \<and> isChunkedFormat x then Inl (Err ''buffered-v2 format marker cannot use chunked metadata'')
      else if marker = ''chunked-v2'' \<and> \<not> isChunkedFormat x then Inl (Err ''chunked-v2 format marker requires chunked metadata'')
      else if marker = [] then Inr ()
      else and_then (parseObjectBindingID (mget x MetaObjectBindingID)) (\<lambda>_. Inr ()))"

definition decryptFallback ::
  "crypto_env \<Rightarrow> engine \<Rightarrow> 's key_manager option \<Rightarrow> km_call \<Rightarrow> ctx \<Rightarrow> object_context \<Rightarrow> source \<Rightarrow> meta \<Rightarrow> bool \<Rightarrow> 's \<Rightarrow>
     (goerr + plain_reader \<times> meta) \<times> 's" where
  "decryptFallback E e M c ctx object reader x blobPresent s =
     (if mget x MetaFallbackVersion = ''3'' \<and> mget x MetaObjectFormatVersion \<noteq> ''buffered-fallback-v2''
      then (Inl (Err ''fallback-v2: unsupported or missing bound format marker''), s)
      else case (if mget x MetaFallbackVersion = ''3'' then parseObjectBindingID (mget x MetaObjectBindingID) else Inr []) of
          Inl err \<Rightarrow> (Inl err, s)
        | Inr _ \<Rightarrow>
            if mget x MetaFallbackVersion = ''2''
            then as_stream (decryptFallbackV2WithProvenance E e M c ctx object reader x blobPresent s)
            else decryptWithMetadataFallback E e M c ctx object reader x s)"

definition decryptFormat ::
  "crypto_env \<Rightarrow> engine \<Rightarrow> 's key_manager option \<Rightarrow> km_call \<Rightarrow> ctx \<Rightarrow> object_context \<Rightarrow> source \<Rightarrow> meta \<Rightarrow> 's \<Rightarrow>
     (goerr + plain_reader \<times> meta) \<times> 's" where
  "decryptFormat E e M c ctx object reader x s =
     (case checkFormat x of
        Inl err \<Rightarrow> (Inl err, s)
      | Inr _ \<Rightarrow>
          if isChunkedFormat x then
            (case ChunkedFormatVersion x of
               Inl err \<Rightarrow> (Inl err, s)
             | Inr _ \<Rightarrow> as_stream (decryptChunked E e M c ctx object reader x s))
          else as_bytes (decryptBuffered E e M c object reader x s))"

definition Decrypt ::
  "crypto_env \<Rightarrow> engine \<Rightarrow> 's key_manager option \<Rightarrow> km_call \<Rightarrow> ctx \<Rightarrow> object_context \<Rightarrow> source \<Rightarrow> meta \<Rightarrow> 's \<Rightarrow>
     (goerr + plain_reader \<times> meta) \<times> 's" where
  "Decrypt E e M c ctx object reader metadata s =
     (case Validate object of
        Inl err \<Rightarrow> (Inl err, s)
      | Inr _ \<Rightarrow>
          if \<not> IsEncryptedMetadata metadata then (Inr (PlainSource reader, metadata), s)
          else
            let x = expandMetadataForCrypto metadata in
            (case openHeaders E e x of
               Inl err \<Rightarrow> (Inl err, s)
             | Inr y \<Rightarrow>
                 if isFallbackMode y then decryptFallback E e M c ctx object reader y (headerBlobPresent x) s
                 else decryptFormat E e M c ctx object reader y s))"

end
