(* ===== verification/Engine_Keys.thy ===== *)
theory Engine_Keys
  imports Engine_Chunked Aes_Kek_Manager
begin

text \<open>
  Where the engine's data keys come from and that they are found again: the interface
  \<open>engine_keys\<close> states what reading an object relies on, and it is interpreted on the password of the
  engine and on the key manager with keys of its own (\<open>Aes_Kek_Manager\<close>). The text the engine puts
  into metadata is ASCII, which is what the encoding of metadata needs.
\<close>

section \<open>ASCII text\<close>

lemma ascii_Nil [simp]: "ascii []"
  by (simp add: ascii_def)

lemma ascii_Cons [simp]: "ascii (c # s) \<longleftrightarrow> code c < 128 \<and> ascii s"
  by (simp add: ascii_def)

lemma alphabet_ascii: "al \<in> {stdAlphabet, urlAlphabet} \<Longrightarrow> i < 64 \<Longrightarrow> code (al ! i) < 128"
proof -
  assume "al \<in> {stdAlphabet, urlAlphabet}" "i < 64"
  moreover have "ascii stdAlphabet" "ascii urlAlphabet" by (simp_all add: stdAlphabet_def urlAlphabet_def code_def)
  moreover have "length stdAlphabet = 64" "length urlAlphabet = 64" by (simp_all add: stdAlphabet_def urlAlphabet_def)
  ultimately show ?thesis by (auto simp: ascii_def list_all_length)
qed

lemma code_pad: "code (CHR ''='') < 128"
  by (simp add: code_def)

lemma encode64_ascii: "al \<in> {stdAlphabet, urlAlphabet} \<Longrightarrow> ascii (encode64 al pad bs)"
  by (induction al pad bs rule: encode64.induct) (auto simp: alphabet_ascii code_pad)

lemma base64_ascii [simp]: "ascii (encodeBase64 b)" "ascii (encodeBase64URL b)"
  by (simp_all add: encodeBase64_def encodeBase64URL_def encode64_ascii)

lemma digits_ascii: "list_all is_digit s \<Longrightarrow> ascii s"
  by (auto simp: ascii_def list_all_iff is_digit_def code_def)

lemma show_ascii [simp]: "ascii (show_nat n)" "ascii (show_int i)"
  by (simp_all add: digits_ascii show_nat_digits show_int_def code_def)

lemma show_int_not_Nil: "show_int i \<noteq> []"
  by (simp add: show_int_def)

lemma kdf_ascii [simp]: "ascii (FormatKDFParams p)"
  by (simp add: FormatKDFParams_def kdf_consts code_def)

lemma hex_digit_ascii: "n < 16 \<Longrightarrow> code (hex_digit n) < 128"
  by (simp add: hex_digit_def code_def)

lemma hex_ascii [simp]: "ascii (hex_encode b)"
proof (induction b)
  case (Cons a b)
  have "unat a div 16 < 16" using unsigned_less [of a, where 'a = nat] by simp
  then show ?case using Cons by (simp add: hex_digit_ascii)
qed simp

section \<open>The interface\<close>

text \<open>What the stored metadata of an object says about its key.\<close>

definition keyFields :: "engine \<Rightarrow> key_envelope option \<Rightarrow> meta \<Rightarrow> bool" where
  "keyFields e envelope x \<longleftrightarrow>
     mget x MetaKDFParams = FormatKDFParams (en_defaultKDFParams e) \<and>
     (case envelope of
        None \<Rightarrow> mget x MetaWrappedKeyCiphertext = []
      | Some env \<Rightarrow> mget x MetaWrappedKeyCiphertext = encodeBase64 (Ciphertext env) \<and> mget x MetaKMSKeyID = KeyID env \<and>
          mget x MetaKMSProvider = env_Provider env \<and> mget x MetaKeyVersion = show_int (KeyVersion env))"

text \<open>The three formats find the key.\<close>

definition findsKey :: "crypto_env \<Rightarrow> engine \<Rightarrow> 's key_manager option \<Rightarrow> km_call \<Rightarrow> meta \<Rightarrow> bytes \<Rightarrow> bytes \<Rightarrow> 's \<Rightarrow> bool" where
  "findsKey E e M c x salt key s \<longleftrightarrow>
     fst (bufferedKey E e M c x salt (length key) s) = Inr key \<and>
     fst (chunkedKey E e M c x salt (length key) s) = Inr key \<and>
     fst (fallbackKey E e M c x salt s) = Inr key"

definition ascii_envelope :: "key_envelope option \<Rightarrow> bool" where
  "ascii_envelope envelope = (case envelope of None \<Rightarrow> True | Some env \<Rightarrow> ascii (KeyID env) \<and> ascii (env_Provider env))"

definition laterState :: "'s key_manager option \<Rightarrow> 's \<Rightarrow> 's \<Rightarrow> bool" where
  "laterState M s t = (case M of None \<Rightarrow> True | Some M \<Rightarrow> km_calls M s t)"

locale engine_keys =
  fixes E :: crypto_env and e :: engine and M :: "'s key_manager option" and inv :: "'s \<Rightarrow> bool"
  assumes new_key: "inv s \<Longrightarrow> newDataKey E e M rnd c salt md s = (Inr (key, envelope), md', s') \<Longrightarrow>
      length key = keySizeOf (en_preferredAlgorithm e) \<and> ascii_envelope envelope"
    and read_key: "inv s \<Longrightarrow> newDataKey E e M rnd c salt md s = (Inr (key, envelope), md', s') \<Longrightarrow> laterState M s' t \<Longrightarrow>
      ctxErr c' = None \<Longrightarrow> keyFields e envelope x \<Longrightarrow> findsKey E e M c' x salt key t"

section \<open>Providers\<close>

definition en_inv :: "aead_family \<Rightarrow> aes_kek_manager key_manager option \<Rightarrow> aes_kek_manager \<Rightarrow> bool" where
  "en_inv G M s \<longleftrightarrow> (M = None \<or>
     M = Some (aesKEKManager G) \<and> 0 < ak_activeVersion s \<and> in_int64 (ak_activeVersion s) \<and> ak_providerName s \<noteq> [] \<and> ascii (ak_providerName s))"

lemma en_deriveKey_default: "en_deriveKey K e salt = en_deriveKeyWithParams K e salt (en_defaultKDFParams e)"
  by (simp add: en_deriveKey_def en_defaultKDFParams_def)

lemma deriveKey_canonical: "en_deriveKey K e salt = Inr key \<Longrightarrow> kdf_canonical (en_defaultKDFParams e)"
  by (auto simp: en_deriveKey_default en_deriveKeyWithParams_def and_then_eq_Inr kdf_canonical_def ValidateKDFParams_def hardLimits_def
      en_defaultKDFParams_def engineArgon2id_def argon2idParams_def pbkdf2Params_def kdf_consts split: if_splits)

lemma keySizes [simp]: "keySizeOf alg = 32"
  by (simp add: keySizeOf_def chacha20KeySize_def aesKeySize_def)

lemma newDataKey_None:
  "newDataKey E e None rnd c salt md s = (Inr (key, envelope), md', s') \<longleftrightarrow>
     en_deriveKey (ce_kdf E) e salt = Inr key \<and> length key = 32 \<and> envelope = None \<and> md' = md \<and> s' = s"
  by (auto simp: newDataKey_def Let_def and_then_eq_Inr)

lemma password_finds:
  assumes "en_deriveKey (ce_kdf E) e salt = Inr key" "length key = 32" "keyFields e None x"
  shows "findsKey E e None c x salt key t"
proof -
  have "ParseKDFParams (mget x MetaKDFParams) = Inr (en_defaultKDFParams e)" 
    using assms(3) deriveKey_canonical [OF assms(1)] by (simp add: keyFields_def ParseKDFParams_Format)
  then have "kdf_goerr (ParseKDFParams (mget x MetaKDFParams)) = Inr (en_defaultKDFParams e)" by (simp add: kdf_goerr_def)
  moreover have "en_deriveKeyWithParams (ce_kdf E) e salt (en_defaultKDFParams e) = Inr key" using assms(1) by (simp add: en_deriveKey_default)
  ultimately show ?thesis using assms(2) by (simp add: findsKey_def bufferedKey_def chunkedKey_def fallbackKey_def kdf_goerr_def)
qed

lemma newDataKey_Some:
  "newDataKey E e (Some M) rnd c salt md s = (Inr (key, envelope), md', s') \<longleftrightarrow>
     (\<exists>env. rand_bytes rnd 2 32 = Inr key \<and> km_WrapKey M c key (map_of md) s = (Inr env, s') \<and> envelope = Some env \<and>
        md' = AList.update MetaKeyVersion (show_int (KeyVersion env)) md)"
  by (auto simp: newDataKey_def Let_def split: sum.splits prod.splits)

lemma aes_calls: "km_calls (aesKEKManager G) s t \<Longrightarrow> t = s"
  by (induction rule: km_calls.induct) (simp_all add: aesKEKManager_def)

lemma kek_finds:
  assumes "ak_WrapKey G c key md s = Inr env" "length key = 32" "en_inv G (Some (aesKEKManager G)) s" "keyFields e (Some env) x" "ctxErr c' = None"
  shows "findsKey E e (Some (aesKEKManager G)) c' x salt key s"
proof -
  have inv: "ak_inv s" "in_int64 (ak_activeVersion s)" "ak_providerName s \<noteq> []" "0 < ak_activeVersion s"
    using assms(3) by (auto simp: en_inv_def ak_inv_def)
  obtain nonce kek where w: "length nonce = 12" "env_Provider env = ak_providerName s" "KeyID env = ''self-contained-aes-v'' @ show_int (ak_activeVersion s)"
      "Ciphertext env = nonce @ Seal (newGCM G kek) nonce key []" "KeyVersion env = ak_activeVersion s"
    using assms(1) rand_read_length by (auto simp: ak_WrapKey_def split: option.splits if_splits sum.splits)
  have len: "length (Ciphertext env) = 60"
    using aead_seal_length [OF newGCM_laws, of nonce G kek key "[]"] w(1,4) assms(2) by (simp add: nonceSize_def)
  then have ne: "Ciphertext env \<noteq> []" by auto
  then have "mget x MetaWrappedKeyCiphertext \<noteq> []"
    using assms(4) encodeBase64_inject [of "Ciphertext env" "[]"] by (auto simp: keyFields_def encodeBase64_def)
  then obtain a as where wrapped: "mget x MetaWrappedKeyCiphertext = a # as" "decodeBase64 (a # as) = Inr (Ciphertext env)"
    using assms(4) by (cases "mget x MetaWrappedKeyCiphertext") (auto simp: keyFields_def)
  have f: "mget x MetaKMSKeyID \<noteq> []" "mget x MetaKMSProvider \<noteq> []" "parseKeyVersion (mget x MetaKeyVersion) = KeyVersion env"
    using assms(4) w inv show_int_not_Nil by (auto simp: keyFields_def parseKeyVersion_def)
  have env: "storedEnvelope x (Ciphertext env) = env\<lparr>CreatedAt := 0\<rparr>"
    using f assms(4) by (simp add: storedEnvelope_def keyFields_def)
  have "ak_holds G s (env\<lparr>CreatedAt := 0\<rparr>) key" using ak_WrapKey_holds(1) [OF assms(1) inv(1)] by (simp add: ak_holds_def)
  then have u: "ak_UnwrapKey G c' (Some (env\<lparr>CreatedAt := 0\<rparr>)) (map_of x) s = Inr key"
    using ak_UnwrapKey_holds ak_WrapKey_holds(2) [OF assms(1) inv(1)] assms(5) by force
  then show ?thesis using wrapped f env len ne assms(2) inv(4) w(5)
    by (simp add: findsKey_def bufferedKey_def chunkedKey_def fallbackKey_def aesKEKManager_def)
qed

interpretation en: engine_keys E e M "en_inv G M" for E e M G
proof (unfold_locales, goal_cases)
  case (1 s rnd c salt md key envelope md' s')
  consider "M = None" | "M = Some (aesKEKManager G)" using 1(1) by (auto simp: en_inv_def)
  then show ?case
  proof cases
    case 1
    then show ?thesis using \<open>newDataKey E e M rnd c salt md s = _\<close> by (simp add: newDataKey_None ascii_envelope_def)
  next
    case 2
    then obtain env where "rand_bytes rnd 2 32 = Inr key" "ak_WrapKey G c key (map_of md) s = Inr env" "envelope = Some env"
      using 1(2) by (auto simp: newDataKey_Some aesKEKManager_def)
    then show ?thesis using 1(1) 2 rand_bytes_length [of rnd 2 32 key]
      by (auto simp: ak_WrapKey_def en_inv_def ascii_envelope_def code_def split: option.splits if_splits sum.splits)
  qed
next
  case (2 s rnd c salt md key envelope md' s' t c' x)
  consider "M = None" | "M = Some (aesKEKManager G)" using 2(1) by (auto simp: en_inv_def)
  then show ?case
  proof cases
    case 1
    then show ?thesis using 2 password_finds by (auto simp: newDataKey_None)
  next
    case M: 2
    then obtain env where k: "rand_bytes rnd 2 32 = Inr key" "ak_WrapKey G c key (map_of md) s = Inr env" "envelope = Some env" "s' = s"
      using 2(2) by (auto simp: newDataKey_Some aesKEKManager_def)
    moreover have "t = s" using 2(3) M k(4) aes_calls by (auto simp: laterState_def)
    ultimately show ?thesis using kek_finds [OF k(2) rand_bytes_length [OF k(1)]] 2 M by simp
  qed
qed

end
