(* ===== verification/Engine_Stored.thy ===== *)
theory Engine_Stored
  imports Engine_Keys
begin

text \<open>
  What the engine stores with an object and what a reader finds there: the metadata both formats
  build keeps every entry of the client that is not the gateway's and carries the values decryption
  needs, through sealing, compaction, storage, expansion and opening.
\<close>

section \<open>Maps the engine builds\<close>

text \<open>\<open>built md m\<close>: \<open>m\<close> holds the client's entries \<open>md\<close> and otherwise only canonical names of the gateway.\<close>

definition built :: "meta \<Rightarrow> meta \<Rightarrow> bool" where
  "built md m \<longleftrightarrow> clean m \<and> ascii_meta m \<and> (\<forall>k. \<not> IsGatewayReservedKey k \<longrightarrow> mget m k = mget md k)"

definition caller_ok :: "meta \<Rightarrow> bool" where
  "caller_ok md \<longleftrightarrow> distinct (map fst md) \<and> ascii_meta md"

lemma canonical_ascii: "k \<in> set canonicalNames \<Longrightarrow> ascii k"
proof -
  have "list_all ascii canonicalNames" by (simp add: canonicalNames_def metaKeyRegistry_def spec_of_def meta_defs code_def)
  then show "k \<in> set canonicalNames \<Longrightarrow> ascii k" by (simp add: list_all_iff)
qed

lemma ascii_meta_update: "ascii_meta m \<Longrightarrow> ascii k \<Longrightarrow> ascii v \<Longrightarrow> ascii_meta (AList.update k v m)"
  by (induction m) (auto simp: ascii_meta_def)

lemma ascii_meta_merge: "ascii_meta a \<Longrightarrow> ascii_meta b \<Longrightarrow> ascii_meta (meta_merge a b)"
proof (induction b arbitrary: a)
  case (Cons p b)
  then have "ascii_meta b" "ascii (fst p)" "ascii (snd p)" by (simp_all add: ascii_meta_def split_beta)
  then show ?case using Cons.IH [of "AList.update (fst p) (snd p) a"] Cons.prems by (simp add: meta_merge_def ascii_meta_update split_beta)
qed (simp add: meta_merge_def)

lemma ascii_meta_mget: "ascii_meta m \<Longrightarrow> ascii (mget m k)"
  by (induction m) (auto simp: ascii_meta_def mget_def)

lemma built_update [intro]: "built md m \<Longrightarrow> k \<in> set canonicalNames \<Longrightarrow> ascii v \<Longrightarrow> built md (AList.update k v m)"
  using canonical_reserved by (auto simp: built_def clean_update ascii_meta_update canonical_ascii mget_update)

lemma built_put [intro]: "built md m \<Longrightarrow> k \<in> set canonicalNames \<Longrightarrow> ascii v \<Longrightarrow> built md (putNonempty k v m)"
  by (auto simp: putNonempty_def)

lemma built_drop: "caller_ok md \<Longrightarrow> built md (dropGatewayReserved md)"
  using clean_drop [of md] by (auto simp: built_def caller_ok_def dropGatewayReserved_def ascii_meta_filter mget_filter)


lemma built_merge: "built md m \<Longrightarrow> caller_ok md \<Longrightarrow> built md (meta_merge m (dropGatewayReserved md))"
proof -
  assume m: "built md m" and md: "caller_ok md"
  let ?d = "dropGatewayReserved md"
  have d: "built md ?d" by (rule built_drop [OF md])
  then have dd: "distinct (map fst ?d)" by (simp add: built_def clean_def)
  have "clean (meta_merge m ?d)"
    using m dd by (auto simp: built_def clean_def merge_keys dropGatewayReserved_def)
  moreover have "mget (meta_merge m ?d) k = mget md k" if "\<not> IsGatewayReservedKey k" for k
    using m d that by (cases "map_of ?d k") (auto simp: mget_merge [OF dd] built_def mget_Some)
  ultimately show ?thesis using m d by (simp add: built_def ascii_meta_merge)
qed

lemma drop_absent: "IsGatewayReservedKey k \<Longrightarrow> map_of (dropGatewayReserved md) k = None"
  by (simp add: dropGatewayReserved_def map_of_filter_key)

lemma map_of_put: "map_of (putNonempty k v m) j = (if j = k \<and> v \<noteq> [] then Some v else map_of m j)"
  by (simp add: putNonempty_def update_conv')

lemma mget_put: "mget (putNonempty k v m) j = (if j = k \<and> v \<noteq> [] then v else mget m j)"
  by (simp add: putNonempty_def mget_update)

section \<open>Stamps of the standard headers\<close>

definition stampAll :: "(meta_key_spec \<Rightarrow> string) \<Rightarrow> meta \<Rightarrow> meta" where
  "stampAll f m = fold (\<lambda>s. putNonempty (ms_Canonical s) (f s)) ProtectedStandardKeys m"

lemma stamps:
  "stampProtectedStandard m caller = stampAll (\<lambda>s. standard_Get (fst (standard_Split caller)) (ms_Header s)) m"
  "stampCanonical m caller = stampAll (\<lambda>s. metadataValueFold caller (ms_Canonical s)) m"
  by (simp_all add: stampProtectedStandard_def stampCanonical_def stampAll_def putNonempty_def [abs_def] Let_def)

lemma built_stampAll: "built md m \<Longrightarrow> (\<And>s. ascii (f s)) \<Longrightarrow> built md (stampAll f m)"
proof -
  assume m: "built md m" and f: "\<And>s. ascii (f s)"
  have "set ss \<subseteq> set ProtectedStandardKeys \<Longrightarrow> built md m \<Longrightarrow> built md (fold (\<lambda>s. putNonempty (ms_Canonical s) (f s)) ss m)" for ss m
    by (induction ss arbitrary: m) (simp_all add: f canonical_name protected_registry built_put)
  then show ?thesis using m by (simp add: stampAll_def)
qed

lemma stampAll_other: "k \<notin> set protectedNames \<Longrightarrow> map_of (stampAll f m) k = map_of m k"
proof -
  assume "k \<notin> set protectedNames"
  then have "k \<notin> ms_Canonical ` set ProtectedStandardKeys" using protected_canonical by (metis image_set)
  moreover have "k \<notin> ms_Canonical ` set ss \<Longrightarrow> map_of (fold (\<lambda>s. putNonempty (ms_Canonical s) (f s)) ss m) k = map_of m k" for ss
    by (induction ss arbitrary: m) (auto simp: map_of_put)
  ultimately show ?thesis by (simp add: stampAll_def)
qed

lemma mget_stampAll [simp]: "k \<notin> set protectedNames \<Longrightarrow> mget (stampAll f m) k = mget m k"
  by (simp add: mget_def stampAll_other)

lemma stampAll_same:
  "s \<in> set ProtectedStandardKeys \<Longrightarrow> mget (stampAll f m) (ms_Canonical s) = (if f s \<noteq> [] then f s else mget m (ms_Canonical s))"
proof -
  have "distinct (map ms_Canonical ss) \<Longrightarrow> s \<in> set ss \<Longrightarrow>
      mget (fold (\<lambda>s. putNonempty (ms_Canonical s) (f s)) ss m) (ms_Canonical s) = (if f s \<noteq> [] then f s else mget m (ms_Canonical s))" for ss
  proof (induction ss arbitrary: m)
    case (Cons t ss)
    have o: "k \<notin> ms_Canonical ` set ss \<Longrightarrow> mget (fold (\<lambda>s. putNonempty (ms_Canonical s) (f s)) ss m) k = mget m k" for k m
      by (induction ss arbitrary: m) (auto simp: mget_put)
    show ?case
    proof (cases "t = s")
      case True
      then have "ms_Canonical s \<notin> ms_Canonical ` set ss" using Cons.prems(1) by auto
      then show ?thesis using o True by (simp add: mget_put)
    next
      case False
      then have "s \<in> set ss" "ms_Canonical s \<noteq> ms_Canonical t" using Cons.prems by (auto intro: rev_image_eqI)
      then show ?thesis using Cons by (simp add: mget_put)
    qed
  qed simp
  then show "s \<in> set ProtectedStandardKeys \<Longrightarrow> ?thesis" using protected_distinct protected_canonical by (simp add: stampAll_def)
qed

section \<open>Standard headers of the client\<close>

lemma standard_Get_Set:
  assumes "IsStandard k" "IsStandard h"
  shows "standard_Get (standard_Set s k v) h = (if to_lower k = to_lower h then v else standard_Get s h)"
proof -
  have "to_lower j \<in> set (map to_lower standardNames)" if "IsStandard j" for j
    using that by (auto simp: IsStandard_def list_ex_iff equal_fold_def)
  then have "to_lower k \<in> set (map to_lower standardNames)" "to_lower h \<in> set (map to_lower standardNames)" using assms by blast+
  moreover have "map to_lower standardNames = [''content-type'', ''cache-control'', ''content-disposition'', ''content-encoding'', ''content-language'', ''expires'']"
    by code_simp
  ultimately show ?thesis by (auto simp: standard_Get_def standard_Set_def Let_def)
qed

lemma standard_value:
  assumes "distinct (map fst m)" "IsStandard h" "\<And>k. k \<in> fst ` set m \<Longrightarrow> to_lower k = to_lower h \<Longrightarrow> k = h"
  shows "standard_Get (fst (standard_Split m)) h = mget m h"
proof -
  have "standard_Get (fold (\<lambda>(k, v) s. if IsStandard k then standard_Set s k v else s) m acc) h =
      (case map_of m h of Some v \<Rightarrow> v | None \<Rightarrow> standard_Get acc h)" for acc
    using assms(1,3)
  proof (induction m arbitrary: acc)
    case (Cons p m)
    obtain k v where p: "p = (k, v)" by fastforce
    have "k \<noteq> h \<Longrightarrow> to_lower k \<noteq> to_lower h" using Cons.prems(2) [of k] p by auto
    moreover have "k = h \<Longrightarrow> map_of m h = None" using Cons.prems(1) p by (auto simp: map_of_eq_None_iff)
    moreover have "\<And>k. k \<in> fst ` set m \<Longrightarrow> to_lower k = to_lower h \<Longrightarrow> k = h" using Cons.prems(2) by auto
    ultimately show ?case using Cons.IH Cons.prems(1) assms(2) p by (auto simp: standard_Get_Set split: option.splits)
  qed simp
  moreover have "standard_Get noStandard h = []" by (simp add: standard_Get_def noStandard_def Let_def)
  ultimately show ?thesis by (simp add: standard_Split_def mget_def cong: option.case_cong)
qed

lemma standard_ascii: "ascii_meta m \<Longrightarrow> ascii (standard_Get (fst (standard_Split m)) h)"
proof -
  define ok where "ok = (\<lambda>s. ascii (st_ContentType s) \<and> ascii (st_CacheControl s) \<and> ascii (st_ContentDisposition s) \<and>
    ascii (st_ContentEncoding s) \<and> ascii (st_ContentLanguage s) \<and> ascii (st_Expires (s :: standard)))"
  have "ok s \<Longrightarrow> ascii v \<Longrightarrow> ok (standard_Set s k v)" for s k v by (simp add: ok_def standard_Set_def Let_def)
  then have "ascii_meta m \<Longrightarrow> ok acc \<Longrightarrow> ok (fold (\<lambda>(k, v) s. if IsStandard k then standard_Set s k v else s) m acc)" for acc
    by (induction m arbitrary: acc) (auto simp: ascii_meta_def)
  moreover have "ok noStandard" by (simp add: ok_def noStandard_def)
  ultimately have "ascii_meta m \<Longrightarrow> ok (fst (standard_Split m))" by (simp add: standard_Split_def)
  then show "ascii_meta m \<Longrightarrow> ?thesis" by (simp add: ok_def standard_Get_def Let_def)
qed

lemma metadataValueFold_ascii: "ascii_meta m \<Longrightarrow> ascii (metadataValueFold m k)"
  by (auto simp: metadataValueFold_def metadataValue_def ascii_meta_def list_all_iff find_Some_iff split: option.splits dest!: nth_mem)

section \<open>The maps of the two formats\<close>

lemma unprotected [simp]:
  "MetaEncrypted \<notin> set protectedNames" "MetaAlgorithm \<notin> set protectedNames" "MetaKeySalt \<notin> set protectedNames" "MetaIV \<notin> set protectedNames"
  "MetaOriginalSize \<notin> set protectedNames" "MetaOriginalETag \<notin> set protectedNames" "MetaChunkedFormat \<notin> set protectedNames"
  "MetaChunkSize \<notin> set protectedNames" "MetaManifest \<notin> set protectedNames" "MetaKeyVersion \<notin> set protectedNames"
  "MetaWrappedKeyCiphertext \<notin> set protectedNames" "MetaKMSKeyID \<notin> set protectedNames" "MetaKMSProvider \<notin> set protectedNames"
  "MetaKDFParams \<notin> set protectedNames" "MetaFallbackMode \<notin> set protectedNames" "MetaFallbackVersion \<notin> set protectedNames"
  "MetaIVDerivation \<notin> set protectedNames" "MetaObjectFormatVersion \<notin> set protectedNames" "MetaObjectBindingID \<notin> set protectedNames"
  "MetaEncryptedMetadata \<notin> set protectedNames"
  by (simp_all add: protectedNames_def)

lemma undropped [simp]:
  "MetaEncrypted \<notin> set droppedKeys" "MetaAlgorithm \<notin> set droppedKeys" "MetaKeySalt \<notin> set droppedKeys" "MetaIV \<notin> set droppedKeys"
  "MetaOriginalSize \<notin> set droppedKeys" "MetaOriginalETag \<notin> set droppedKeys" "MetaChunkedFormat \<notin> set droppedKeys"
  "MetaChunkSize \<notin> set droppedKeys" "MetaManifest \<notin> set droppedKeys" "MetaKeyVersion \<notin> set droppedKeys"
  "MetaWrappedKeyCiphertext \<notin> set droppedKeys" "MetaKMSKeyID \<notin> set droppedKeys" "MetaKMSProvider \<notin> set droppedKeys"
  "MetaKDFParams \<notin> set droppedKeys" "MetaFallbackMode \<notin> set droppedKeys" "MetaFallbackVersion \<notin> set droppedKeys"
  "MetaObjectFormatVersion \<notin> set droppedKeys" "MetaObjectBindingID \<notin> set droppedKeys" "MetaEncryptedMetadata \<notin> set droppedKeys"
  by (simp_all add: droppedKeys_def)

lemma absent [simp]: "k \<in> set canonicalNames \<Longrightarrow> map_of (dropGatewayReserved md) k = None"
  by (simp add: drop_absent canonical_reserved)

lemma absent_mget [simp]: "k \<in> set canonicalNames \<Longrightarrow> mget (dropGatewayReserved md) k = []"
  by (simp add: mget_None)

lemma built_stamp:
  assumes "built md m" "ascii_envelope envelope" "ascii_meta caller"
  shows "built md (stampEnvelope envelope caller m)"
  using assms by (auto simp: stampEnvelope_def ascii_envelope_def ascii_meta_mget split: option.splits intro!: built_update built_put)

lemma stampEnvelope_other:
  "k \<notin> {MetaKeyVersion, MetaKMSKeyID, MetaKMSProvider, MetaWrappedKeyCiphertext} \<Longrightarrow> map_of (stampEnvelope envelope caller m) k = map_of m k"
  "k \<notin> {MetaKeyVersion, MetaKMSKeyID, MetaKMSProvider, MetaWrappedKeyCiphertext} \<Longrightarrow> mget (stampEnvelope envelope caller m) k = mget m k"
  by (auto simp: stampEnvelope_def update_conv' map_of_put mget_update mget_put split: option.splits)

lemma stampEnvelope_fields:
  assumes "mget m MetaKDFParams = FormatKDFParams (en_defaultKDFParams e)" "mget m MetaWrappedKeyCiphertext = []"
    "mget m MetaKMSKeyID = []" "mget m MetaKMSProvider = []"
  shows "keyFields e envelope (stampEnvelope envelope caller m)"
  using assms by (simp add: keyFields_def stampEnvelope_def mget_update mget_put split: option.splits)

lemma AES_ascii: "alg \<in> {AlgorithmAES256GCM, AlgorithmChaCha20Poly1305} \<Longrightarrow> ascii alg"
  by (auto simp: AlgorithmAES256GCM_def AlgorithmChaCha20Poly1305_def code_def)

lemma ascii_words [simp]: "ascii ''true''" "ascii ''buffered-v2''" "ascii ''chunked-v2''" "ascii ''hkdf-sha256''" "ascii ''buffered-fallback-v2''" "ascii ''2''" "ascii ''3''"
  by (simp_all add: code_def)

lemma built_bufferedMetadata:
  assumes "caller_ok md" "ascii_envelope envelope" "ascii (en_preferredAlgorithm e)"
  shows "built md (bufferedMetadata E e p salt nonce b envelope md)"
proof -
  have "ascii_meta md" using assms(1) by (simp add: caller_ok_def)
  then show ?thesis
    unfolding bufferedMetadata_def Let_def stamps
    by (intro built_stamp built_stampAll built_put built_update built_drop assms)
      (simp_all add: ascii_meta_mget computeETag_def standard_ascii metadataValueFold_ascii del: ascii_Cons)
qed

lemma bufferedMetadata_fields:
  fixes E e p salt nonce b envelope md
  defines "m \<equiv> bufferedMetadata E e p salt nonce b envelope md"
  shows "mget m MetaEncrypted = ''true''" "mget m MetaObjectFormatVersion = ''buffered-v2''" "mget m MetaObjectBindingID = encodeBase64URL b"
    "mget m MetaAlgorithm = en_preferredAlgorithm e" "mget m MetaKeySalt = encodeBase64 salt" "mget m MetaIV = encodeBase64 nonce"
    "mget m MetaOriginalSize = show_int (int (length p))" "mget m MetaOriginalETag = computeETag E p" "keyFields e envelope m"
    "map_of m MetaFallbackMode = None" "map_of m MetaFallbackVersion = None" "map_of m MetaChunkedFormat = None" "map_of m MetaEncryptedMetadata = None"
  unfolding m_def bufferedMetadata_def Let_def stamps
  by (auto simp: stampEnvelope_other mget_update mget_put map_of_put update_conv' stampAll_other intro!: stampEnvelope_fields)

lemma bufferedMetadata_header:
  assumes "s \<in> set ProtectedStandardKeys" "metadataValueFold md (ms_Canonical s) = []" "standard_Get (fst (standard_Split md)) (ms_Header s) \<noteq> []"
  shows "mget (bufferedMetadata E e p salt nonce b envelope md) (ms_Canonical s) = standard_Get (fst (standard_Split md)) (ms_Header s)"
proof -
  have "ms_Canonical s \<in> set protectedNames" using assms(1) protected_canonical by (metis image_eqI image_set)
  then have "ms_Canonical s \<notin> {MetaKeyVersion, MetaKMSKeyID, MetaKMSProvider, MetaWrappedKeyCiphertext}" using unprotected by auto
  then show ?thesis using assms by (simp add: bufferedMetadata_def Let_def stamps stampEnvelope_other stampAll_same)
qed

lemma drop_update: "IsGatewayReservedKey k \<Longrightarrow> dropGatewayReserved (AList.update k v md) = dropGatewayReserved md"
  by (induction md) (auto simp: dropGatewayReserved_def)

lemma built_putSize: "built md m \<Longrightarrow> built md (putSize n m)"
  by (auto simp: putSize_def)

lemma mget_putSize: "k \<noteq> MetaOriginalSize \<Longrightarrow> mget (putSize n m) k = mget m k" "k \<noteq> MetaOriginalSize \<Longrightarrow> map_of (putSize n m) k = map_of m k"
  by (simp_all add: putSize_def mget_update update_conv')

lemma built_chunkedBase:
  assumes "caller_ok md" "ascii (en_preferredAlgorithm e)"
  shows "built md (chunkedMetadataBase e b md)"
proof -
  have "ascii_meta md" using assms(1) by (simp add: caller_ok_def)
  then show ?thesis
    unfolding chunkedMetadataBase_def Let_def stamps
    by (intro built_stampAll built_put built_putSize built_update built_drop assms)
      (simp_all add: ascii_meta_mget standard_ascii metadataValueFold_ascii del: ascii_Cons)
qed

text \<open>The map of the caller after the key was wrapped differs in the key version only.\<close>

definition sameCaller :: "meta \<Rightarrow> meta \<Rightarrow> bool" where
  "sameCaller md md' \<longleftrightarrow> md' = md \<or> (\<exists>v. ascii v \<and> md' = AList.update MetaKeyVersion v md)"

lemma newDataKey_caller: "newDataKey E e M rnd c salt md s = (r, md', s') \<Longrightarrow> sameCaller md md'"
  by (auto simp: newDataKey_def Let_def sameCaller_def split: option.splits sum.splits prod.splits intro: exI [of _ "show_int _"])

lemma KeyVersion_reserved: "IsGatewayReservedKey MetaKeyVersion"
  by (simp add: canonical_reserved)

lemma sameCaller_ok: "sameCaller md md' \<Longrightarrow> caller_ok md \<Longrightarrow> caller_ok md'"
  by (auto simp: sameCaller_def caller_ok_def distinct_update ascii_meta_update canonical_ascii)

lemma sameCaller_mget: "sameCaller md md' \<Longrightarrow> k \<noteq> MetaKeyVersion \<Longrightarrow> mget md' k = mget md k"
  by (auto simp: sameCaller_def mget_update)

lemma sameCaller_built: "sameCaller md md' \<Longrightarrow> built md' m \<longleftrightarrow> built md m"
proof -
  assume "sameCaller md md'"
  then have "\<not> IsGatewayReservedKey k \<Longrightarrow> mget md' k = mget md k" for k using sameCaller_mget KeyVersion_reserved by metis
  then show ?thesis by (auto simp: built_def)
qed

lemma sameCaller_drop: "sameCaller md md' \<Longrightarrow> dropGatewayReserved md' = dropGatewayReserved md"
  by (auto simp: sameCaller_def drop_update KeyVersion_reserved)

lemma sameCaller_fold: "sameCaller md md' \<Longrightarrow> n \<in> set protectedNames \<Longrightarrow> metadataValueFold md n = [] \<Longrightarrow> metadataValueFold md' n = []"
proof -
  assume md: "sameCaller md md'" and n: "n \<in> set protectedNames" "metadataValueFold md n = []"
  have "set canonicalNames \<subseteq> set metaKeyNames" using registry_names(1) by (auto simp: canonicalNames_def)
  then have "n \<in> set metaKeyNames" "MetaKeyVersion \<in> set metaKeyNames" "n \<noteq> MetaKeyVersion"
    using n(1) protected_sub canonical_names(11) unprotected(10) by blast+
  then have "\<not> equal_fold MetaKeyVersion n" by (simp add: equal_fold_name)
  then have "metadataValue (AList.update MetaKeyVersion v md) n = metadataValue md n" for v
    by (induction md) (auto simp: metadataValue_def)
  then show ?thesis using md n(2) by (auto simp: sameCaller_def metadataValueFold_def)
qed

lemma built_chunkedMetadata:
  assumes "caller_ok md" "sameCaller md md'" "ascii_envelope envelope" "ascii (en_preferredAlgorithm e)" "ascii manifest"
  shows "built md (chunkedMetadata e salt baseIV manifest envelope md' (chunkedMetadataBase e b md))"
proof -
  have "ascii_meta md'" using sameCaller_ok [OF assms(2,1)] by (simp add: caller_ok_def)
  then show ?thesis
    unfolding chunkedMetadata_def Let_def sameCaller_drop [OF assms(2)]
    by (intro built_stamp built_put built_putSize built_update built_merge built_chunkedBase assms)
      (simp_all add: ascii_meta_mget assms del: ascii_Cons)
qed

lemma map_of_merge_drop: "caller_ok md \<Longrightarrow> k \<in> set canonicalNames \<Longrightarrow> map_of (meta_merge m (dropGatewayReserved md)) k = map_of m k"
  using built_drop [of md] by (simp add: map_of_merge built_def clean_def map_add_def)

lemma mget_merge_drop: "caller_ok md \<Longrightarrow> k \<in> set canonicalNames \<Longrightarrow> mget (meta_merge m (dropGatewayReserved md)) k = mget m k"
  by (simp add: mget_def map_of_merge_drop)

lemma chunkedMetadata_fields:
  fixes e salt baseIV manifest envelope md md' b
  assumes "caller_ok md" "sameCaller md md'"
  defines "m \<equiv> chunkedMetadata e salt baseIV manifest envelope md' (chunkedMetadataBase e b md)"
  shows "mget m MetaEncrypted = ''true''" "mget m MetaObjectFormatVersion = ''chunked-v2''" "mget m MetaObjectBindingID = encodeBase64URL b"
    "mget m MetaAlgorithm = en_preferredAlgorithm e" "mget m MetaKeySalt = encodeBase64 salt" "mget m MetaIV = encodeBase64 baseIV"
    "mget m MetaChunkedFormat = ''true''" "mget m MetaChunkSize = show_int (en_chunkSize e)" "mget m MetaManifest = manifest" "keyFields e envelope m"
    "map_of m MetaFallbackMode = None" "map_of m MetaFallbackVersion = None" "map_of m MetaEncryptedMetadata = None"
  unfolding m_def chunkedMetadata_def chunkedMetadataBase_def Let_def stamps sameCaller_drop [OF assms(2)]
  by (auto simp: stampEnvelope_other mget_update mget_put mget_putSize map_of_put update_conv' stampAll_other map_of_merge_drop mget_merge_drop assms(1)
      intro!: stampEnvelope_fields)

section \<open>Storage\<close>

text \<open>The backend reports the length of the stored object.\<close>

definition withLength :: "nat \<Rightarrow> meta \<Rightarrow> meta" where
  "withLength n stored = AList.update ''Content-Length'' (show_int (int n)) stored"

lemma name_reserved: "k \<in> set metaKeyNames \<Longrightarrow> IsGatewayReservedKey k"
  using Lookup_name by (auto simp: IsGatewayReservedKey_def metaKeyNames_def)

lemma tidy_update: "tidy n \<Longrightarrow> \<not> IsGatewayReservedKey k \<Longrightarrow> tidy (AList.update k v n)"
  by (auto simp: tidy_def distinct_update dom_update)

lemma expand_update:
  assumes "tidy n" "\<not> IsGatewayReservedKey k"
  shows "mget (expandMetadataForCrypto (AList.update k v n)) j = (if j = k then v else mget (expandMetadataForCrypto n) j)"
proof -
  note U = map_of_expand [OF tidy_update [OF assms]] and N = map_of_expand [OF assms(1)]
  show ?thesis
  proof (cases "j \<in> ms_Canonical ` Collect hasAlias")
    case True
    then obtain s where s: "hasAlias s" "j = ms_Canonical s" by auto
    then have "s \<in> set metaKeyRegistry" by (simp add: hasAlias_def)
    then have "IsGatewayReservedKey (ms_Canonical s)" "ms_Compact s \<noteq> [] \<Longrightarrow> IsGatewayReservedKey (ms_Compact s)"
      using name_reserved registry_names by blast+
    then have "ms_Canonical s \<noteq> k" "ms_Compact s \<noteq> k" using assms(2) s(1) by (auto simp: hasAlias_def)
    then show ?thesis using U(1) [OF s(1)] N(1) [OF s(1)] s(2) by (cases "map_of n (ms_Canonical s)") (simp_all add: mget_def update_conv')
  next
    case False
    have "\<not> isCompactedKey ProviderAWS k" using compacted_reserved assms(2) by blast
    then show ?thesis using U(2) [OF False] N(2) [OF False] by (simp add: mget_def update_conv')
  qed
qed

lemma length_key: "\<not> IsGatewayReservedKey ''Content-Length''" "''Content-Length'' \<notin> set droppedKeys"
proof -
  show "\<not> IsGatewayReservedKey ''Content-Length''" by code_simp
  then show "''Content-Length'' \<notin> set droppedKeys" by (auto simp: droppedKeys_def IsGatewayReservedKey_def meta_defs)
qed

lemma stored_expand:
  fixes n :: nat
  assumes "clean h" "pp_CompactionStrategy p \<in> {''none'', ''base64url''}"
  defines "x \<equiv> expandMetadataForCrypto (withLength n (CompactMetadata p h))"
  shows "tidy x" "map_of x MetaEncryptedMetadataCompact = None"
    "k \<notin> set droppedKeys \<Longrightarrow> mget x k = (if k = ''Content-Length'' then show_int (int n) else mget h k)"
proof -
  have t: "tidy (CompactMetadata p h)" by (rule compact_tidy [OF assms(1,2)])
  have "tidy (withLength n (CompactMetadata p h))" unfolding withLength_def by (rule tidy_update [OF t length_key(1)])
  then show "tidy x" "map_of x MetaEncryptedMetadataCompact = None" unfolding x_def by (rule expand_tidy)+
  show "k \<notin> set droppedKeys \<Longrightarrow> mget x k = (if k = ''Content-Length'' then show_int (int n) else mget h k)"
    unfolding x_def withLength_def expand_update [OF t length_key(1)] by (simp add: expand_compact [OF assms(1,2)])
qed

section \<open>Opening\<close>

text \<open>
  How the map \<open>m'\<close> that is stored comes from the map \<open>m\<close> the engine built: without a metadata key they
  are the same, with one the entries of the gateway are sealed, and a stream keeps some of them legible.
\<close>

definition sealedAs :: "crypto_env \<Rightarrow> engine \<Rightarrow> random \<Rightarrow> meta \<Rightarrow> meta \<Rightarrow> bool" where
  "sealedAs E e rnd m m' \<longleftrightarrow> clean m' \<and> ascii_meta m' \<and> (\<forall>k. \<not> IsGatewayReservedKey k \<longrightarrow> mget m' k = mget m k) \<and>
     (if en_metadataKey e = None then m' = m
      else \<exists>m0. sealMetadataBlob (ce_suite E) e rnd m = Inr m0 \<and> mget m' MetaEncryptedMetadata = mget m0 MetaEncryptedMetadata \<and>
        mget m' MetaEncryptedMetadata \<noteq> [] \<and>
        (\<forall>k. IsGatewayReservedKey k \<longrightarrow> k \<noteq> MetaEncryptedMetadata \<longrightarrow> mget m' k = mget m0 k \<or> mget m' k = mget m k))"

lemma sealMetadataBlob_ascii:
  assumes "sealMetadataBlob S e rnd m = Inr m'" "clean m" "ascii_meta m"
  shows "ascii_meta m'"
proof -
  obtain blob where b: "encryptMetadata S e rnd m = Inr blob"
      "m' = meta_merge (AList.update MetaEncryptedMetadata blob (AList.update MetaEncrypted ''true'' (filter (\<lambda>(k, v). \<not> isEncryptionPayloadMetadata k) m)))
        (protectedEntries m)"
    using assms(1) by (auto simp: sealMetadataBlob_def and_then_eq_Inr)
  have "ascii blob" using b(1) by (auto simp: encryptMetadata_def and_then_eq_Inr)
  moreover have "ascii_meta (protectedEntries m)"
  proof -
    have "ascii k \<and> ascii v" if "(k, v) \<in> set (protectedEntries m)" for k v
    proof -
      have "k \<in> set canonicalNames" using protectedEntries_map(3) [OF assms(2)] that by force
      moreover have "v = metadataValueFold m k" using that by (auto simp: protectedEntries_def List.map_filter_def Let_def split: if_splits)
      ultimately show ?thesis using canonical_ascii metadataValueFold_ascii [OF assms(3)] by simp
    qed
    then show ?thesis by (auto simp: ascii_meta_def list_all_iff)
  qed
  ultimately show ?thesis unfolding b(2)
    by (intro ascii_meta_merge ascii_meta_update ascii_meta_filter assms) (simp_all add: canonical_ascii code_def)
qed

lemma sealed_buffered:
  assumes "sealIfConfigured (ce_suite E) e rnd m = Inr m'" "built md m" "suite_laws (ce_suite E)"
  shows "sealedAs E e rnd m m'"
proof (cases "en_metadataKey e = None")
  case True
  then show ?thesis using assms(1,2) by (simp add: sealIfConfigured_def sealedAs_def built_def)
next
  case False
  have m: "clean m" "ascii_meta m" using assms(2) by (simp_all add: built_def)
  have s: "sealMetadataBlob (ce_suite E) e rnd m = Inr m'" using False assms(1) by (simp add: sealIfConfigured_def)
  obtain blob where b: "clean m'" "blob \<noteq> []" and g: "\<And>k. mget m' k = (if k = MetaEncrypted then ''true'' else if k = MetaEncryptedMetadata then blob
       else if isEncryptionPayloadMetadata k \<and> k \<notin> set protectedNames then [] else mget m k)"
    using sealMetadataBlob_Inr [OF s m(1) assms(3) m(2)] by blast
  have "mget m' k = mget m k" if "\<not> IsGatewayReservedKey k" for k
    using g [of k] not_reserved_sealed [OF that] that canonical_reserved canonical_names(1,21) by auto
  then show ?thesis using False s b g sealMetadataBlob_ascii [OF s m] by (auto simp: sealedAs_def)
qed

lemma fold_put_structural:
  "(\<And>k. k \<in> set ks \<Longrightarrow> k \<in> set canonicalNames) \<Longrightarrow> clean m' \<Longrightarrow> clean (fold (\<lambda>k. putNonempty k (f k)) ks m')"
  "(\<And>k. k \<in> set ks \<Longrightarrow> k \<in> set canonicalNames) \<Longrightarrow> (\<And>k. ascii (f k)) \<Longrightarrow> ascii_meta m' \<Longrightarrow> ascii_meta (fold (\<lambda>k. putNonempty k (f k)) ks m')"
  "mget (fold (\<lambda>k. putNonempty k (f k)) ks m') j = mget m' j \<or> j \<in> set ks \<and> mget (fold (\<lambda>k. putNonempty k (f k)) ks m') j = f j"
proof -
  show "(\<And>k. k \<in> set ks \<Longrightarrow> k \<in> set canonicalNames) \<Longrightarrow> clean m' \<Longrightarrow> clean (fold (\<lambda>k. putNonempty k (f k)) ks m')"
    by (induction ks arbitrary: m') (auto simp: putNonempty_def clean_update)
  show "(\<And>k. k \<in> set ks \<Longrightarrow> k \<in> set canonicalNames) \<Longrightarrow> (\<And>k. ascii (f k)) \<Longrightarrow> ascii_meta m' \<Longrightarrow> ascii_meta (fold (\<lambda>k. putNonempty k (f k)) ks m')"
    by (induction ks arbitrary: m') (auto simp: putNonempty_def ascii_meta_update canonical_ascii)
  show "mget (fold (\<lambda>k. putNonempty k (f k)) ks m') j = mget m' j \<or> j \<in> set ks \<and> mget (fold (\<lambda>k. putNonempty k (f k)) ks m') j = f j"
  proof (induction ks arbitrary: m')
    case (Cons a ks)
    then show ?case using Cons [of "putNonempty a (f a) m'"] by (auto simp: mget_put split: if_splits)
  qed simp
qed

lemma sealed_chunked:
  assumes "sealChunkedMetadata (ce_suite E) e rnd m = Inr m'" "built md m" "suite_laws (ce_suite E)"
  shows "sealedAs E e rnd m m'"
proof (cases "en_metadataKey e = None")
  case True
  then show ?thesis using assms(1,2) by (simp add: sealChunkedMetadata_def sealedAs_def built_def)
next
  case False
  then obtain m0 where s: "sealIfConfigured (ce_suite E) e rnd m = Inr m0" "m' = fold (\<lambda>k. putNonempty k (mget m k)) structuralKeys m0"
    using assms(1) by (auto simp: sealChunkedMetadata_def sealIfConfigured_def and_then_eq_Inr)
  note S = sealed_buffered [OF s(1) assms(2,3)]
  have sk: "k \<in> set structuralKeys \<Longrightarrow> k \<in> set canonicalNames \<and> k \<noteq> MetaEncryptedMetadata" for k
    by (auto simp: structuralKeys_def)
  note P = fold_put_structural [where f = "mget m" and ks = structuralKeys and m' = m0]
  have g: "mget m' k = mget m0 k \<or> k \<in> set structuralKeys \<and> mget m' k = mget m k" for k unfolding s(2) by (rule P(3))
  have "clean m'" "ascii_meta m'"
    using P(1,2) S sk assms(2) unfolding s(2) by (auto simp: sealedAs_def built_def ascii_meta_mget)
  moreover have "mget m' k = mget m k" if "\<not> IsGatewayReservedKey k" for k
    using g [of k] S that by (auto simp: sealedAs_def)
  moreover have "mget m' MetaEncryptedMetadata = mget m0 MetaEncryptedMetadata" using g [of MetaEncryptedMetadata] sk by blast
  moreover have "sealMetadataBlob (ce_suite E) e rnd m = Inr m0" using s(1) False by (simp add: sealIfConfigured_def)
  moreover have "mget m0 MetaEncryptedMetadata \<noteq> []" using S False by (auto simp: sealedAs_def)
  moreover have "mget m' k = mget m0 k \<or> mget m' k = mget m k" for k using g [of k] by blast
  ultimately show ?thesis unfolding sealedAs_def using False by auto
qed

end
