(* ===== verification/Spec2Isabelle.thy ===== *)
theory Spec2Isabelle
  imports Chunked_Integrity Range_Get Password_Key_Manager Dek_Cache Rotation_System Mpu_Range Verified_Body Engine_Stored
begin

text \<open>
  Verification of the S3 encryption gateway (Go, under \<^verbatim>\<open>src/\<close>).
\<close>

end
